(* ===== verification/Gal_Prelude.thy ===== *)
theory Gal_Prelude
  imports Main "HOL-Library.Finite_Map" "HOL-Library.Word" "HOL-Library.Code_Target_Numeral"
begin

text \<open>
  What every component of the development shares: the fact collections, the machine
  integers of the server (\<open>usize\<close> and \<open>u64\<close> are 64 bits wide), fallible results as sums,
  and generic lemmas on lists and finite maps.

  A Rust \<open>usize\<close> is a \<^typ>\<open>nat\<close> here. Where the source relies on a width, the width is
  written out: \<open>saturating_add\<close> stops at \<open>usize_max\<close>, \<open>wrapping_add\<close> is the addition of
  the release profile (\<open>Cargo.toml\<close> sets no \<open>overflow-checks\<close>), and \<open>infinity\<close> is the
  sentinel \<open>usize::MAX\<close> of \<open>delta.rs\<close>.
\<close>

named_theorems gal_defs \<open>definitions the component proofs unfold together\<close>
named_theorems run_simps \<open>evaluation of a change on a document, one rule per op\<close>
named_theorems perm_defs \<open>the permission tables of the wave modes\<close>

section \<open>Results\<close>

type_synonym ('e, 'a) result = "'e + 'a"

abbreviation Err :: "'e \<Rightarrow> ('e, 'a) result" where
  "Err \<equiv> Inl"

abbreviation Ok :: "'a \<Rightarrow> ('e, 'a) result" where
  "Ok \<equiv> Inr"

definition bind_result :: "('e, 'a) result \<Rightarrow> ('a \<Rightarrow> ('e, 'b) result) \<Rightarrow> ('e, 'b) result" where
  "bind_result r f = (case r of Err e \<Rightarrow> Err e | Ok x \<Rightarrow> f x)"

lemma bind_result_simps [simp]:
  "bind_result (Err e) f = Err e"
  "bind_result (Ok x) f = f x"
  by (simp_all add: bind_result_def)

lemma bind_result_Ok_iff: "bind_result r f = Ok y \<longleftrightarrow> (\<exists>x. r = Ok x \<and> f x = Ok y)"
  by (cases r) auto

lemma bind_result_Err_iff:
  "bind_result r f = Err e \<longleftrightarrow> r = Err e \<or> (\<exists>x. r = Ok x \<and> f x = Err e)"
  by (cases r) auto

definition is_ok :: "('e, 'a) result \<Rightarrow> bool" where
  "is_ok r = (case r of Err _ \<Rightarrow> False | Ok _ \<Rightarrow> True)"

lemma is_ok_simps [simp]: "is_ok (Ok x)" "\<not> is_ok (Err e)"
  by (simp_all add: is_ok_def)

section \<open>Machine integers\<close>

definition usize_max :: nat where
  "usize_max = 2 ^ 64 - 1"

abbreviation infinity :: nat where
  "infinity \<equiv> usize_max"

definition saturating_add :: "nat \<Rightarrow> nat \<Rightarrow> nat" where
  "saturating_add a b = min (a + b) usize_max"

definition wrapping_add :: "nat \<Rightarrow> nat \<Rightarrow> nat" where
  "wrapping_add a b = (a + b) mod 2 ^ 64"

lemma usize_max_pos [simp]: "0 < usize_max"
  by (simp add: usize_max_def)

lemma saturating_add_exact: "a + b \<le> usize_max \<Longrightarrow> saturating_add a b = a + b"
  by (simp add: saturating_add_def)

lemma saturating_add_le: "saturating_add a b \<le> usize_max"
  by (simp add: saturating_add_def)

lemma saturating_add_zero [simp]: "a \<le> usize_max \<Longrightarrow> saturating_add 0 a = a"
  by (simp add: saturating_add_def)

lemma saturating_add_pos: "0 < a \<Longrightarrow> 0 < saturating_add a b"
  by (simp add: saturating_add_def)

lemma wrapping_add_exact: "a + b \<le> usize_max \<Longrightarrow> wrapping_add a b = a + b"
  by (simp add: wrapping_add_def usize_max_def)

definition wrapping_sub :: "nat \<Rightarrow> nat \<Rightarrow> nat" where
  "wrapping_sub a b = (a + (2 ^ 64 - b mod 2 ^ 64)) mod 2 ^ 64"

lemma mod_sub_exact:
  assumes "b \<le> a" "a < (m :: nat)"
  shows "(a + (m - b mod m)) mod m = a - b"
proof -
  have "b mod m = b" using assms by simp
  moreover have "a + (m - b) = (a - b) + m" using assms by linarith
  moreover have "((a - b) + m) mod m = a - b" using assms by (simp only: mod_add_self2) simp
  ultimately show ?thesis by metis
qed

lemma wrapping_sub_exact: "b \<le> a \<Longrightarrow> a \<le> usize_max \<Longrightarrow> wrapping_sub a b = a - b"
  unfolding wrapping_sub_def by (rule mod_sub_exact) (auto simp: usize_max_def)

lemma saturating_add_assoc:
  "saturating_add (saturating_add a b) c = saturating_add a (saturating_add b c)"
  by (simp add: saturating_add_def)

section \<open>Lists\<close>

text \<open>A list is split at its last element: the shape \<open>Delta::push\<close> works on.\<close>

lemma snoc_cases [case_names Nil snoc]:
  obtains "xs = []" | ys y where "xs = ys @ [y]"
  by (cases xs rule: rev_cases) auto

lemma sum_list_append_le: "sum_list (xs :: nat list) \<le> sum_list (xs @ ys)"
  by simp

section \<open>Finite maps\<close>

lemma fmap_eqI: "(\<And>k. fmlookup m k = fmlookup n k) \<Longrightarrow> m = n"
  by (rule fmap_ext)

lemma fmlookup_fmmap [simp]: "fmlookup (fmmap f m) k = map_option f (fmlookup m k)"
  by (rule fmlookup_map)

end
