(* ===== verification/Gal_Text.thy ===== *)
theory Gal_Text
  imports Gal_Prelude
begin

text \<open>
  The UTF-16 string helpers of \<open>crates/gal-ot/src/text.rs\<close>. A Rust string is a sequence
  of Unicode scalar values, each stored as one to four UTF-8 bytes; the editor addresses
  text in UTF-16 code units and slices it at byte positions. Both measures are modelled.
  Slicing at a byte position that is not a character boundary panics in Rust; \<open>str_from\<close>
  and \<open>str_to\<close> are total, so the lemmas below show that every byte position the code
  computes is a boundary.
\<close>

type_synonym uchar = nat
type_synonym ustring = "uchar list"

text \<open>The string with the given ASCII literal.\<close>

definition lit :: "string \<Rightarrow> ustring" where
  "lit s = map of_char s"

section \<open>Characters and their widths\<close>

definition len_utf16 :: "uchar \<Rightarrow> nat" where
  "len_utf16 c = (if c < 0x10000 then 1 else 2)"

definition len_utf8 :: "uchar \<Rightarrow> nat" where
  "len_utf8 c = (if c < 0x80 then 1 else if c < 0x800 then 2 else if c < 0x10000 then 3 else 4)"

definition utf16_len :: "ustring \<Rightarrow> nat" where
  "utf16_len s = sum_list (map len_utf16 s)"

text \<open>\<open>str::len\<close>, the length in bytes.\<close>

definition str_len :: "ustring \<Rightarrow> nat" where
  "str_len s = sum_list (map len_utf8 s)"

lemma len_utf16_pos [simp]: "0 < len_utf16 c"
  by (simp add: len_utf16_def)

lemma len_utf16_ge1 [simp]: "Suc 0 \<le> len_utf16 c"
  by (simp add: len_utf16_def)

lemma len_utf16_le2: "len_utf16 c \<le> 2"
  by (simp add: len_utf16_def)

lemma len_utf8_pos [simp]: "0 < len_utf8 c"
  by (simp add: len_utf8_def)

lemma utf16_len_simps [simp]:
  "utf16_len [] = 0"
  "utf16_len (c # s) = len_utf16 c + utf16_len s"
  "utf16_len (s @ t) = utf16_len s + utf16_len t"
  "utf16_len (rev s) = utf16_len s"
  by (simp_all add: utf16_len_def rev_map [symmetric])

lemma str_len_simps [simp]:
  "str_len [] = 0"
  "str_len (c # s) = len_utf8 c + str_len s"
  "str_len (s @ t) = str_len s + str_len t"
  by (simp_all add: str_len_def)

lemma utf16_len_eq_0 [simp]: "utf16_len s = 0 \<longleftrightarrow> s = []"
  by (cases s) auto

lemma utf16_len_pos: "0 < utf16_len s \<longleftrightarrow> s \<noteq> []"
  by (cases s) auto

section \<open>Byte positions\<close>

fun is_char_boundary :: "ustring \<Rightarrow> nat \<Rightarrow> bool" where
  "is_char_boundary [] b = (b = 0)"
| "is_char_boundary (c # s) b =
     (b = 0 \<or> (len_utf8 c \<le> b \<and> is_char_boundary s (b - len_utf8 c)))"

text \<open>\<open>&s[b..]\<close> and \<open>&s[..b]\<close>.\<close>

fun str_from :: "ustring \<Rightarrow> nat \<Rightarrow> ustring" where
  "str_from [] b = []"
| "str_from (c # s) b = (if b = 0 then c # s else str_from s (b - len_utf8 c))"

fun str_to :: "ustring \<Rightarrow> nat \<Rightarrow> ustring" where
  "str_to [] b = []"
| "str_to (c # s) b = (if b = 0 then [] else c # str_to s (b - len_utf8 c))"

text \<open>\<open>&s[i..j]\<close>.\<close>

definition str_slice :: "ustring \<Rightarrow> nat \<Rightarrow> nat \<Rightarrow> ustring" where
  "str_slice s i j = str_to (str_from s i) (j - i)"

lemma str_from_0 [simp]: "str_from s 0 = s"
  by (cases s) auto

lemma str_to_0 [simp]: "str_to s 0 = []"
  by (cases s) auto

lemma str_from_prefix [simp]: "str_from (p @ q) (str_len p) = q"
  by (induction p) auto

lemma str_to_prefix [simp]: "str_to (p @ q) (str_len p) = p"
  by (induction p) auto

lemma str_from_len [simp]: "str_from p (str_len p) = []"
  using str_from_prefix [of p "[]"] by simp

lemma is_char_boundary_0 [simp]: "is_char_boundary s 0"
  by (cases s) auto

lemma is_char_boundary_iff: "is_char_boundary s b \<longleftrightarrow> (\<exists>p q. s = p @ q \<and> b = str_len p)"
proof (induction s b rule: is_char_boundary.induct)
  case (1 b)
  then show ?case by auto
next
  case (2 c s b)
  show ?case
  proof
    assume "is_char_boundary (c # s) b"
    then consider (zero) "b = 0"
      | (step) "b \<noteq> 0" "len_utf8 c \<le> b" "is_char_boundary s (b - len_utf8 c)" by auto
    then show "\<exists>p q. c # s = p @ q \<and> b = str_len p"
    proof cases
      case zero
      then show ?thesis by (metis append_Nil str_len_simps(1))
    next
      case step
      with "2.IH" obtain p q where "s = p @ q" "b - len_utf8 c = str_len p" by auto
      with step(2) show ?thesis by (intro exI [of _ "c # p"] exI [of _ q]) auto
    qed
  next
    assume "\<exists>p q. c # s = p @ q \<and> b = str_len p"
    then obtain p q where pq: "c # s = p @ q" "b = str_len p" by blast
    show "is_char_boundary (c # s) b"
    proof (cases p)
      case Nil
      with pq show ?thesis by simp
    next
      case (Cons d p')
      with pq "2.IH" show ?thesis by auto
    qed
  qed
qed

section \<open>Advancing and slicing by code units\<close>

text \<open>The loop of \<open>advance_utf16\<close>: \<open>pos\<close> is \<open>from + byte_idx\<close>, \<open>slen\<close> is \<open>s.len()\<close>.\<close>

fun advance_loop :: "ustring \<Rightarrow> nat \<Rightarrow> nat \<Rightarrow> nat \<Rightarrow> nat \<Rightarrow> nat" where
  "advance_loop [] pos slen consumed units = slen"
| "advance_loop (c # s) pos slen consumed units =
     (if consumed \<ge> units then pos
      else advance_loop s (pos + len_utf8 c) slen (consumed + len_utf16 c) units)"

definition advance_utf16 :: "ustring \<Rightarrow> nat \<Rightarrow> nat \<Rightarrow> nat" where
  "advance_utf16 s from_pos units = advance_loop (str_from s from_pos) from_pos (str_len s) 0 units"

definition utf16_to_byte :: "ustring \<Rightarrow> nat \<Rightarrow> nat" where
  "utf16_to_byte s target = advance_utf16 s 0 target"

definition utf16_slice :: "ustring \<Rightarrow> nat \<Rightarrow> nat \<Rightarrow> ustring" where
  "utf16_slice s start stop =
     (let start_byte = utf16_to_byte s start;
          end_byte = advance_utf16 s start_byte (stop - start)
      in str_slice s start_byte end_byte)"

text \<open>
  The reference: the shortest prefix that covers \<open>n\<close> code units, and what is left of the
  string after it. A request that ends inside a surrogate pair takes the whole pair.
\<close>

fun take_units :: "nat \<Rightarrow> ustring \<Rightarrow> ustring" where
  "take_units n [] = []"
| "take_units n (c # s) = (if n = 0 then [] else c # take_units (n - len_utf16 c) s)"

fun drop_units :: "nat \<Rightarrow> ustring \<Rightarrow> ustring" where
  "drop_units n [] = []"
| "drop_units n (c # s) = (if n = 0 then c # s else drop_units (n - len_utf16 c) s)"

lemma take_units_0 [simp]: "take_units 0 s = []"
  by (cases s) auto

lemma drop_units_0 [simp]: "drop_units 0 s = s"
  by (cases s) auto

lemma take_drop_units [simp]: "take_units n s @ drop_units n s = s"
  by (induction n s rule: take_units.induct) auto

lemma take_units_exact [simp]: "take_units (utf16_len p) (p @ q) = p"
  by (induction p) auto

lemma drop_units_exact [simp]: "drop_units (utf16_len p) (p @ q) = q"
  by (induction p) auto

lemma len_utf16_le_pos: "len_utf16 c + k \<le> n \<Longrightarrow> 0 < n"
  using len_utf16_pos [of c] by linarith

lemma take_units_all: "utf16_len s \<le> n \<Longrightarrow> take_units n s = s"
  by (induction n s rule: take_units.induct) (auto dest: len_utf16_le_pos)

lemma drop_units_all: "utf16_len s \<le> n \<Longrightarrow> drop_units n s = []"
  by (induction n s rule: drop_units.induct) (auto dest: len_utf16_le_pos)

lemma take_units_len_ge: "n \<le> utf16_len s \<Longrightarrow> n \<le> utf16_len (take_units n s)"
proof (induction n s rule: take_units.induct)
  case (2 n c s)
  then have "0 < n \<Longrightarrow> n - len_utf16 c \<le> utf16_len (take_units (n - len_utf16 c) s)" by simp
  then show ?case by (cases "n = 0") (auto simp: diff_le_eq)
qed simp

lemma take_units_len_le: "utf16_len (take_units n s) \<le> Suc n"
proof (induction n s rule: take_units.induct)
  case (2 n c s)
  then show ?case
    using len_utf16_le2 [of c] by (cases "n = 0"; cases "n = 1") auto
qed simp

lemma advance_loop_eq:
  "slen = pos + str_len s \<Longrightarrow>
   advance_loop s pos slen consumed units = pos + str_len (take_units (units - consumed) s)"
  by (induction s pos slen consumed units rule: advance_loop.induct) auto

lemma advance_utf16_eq:
  "s = p @ q \<Longrightarrow> from_pos = str_len p \<Longrightarrow>
   advance_utf16 s from_pos units = from_pos + str_len (take_units units q)"
  by (simp add: advance_utf16_def advance_loop_eq)

lemma advance_utf16_split:
  "advance_utf16 (p @ q) (str_len p) units = str_len (p @ take_units units q)"
  by (simp add: advance_utf16_eq [of _ p q])

lemma str_slice_mid [simp]: "str_slice (p @ q @ r) (str_len p) (str_len p + str_len q) = q"
  by (simp add: str_slice_def)

lemma utf16_slice_eq: "utf16_slice s start stop = take_units (stop - start) (drop_units start s)"
proof -
  define p where "p = take_units start s"
  define q where "q = drop_units start s"
  have s: "s = p @ q" by (simp add: p_def q_def)
  have b: "utf16_to_byte s start = str_len p"
    using advance_utf16_eq [of s "[]" s 0 start] by (simp add: utf16_to_byte_def p_def)
  have e: "advance_utf16 s (str_len p) (stop - start)
      = str_len p + str_len (take_units (stop - start) q)"
    by (simp add: s advance_utf16_eq [of _ p q])
  have "str_slice s (str_len p) (str_len p + str_len (take_units (stop - start) q))
      = take_units (stop - start) q"
    using str_slice_mid [of p "take_units (stop - start) q" "drop_units (stop - start) q"]
    by (simp add: s)
  then show ?thesis by (simp add: utf16_slice_def b e Let_def q_def)
qed

lemma advance_utf16_boundary:
  assumes "is_char_boundary s from_pos"
  shows "is_char_boundary s (advance_utf16 s from_pos units)"
proof -
  from assms obtain p q where s: "s = p @ q" "from_pos = str_len p"
    by (auto simp: is_char_boundary_iff)
  have "s = (p @ take_units units q) @ drop_units units q" by (simp add: s)
  moreover have "advance_utf16 s from_pos units = str_len (p @ take_units units q)"
    by (simp add: s advance_utf16_split)
  ultimately show ?thesis unfolding is_char_boundary_iff by blast
qed

section \<open>Properties\<close>

text \<open>
  Slicing by UTF-16 units cuts out exactly the characters between two boundaries, and
  the byte offsets it computes are always character boundaries, so slicing never panics.
\<close>

theorem utf16_slice_correct:
  "utf16_slice (p @ m @ q) (utf16_len p) (utf16_len p + utf16_len m) = m
   \<and> utf16_len (utf16_slice s 0 n) \<le> Suc n
   \<and> is_char_boundary s (advance_utf16 s (advance_utf16 s 0 i) j)"
  by (simp add: utf16_slice_eq advance_utf16_boundary take_units_len_le)

end
