(* ===== verification/Gal_Attributes.thy ===== *)
theory Gal_Attributes
  imports Gal_Text
begin

text \<open>
  Attribute maps and their algebra, \<open>crates/gal-ot/src/attributes.rs\<close>. A
  \<open>BTreeMap<String, Value>\<close> is a finite map; \<open>serde_json::Value\<close> is the datatype \<open>json\<close>,
  with an object as the list of its entries in key order and a float as its exact rational
  value.
\<close>

section \<open>JSON values\<close>

datatype json_number = PosInt nat | NegInt int | Float rat

datatype json =
    JNull
  | JBool bool
  | JNumber json_number
  | JString ustring
  | JArray "json list"
  | JObject "(ustring \<times> json) list"

definition is_null :: "json \<Rightarrow> bool" where
  "is_null v = (case v of JNull \<Rightarrow> True | _ \<Rightarrow> False)"

lemma is_null_iff [simp]: "is_null v \<longleftrightarrow> v = JNull"
  by (simp add: is_null_def split: json.splits)

section \<open>Attribute maps\<close>

type_synonym attributes = "(ustring, json) fmap"

definition contains_key :: "attributes \<Rightarrow> ustring \<Rightarrow> bool" where
  "contains_key m k = (fmlookup m k \<noteq> None)"

definition without_nulls :: "attributes \<Rightarrow> attributes" where
  "without_nulls attrs = fmfilter (\<lambda>k. case fmlookup attrs k of Some v \<Rightarrow> \<not> is_null v | None \<Rightarrow> False) attrs"

definition compose_attributes :: "attributes \<Rightarrow> attributes \<Rightarrow> bool \<Rightarrow> attributes" where
  "compose_attributes a b keep_null =
     (let out = (if keep_null then b
                 else fmfilter (\<lambda>k. case fmlookup b k of Some v \<Rightarrow> \<not> is_null v | None \<Rightarrow> False) b)
      in out ++\<^sub>f fmfilter (\<lambda>k. \<not> contains_key b k) a)"

definition transform_attributes :: "attributes \<Rightarrow> attributes \<Rightarrow> bool \<Rightarrow> attributes" where
  "transform_attributes a b priority =
     (if \<not> priority then b else fmfilter (\<lambda>k. \<not> contains_key a k) b)"

text \<open>Both loops of \<open>invert\<close>: what the change overwrote, then what it introduced.\<close>

definition invert_attributes :: "attributes \<Rightarrow> attributes \<Rightarrow> attributes" where
  "invert_attributes attr base =
     fmfilter (\<lambda>k. fmlookup base k \<noteq> fmlookup attr k \<and> contains_key attr k) base
     ++\<^sub>f fmmap (\<lambda>_. JNull)
          (fmfilter (\<lambda>k. fmlookup attr k \<noteq> fmlookup base k \<and> \<not> contains_key base k) attr)"

section \<open>Lookups\<close>

lemma fmlookup_without_nulls:
  "fmlookup (without_nulls m) k = (if fmlookup m k = Some JNull then None else fmlookup m k)"
  by (simp add: without_nulls_def split: option.splits)

lemma fmlookup_compose_attributes:
  "fmlookup (compose_attributes a b keep_null) k =
     (case fmlookup b k of
        None \<Rightarrow> fmlookup a k
      | Some v \<Rightarrow> if v = JNull \<and> \<not> keep_null then None else Some v)"
  by (simp add: compose_attributes_def contains_key_def Let_def fmlookup_dom_iff
      split: option.splits)

lemma fmlookup_transform_attributes:
  "fmlookup (transform_attributes a b priority) k =
     (if priority \<and> fmlookup a k \<noteq> None then None else fmlookup b k)"
  by (simp add: transform_attributes_def contains_key_def)

lemma fmlookup_invert_attributes:
  "fmlookup (invert_attributes attr base) k =
     (case fmlookup attr k of
        None \<Rightarrow> None
      | Some v \<Rightarrow>
          (case fmlookup base k of
             None \<Rightarrow> Some JNull
           | Some w \<Rightarrow> if v = w then None else Some w))"
  by (auto simp: invert_attributes_def contains_key_def fmlookup_dom_iff split: option.splits)

lemmas attr_lookups =
  fmlookup_without_nulls fmlookup_compose_attributes fmlookup_transform_attributes
  fmlookup_invert_attributes

section \<open>The algebra\<close>

text \<open>
  \<open>compose_attributes _ _ False\<close> is how formatting reaches a document; \<open>\<dots> True\<close> joins
  two pending changes. Doing the joined change is doing both.
\<close>

lemma compose_attributes_empty [simp]: "compose_attributes a fmempty keep_null = a"
  by (rule fmap_eqI) (simp add: attr_lookups)

lemma compose_attributes_empty_left [simp]: "compose_attributes fmempty b True = b"
  by (rule fmap_eqI) (simp add: attr_lookups split: option.splits)

lemma compose_attributes_assoc:
  "compose_attributes x (compose_attributes a b True) False =
   compose_attributes (compose_attributes x a False) b False"
  by (rule fmap_eqI) (simp add: attr_lookups split: option.splits)

lemma compose_attributes_assoc_keep:
  "compose_attributes x (compose_attributes a b True) True =
   compose_attributes (compose_attributes x a True) b True"
  by (rule fmap_eqI) (simp add: attr_lookups split: option.splits)

text \<open>The transformation property of attributes: the side with priority wins.\<close>

lemma attributes_converge:
  "compose_attributes (compose_attributes x a False) (transform_attributes a b True) False =
   compose_attributes (compose_attributes x b False) (transform_attributes b a False) False"
  by (rule fmap_eqI) (simp add: attr_lookups split: option.splits)

definition null_free :: "attributes \<Rightarrow> bool" where
  "null_free m = (\<forall>v \<in> fset (fmran m). v \<noteq> JNull)"

lemma null_free_iff: "null_free m \<longleftrightarrow> (\<forall>k. fmlookup m k \<noteq> Some JNull)"
  by (auto simp: null_free_def fmlookup_ran_iff)

lemma null_free_empty [simp]: "null_free fmempty"
  by (simp add: null_free_iff)

lemma null_free_compose: "null_free a \<Longrightarrow> null_free (compose_attributes a b False)"
  by (auto simp: null_free_iff attr_lookups split: option.splits)

text \<open>Undoing formatting restores a run exactly, provided the run stores no null.\<close>

lemma invert_attributes_undo:
  "null_free base \<Longrightarrow>
   compose_attributes (compose_attributes base attr False) (invert_attributes attr base) False
     = base"
  by (rule fmap_eqI) (auto simp: null_free_iff attr_lookups split: option.splits)

section \<open>Properties\<close>

text \<open>
  Formatting converges: whichever of two concurrent formatting changes reaches a run
  first, the transformed other one leaves the run with the same formatting; and joining two
  changes before applying them is the same as applying both.
\<close>

theorem attribute_changes_converge:
  "compose_attributes (compose_attributes x a False) (transform_attributes a b True) False
     = compose_attributes (compose_attributes x b False) (transform_attributes b a False) False
   \<and> compose_attributes x (compose_attributes a b True) False
     = compose_attributes (compose_attributes x a False) b False"
  using attributes_converge compose_attributes_assoc by blast

end
