(* ===== verification/Gal_Delta.thy ===== *)
theory Gal_Delta
  imports Gal_Attributes
begin

text \<open>
  Deltas, \<open>crates/gal-ot/src/delta.rs\<close>: the ops a document or a change is made of, the
  wire representation of an op, the canonicalising \<open>push\<close>, the measurements of a delta and
  the iterator that walks a list of ops and can split one at any offset.
\<close>

section \<open>Ops\<close>

datatype insert_payload = Text ustring | Embed json

definition insert_len :: "insert_payload \<Rightarrow> nat" where
  "insert_len i = (case i of Text s \<Rightarrow> utf16_len s | Embed _ \<Rightarrow> 1)"

definition insert_is_empty :: "insert_payload \<Rightarrow> bool" where
  "insert_is_empty i = (insert_len i = 0)"

datatype op_kind = Insert insert_payload | Retain nat | Delete nat

datatype kind_tag = KInsert | KRetain | KDelete

record op =
  kind :: op_kind
  attributes :: attributes

definition op_insert :: "ustring \<Rightarrow> op" where
  "op_insert s = \<lparr>kind = Insert (Text s), attributes = fmempty\<rparr>"

definition op_embed :: "json \<Rightarrow> op" where
  "op_embed v = \<lparr>kind = Insert (Embed v), attributes = fmempty\<rparr>"

definition op_retain :: "nat \<Rightarrow> op" where
  "op_retain n = \<lparr>kind = Retain n, attributes = fmempty\<rparr>"

definition op_delete :: "nat \<Rightarrow> op" where
  "op_delete n = \<lparr>kind = Delete n, attributes = fmempty\<rparr>"

definition with_attributes :: "op \<Rightarrow> attributes \<Rightarrow> op" where
  "with_attributes p attrs = p\<lparr>attributes := attrs\<rparr>"

definition with_attr :: "op \<Rightarrow> ustring \<Rightarrow> json \<Rightarrow> op" where
  "with_attr p key value = p\<lparr>attributes := fmupd key value (attributes p)\<rparr>"

definition op_len :: "op \<Rightarrow> nat" where
  "op_len p = (case kind p of Insert i \<Rightarrow> insert_len i | Retain n \<Rightarrow> n | Delete n \<Rightarrow> n)"

definition op_is_empty :: "op \<Rightarrow> bool" where
  "op_is_empty p = (op_len p = 0)"

definition kind_of :: "op \<Rightarrow> kind_tag" where
  "kind_of p = (case kind p of Insert _ \<Rightarrow> KInsert | Retain _ \<Rightarrow> KRetain | Delete _ \<Rightarrow> KDelete)"

definition op_text :: "op \<Rightarrow> ustring option" where
  "op_text p = (case kind p of Insert (Text s) \<Rightarrow> Some s | _ \<Rightarrow> None)"

lemmas op_builders [gal_defs] =
  op_insert_def op_embed_def op_retain_def op_delete_def with_attributes_def

lemma insert_len_simps [simp]:
  "insert_len (Text s) = utf16_len s"
  "insert_len (Embed v) = 1"
  by (simp_all add: insert_len_def)

lemma op_len_simps [simp]:
  "kind p = Insert i \<Longrightarrow> op_len p = insert_len i"
  "kind p = Retain n \<Longrightarrow> op_len p = n"
  "kind p = Delete n \<Longrightarrow> op_len p = n"
  by (simp_all add: op_len_def)

lemma kind_of_simps [simp]:
  "kind_of p = KInsert \<longleftrightarrow> (\<exists>i. kind p = Insert i)"
  "kind_of p = KRetain \<longleftrightarrow> (\<exists>n. kind p = Retain n)"
  "kind_of p = KDelete \<longleftrightarrow> (\<exists>n. kind p = Delete n)"
  by (simp_all add: kind_of_def split: op_kind.splits)

lemma op_text_Some [simp]: "op_text p = Some s \<longleftrightarrow> kind p = Insert (Text s)"
  by (auto simp: op_text_def split: op_kind.splits insert_payload.splits)

lemma op_cases [case_names Text Embed Retain Delete]:
  obtains s where "kind p = Insert (Text s)" | v where "kind p = Insert (Embed v)"
    | n where "kind p = Retain n" | n where "kind p = Delete n"
  by (cases "kind p") (auto elim: insert_payload.exhaust)

section \<open>The wire representation of an op\<close>

record op_repr =
  repr_insert :: "insert_payload option"
  repr_retain :: "nat option"
  repr_delete :: "nat option"
  repr_attributes :: "attributes option"

datatype repr_error = NoAction | SeveralActions

definition op_try_from :: "op_repr \<Rightarrow> (repr_error, op) result" where
  "op_try_from repr =
     bind_result
       (case (repr_insert repr, repr_retain repr, repr_delete repr) of
          (Some i, None, None) \<Rightarrow> Ok (Insert i)
        | (None, Some r, None) \<Rightarrow> Ok (Retain r)
        | (None, None, Some d) \<Rightarrow> Ok (Delete d)
        | (None, None, None) \<Rightarrow> Err NoAction
        | _ \<Rightarrow> Err SeveralActions)
       (\<lambda>k. Ok \<lparr>kind = k,
               attributes = (case repr_attributes repr of None \<Rightarrow> fmempty | Some m \<Rightarrow> m)\<rparr>)"

definition op_repr_from :: "op \<Rightarrow> op_repr" where
  "op_repr_from p =
     (let attrs = (if attributes p = fmempty then None else Some (attributes p))
      in case kind p of
           Insert i \<Rightarrow> \<lparr>repr_insert = Some i, repr_retain = None, repr_delete = None,
                        repr_attributes = attrs\<rparr>
         | Retain r \<Rightarrow> \<lparr>repr_insert = None, repr_retain = Some r, repr_delete = None,
                        repr_attributes = attrs\<rparr>
         | Delete d \<Rightarrow> \<lparr>repr_insert = None, repr_retain = None, repr_delete = Some d,
                        repr_attributes = attrs\<rparr>)"

section \<open>Deltas\<close>

record delta =
  ops :: "op list"

definition delta_new :: delta where
  "delta_new = \<lparr>ops = []\<rparr>"

definition delta_is_empty :: "delta \<Rightarrow> bool" where
  "delta_is_empty d = (ops d = [])"

text \<open>\<open>Vec::insert\<close>.\<close>

definition vec_insert :: "nat \<Rightarrow> 'a \<Rightarrow> 'a list \<Rightarrow> 'a list" where
  "vec_insert i x xs = take i xs @ x # drop i xs"

text \<open>
  The tail of \<open>push\<close>, once the position \<open>index\<close> of the new op is known: merge it into the
  op before that position where both carry the same formatting, insert it otherwise.
\<close>

definition push_at :: "nat \<Rightarrow> op list \<Rightarrow> op \<Rightarrow> op list" where
  "push_at index os new_op =
     (let prev = os ! (index - 1)
      in if attributes prev = attributes new_op
         then (case (op_text prev, op_text new_op) of
                 (Some a, Some b) \<Rightarrow> os[index - 1 := prev\<lparr>kind := Insert (Text (a @ b))\<rparr>]
               | _ \<Rightarrow>
                   (case (kind prev, kind new_op) of
                      (Retain a, Retain b) \<Rightarrow>
                        os[index - 1 := prev\<lparr>kind := Retain (saturating_add a b)\<rparr>]
                    | _ \<Rightarrow> vec_insert index new_op os))
         else vec_insert index new_op os)"

definition push_ops :: "op list \<Rightarrow> op \<Rightarrow> op list" where
  "push_ops os new_op =
     (if op_is_empty new_op then os
      else
        let index = length os
        in if index = 0 then os @ [new_op]
           else
             (case (kind (os ! (index - 1)), kind new_op) of
                (Delete a, Delete b) \<Rightarrow>
                  os[index - 1 := (os ! (index - 1))\<lparr>kind := Delete (saturating_add a b)\<rparr>]
              | _ \<Rightarrow>
                  (if kind_of (os ! (index - 1)) = KDelete \<and> kind_of new_op = KInsert
                   then (let index = index - 1
                         in if index = 0 then vec_insert 0 new_op os
                            else push_at index os new_op)
                   else push_at index os new_op)))"

definition push :: "delta \<Rightarrow> op \<Rightarrow> delta" where
  "push d new_op = d\<lparr>ops := push_ops (ops d) new_op\<rparr>"

definition delta_document :: "ustring \<Rightarrow> delta" where
  "delta_document s = push delta_new (op_insert s)"

definition from_ops :: "op list \<Rightarrow> delta" where
  "from_ops os = foldl push delta_new os"

definition delta_insert :: "delta \<Rightarrow> ustring \<Rightarrow> delta" where
  "delta_insert d s = push d (op_insert s)"

definition delta_insert_with :: "delta \<Rightarrow> ustring \<Rightarrow> attributes \<Rightarrow> delta" where
  "delta_insert_with d s attrs = push d (with_attributes (op_insert s) attrs)"

definition delta_embed :: "delta \<Rightarrow> json \<Rightarrow> delta" where
  "delta_embed d v = push d (op_embed v)"

definition delta_retain :: "delta \<Rightarrow> nat \<Rightarrow> delta" where
  "delta_retain d n = push d (op_retain n)"

definition delta_retain_with :: "delta \<Rightarrow> nat \<Rightarrow> attributes \<Rightarrow> delta" where
  "delta_retain_with d n attrs = push d (with_attributes (op_retain n) attrs)"

definition delta_delete :: "delta \<Rightarrow> nat \<Rightarrow> delta" where
  "delta_delete d n = push d (op_delete n)"

definition chop_ops :: "op list \<Rightarrow> op list" where
  "chop_ops os =
     (if os \<noteq> [] \<and> kind_of (last os) = KRetain \<and> attributes (last os) = fmempty
      then butlast os else os)"

definition chop :: "delta \<Rightarrow> delta" where
  "chop d = d\<lparr>ops := chop_ops (ops d)\<rparr>"

section \<open>Measurements\<close>

definition sum_saturating :: "nat list \<Rightarrow> nat" where
  "sum_saturating ns = foldl saturating_add 0 ns"

definition delta_len :: "delta \<Rightarrow> nat" where
  "delta_len d = sum_saturating (map op_len (ops d))"

definition base_length :: "delta \<Rightarrow> nat" where
  "base_length d =
     sum_saturating (map op_len (filter (\<lambda>p. kind_of p \<in> {KRetain, KDelete}) (ops d)))"

definition target_length :: "delta \<Rightarrow> nat" where
  "target_length d =
     sum_saturating (map op_len (filter (\<lambda>p. kind_of p \<in> {KRetain, KInsert}) (ops d)))"

text \<open>\<open>as isize\<close> reinterprets the 64 bits; the subtraction wraps in the release profile.\<close>

definition as_isize :: "nat \<Rightarrow> int" where
  "as_isize n = sint (word_of_nat n :: 64 word)"

definition change_length :: "delta \<Rightarrow> int" where
  "change_length d =
     sint (word_of_nat (target_length d) - word_of_nat (base_length d) :: 64 word)"

definition op_plain_text :: "op \<Rightarrow> ustring" where
  "op_plain_text p =
     (case kind p of Insert (Text s) \<Rightarrow> s | Insert (Embed _) \<Rightarrow> [0xfffc] | _ \<Rightarrow> [])"

definition to_plain_text :: "delta \<Rightarrow> ustring" where
  "to_plain_text d = foldl (\<lambda>out p. out @ op_plain_text p) [] (ops d)"

definition is_document :: "delta \<Rightarrow> bool" where
  "is_document d = list_all (\<lambda>p. kind_of p = KInsert) (ops d)"

section \<open>The op iterator\<close>

record op_iter =
  it_ops :: "op list"
  it_index :: nat
  it_offset :: nat
  it_byte_offset :: nat

definition iter_new :: "op list \<Rightarrow> op_iter" where
  "iter_new os = \<lparr>it_ops = os, it_index = 0, it_offset = 0, it_byte_offset = 0\<rparr>"

text \<open>\<open>self.ops.get(self.index)\<close>.\<close>

definition it_current :: "op_iter \<Rightarrow> op option" where
  "it_current it = (if it_index it < length (it_ops it) then Some (it_ops it ! it_index it) else None)"

definition peek_length :: "op_iter \<Rightarrow> nat" where
  "peek_length it =
     (case it_current it of Some p \<Rightarrow> op_len p - it_offset it | None \<Rightarrow> infinity)"

definition has_next :: "op_iter \<Rightarrow> bool" where
  "has_next it = (peek_length it < infinity)"

definition peek_kind :: "op_iter \<Rightarrow> kind_tag" where
  "peek_kind it = (case it_current it of Some p \<Rightarrow> kind_of p | None \<Rightarrow> KRetain)"

text \<open>The op \<open>next\<close> returns for a current op \<open>p\<close>, and the byte offset after it.\<close>

definition next_piece :: "op \<Rightarrow> nat \<Rightarrow> nat \<Rightarrow> op \<times> nat" where
  "next_piece p byte_offset taken =
     (case kind p of
        Delete _ \<Rightarrow> (op_delete taken, byte_offset)
      | Retain _ \<Rightarrow> (with_attributes (op_retain taken) (attributes p), byte_offset)
      | Insert (Embed v) \<Rightarrow> (with_attributes (op_embed v) (attributes p), byte_offset)
      | Insert (Text s) \<Rightarrow>
          (let start = byte_offset; stop = advance_utf16 s start taken
           in (with_attributes (op_insert (str_slice s start stop)) (attributes p), stop)))"

definition iter_next :: "op_iter \<Rightarrow> nat \<Rightarrow> op \<times> op_iter" where
  "iter_next it len =
     (case it_current it of
        None \<Rightarrow> (op_retain infinity, it)
      | Some p \<Rightarrow>
          (let taken = min len (op_len p - it_offset it);
               (piece, byte_offset) = next_piece p (it_byte_offset it) taken;
               offset = it_offset it + taken
           in (piece,
               if offset \<ge> op_len p
               then it\<lparr>it_index := it_index it + 1, it_offset := 0, it_byte_offset := 0\<rparr>
               else it\<lparr>it_offset := offset, it_byte_offset := byte_offset\<rparr>)))"

section \<open>Termination of the loops over iterators\<close>

text \<open>
  The units an iterator still has to hand out, with one more for each op, so that taking
  an empty op counts as progress.
\<close>

definition it_size :: "op_iter \<Rightarrow> nat" where
  "it_size it =
     (case it_current it of
        None \<Rightarrow> 0
      | Some p \<Rightarrow> Suc (op_len p - it_offset it)
          + sum_list (map (\<lambda>q. Suc (op_len q)) (drop (Suc (it_index it)) (it_ops it))))"

lemma it_size_advanced:
  "it_size (it\<lparr>it_index := i, it_offset := 0, it_byte_offset := 0\<rparr>)
     = sum_list (map (\<lambda>q. Suc (op_len q)) (drop i (it_ops it)))"
  by (simp add: it_size_def it_current_def Cons_nth_drop_Suc [symmetric])

lemma iter_next_size_less:
  assumes "it_current it = Some p" and "0 < len \<or> op_len p \<le> it_offset it"
  shows "it_size (snd (iter_next it len)) < it_size it"
proof (cases "it_offset it + min len (op_len p - it_offset it) \<ge> op_len p")
  case True
  with assms(1) show ?thesis
    by (auto simp: iter_next_def Let_def it_size_advanced split: prod.splits)
      (simp add: it_size_def)
next
  case False
  with assms show ?thesis
    by (auto simp: iter_next_def Let_def it_size_def it_current_def
        split: prod.splits if_splits)
qed

lemma iter_next_size_le: "it_size (snd (iter_next it len)) \<le> it_size it"
proof (cases "it_current it")
  case None
  then show ?thesis by (simp add: iter_next_def)
next
  case (Some p)
  show ?thesis
  proof (cases "0 < len \<or> op_len p \<le> it_offset it")
    case True
    with Some show ?thesis by (simp add: iter_next_size_less less_imp_le)
  next
    case False
    with Some show ?thesis
      by (auto simp: iter_next_def Let_def it_size_def it_current_def
          split: prod.splits if_splits)
  qed
qed

text \<open>
  Taking the shorter of two current ops finishes it, so a round of a two-sided loop makes
  progress on the side it finishes.
\<close>

lemma iter_next_min_size_less:
  assumes "has_next ia \<or> has_next ib" and "len = min (peek_length ia) (peek_length ib)"
  shows "it_size (snd (iter_next ia len)) + it_size (snd (iter_next ib len))
    < it_size ia + it_size ib"
proof -
  have finish: "it_size (snd (iter_next it len)) < it_size it"
    if "peek_length it = len" "len < infinity" for it
  proof -
    from that obtain p where "it_current it = Some p" "op_len p - it_offset it = len"
      by (auto simp: peek_length_def split: option.splits)
    then show ?thesis by (intro iter_next_size_less [of it p]) auto
  qed
  from assms have "len < infinity" by (auto simp: has_next_def)
  with finish assms(2) have
    "it_size (snd (iter_next ia len)) < it_size ia \<or> it_size (snd (iter_next ib len)) < it_size ib"
    by (metis min_def)
  then show ?thesis
    using iter_next_size_le [of ia len] iter_next_size_le [of ib len] by linarith
qed

lemma has_next_size_less:
  "has_next it \<Longrightarrow> 0 < len \<Longrightarrow> it_size (snd (iter_next it len)) < it_size it"
  by (auto simp: has_next_def peek_length_def intro: iter_next_size_less split: option.splits)

lemma iter_next_infinity_size_less:
  "peek_kind it \<noteq> KRetain \<Longrightarrow> it_size (snd (iter_next it infinity)) < it_size it"
  by (auto simp: peek_kind_def intro: iter_next_size_less split: option.splits)

section \<open>Properties\<close>

text \<open>
  The wire format of an op: what is written is read back as the same op, and a
  representation is refused exactly when it does not name one action.
\<close>

lemma op_wire_roundtrip:
  "op_try_from (op_repr_from p) = Ok p
   \<and> (is_ok (op_try_from r) \<longleftrightarrow>
        length (filter id [repr_insert r \<noteq> None, repr_retain r \<noteq> None, repr_delete r \<noteq> None]) = 1)"
  by (cases p; cases "kind p"; cases "repr_insert r"; cases "repr_retain r"; cases "repr_delete r")
    (auto simp: op_repr_from_def op_try_from_def)

end
