(* ===== verification/Gal_Algebra.thy ===== *)
theory Gal_Algebra
  imports Gal_Delta
begin

text \<open>
  The core algebra of \<open>crates/gal-ot/src/delta.rs\<close>: \<open>compose\<close>, \<open>transform\<close>,
  \<open>transform_position\<close>, \<open>slice\<close>, \<open>invert\<close>, \<open>validate\<close> and \<open>diff_text\<close>, each loop as a
  recursive function over the iterator state with its termination proved from
  \<open>it_size\<close>.
\<close>

section \<open>compose\<close>

text \<open>What one round of the last branch of \<open>compose\<close> appends to the output.\<close>

definition compose_emit :: "delta \<Rightarrow> op \<Rightarrow> op \<Rightarrow> nat \<Rightarrow> delta" where
  "compose_emit out op_a op_b len =
     (case kind op_b of
        Retain _ \<Rightarrow>
          (let keep_null = (kind_of op_a = KRetain);
               merged = compose_attributes (attributes op_a) (attributes op_b) keep_null;
               k = (case kind op_a of Insert i \<Rightarrow> Insert i | _ \<Rightarrow> Retain len)
           in push out \<lparr>kind = k, attributes = merged\<rparr>)
      | Delete _ \<Rightarrow> if kind_of op_a = KRetain then push out op_b else out
      | _ \<Rightarrow> out)"

function compose_loop :: "op_iter \<Rightarrow> op_iter \<Rightarrow> delta \<Rightarrow> delta" where
  "compose_loop ia ib out =
     (if has_next ia \<or> has_next ib then
        (if peek_kind ib = KInsert then
           compose_loop ia (snd (iter_next ib infinity)) (push out (fst (iter_next ib infinity)))
         else if peek_kind ia = KDelete then
           compose_loop (snd (iter_next ia infinity)) ib (push out (fst (iter_next ia infinity)))
         else
           let len = min (peek_length ia) (peek_length ib)
           in compose_loop (snd (iter_next ia len)) (snd (iter_next ib len))
                (compose_emit out (fst (iter_next ia len)) (fst (iter_next ib len)) len))
      else out)"
  by pat_completeness auto
termination
  by (relation "measure (\<lambda>(ia, ib, out). it_size ia + it_size ib)")
    (auto intro!: iter_next_infinity_size_less intro: iter_next_min_size_less)

declare compose_loop.simps [simp del]

definition compose :: "delta \<Rightarrow> delta \<Rightarrow> delta" where
  "compose a b = chop (compose_loop (iter_new (ops a)) (iter_new (ops b)) delta_new)"

definition delta_apply :: "delta \<Rightarrow> delta \<Rightarrow> delta" where
  "delta_apply d change = compose d change"

section \<open>transform\<close>

definition transform_emit :: "delta \<Rightarrow> op \<Rightarrow> op \<Rightarrow> nat \<Rightarrow> bool \<Rightarrow> delta" where
  "transform_emit out op_a op_b len priority =
     (if kind_of op_a = KDelete then out
      else if kind_of op_b = KDelete then push out op_b
      else push out (with_attributes (op_retain len)
             (transform_attributes (attributes op_a) (attributes op_b) priority)))"

function transform_loop :: "op_iter \<Rightarrow> op_iter \<Rightarrow> bool \<Rightarrow> delta \<Rightarrow> delta" where
  "transform_loop ia ib priority out =
     (if has_next ia \<or> has_next ib then
        (if peek_kind ia = KInsert \<and> (priority \<or> peek_kind ib \<noteq> KInsert) then
           transform_loop (snd (iter_next ia infinity)) ib priority
             (push out (op_retain (op_len (fst (iter_next ia infinity)))))
         else if peek_kind ib = KInsert then
           transform_loop ia (snd (iter_next ib infinity)) priority
             (push out (fst (iter_next ib infinity)))
         else
           let len = min (peek_length ia) (peek_length ib)
           in transform_loop (snd (iter_next ia len)) (snd (iter_next ib len)) priority
                (transform_emit out (fst (iter_next ia len)) (fst (iter_next ib len)) len priority))
      else out)"
  by pat_completeness auto
termination
  by (relation "measure (\<lambda>(ia, ib, priority, out). it_size ia + it_size ib)")
    (auto intro!: iter_next_infinity_size_less intro: iter_next_min_size_less)

declare transform_loop.simps [simp del]

definition transform :: "delta \<Rightarrow> delta \<Rightarrow> bool \<Rightarrow> delta" where
  "transform a b priority =
     chop (transform_loop (iter_new (ops a)) (iter_new (ops b)) priority delta_new)"

section \<open>transform\_position\<close>

text \<open>
  The loop consumes the current op whole each round (\<open>iter.next(INFINITY)\<close>), so its state
  is the iterator with \<open>offset\<close> and \<open>index\<close>. Additions are those of the release profile.
\<close>

function transform_position_loop :: "op_iter \<Rightarrow> nat \<Rightarrow> nat \<Rightarrow> bool \<Rightarrow> nat" where
  "transform_position_loop it offset index priority =
     (if has_next it \<and> offset \<le> index then
        let len = peek_length it; k = peek_kind it; it' = snd (iter_next it infinity)
        in if k = KDelete then
             transform_position_loop it' offset (index - min len (index - offset)) priority
           else
             transform_position_loop it' (wrapping_add offset len)
               (if k = KInsert \<and> (offset < index \<or> \<not> priority) then wrapping_add index len
                else index) priority
      else index)"
  by pat_completeness auto
termination
  by (relation "measure (\<lambda>(it, offset, index, priority). it_size it)")
    (auto intro: has_next_size_less)

declare transform_position_loop.simps [simp del]

definition transform_position :: "delta \<Rightarrow> nat \<Rightarrow> bool \<Rightarrow> nat" where
  "transform_position d index priority =
     transform_position_loop (iter_new (ops d)) 0 index priority"

section \<open>slice and invert\<close>

function slice_loop :: "op_iter \<Rightarrow> nat \<Rightarrow> nat \<Rightarrow> nat \<Rightarrow> delta \<Rightarrow> delta" where
  "slice_loop it index start stop out =
     (if index < stop \<and> has_next it then
        (if index < start then
           slice_loop (snd (iter_next it (start - index)))
             (index + op_len (fst (iter_next it (start - index)))) start stop out
         else
           slice_loop (snd (iter_next it (stop - index)))
             (index + op_len (fst (iter_next it (stop - index)))) start stop
             (push out (fst (iter_next it (stop - index)))))
      else out)"
  by pat_completeness auto
termination
  by (relation "measure (\<lambda>(it, index, start, stop, out). it_size it)")
    (auto intro!: has_next_size_less)

declare slice_loop.simps [simp del]

definition slice :: "delta \<Rightarrow> nat \<Rightarrow> nat \<Rightarrow> delta" where
  "slice d start stop = slice_loop (iter_new (ops d)) 0 start stop delta_new"

definition invert_step :: "delta \<Rightarrow> op \<Rightarrow> delta \<times> nat \<Rightarrow> delta \<times> nat" where
  "invert_step base p st =
     (let (inverted, base_index) = st
      in case kind p of
           Insert _ \<Rightarrow> (push inverted (op_delete (op_len p)), base_index)
         | Retain n \<Rightarrow>
             if attributes p = fmempty
             then (push inverted (op_retain n), wrapping_add base_index n)
             else (foldl (\<lambda>inv base_op.
                      push inv (with_attributes (op_retain (op_len base_op))
                        (invert_attributes (attributes p) (attributes base_op))))
                     inverted (ops (slice base base_index (wrapping_add base_index n))),
                   wrapping_add base_index n)
         | Delete n \<Rightarrow>
             (foldl push inverted (ops (slice base base_index (wrapping_add base_index n))),
              wrapping_add base_index n))"

definition invert :: "delta \<Rightarrow> delta \<Rightarrow> delta" where
  "invert change base = chop (fst (fold (invert_step base) (ops change) (delta_new, 0)))"

section \<open>validate\<close>

datatype invalid_change =
    PastEnd nat nat        \<comment> \<open>needed, doc\_len\<close>
  | SplitCharacter nat     \<comment> \<open>offset\<close>

text \<open>The \<open>while remaining > 0\<close> loop over the plain text, from byte \<open>byte\<close>.\<close>

function validate_span :: "ustring \<Rightarrow> nat \<Rightarrow> nat \<Rightarrow> nat \<Rightarrow> nat \<Rightarrow> (invalid_change, nat \<times> nat) result"
where
  "validate_span txt doc_len remaining cursor byte =
     (if remaining > 0 then
        (case str_from txt byte of
           [] \<Rightarrow> Err (PastEnd (saturating_add cursor remaining) doc_len)
         | c # _ \<Rightarrow>
             let width = len_utf16 c
             in if width > remaining
                then Err (SplitCharacter (saturating_add cursor remaining))
                else validate_span txt doc_len (remaining - width) (cursor + width)
                       (byte + len_utf8 c))
      else Ok (cursor, byte))"
  by pat_completeness auto
termination
  by (relation "measure (\<lambda>(txt, doc_len, remaining, cursor, byte). remaining)") auto

declare validate_span.simps [simp del]

fun validate_loop :: "ustring \<Rightarrow> nat \<Rightarrow> op list \<Rightarrow> nat \<Rightarrow> nat \<Rightarrow> (invalid_change, unit) result" where
  "validate_loop txt doc_len [] cursor byte = Ok ()"
| "validate_loop txt doc_len (p # os) cursor byte =
     (case kind p of
        Insert _ \<Rightarrow> validate_loop txt doc_len os cursor byte
      | Retain n \<Rightarrow>
          bind_result (validate_span txt doc_len n cursor byte)
            (\<lambda>(cursor, byte). validate_loop txt doc_len os cursor byte)
      | Delete n \<Rightarrow>
          bind_result (validate_span txt doc_len n cursor byte)
            (\<lambda>(cursor, byte). validate_loop txt doc_len os cursor byte))"

definition validate :: "delta \<Rightarrow> delta \<Rightarrow> (invalid_change, unit) result" where
  "validate change doc =
     (let txt = to_plain_text doc in validate_loop txt (utf16_len txt) (ops change) 0 0)"

section \<open>diff\_text\<close>

fun common_prefix :: "ustring \<Rightarrow> ustring \<Rightarrow> nat \<Rightarrow> nat" where
  "common_prefix (x # a) (y # b) prefix =
     (if x = y then common_prefix a b (prefix + len_utf16 x) else prefix)"
| "common_prefix _ _ prefix = prefix"

text \<open>The suffix scan runs over the reversed strings and stops at \<open>max_suffix\<close> units.\<close>

fun common_suffix :: "ustring \<Rightarrow> ustring \<Rightarrow> nat \<Rightarrow> nat \<Rightarrow> nat" where
  "common_suffix (x # a) (y # b) max_suffix suffix =
     (if suffix \<ge> max_suffix then suffix
      else if x = y then
        (if suffix + len_utf16 x > max_suffix then suffix
         else common_suffix a b max_suffix (suffix + len_utf16 x))
      else suffix)"
| "common_suffix _ _ max_suffix suffix = suffix"

definition diff_text :: "ustring \<Rightarrow> ustring \<Rightarrow> delta" where
  "diff_text old_text new_text =
     (if old_text = new_text then delta_new
      else
        let before_units = utf16_len old_text;
            after_units = utf16_len new_text;
            prefix = common_prefix old_text new_text 0;
            max_suffix = min before_units after_units - prefix;
            suffix = common_suffix (rev old_text) (rev new_text) max_suffix 0;
            removed = before_units - prefix - suffix;
            inserted = utf16_slice new_text prefix (after_units - suffix)
        in chop (push (push (push delta_new (op_retain prefix)) (op_delete removed))
                   (op_insert inserted)))"

end
