(* ===== verification/Gal_Run.thy ===== *)
theory Gal_Run
  imports Gal_Algebra
begin

text \<open>
  The abstract specification of a change. A document is read as the sequence of its cells
  (one per character or embed, with the formatting it carries); \<open>run os d\<close> lets the ops
  consume a prefix of the cells \<open>d\<close> and gives the cells produced and the cells left over.
  It is undefined when an op reaches past the end of the document or ends inside a
  multi-unit character. The concrete algebra is proved against this specification; this
  theory has the specification and what \<open>push\<close> and \<open>chop\<close> mean for it.
\<close>

section \<open>Cells\<close>

datatype item = IChar uchar | IEmbed json

type_synonym cell = "item \<times> attributes"

definition cell_width :: "cell \<Rightarrow> nat" where
  "cell_width c = (case fst c of IChar u \<Rightarrow> len_utf16 u | IEmbed _ \<Rightarrow> 1)"

definition width :: "cell list \<Rightarrow> nat" where
  "width cs = sum_list (map cell_width cs)"

definition insert_cells :: "insert_payload \<Rightarrow> attributes \<Rightarrow> cell list" where
  "insert_cells i attrs =
     (case i of Text s \<Rightarrow> map (\<lambda>u. (IChar u, attrs)) s | Embed v \<Rightarrow> [(IEmbed v, attrs)])"

definition format_cell :: "attributes \<Rightarrow> cell \<Rightarrow> cell" where
  "format_cell attrs c = (fst c, compose_attributes (snd c) attrs False)"

lemma cell_width_pos [simp]: "0 < cell_width c"
  by (simp add: cell_width_def split: item.splits)

lemma cell_width_nonzero [simp]: "cell_width c \<noteq> 0"
  using cell_width_pos [of c] by simp

lemma width_simps [simp]:
  "width [] = 0"
  "width (c # cs) = cell_width c + width cs"
  "width (xs @ ys) = width xs + width ys"
  by (simp_all add: width_def)

lemma width_eq_0 [simp]: "width cs = 0 \<longleftrightarrow> cs = []"
  by (cases cs) auto

lemma width_insert_cells [simp]: "width (insert_cells i attrs) = insert_len i"
proof (cases i)
  case (Text s)
  have "width (map (\<lambda>u. (IChar u, attrs)) s) = utf16_len s"
    by (induction s) (auto simp: cell_width_def)
  with Text show ?thesis by (simp add: insert_cells_def)
qed (simp add: insert_cells_def cell_width_def)

lemma insert_cells_simps [simp]:
  "insert_cells (Text (s @ t)) attrs = insert_cells (Text s) attrs @ insert_cells (Text t) attrs"
  "insert_cells (Text []) attrs = []"
  by (simp_all add: insert_cells_def)

lemma insert_cells_eq_Nil [simp]: "insert_cells i attrs = [] \<longleftrightarrow> insert_len i = 0"
  by (cases i) (auto simp: insert_cells_def)

lemma width_format [simp]: "width (map (format_cell attrs) cs) = width cs"
  by (induction cs) (auto simp: format_cell_def cell_width_def)

lemma format_empty [simp]: "format_cell fmempty = (\<lambda>c. c)"
  by (rule ext) (simp add: format_cell_def)

lemma format_format:
  "format_cell b (format_cell a c) = format_cell (compose_attributes a b True) c"
  by (simp add: format_cell_def compose_attributes_assoc)

lemma format_converge:
  "format_cell (transform_attributes a b True) (format_cell a c) =
   format_cell (transform_attributes b a False) (format_cell b c)"
  by (simp add: format_cell_def attributes_converge)

lemma format_insert_cells:
  "map (format_cell b) (insert_cells i a) = insert_cells i (compose_attributes a b False)"
  by (cases i) (auto simp: insert_cells_def format_cell_def)

text \<open>Two splits of a document at the same unit offset are the same split.\<close>

lemma width_split_unique:
  "xs @ ys = xs' @ ys' \<Longrightarrow> width xs = width xs' \<Longrightarrow> xs = xs' \<and> ys = ys'"
proof (induction xs arbitrary: xs')
  case Nil
  then show ?case by (metis append_Nil width_eq_0 width_simps(1))
next
  case (Cons x xs)
  then show ?case by (cases xs') auto
qed

text \<open>A split further to the left also splits the left part of a split.\<close>

lemma width_split_left:
  "xs @ ys = xs' @ ys' \<Longrightarrow> width xs \<le> width xs' \<Longrightarrow> \<exists>zs. xs' = xs @ zs \<and> ys = zs @ ys'"
proof (induction xs arbitrary: xs')
  case Nil
  then show ?case by simp
next
  case (Cons x xs)
  then obtain xs'' where "xs' = x # xs''" by (cases xs') auto
  with Cons show ?case by auto
qed

section \<open>Running a change\<close>

fun split_cells :: "nat \<Rightarrow> cell list \<Rightarrow> (cell list \<times> cell list) option" where
  "split_cells n [] = (if n = 0 then Some ([], []) else None)"
| "split_cells n (c # cs) =
     (if n = 0 then Some ([], c # cs)
      else if cell_width c > n then None
      else map_option (apfst (Cons c)) (split_cells (n - cell_width c) cs))"

lemma split_cells_iff: "split_cells n d = Some (x, y) \<longleftrightarrow> d = x @ y \<and> width x = n"
proof (induction n d arbitrary: x rule: split_cells.induct)
  case (1 n)
  then show ?case by auto
next
  case (2 n c cs)
  show ?case
  proof (cases "n = 0")
    case True
    then show ?thesis by auto
  next
    case False
    then have "c # cs = x @ y \<and> width x = n
        \<longleftrightarrow> cell_width c \<le> n \<and> (\<exists>z. x = c # z \<and> cs = z @ y \<and> width z = n - cell_width c)"
      by (cases x) auto
    moreover have "split_cells n (c # cs) = Some (x, y)
        \<longleftrightarrow> cell_width c \<le> n \<and> (\<exists>z. x = c # z \<and> split_cells (n - cell_width c) cs = Some (z, y))"
      using False by auto
    ultimately show ?thesis using False 2 by (cases "cell_width c \<le> n") auto
  qed
qed

lemma case_split_cells:
  "(case split_cells n d of None \<Rightarrow> None | Some (x, y) \<Rightarrow> f x y) = Some z \<longleftrightarrow>
     (\<exists>x y. d = x @ y \<and> width x = n \<and> f x y = Some z)"
proof -
  have "(case split_cells n d of None \<Rightarrow> None | Some (x, y) \<Rightarrow> f x y) = Some z \<longleftrightarrow>
      (\<exists>x y. split_cells n d = Some (x, y) \<and> f x y = Some z)"
    by (auto split: option.splits)
  then show ?thesis by (simp add: split_cells_iff)
qed

fun run :: "op list \<Rightarrow> cell list \<Rightarrow> (cell list \<times> cell list) option" where
  "run [] d = Some ([], d)"
| "run (p # os) d =
     (case kind p of
        Insert i \<Rightarrow> map_option (apfst ((@) (insert_cells i (attributes p)))) (run os d)
      | Retain n \<Rightarrow>
          (case split_cells n d of
             None \<Rightarrow> None
           | Some (x, y) \<Rightarrow> map_option (apfst ((@) (map (format_cell (attributes p)) x))) (run os y))
      | Delete n \<Rightarrow>
          (case split_cells n d of None \<Rightarrow> None | Some (x, y) \<Rightarrow> run os y))"

declare run.simps(2) [simp del]

text \<open>The whole document after a change: what it produced, then what it did not reach.\<close>

definition apply_cells :: "op list \<Rightarrow> cell list \<Rightarrow> cell list option" where
  "apply_cells os d = map_option (\<lambda>(produced, rest). produced @ rest) (run os d)"

text \<open>The cells of a document: what it produces on the empty document.\<close>

definition cells :: "delta \<Rightarrow> cell list" where
  "cells d = concat (map (\<lambda>p. case kind p of Insert i \<Rightarrow> insert_cells i (attributes p) | _ \<Rightarrow> []) (ops d))"

lemma run_Insert [run_simps]:
  "kind p = Insert i \<Longrightarrow>
   run (p # os) d = Some (out, r) \<longleftrightarrow>
     (\<exists>out'. run os d = Some (out', r) \<and> out = insert_cells i (attributes p) @ out')"
  by (auto simp: run.simps(2))

lemma run_Retain [run_simps]:
  "kind p = Retain n \<Longrightarrow>
   run (p # os) d = Some (out, r) \<longleftrightarrow>
     (\<exists>x y out'. d = x @ y \<and> width x = n \<and> run os y = Some (out', r)
        \<and> out = map (format_cell (attributes p)) x @ out')"
  by (auto simp: run.simps(2) case_split_cells)

lemma run_Delete [run_simps]:
  "kind p = Delete n \<Longrightarrow>
   run (p # os) d = Some (out, r) \<longleftrightarrow>
     (\<exists>x y. d = x @ y \<and> width x = n \<and> run os y = Some (out, r))"
  by (simp add: run.simps(2) case_split_cells)

lemma run_append:
  "run (os @ qs) d = Some (out, r) \<longleftrightarrow>
     (\<exists>o1 d1 o2. run os d = Some (o1, d1) \<and> run qs d1 = Some (o2, r) \<and> out = o1 @ o2)"
proof (induction os arbitrary: d out)
  case Nil
  then show ?case by auto
next
  case (Cons p os)
  then show ?case by (cases "kind p") (fastforce simp: run_simps)+
qed

lemma run_frame: "run os d = Some (out, r) \<Longrightarrow> run os (d @ z) = Some (out, r @ z)"
proof (induction os arbitrary: d out)
  case Nil
  then show ?case by auto
next
  case (Cons p os)
  then show ?case by (cases "kind p") (fastforce simp: run_simps)+
qed

text \<open>What a run consumed of the document is a prefix of it.\<close>

lemma run_consumed:
  "run os d = Some (out, r) \<Longrightarrow> \<exists>x. d = x @ r \<and> run os x = Some (out, [])"
proof (induction os arbitrary: d out)
  case Nil
  then show ?case by auto
next
  case (Cons p os)
  show ?case
  proof (cases "kind p")
    case (Insert i)
    with Cons show ?thesis by (fastforce simp: run_simps)
  next
    case (Retain n)
    with Cons.prems obtain x y out' where d: "d = x @ y" "width x = n" "run os y = Some (out', r)"
      "out = map (format_cell (attributes p)) x @ out'" by (auto simp: run_simps)
    from Cons.IH [OF d(3)] obtain y' where "y = y' @ r" "run os y' = Some (out', [])" by blast
    with d Retain show ?thesis by (intro exI [of _ "x @ y'"]) (auto simp: run_simps)
  next
    case (Delete n)
    with Cons.prems obtain x y where d: "d = x @ y" "width x = n" "run os y = Some (out, r)"
      by (auto simp: run_simps)
    from Cons.IH [OF d(3)] obtain y' where "y = y' @ r" "run os y' = Some (out, [])" by blast
    with d Delete show ?thesis by (intro exI [of _ "x @ y'"]) (auto simp: run_simps)
  qed
qed

lemma apply_cells_Some:
  "apply_cells os d = Some e \<longleftrightarrow> (\<exists>out r. run os d = Some (out, r) \<and> e = out @ r)"
  by (auto simp: apply_cells_def)

end
