(* ===== verification/Gal_Push.thy ===== *)
theory Gal_Push
  imports Gal_Run
begin

text \<open>
  \<open>Delta::push\<close> and \<open>Delta::chop\<close> against the specification: appending an op with \<open>push\<close>
  changes nothing about what a delta does, and keeps the representation canonical (no empty
  op, no two adjacent text runs with the same formatting). A canonical document is
  determined by its cells.
\<close>

section \<open>push as a case distinction\<close>

definition merge2 :: "op \<Rightarrow> op \<Rightarrow> op list" where
  "merge2 q p =
     (if attributes q = attributes p
      then (case (op_text q, op_text p) of
              (Some a, Some b) \<Rightarrow> [q\<lparr>kind := Insert (Text (a @ b))\<rparr>]
            | _ \<Rightarrow>
                (case (kind q, kind p) of
                   (Retain a, Retain b) \<Rightarrow> [q\<lparr>kind := Retain (saturating_add a b)\<rparr>]
                 | _ \<Rightarrow> [q, p]))
      else [q, p])"

lemma push_at_eq: "push_at (Suc (length pre)) (pre @ q # post) p = pre @ merge2 q p @ post"
  by (simp add: push_at_def merge2_def vec_insert_def list_update_append op_text_def
      split: option.splits op_kind.splits insert_payload.splits)

lemma push_ops_empty: "op_len p = 0 \<Longrightarrow> push_ops os p = os"
  by (simp add: push_ops_def op_is_empty_def)

lemma push_ops_Nil: "0 < op_len p \<Longrightarrow> push_ops [] p = [p]"
  by (simp add: push_ops_def op_is_empty_def)

lemma push_ops_delete_delete:
  "0 < op_len p \<Longrightarrow> kind l = Delete a \<Longrightarrow> kind p = Delete b \<Longrightarrow>
   push_ops (pre @ [l]) p = pre @ [l\<lparr>kind := Delete (saturating_add a b)\<rparr>]"
  by (simp add: push_ops_def op_is_empty_def)

lemma push_ops_delete_insert_first:
  "0 < op_len p \<Longrightarrow> kind l = Delete a \<Longrightarrow> kind p = Insert i \<Longrightarrow> push_ops [l] p = [p, l]"
  by (simp add: push_ops_def op_is_empty_def vec_insert_def kind_of_def)

lemma push_ops_delete_insert:
  "0 < op_len p \<Longrightarrow> kind l = Delete a \<Longrightarrow> kind p = Insert i \<Longrightarrow>
   push_ops (pre @ [q, l]) p = pre @ merge2 q p @ [l]"
  using push_at_eq [of pre q "[l]" p]
  by (simp add: push_ops_def op_is_empty_def kind_of_def nth_append)

lemma push_ops_other:
  "0 < op_len p \<Longrightarrow> \<not> (\<exists>a. kind l = Delete a \<and> ((\<exists>b. kind p = Delete b) \<or> (\<exists>i. kind p = Insert i))) \<Longrightarrow>
   push_ops (pre @ [l]) p = pre @ merge2 l p"
  using push_at_eq [of pre l "[]" p]
  by (auto simp: push_ops_def op_is_empty_def kind_of_def split: op_kind.splits)

text \<open>One case rule for every proof about \<open>push_ops\<close>.\<close>

lemma push_ops_cases [case_names Empty Nil DeleteDelete DeleteInsertFirst DeleteInsert Other]:
  obtains "op_len p = 0" "push_ops os p = os"
  | "0 < op_len p" "os = []" "push_ops os p = [p]"
  | pre l a b where "0 < op_len p" "os = pre @ [l]" "kind l = Delete a" "kind p = Delete b"
      "push_ops os p = pre @ [l\<lparr>kind := Delete (saturating_add a b)\<rparr>]"
  | l a i where "0 < op_len p" "os = [l]" "kind l = Delete a" "kind p = Insert i"
      "push_ops os p = [p, l]"
  | pre q l a i where "0 < op_len p" "os = pre @ [q, l]" "kind l = Delete a" "kind p = Insert i"
      "push_ops os p = pre @ merge2 q p @ [l]"
  | pre l where "0 < op_len p" "os = pre @ [l]" "push_ops os p = pre @ merge2 l p"
proof (cases "op_len p = 0")
  case True
  then show ?thesis using that(1) push_ops_empty by simp
next
  case pos: False
  show ?thesis
  proof (cases os rule: snoc_cases)
    case Nil
    with pos show ?thesis using that(2) push_ops_Nil by simp
  next
    case (snoc pre l)
    consider (dd) a b where "kind l = Delete a" "kind p = Delete b"
      | (di) a i where "kind l = Delete a" "kind p = Insert i"
      | (other) "\<not> (\<exists>a. kind l = Delete a \<and> ((\<exists>b. kind p = Delete b) \<or> (\<exists>i. kind p = Insert i)))"
      by auto
    then show ?thesis
    proof cases
      case dd
      with pos snoc show ?thesis using that(3) push_ops_delete_delete by simp
    next
      case di
      show ?thesis
      proof (cases pre rule: snoc_cases)
        case Nil
        with pos snoc di show ?thesis using that(4) push_ops_delete_insert_first by simp
      next
        case (snoc pre' q)
        with pos \<open>os = pre @ [l]\<close> di show ?thesis
          using that(5) [of pre' q l] push_ops_delete_insert [of p l _ _ pre' q] by simp
      qed
    next
      case other
      with pos snoc show ?thesis using that(6) push_ops_other by simp
    qed
  qed
qed

section \<open>push does what appending does\<close>

definition ops_le :: "op list \<Rightarrow> op list \<Rightarrow> bool" where
  "ops_le os qs \<longleftrightarrow>
     (\<forall>d out r. width d \<le> usize_max \<longrightarrow> run os d = Some (out, r) \<longrightarrow> run qs d = Some (out, r))"

lemma ops_le_refl [simp]: "ops_le os os"
  by (simp add: ops_le_def)

lemma ops_leD: "ops_le os qs \<Longrightarrow> width d \<le> usize_max \<Longrightarrow> run os d = Some (out, r) \<Longrightarrow> run qs d = Some (out, r)"
  by (simp add: ops_le_def)

lemma run_rest_width: "run os d = Some (out, r) \<Longrightarrow> width r \<le> width d"
  by (metis run_consumed width_simps(3) le_add2)

lemma ops_le_context:
  assumes "ops_le mid mid'"
  shows "ops_le (pre @ mid @ post) (pre @ mid' @ post)"
  unfolding ops_le_def
proof (intro allI impI)
  fix d out r
  assume w: "width d \<le> usize_max" and "run (pre @ mid @ post) d = Some (out, r)"
  then obtain o1 d1 o2 d2 o3 where
    r1: "run pre d = Some (o1, d1)" and r2: "run mid d1 = Some (o2, d2)"
    and r3: "run post d2 = Some (o3, r)" and out: "out = o1 @ o2 @ o3"
    by (auto simp: run_append)
  from r1 w have "width d1 \<le> usize_max" by (auto dest!: run_rest_width)
  with assms have "run mid' d1 = Some (o2, d2)" using r2 by (rule ops_leD)
  with r1 r3 out show "run (pre @ mid' @ post) d = Some (out, r)"
    by (auto simp: run_append)
qed

lemma ops_le_merge2: "ops_le [q, p] (merge2 q p)"
  unfolding ops_le_def
proof (intro allI impI)
  fix d out r
  assume w: "width d \<le> usize_max" and run: "run [q, p] d = Some (out, r)"
  show "run (merge2 q p) d = Some (out, r)"
  proof (cases "attributes q = attributes p")
    case False
    with run show ?thesis by (simp add: merge2_def)
  next
    case same: True
    consider (texts) a b where "kind q = Insert (Text a)" "kind p = Insert (Text b)"
      | (ret) a b where "kind q = Retain a" "kind p = Retain b"
      | (other) "merge2 q p = [q, p]"
      by (cases q rule: op_cases; cases p rule: op_cases) (auto simp: merge2_def op_text_def)
    then show ?thesis
    proof cases
      case texts
      with run same show ?thesis by (auto simp: merge2_def op_text_def run_simps)
    next
      case ret
      with run obtain x y z where d: "d = x @ y @ z" "width x = a" "width y = b" "r = z"
        "out = map (format_cell (attributes q)) x @ map (format_cell (attributes p)) y"
        by (auto simp: run_simps)
      with w have "saturating_add a b = width (x @ y)"
        by (simp add: saturating_add_exact)
      with ret same d show ?thesis
        by (auto simp: merge2_def op_text_def run_simps intro!: exI [of _ "x @ y"])
    next
      case other
      with run show ?thesis by simp
    qed
  qed
qed

lemma ops_le_empty: "op_len p = 0 \<Longrightarrow> ops_le [p] []"
  by (cases p rule: op_cases) (auto simp: ops_le_def run_simps)

lemma ops_le_delete_delete:
  assumes "kind l = Delete a" "kind p = Delete b"
  shows "ops_le [l, p] [l\<lparr>kind := Delete (saturating_add a b)\<rparr>]"
  unfolding ops_le_def
proof (intro allI impI)
  fix d out r
  assume w: "width d \<le> usize_max" and "run [l, p] d = Some (out, r)"
  with assms obtain x y where d: "d = x @ y @ r" "width x = a" "width y = b" "out = []"
    by (auto simp: run_simps)
  with w have "saturating_add a b = width (x @ y)" by (simp add: saturating_add_exact)
  with d show "run [l\<lparr>kind := Delete (saturating_add a b)\<rparr>] d = Some (out, r)"
    by (auto simp: run_simps intro!: exI [of _ "x @ y"])
qed

lemma ops_le_delete_insert:
  "kind l = Delete a \<Longrightarrow> kind p = Insert i \<Longrightarrow> ops_le [l, p] [p, l]"
  by (auto simp: ops_le_def run_simps)

lemma ops_le_trans: "ops_le a b \<Longrightarrow> ops_le b c \<Longrightarrow> ops_le a c"
  by (simp add: ops_le_def)

lemma ops_le_push: "ops_le (os @ [p]) (push_ops os p)"
proof (cases p os rule: push_ops_cases)
  case Empty
  then show ?thesis using ops_le_context [OF ops_le_empty, of p os "[]"] by simp
next
  case (DeleteDelete pre l a b)
  then show ?thesis using ops_le_context [OF ops_le_delete_delete, of l a p b pre "[]"] by simp
next
  case (DeleteInsertFirst l a i)
  then show ?thesis using ops_le_delete_insert by simp
next
  case (DeleteInsert pre q l a i)
  have "ops_le (pre @ [q, l, p]) (pre @ [q, p, l])"
    using ops_le_context [OF ops_le_delete_insert, of l a p i "pre @ [q]" "[]"] DeleteInsert by simp
  moreover have "ops_le (pre @ [q, p, l]) (pre @ merge2 q p @ [l])"
    using ops_le_context [OF ops_le_merge2, of pre q p "[l]"] by simp
  ultimately show ?thesis using DeleteInsert by (auto intro: ops_le_trans)
next
  case (Other pre l)
  then show ?thesis using ops_le_context [OF ops_le_merge2, of pre l p "[]"] by simp
qed simp

lemma run_push:
  "run (os @ [p]) d = Some (out, r) \<Longrightarrow> width d \<le> usize_max \<Longrightarrow> run (push_ops os p) d = Some (out, r)"
  using ops_le_push by (auto intro: ops_leD)

text \<open>
  The step every loop proof takes: \<open>out\<close> has consumed \<open>x\<close> and produced \<open>y\<close>, and the new
  op consumes \<open>x'\<close> and produces \<open>y'\<close>.
\<close>

lemma run_push_step:
  assumes "run os x = Some (y, [])" and "run [p] x' = Some (y', [])" and "width (x @ x') \<le> usize_max"
  shows "run (push_ops os p) (x @ x') = Some (y @ y', [])"
proof -
  from run_frame [OF assms(1), of x'] have "run os (x @ x') = Some (y, x')" by simp
  with assms(2) have "run (os @ [p]) (x @ x') = Some (y @ y', [])" by (auto simp: run_append)
  then show ?thesis using assms(3) by (rule run_push)
qed

lemma run_chop:
  assumes "run os d = Some (out, r)"
  shows "\<exists>out' r'. run (chop_ops os) d = Some (out', r') \<and> out' @ r' = out @ r"
proof (cases "os \<noteq> [] \<and> kind_of (last os) = KRetain \<and> attributes (last os) = fmempty")
  case True
  then obtain n where last: "kind (last os) = Retain n" and "os \<noteq> []"
    and empty: "attributes (last os) = fmempty" by auto
  then have "run (butlast os @ [last os]) d = Some (out, r)" using assms by simp
  with last empty obtain o1 x where "run (butlast os) d = Some (o1, x @ r)" "out = o1 @ x"
    by (auto simp: run_append run_simps)
  with True show ?thesis by (simp add: chop_ops_def)
next
  case False
  with assms show ?thesis by (auto simp: chop_ops_def)
qed

lemma apply_chop: "apply_cells os d = Some e \<Longrightarrow> apply_cells (chop_ops os) d = Some e"
  by (auto simp: apply_cells_Some dest: run_chop)

section \<open>push keeps a delta canonical\<close>

definition pos_ops :: "op list \<Rightarrow> bool" where
  "pos_ops os = list_all (\<lambda>p. 0 < op_len p) os"

text \<open>Two text runs that \<open>push\<close> would have merged.\<close>

definition mergeable :: "op \<Rightarrow> op \<Rightarrow> bool" where
  "mergeable p q =
     (op_text p \<noteq> None \<and> op_text q \<noteq> None \<and> attributes p = attributes q)"

definition canonical :: "op list \<Rightarrow> bool" where
  "canonical os = (pos_ops os \<and> successively (\<lambda>p q. \<not> mergeable p q) os)"

lemma pos_ops_simps [simp]:
  "pos_ops []"
  "pos_ops (p # os) \<longleftrightarrow> 0 < op_len p \<and> pos_ops os"
  "pos_ops (os @ qs) \<longleftrightarrow> pos_ops os \<and> pos_ops qs"
  by (simp_all add: pos_ops_def)

lemma canonical_Nil [simp]: "canonical []"
  by (simp add: canonical_def)

lemma mergeable_delete [simp]:
  "kind l = Delete a \<Longrightarrow> \<not> mergeable l p"
  "kind l = Delete a \<Longrightarrow> \<not> mergeable p l"
  by (simp_all add: mergeable_def op_text_def)

lemma merge2_cases [case_names Merged Kept]:
  obtains m where "merge2 q p = [m]" "0 < op_len p \<Longrightarrow> 0 < op_len q \<Longrightarrow> 0 < op_len m"
      "\<And>x. mergeable x m = mergeable x q"
  | "merge2 q p = [q, p]" "\<not> mergeable q p"
proof (cases "attributes q = attributes p")
  case same: True
  consider (texts) a b where "kind q = Insert (Text a)" "kind p = Insert (Text b)"
    | (ret) a b where "kind q = Retain a" "kind p = Retain b"
    | (other) "merge2 q p = [q, p]" "\<not> mergeable q p"
    by (cases q rule: op_cases; cases p rule: op_cases)
      (auto simp: merge2_def op_text_def mergeable_def)
  then show ?thesis
  proof cases
    case texts
    with same show ?thesis
      by (intro that(1) [of "q\<lparr>kind := Insert (Text (a @ b))\<rparr>"])
        (auto simp: merge2_def op_text_def mergeable_def)
  next
    case ret
    with same show ?thesis
      by (intro that(1) [of "q\<lparr>kind := Retain (saturating_add a b)\<rparr>"])
        (auto simp: merge2_def op_text_def mergeable_def saturating_add_pos)
  next
    case other
    then show ?thesis by (rule that(2))
  qed
next
  case False
  then show ?thesis by (intro that(2)) (auto simp: merge2_def mergeable_def)
qed

lemma canonical_push:
  assumes "canonical os"
  shows "canonical (push_ops os p)"
proof (cases p os rule: push_ops_cases)
  case (DeleteDelete pre l a b)
  with assms show ?thesis
    by (auto simp: canonical_def successively_append_iff saturating_add_pos)
next
  case (DeleteInsert pre q l a i)
  then show ?thesis
    using assms
    by (cases rule: merge2_cases [where q = q and p = p]) (auto simp: canonical_def successively_append_iff)
next
  case (Other pre l)
  then show ?thesis
    using assms
    by (cases rule: merge2_cases [where q = l and p = p]) (auto simp: canonical_def successively_append_iff)
qed (use assms in \<open>auto simp: canonical_def\<close>)

lemma canonical_chop: "canonical os \<Longrightarrow> canonical (chop_ops os)"
  by (cases os rule: rev_cases) (auto simp: chop_ops_def canonical_def successively_append_iff)

section \<open>A canonical document is determined by its cells\<close>

lemma run_empty_inserts:
  "run os [] = Some (out, r) \<Longrightarrow> pos_ops os \<Longrightarrow> list_all (\<lambda>p. kind_of p = KInsert) os"
proof (induction os arbitrary: out)
  case (Cons p os)
  then show ?case by (cases "kind p") (auto simp: run_simps)
qed simp

lemma run_document:
  "list_all (\<lambda>p. kind_of p = KInsert) os \<Longrightarrow> run os d = Some (cells \<lparr>ops = os\<rparr>, d)"
proof (induction os)
  case (Cons p os)
  then show ?case by (cases "kind p") (auto simp: run.simps(2) cells_def)
qed (simp add: cells_def)

lemma cells_simps [simp]:
  "cells \<lparr>ops = []\<rparr> = []"
  "cells \<lparr>ops = p # os\<rparr> =
     (case kind p of Insert i \<Rightarrow> insert_cells i (attributes p) | _ \<Rightarrow> []) @ cells \<lparr>ops = os\<rparr>"
  "cells \<lparr>ops = os @ qs\<rparr> = cells \<lparr>ops = os\<rparr> @ cells \<lparr>ops = qs\<rparr>"
  by (simp_all add: cells_def)

text \<open>The first run of a canonical document ends where the next cell cannot belong to it.\<close>

lemma canonical_text_maximal:
  assumes "canonical (p # os)" "list_all (\<lambda>p. kind_of p = KInsert) os" "kind p = Insert (Text s)"
    and "cells \<lparr>ops = os\<rparr> = (IChar u, attributes p) # cs"
  shows False
proof (cases os)
  case Nil
  with assms show ?thesis by simp
next
  case (Cons q qs)
  with assms obtain i where q: "kind q = Insert i" "\<not> mergeable p q" "0 < op_len q"
    by (auto simp: canonical_def)
  then show ?thesis
    using assms Cons
    by (cases i) (auto simp: insert_cells_def mergeable_def op_text_def Cons_eq_append_conv
        utf16_len_pos neq_Nil_conv)
qed

lemma canonical_tl: "canonical (p # os) \<Longrightarrow> canonical os"
  by (auto simp: canonical_def elim: successively.elims)

lemma text_prefix_eq:
  assumes "canonical (p # os)" "list_all (\<lambda>p. kind_of p = KInsert) os"
    "kind p = Insert (Text s)" "attributes p = a"
    and "insert_cells (Text t) a @ cs = insert_cells (Text s) a @ cells \<lparr>ops = os\<rparr>"
  shows "length t \<le> length s"
proof (rule ccontr)
  assume "\<not> length t \<le> length s"
  then have "length s < length t" by simp
  then obtain t' u t'' where t: "t = t' @ u # t''" "length t' = length s"
    by (metis id_take_nth_drop length_take less_imp_le min.absorb2)
  with assms(5) have "(IChar u, a) # insert_cells (Text t'') a @ cs = cells \<lparr>ops = os\<rparr>"
    by (simp add: insert_cells_def)
  with canonical_text_maximal [OF assms(1,2,3)] assms(4) show False by metis
qed

lemma canonical_unique:
  assumes "canonical os" "canonical qs"
    "list_all (\<lambda>p. kind_of p = KInsert) os" "list_all (\<lambda>p. kind_of p = KInsert) qs"
    "cells \<lparr>ops = os\<rparr> = cells \<lparr>ops = qs\<rparr>"
  shows "os = qs"
  using assms
proof (induction os arbitrary: qs)
  case Nil
  show ?case
  proof (cases qs)
    case (Cons q qs')
    then obtain j where "kind q = Insert j" "0 < insert_len j"
      using Nil.prems by (auto simp: canonical_def)
    with Cons Nil.prems(5) show ?thesis by auto
  qed simp
next
  case (Cons p os)
  then obtain i where i: "kind p = Insert i" "0 < insert_len i" by (auto simp: canonical_def)
  with Cons.prems(5) obtain q qs' where qs: "qs = q # qs'" by (cases qs) auto
  with Cons.prems obtain j where j: "kind q = Insert j" "0 < insert_len j" by (auto simp: canonical_def)
  have eq: "insert_cells i (attributes p) @ cells \<lparr>ops = os\<rparr>
      = insert_cells j (attributes q) @ cells \<lparr>ops = qs'\<rparr>"
    using Cons.prems(5) i j qs by simp
  have tails: "canonical os" "canonical qs'" "list_all (\<lambda>p. kind_of p = KInsert) os"
    "list_all (\<lambda>p. kind_of p = KInsert) qs'"
    using Cons.prems qs by (auto dest: canonical_tl)
  have "i = j \<and> attributes p = attributes q \<and> cells \<lparr>ops = os\<rparr> = cells \<lparr>ops = qs'\<rparr>"
  proof (cases i)
    case (Embed v)
    with eq j show ?thesis by (cases j) (auto simp: insert_cells_def Cons_eq_append_conv)
  next
    case (Text s)
    with eq i j obtain t where t: "j = Text t" and a: "attributes p = attributes q"
      by (cases j) (auto simp: insert_cells_def append_eq_Cons_conv utf16_len_pos neq_Nil_conv)
    have "length t \<le> length s"
      using text_prefix_eq [of p os s "attributes p" t] Cons.prems tails Text i eq t a by metis
    moreover have "length s \<le> length t"
      using text_prefix_eq [of q qs' t "attributes q" s] Cons.prems tails Text j eq t a qs by metis
    ultimately show ?thesis
      using eq Text t a by (auto simp: insert_cells_def inj_on_def dest!: map_injective)
  qed
  with tails Cons.IH [of qs'] i j have "os = qs'" "kind p = kind q" "attributes p = attributes q"
    by auto
  with qs show ?case by (simp add: op.equality)
qed

section \<open>Building a delta\<close>

lemma from_ops_le: "ops_le (ops d @ os) (ops (foldl push d os))"
proof (induction os arbitrary: d)
  case (Cons p os)
  have "ops_le ((ops d @ [p]) @ os) (ops (push d p) @ os)"
    using ops_le_context [OF ops_le_push, of "[]" "ops d" p os] by (simp add: push_def)
  then show ?case using Cons ops_le_trans by fastforce
qed simp

section \<open>Properties\<close>



end
