(* ===== verification/Gal_Iter.thy ===== *)
theory Gal_Iter
  imports Gal_Push
begin

text \<open>
  The op iterator against the list of ops it still has to hand out. \<open>remaining it\<close> is that
  list, its first op cut at the current offset; under \<open>iter_ok\<close> the byte offset the
  iterator keeps is the boundary that belongs to its UTF-16 offset, every slice it takes is
  on character boundaries, and \<open>next\<close> is \<open>take_op\<close> on the list.
\<close>

section \<open>The remaining ops\<close>

definition rest_of_op :: "op \<Rightarrow> nat \<Rightarrow> op" where
  "rest_of_op p offset =
     (case kind p of
        Insert (Text s) \<Rightarrow> p\<lparr>kind := Insert (Text (drop_units offset s))\<rparr>
      | Insert (Embed v) \<Rightarrow> p
      | Retain n \<Rightarrow> p\<lparr>kind := Retain (n - offset)\<rparr>
      | Delete n \<Rightarrow> p\<lparr>kind := Delete (n - offset)\<rparr>)"

definition remaining :: "op_iter \<Rightarrow> op list" where
  "remaining it =
     (case it_current it of
        None \<Rightarrow> []
      | Some p \<Rightarrow> rest_of_op p (it_offset it) # drop (Suc (it_index it)) (it_ops it))"

definition bounded_ops :: "op list \<Rightarrow> bool" where
  "bounded_ops os = list_all (\<lambda>p. 0 < op_len p \<and> op_len p < infinity) os"

definition offset_ok :: "op \<Rightarrow> nat \<Rightarrow> nat \<Rightarrow> bool" where
  "offset_ok p offset byte_offset =
     (offset < op_len p
      \<and> (\<forall>s. kind p = Insert (Text s) \<longrightarrow>
            byte_offset = str_len (take_units offset s) \<and> utf16_len (take_units offset s) = offset))"

definition iter_ok :: "op_iter \<Rightarrow> bool" where
  "iter_ok it =
     (bounded_ops (it_ops it)
      \<and> (case it_current it of None \<Rightarrow> True | Some p \<Rightarrow> offset_ok p (it_offset it) (it_byte_offset it)))"

lemma bounded_ops_simps [simp]:
  "bounded_ops []"
  "bounded_ops (p # os) \<longleftrightarrow> 0 < op_len p \<and> op_len p < infinity \<and> bounded_ops os"
  "bounded_ops (os @ qs) \<longleftrightarrow> bounded_ops os \<and> bounded_ops qs"
  by (auto simp: bounded_ops_def)

lemma rest_of_op_0 [simp]: "rest_of_op p 0 = p"
  by (cases p rule: op_cases) (simp_all add: rest_of_op_def)

lemma op_len_rest:
  assumes "offset_ok p offset byte_offset"
  shows "op_len (rest_of_op p offset) = op_len p - offset"
proof (cases p rule: op_cases)
  case (Text s)
  with assms have "utf16_len (take_units offset s) = offset" by (simp add: offset_ok_def)
  moreover have "utf16_len s = utf16_len (take_units offset s) + utf16_len (drop_units offset s)"
    by (metis take_drop_units utf16_len_simps(3))
  ultimately show ?thesis using Text by (simp add: rest_of_op_def op_len_def)
next
  case (Embed v)
  with assms show ?thesis by (simp add: rest_of_op_def offset_ok_def op_len_def)
qed (simp_all add: rest_of_op_def op_len_def)

lemma kind_of_rest [simp]: "kind_of (rest_of_op p offset) = kind_of p"
  by (cases p rule: op_cases) (simp_all add: rest_of_op_def kind_of_def)

lemma offset_ok_0: "0 < op_len p \<Longrightarrow> offset_ok p 0 0"
  by (simp add: offset_ok_def)

lemma iter_ok_at:
  "bounded_ops os \<Longrightarrow> it_ops it = os \<Longrightarrow> it_offset it = 0 \<Longrightarrow> it_byte_offset it = 0 \<Longrightarrow>
   iter_ok it \<and> remaining it = drop (it_index it) os"
  by (auto simp: iter_ok_def remaining_def it_current_def offset_ok_0 bounded_ops_def
      list_all_length Cons_nth_drop_Suc split: option.splits)

lemma iter_new_ok:
  "bounded_ops os \<Longrightarrow> iter_ok (iter_new os)"
  "bounded_ops os \<Longrightarrow> remaining (iter_new os) = os"
  using iter_ok_at [of os "iter_new os"] by (simp_all add: iter_new_def)

section \<open>Peeking\<close>

lemma iter_bounded: "iter_ok it \<Longrightarrow> bounded_ops (remaining it)"
proof (cases "it_current it")
  case (Some p)
  assume ok: "iter_ok it"
  with Some have p: "offset_ok p (it_offset it) (it_byte_offset it)" by (simp add: iter_ok_def)
  from Some have "p \<in> set (it_ops it)" by (auto simp: it_current_def split: if_splits)
  with ok have "op_len p < infinity" by (auto simp: iter_ok_def bounded_ops_def list_all_iff)
  with p have "0 < op_len (rest_of_op p (it_offset it)) \<and> op_len (rest_of_op p (it_offset it)) < infinity"
    by (simp add: op_len_rest) (simp add: offset_ok_def)
  moreover have "bounded_ops (drop (Suc (it_index it)) (it_ops it))"
    using ok by (auto simp: iter_ok_def bounded_ops_def list_all_iff dest: in_set_dropD)
  ultimately show ?thesis using Some by (simp add: remaining_def)
qed (simp add: remaining_def)

lemma peek_length_remaining:
  "iter_ok it \<Longrightarrow> peek_length it = (case remaining it of [] \<Rightarrow> infinity | p # _ \<Rightarrow> op_len p)"
  by (auto simp: peek_length_def remaining_def iter_ok_def op_len_rest split: option.splits)

lemma peek_kind_remaining:
  "peek_kind it = (case remaining it of [] \<Rightarrow> KRetain | p # _ \<Rightarrow> kind_of p)"
  by (auto simp: peek_kind_def remaining_def simp del: kind_of_simps split: option.splits)

lemma has_next_remaining: "iter_ok it \<Longrightarrow> has_next it \<longleftrightarrow> remaining it \<noteq> []"
  using iter_bounded [of it]
  by (auto simp: has_next_def peek_length_remaining split: list.splits)

lemmas peek_remaining = peek_length_remaining peek_kind_remaining has_next_remaining

section \<open>Taking from the front\<close>

text \<open>What \<open>next\<close> hands out for a whole op: a delete loses its (meaningless) attributes.\<close>

definition plain :: "op \<Rightarrow> op" where
  "plain p = (case kind p of Delete n \<Rightarrow> op_delete n | _ \<Rightarrow> p)"

definition take_op :: "op list \<Rightarrow> nat \<Rightarrow> op \<times> op list" where
  "take_op os n =
     (case os of
        [] \<Rightarrow> (op_retain infinity, [])
      | p # qs \<Rightarrow>
          if op_len p \<le> n then (plain p, qs)
          else (case kind p of
                  Retain k \<Rightarrow> (p\<lparr>kind := Retain n\<rparr>, p\<lparr>kind := Retain (k - n)\<rparr> # qs)
                | Delete k \<Rightarrow> (op_delete n, p\<lparr>kind := Delete (k - n)\<rparr> # qs)
                | Insert (Text s) \<Rightarrow>
                    (p\<lparr>kind := Insert (Text (take_units n s))\<rparr>,
                     p\<lparr>kind := Insert (Text (drop_units n s))\<rparr> # qs)
                | Insert (Embed v) \<Rightarrow> (p, p # qs)))"

text \<open>A cut at \<open>n\<close> units does not fall inside a character of the first op.\<close>

definition aligned :: "op list \<Rightarrow> nat \<Rightarrow> bool" where
  "aligned os n =
     (case os of
        p # _ \<Rightarrow> (\<forall>s. kind p = Insert (Text s) \<longrightarrow> n < utf16_len s \<longrightarrow>
                   utf16_len (take_units n s) = n)
      | [] \<Rightarrow> True)"

lemma take_units_add:
  "utf16_len (take_units k s) = k \<Longrightarrow>
   take_units (k + n) s = take_units k s @ take_units n (drop_units k s)
   \<and> drop_units (k + n) s = drop_units n (drop_units k s)"
proof (induction k s rule: take_units.induct)
  case (2 k c s)
  show ?case
  proof (cases "k = 0")
    case False
    with "2.prems" have "len_utf16 c \<le> k" by auto
    with False 2 show ?thesis by (simp add: diff_add_assoc2 flip: add_diff_assoc2)
  qed simp
qed simp

lemma next_piece_text:
  assumes "offset_ok p offset byte_offset" "kind p = Insert (Text s)"
  shows "next_piece p byte_offset taken =
     (p\<lparr>kind := Insert (Text (take_units taken (drop_units offset s)))\<rparr>,
      byte_offset + str_len (take_units taken (drop_units offset s)))"
proof -
  define a where "a = take_units offset s"
  define b where "b = drop_units offset s"
  have s: "s = a @ b" by (simp add: a_def b_def)
  from assms have bo: "byte_offset = str_len a" by (simp add: offset_ok_def a_def)
  have stop: "advance_utf16 s byte_offset taken = byte_offset + str_len (take_units taken b)"
    by (rule advance_utf16_eq [OF s bo])
  have "str_slice s byte_offset (byte_offset + str_len (take_units taken b)) = take_units taken b"
    using str_slice_mid [of a "take_units taken b" "drop_units taken b"] by (simp add: s bo)
  with assms(2) stop show ?thesis
    by (simp add: next_piece_def Let_def op_builders b_def)
qed

text \<open>\<open>next\<close> is \<open>take_op\<close> on the remaining ops.\<close>

lemma iter_next_take_op:
  assumes ok: "iter_ok it" and al: "aligned (remaining it) n" and n: "0 < n"
  shows "fst (iter_next it n) = fst (take_op (remaining it) n)
    \<and> remaining (snd (iter_next it n)) = snd (take_op (remaining it) n)
    \<and> iter_ok (snd (iter_next it n))"
proof (cases "it_current it")
  case None
  then show ?thesis using ok by (simp add: remaining_def iter_next_def take_op_def)
next
  case (Some p)
  define off where "off = it_offset it"
  define byt where "byt = it_byte_offset it"
  define qs where "qs = drop (Suc (it_index it)) (it_ops it)"
  have p: "offset_ok p off byt" using ok Some by (simp add: iter_ok_def off_def byt_def)
  have len: "op_len (rest_of_op p off) = op_len p - off" using p by (rule op_len_rest)
  have off: "off < op_len p" using p by (simp add: offset_ok_def)
  have bnd: "bounded_ops (it_ops it)" using ok by (simp add: iter_ok_def)
  have rem: "remaining it = rest_of_op p off # qs"
    using Some by (simp add: remaining_def off_def qs_def)
  show ?thesis
  proof (cases "op_len p - off \<le> n")
    case True
    define it' where "it' = it\<lparr>it_index := it_index it + 1, it_offset := 0, it_byte_offset := 0\<rparr>"
    have next': "iter_next it n = (fst (next_piece p byt (op_len p - off)), it')"
      using Some True off
      by (simp add: iter_next_def it'_def off_def byt_def Let_def min_def split: prod.splits)
    have "iter_ok it' \<and> remaining it' = qs"
      using iter_ok_at [OF bnd, of it'] by (simp add: it'_def qs_def)
    moreover have "fst (next_piece p byt (op_len p - off)) = plain (rest_of_op p off)"
    proof (cases p rule: op_cases)
      case (Text s)
      have "utf16_len (drop_units off s) = op_len p - off"
        using len Text by (simp add: rest_of_op_def)
      then have "take_units (op_len p - off) (drop_units off s) = drop_units off s"
        by (simp add: take_units_all)
      with Text p show ?thesis by (simp add: next_piece_text plain_def rest_of_op_def)
    qed (use off in \<open>simp_all add: next_piece_def plain_def rest_of_op_def op_builders\<close>)
    ultimately show ?thesis using next' True len by (simp add: rem take_op_def)
  next
    case False
    define byt' where "byt' = snd (next_piece p byt n)"
    define it' where "it' = it\<lparr>it_offset := off + n, it_byte_offset := byt'\<rparr>"
    have next': "iter_next it n = (fst (next_piece p byt n), it')"
      using Some False off
      by (simp add: iter_next_def it'_def byt'_def off_def byt_def Let_def min_def
          split: prod.splits)
    have cur': "it_current it' = Some p" using Some by (auto simp: it'_def it_current_def split: if_splits)
    have ok': "offset_ok p (off + n) byt'
      \<and> fst (next_piece p byt n) = fst (take_op (remaining it) n)
      \<and> rest_of_op p (off + n) # qs = snd (take_op (remaining it) n)"
    proof (cases p rule: op_cases)
      case (Text s)
      have cut: "utf16_len (take_units n (drop_units off s)) = n"
        using al False len Text by (simp add: rem aligned_def rest_of_op_def)
      have off': "utf16_len (take_units off s) = off" "byt = str_len (take_units off s)"
        using p Text by (simp_all add: offset_ok_def)
      note add = take_units_add [OF off'(1), of n]
      have piece: "next_piece p byt n = (p\<lparr>kind := Insert (Text (take_units n (drop_units off s)))\<rparr>,
          byt + str_len (take_units n (drop_units off s)))"
        using p Text by (rule next_piece_text)
      then have "offset_ok p (off + n) byt'"
        using Text False cut off' add by (simp add: offset_ok_def byt'_def)
      with piece Text False len add show ?thesis
        by (simp add: rem take_op_def rest_of_op_def)
    next
      case (Embed v)
      with False off n show ?thesis by simp
    next
      case (Retain k)
      with False n show ?thesis
        by (simp add: rem take_op_def rest_of_op_def offset_ok_def next_piece_def op_builders)
    next
      case (Delete k)
      with False n show ?thesis
        by (simp add: rem take_op_def rest_of_op_def offset_ok_def next_piece_def op_builders)
    qed
    have "iter_ok it'" using ok' bnd cur' by (simp add: iter_ok_def it'_def)
    moreover have "remaining it' = rest_of_op p (off + n) # qs"
      using cur' by (simp add: remaining_def it'_def qs_def)
    ultimately show ?thesis using next' ok' by simp
  qed
qed

lemma iter_next_infinity:
  assumes "iter_ok it" and "remaining it = p # qs"
  shows "fst (iter_next it infinity) = plain p \<and> remaining (snd (iter_next it infinity)) = qs
    \<and> iter_ok (snd (iter_next it infinity))"
proof -
  from assms iter_bounded [of it] have "op_len p < infinity" by simp
  moreover from this have "aligned (remaining it) infinity"
    by (auto simp: assms(2) aligned_def)
  ultimately show ?thesis
    using iter_next_take_op [OF assms(1), of infinity] by (simp add: assms(2) take_op_def)
qed

end
