(* ===== verification/Gal_Compose.thy ===== *)
theory Gal_Compose
  imports Gal_Iter
begin

text \<open>
  \<open>compose\<close> against the specification: composing two changes is doing one and then the
  other, and composing a document with a change gives the canonical document after the
  change.
\<close>

section \<open>One step of a change\<close>

lemma apply_Nil [simp]: "apply_cells [] d = Some d"
  by (simp add: apply_cells_def)

lemma apply_Insert:
  "kind p = Insert i \<Longrightarrow>
   apply_cells (p # os) d = Some e \<longleftrightarrow>
     (\<exists>e'. apply_cells os d = Some e' \<and> e = insert_cells i (attributes p) @ e')"
  by (auto simp: apply_cells_Some run_simps)

lemma apply_Retain:
  "kind p = Retain n \<Longrightarrow>
   apply_cells (p # os) d = Some e \<longleftrightarrow>
     (\<exists>x y e'. d = x @ y \<and> width x = n \<and> apply_cells os y = Some e'
        \<and> e = map (format_cell (attributes p)) x @ e')"
  by (fastforce simp: apply_cells_Some run_simps)

lemma apply_Delete:
  "kind p = Delete n \<Longrightarrow>
   apply_cells (p # os) d = Some e \<longleftrightarrow>
     (\<exists>x y. d = x @ y \<and> width x = n \<and> apply_cells os y = Some e)"
  by (auto simp: apply_cells_Some run_simps)

text \<open>What a retain or a delete leaves of the cells it covers.\<close>

definition effect :: "op \<Rightarrow> cell list \<Rightarrow> cell list" where
  "effect p x = (if kind_of p = KDelete then [] else map (format_cell (attributes p)) x)"

text \<open>
  Taking \<open>n\<close> units from a side that does not start with an insert: the piece acts on the
  first \<open>n\<close> units of the document, the rest of the ops on the rest. An exhausted side
  leaves the document as it is.
\<close>

lemma take_op_apply:
  assumes "apply_cells os d = Some e" and "d = x @ y" and "width x = n" and "0 < n"
    and "os = [] \<or> (kind_of (hd os) \<noteq> KInsert \<and> n \<le> op_len (hd os))"
  shows "\<exists>e'. apply_cells (snd (take_op os n)) y = Some e'
    \<and> e = effect (fst (take_op os n)) x @ e'
    \<and> kind_of (fst (take_op os n)) \<noteq> KInsert"
proof (cases os)
  case Nil
  with assms show ?thesis by (simp add: take_op_def effect_def op_builders)
next
  case (Cons p qs)
  with assms(5) have kp: "\<not> (\<exists>i. kind p = Insert i)" and le: "n \<le> op_len p" by auto
  show ?thesis
  proof (cases "kind p")
    case (Insert i)
    with kp show ?thesis by simp
  next
    case (Retain k)
    with assms(1) Cons obtain u v e' where u: "d = u @ v" "width u = k"
      "apply_cells qs v = Some e'" "e = map (format_cell (attributes p)) u @ e'"
      by (auto simp: apply_Retain)
    with assms(2,3) le Retain obtain z where z: "u = x @ z" "y = z @ v"
      using width_split_left [of x y u v] by auto
    show ?thesis
    proof (cases "k = n")
      case True
      with z u assms(3) have "z = []" by simp
      with True Retain Cons u z show ?thesis by (simp add: take_op_def plain_def effect_def)
    next
      case False
      have "apply_cells (p\<lparr>kind := Retain (k - n)\<rparr> # qs) y
          = Some (map (format_cell (attributes p)) z @ e')"
        using u z assms(3) by (fastforce simp: apply_Retain)
      with False le Retain Cons u z show ?thesis by (simp add: take_op_def effect_def)
    qed
  next
    case (Delete k)
    with assms(1) Cons obtain u v where u: "d = u @ v" "width u = k" "apply_cells qs v = Some e"
      by (auto simp: apply_Delete)
    with assms(2,3) le Delete obtain z where z: "u = x @ z" "y = z @ v"
      using width_split_left [of x y u v] by auto
    show ?thesis
    proof (cases "k = n")
      case True
      with z u assms(3) have "z = []" by simp
      with True Delete Cons u z show ?thesis
        by (simp add: take_op_def plain_def effect_def op_builders)
    next
      case False
      have "apply_cells (p\<lparr>kind := Delete (k - n)\<rparr> # qs) y = Some e"
        using u z assms(3) by (fastforce simp: apply_Delete)
      with False le Delete Cons u z show ?thesis
        by (simp add: take_op_def effect_def op_builders)
    qed
  qed
qed

text \<open>The same for a side that starts with an insert: the piece inserts the first \<open>n\<close> units.\<close>

lemma take_op_insert:
  assumes "apply_cells (p # qs) d = Some e" and "kind p = Insert i" and "e = x @ y"
    and "width x = n" and "0 < n" and "n \<le> op_len p"
  shows "aligned (p # qs) n
    \<and> (\<exists>j. kind (fst (take_op (p # qs) n)) = Insert j
         \<and> attributes (fst (take_op (p # qs) n)) = attributes p
         \<and> insert_cells j (attributes p) = x
         \<and> apply_cells (snd (take_op (p # qs) n)) d = Some y)"
proof -
  obtain e' where e': "apply_cells qs d = Some e'"
    "e = insert_cells i (attributes p) @ e'" using assms(1,2) by (auto simp: apply_Insert)
  have "width x \<le> width (insert_cells i (attributes p))" using assms by simp
  then obtain z where z: "insert_cells i (attributes p) = x @ z" "y = z @ e'"
    using width_split_left [of x y "insert_cells i (attributes p)" e'] e'(2) assms(3) by auto
  then have w: "insert_len i = n + width z" using assms(4) by (metis width_insert_cells width_simps(3))
  show ?thesis
  proof (cases "z = []")
    case True
    with w z e' assms show ?thesis by (auto simp: take_op_def plain_def aligned_def)
  next
    case False
    then have "0 < width z" by (simp add: zero_less_iff_neq_zero)
    show ?thesis
    proof (cases i)
      case (Embed v)
      with w \<open>0 < width z\<close> assms(5) show ?thesis by simp
    next
      case (Text s)
      from z Text have "map (\<lambda>u. (IChar u, attributes p)) s = x @ z" by (simp add: insert_cells_def)
      then obtain a b where ab: "s = a @ b" "x = insert_cells (Text a) (attributes p)"
        "z = insert_cells (Text b) (attributes p)"
        by (auto simp: map_eq_append_conv insert_cells_def)
      with assms(4) have a: "utf16_len a = n" by simp
      have "utf16_len s \<noteq> n" "n < utf16_len s" using ab a False by (auto simp: utf16_len_pos)
      with ab a Text assms(2) e' z show ?thesis
        by (auto simp: aligned_def take_op_def apply_Insert)
    qed
  qed
qed

section \<open>The loop\<close>

lemma run_emit_push:
  assumes "run (ops out) x = Some (y, [])" and "run [p] x' = Some (y', [])"
    and "width (x @ x') \<le> usize_max"
  shows "run (ops (push out p)) (x @ x') = Some (y @ y', [])"
  using run_push_step [OF assms] by (simp add: push_def)

lemma run_emit_push0:
  "run (ops out) x = Some (y, []) \<Longrightarrow> run [p] [] = Some (y', []) \<Longrightarrow> width x \<le> usize_max \<Longrightarrow>
   run (ops (push out p)) x = Some (y @ y', [])"
  using run_emit_push [of out x y p "[]" y'] by simp

lemma run_single [simp]:
  "kind p = Insert i \<Longrightarrow> run [p] [] = Some (insert_cells i (attributes p), [])"
  "kind p = Retain n \<Longrightarrow> width x = n \<Longrightarrow> run [p] x = Some (map (format_cell (attributes p)) x, [])"
  "kind p = Delete n \<Longrightarrow> width x = n \<Longrightarrow> run [p] x = Some ([], [])"
  by (auto simp: run_simps)

lemma plain_simps [simp]:
  "kind p = Insert i \<Longrightarrow> plain p = p"
  "kind p = Retain n \<Longrightarrow> plain p = p"
  "kind p = Delete n \<Longrightarrow> plain p = op_delete n"
  by (simp_all add: plain_def)

section \<open>One round of the loop\<close>

text \<open>The lists the loop works on, read through the iterators.\<close>

definition peek :: "op list \<Rightarrow> nat" where
  "peek os = (case os of [] \<Rightarrow> infinity | p # _ \<Rightarrow> op_len p)"

definition starts :: "kind_tag \<Rightarrow> op list \<Rightarrow> bool" where
  "starts k os = (case os of [] \<Rightarrow> False | p # _ \<Rightarrow> kind_of p = k)"

lemma peek_simps [simp]: "peek [] = infinity" "peek (p # os) = op_len p"
  by (simp_all add: peek_def)

lemma starts_simps [simp]: "\<not> starts k []" "starts k (p # os) \<longleftrightarrow> kind_of p = k"
  by (simp_all add: starts_def)

lemma starts_iter:
  "peek_kind it = KInsert \<longleftrightarrow> starts KInsert (remaining it)"
  "peek_kind it = KDelete \<longleftrightarrow> starts KDelete (remaining it)"
  by (simp_all add: peek_kind_remaining starts_def split: list.splits)

lemma peek_iter: "iter_ok it \<Longrightarrow> peek_length it = peek (remaining it)"
  by (simp add: peek_length_remaining peek_def)

lemma starts_insertE:
  assumes "starts KInsert os"
  obtains p qs i where "os = p # qs" "kind p = Insert i"
  using assms by (cases os) auto

lemma starts_deleteE:
  assumes "starts KDelete os"
  obtains p qs n where "os = p # qs" "kind p = Delete n"
  using assms by (cases os) auto

lemma aligned_no_insert: "\<not> starts KInsert os \<Longrightarrow> aligned os n"
  by (cases os) (auto simp: aligned_def)

lemma min_peek_bounds:
  assumes "bounded_ops as" "bounded_ops bs" "as \<noteq> [] \<or> bs \<noteq> []"
  shows "0 < min (peek as) (peek bs)" "min (peek as) (peek bs) < infinity"
  using assms by (cases as; cases bs; auto)+

text \<open>The first op of a change covers its length of the document, or brings it along.\<close>

lemma first_covers:
  assumes "apply_cells (p # qs) d = Some e"
  shows "(\<exists>x y. e = x @ y \<and> width x = op_len p) \<or> starts KDelete (p # qs)"
  using assms by (cases "kind p") (fastforce simp: apply_Insert apply_Retain)+

lemma first_consumes:
  assumes "apply_cells (p # qs) d = Some e"
  shows "(\<exists>x y. d = x @ y \<and> width x = op_len p) \<or> starts KInsert (p # qs)"
  using assms by (cases "kind p") (fastforce simp: apply_Retain apply_Delete)+

lemma round_split:
  assumes "apply_cells as d = Some m" "apply_cells bs m = Some e"
    and "\<not> starts KInsert bs" "\<not> starts KDelete as" "as \<noteq> [] \<or> bs \<noteq> []"
    and "n = min (peek as) (peek bs)" "n < infinity"
  obtains xm ym where "m = xm @ ym" "width xm = n"
proof (cases "n = peek as")
  case True
  with assms(7) obtain p qs where "as = p # qs" by (cases as) auto
  with True assms first_covers [of p qs d m] that show ?thesis by auto
next
  case False
  with assms(6,7) have "n = peek bs" by (auto simp: min_def split: if_splits)
  with assms(7) obtain p qs where "bs = p # qs" by (cases bs) auto
  with \<open>n = peek bs\<close> assms first_consumes [of p qs m e] that show ?thesis by auto
qed

text \<open>Taken pieces keep their kind, and a taken retain or delete has the length asked for.\<close>

lemma take_op_kind:
  assumes "os \<noteq> []" "n \<le> op_len (hd os)"
  shows "kind (hd os) = Retain k \<Longrightarrow> kind (fst (take_op os n)) = Retain n"
    and "kind (hd os) = Delete k \<Longrightarrow> kind (fst (take_op os n)) = Delete n"
  using assms by (cases os; auto simp: take_op_def plain_def op_builders)+

lemma take_op_delete_len:
  assumes "\<not> starts KInsert os" "n \<le> peek os" "kind (fst (take_op os n)) = Delete k"
  shows "k = n"
proof (cases os)
  case (Cons p qs)
  with assms show ?thesis
    by (cases "kind p") (auto simp: take_op_def op_builders split: if_splits)
qed (use assms in \<open>simp add: take_op_def op_builders\<close>)

lemma emit_over_insert:
  assumes "kind pa = Insert j" "kind_of pb \<noteq> KInsert"
    and "run (ops out) x = Some (y, [])" "width x \<le> usize_max"
  shows "run (ops (compose_emit out pa pb n)) x
    = Some (y @ effect pb (insert_cells j (attributes pa)), [])"
proof (cases "kind pb")
  case (Retain k)
  with assms show ?thesis
    by (auto simp: compose_emit_def Let_def effect_def kind_of_def format_insert_cells
        intro!: run_emit_push0)
qed (use assms in \<open>auto simp: compose_emit_def effect_def kind_of_def\<close>)

lemma emit_over_retain:
  assumes "kind pa = Retain k" "kind_of pb \<noteq> KInsert" "\<And>l. kind pb = Delete l \<Longrightarrow> l = width xd"
    and "run (ops out) x = Some (y, [])" "width (x @ xd) \<le> usize_max"
  shows "run (ops (compose_emit out pa pb (width xd))) (x @ xd)
    = Some (y @ effect pb (map (format_cell (attributes pa)) xd), [])"
proof (cases "kind pb")
  case (Retain l)
  with assms(1,4,5) show ?thesis
    by (auto simp: compose_emit_def Let_def effect_def kind_of_def format_format
        intro!: run_emit_push)
next
  case (Delete l)
  then have "kind pb = Delete (width xd)" using assms(3) by blast
  with assms(1,4,5) run_emit_push [of out x y pb xd "[]"] show ?thesis
    by (auto simp: compose_emit_def effect_def kind_of_def)
qed (use assms(2) in simp)

text \<open>Read backwards, the cells a retained piece produced come from as many base cells.\<close>

lemma retain_preimage:
  assumes "apply_cells as d = Some (xm @ ym)" "\<not> starts KInsert as" "\<not> starts KDelete as"
    and "width xm \<le> peek as"
  obtains xd yd where "d = xd @ yd" "width xd = width xm"
proof (cases as)
  case Nil
  with assms that show ?thesis by auto
next
  case (Cons p qs)
  with assms obtain k u v e' where u: "d = u @ v" "width u = k" "kind p = Retain k"
    "xm @ ym = map (format_cell (attributes p)) u @ e'"
    by (cases "kind p") (auto simp: apply_Retain)
  with assms(4) Cons obtain z where "map (format_cell (attributes p)) u = xm @ z"
    using width_split_left [of xm ym "map (format_cell (attributes p)) u" e'] by auto
  then obtain u1 u2 where "u = u1 @ u2" "xm = map (format_cell (attributes p)) u1"
    by (auto simp: map_eq_append_conv)
  with u that [of u1 "u2 @ v"] show ?thesis by auto
qed

lemma take_op_retain:
  assumes "\<not> starts KInsert os" "\<not> starts KDelete os" "n \<le> peek os"
  shows "\<exists>k. kind (fst (take_op os n)) = Retain k"
proof (cases os)
  case (Cons p qs)
  with assms show ?thesis by (cases "kind p") (auto simp: take_op_def)
qed (simp add: take_op_def op_builders)

text \<open>
  The round as a whole: with \<open>n\<close> units taken from both sides, what the round appends to
  \<open>out\<close> consumes \<open>xd\<close> of the base and produces what \<open>b\<close>'s piece leaves of the cells
  \<open>xm\<close> that \<open>a\<close>'s piece produced.
\<close>

lemma compose_round:
  assumes a: "apply_cells as d = Some m" and b: "apply_cells bs m = Some e"
    and heads: "\<not> starts KInsert bs" "\<not> starts KDelete as"
    and n: "n = min (peek as) (peek bs)" "0 < n" "n < infinity" and ne: "as \<noteq> [] \<or> bs \<noteq> []"
    and out: "run (ops out) x = Some (y, [])" "width (x @ d) \<le> usize_max"
  shows "\<exists>xd yd ym e' eff. d = xd @ yd \<and> aligned as n \<and> e = eff @ e'
    \<and> apply_cells (snd (take_op as n)) yd = Some ym \<and> apply_cells (snd (take_op bs n)) ym = Some e'
    \<and> run (ops (compose_emit out (fst (take_op as n)) (fst (take_op bs n)) n)) (x @ xd)
        = Some (y @ eff, [])"
proof -
  obtain xm ym where m: "m = xm @ ym" "width xm = n"
    using round_split [OF a b heads ne n(1,3)] by blast
  have hb: "bs = [] \<or> (kind_of (hd bs) \<noteq> KInsert \<and> n \<le> op_len (hd bs))"
    using heads(1) n(1) by (cases bs) auto
  obtain e' where e': "apply_cells (snd (take_op bs n)) ym = Some e'"
    "e = effect (fst (take_op bs n)) xm @ e'" "kind_of (fst (take_op bs n)) \<noteq> KInsert"
    using take_op_apply [OF b m n(2) hb] by auto
  show ?thesis
  proof (cases "starts KInsert as")
    case True
    then obtain p qs i where as: "as = p # qs" "kind p = Insert i" by (rule starts_insertE)
    with a m n obtain j where j: "aligned as n" "kind (fst (take_op as n)) = Insert j"
      "insert_cells j (attributes (fst (take_op as n))) = xm"
      "apply_cells (snd (take_op as n)) d = Some ym"
      using take_op_insert [of p qs d m i xm ym n] by auto
    with emit_over_insert [OF j(2) e'(3) out(1)] out(2) e' show ?thesis
      by (intro exI [of _ "[]"] exI [of _ d] exI [of _ ym] exI [of _ e'] exI) auto
  next
    case False
    obtain xd yd where d: "d = xd @ yd" "width xd = n"
      using retain_preimage [of as d xm ym] a m False heads(2) n(1) by auto
    have ha: "as = [] \<or> (kind_of (hd as) \<noteq> KInsert \<and> n \<le> op_len (hd as))"
      using False n(1) by (cases as) auto
    obtain m' where m': "apply_cells (snd (take_op as n)) yd = Some m'"
      "m = effect (fst (take_op as n)) xd @ m'"
      using take_op_apply [OF a d n(2) ha] by auto
    obtain k where k: "kind (fst (take_op as n)) = Retain k"
      using take_op_retain [OF False heads(2), of n] n(1) by auto
    then have "xm = map (format_cell (attributes (fst (take_op as n)))) xd" "ym = m'"
      using width_split_unique [of xm ym "effect (fst (take_op as n)) xd" m'] m m' d
      by (auto simp: effect_def kind_of_def)
    moreover have "l = width xd" if "kind (fst (take_op bs n)) = Delete l" for l
      using take_op_delete_len [OF heads(1) _ that] n(1) d by auto
    ultimately show ?thesis
      using emit_over_retain [OF k e'(3) _ out(1), of xd] out(2) e' d m' False
      by (intro exI [of _ xd] exI [of _ yd] exI [of _ ym] exI [of _ e'] exI)
        (auto simp: aligned_no_insert)
  qed
qed

section \<open>The loop\<close>

text \<open>
  The invariant of the loop: \<open>out\<close> has consumed \<open>x\<close> of the base and produced \<open>y\<close>; what is
  left of \<open>a\<close> turns the rest \<open>d\<close> of the base into \<open>m\<close>, and what is left of \<open>b\<close> turns
  \<open>m\<close> into \<open>e\<close>.
\<close>

lemma compose_loop_apply:
  assumes "iter_ok ia" "iter_ok ib"
    and "run (ops out) x = Some (y, [])"
    and "apply_cells (remaining ia) d = Some m" "apply_cells (remaining ib) m = Some e"
    and "width (x @ d) \<le> usize_max"
  shows "apply_cells (ops (compose_loop ia ib out)) (x @ d) = Some (y @ e)"
  using assms
proof (induction ia ib out arbitrary: x y d m e rule: compose_loop.induct)
  case (1 ia ib out)
  note prems = "1.prems"
  note nexts = has_next_remaining [OF prems(1)] has_next_remaining [OF prems(2)]
  consider (stop) "remaining ia = []" "remaining ib = []"
    | (ins) "has_next ia \<or> has_next ib" "peek_kind ib = KInsert"
    | (del) "has_next ia \<or> has_next ib" "peek_kind ib \<noteq> KInsert" "peek_kind ia = KDelete"
    | (both) "has_next ia \<or> has_next ib" "peek_kind ib \<noteq> KInsert" "peek_kind ia \<noteq> KDelete"
    using nexts by blast
  then show ?case
  proof cases
    case stop
    with prems run_frame [OF prems(3), of d] nexts show ?thesis
      by (subst compose_loop.simps) (auto simp: apply_cells_Some)
  next
    case ins
    then obtain p qs i where b: "remaining ib = p # qs" "kind p = Insert i"
      by (auto simp: starts_iter elim: starts_insertE)
    note nx = iter_next_infinity [OF prems(2) b(1)]
    obtain e' where e': "apply_cells qs m = Some e'" "e = insert_cells i (attributes p) @ e'"
      using prems(5) b by (auto simp: apply_Insert)
    have "run (ops (push out (fst (iter_next ib infinity)))) x
        = Some (y @ insert_cells i (attributes p), [])"
      using nx b prems(3,6) by (intro run_emit_push0) auto
    with "1.IH"(1) [OF ins prems(1) _ this prems(4) _ prems(6), of e'] nx e' ins show ?thesis
      by (subst compose_loop.simps) simp
  next
    case del
    then obtain p qs n where a: "remaining ia = p # qs" "kind p = Delete n"
      by (auto simp: starts_iter elim: starts_deleteE)
    note nx = iter_next_infinity [OF prems(1) a(1)]
    obtain u v where u: "d = u @ v" "width u = n" "apply_cells qs v = Some m"
      using prems(4) a by (auto simp: apply_Delete)
    have "run (ops (push out (fst (iter_next ia infinity)))) (x @ u) = Some (y, [])"
      using run_emit_push [of out x y "fst (iter_next ia infinity)" u "[]"] nx a prems(3,6) u
      by (auto simp: op_builders)
    with "1.IH"(2) [OF del _ prems(2) this _ prems(5), of v] nx u prems(6) del show ?thesis
      by (subst compose_loop.simps) simp
  next
    case both
    define n where "n = min (peek_length ia) (peek_length ib)"
    have n': "n = min (peek (remaining ia)) (peek (remaining ib))"
      using prems(1,2) by (simp add: n_def peek_iter)
    have ne: "remaining ia \<noteq> [] \<or> remaining ib \<noteq> []" using both(1) nexts by auto
    have heads: "\<not> starts KInsert (remaining ib)" "\<not> starts KDelete (remaining ia)"
      using both by (auto simp: starts_iter)
    have n: "0 < n" "n < infinity"
      using min_peek_bounds [OF iter_bounded iter_bounded ne] prems(1,2) n' by auto
    obtain xd yd ym e' eff where step: "d = xd @ yd" "aligned (remaining ia) n" "e = eff @ e'"
      "apply_cells (snd (take_op (remaining ia) n)) yd = Some ym"
      "apply_cells (snd (take_op (remaining ib) n)) ym = Some e'"
      "run (ops (compose_emit out (fst (take_op (remaining ia) n))
          (fst (take_op (remaining ib) n)) n)) (x @ xd) = Some (y @ eff, [])"
      using compose_round [OF prems(4,5) heads n' n ne prems(3,6)] by blast
    note na = iter_next_take_op [OF prems(1) step(2) n(1)]
    note nb = iter_next_take_op [OF prems(2) aligned_no_insert [OF heads(1)] n(1)]
    have "apply_cells (ops (compose_loop (snd (iter_next ia n)) (snd (iter_next ib n))
        (compose_emit out (fst (iter_next ia n)) (fst (iter_next ib n)) n))) ((x @ xd) @ yd)
        = Some ((y @ eff) @ e')"
      using na nb step prems(6) by (intro "1.IH"(3) [OF both n_def]) auto
    with step(1,3) both show ?thesis
      by (subst compose_loop.simps) (simp add: Let_def n_def)
  qed
qed

section \<open>compose\<close>

text \<open>
  \<open>takes ch d e\<close>: the change \<open>ch\<close>, which has no empty op, turns the document \<open>d\<close> into
  \<open>e\<close>, and both are shorter than the sentinel \<open>usize::MAX\<close>.
\<close>

definition takes :: "delta \<Rightarrow> cell list \<Rightarrow> cell list \<Rightarrow> bool" where
  "takes ch d e =
     (pos_ops (ops ch) \<and> apply_cells (ops ch) d = Some e \<and> width d < infinity \<and> width e < infinity)"

lemma pos_run_bounded:
  "pos_ops os \<Longrightarrow> apply_cells os d = Some e \<Longrightarrow> width d < infinity \<Longrightarrow> width e < infinity \<Longrightarrow>
   bounded_ops os"
proof (induction os arbitrary: d e)
  case (Cons p os)
  show ?case
  proof (cases "kind p")
    case (Insert i)
    with Cons.prems obtain e' where "apply_cells os d = Some e'" "e = insert_cells i (attributes p) @ e'"
      by (auto simp: apply_Insert)
    with Insert Cons.IH [of d e'] Cons.prems show ?thesis by auto
  next
    case (Retain n)
    with Cons.prems obtain x y e' where "d = x @ y" "width x = n" "apply_cells os y = Some e'"
      "e = map (format_cell (attributes p)) x @ e'" by (auto simp: apply_Retain)
    with Retain Cons.IH [of y e'] Cons.prems show ?thesis by auto
  next
    case (Delete n)
    with Cons.prems obtain x y where "d = x @ y" "width x = n" "apply_cells os y = Some e"
      by (auto simp: apply_Delete)
    with Delete Cons.IH [of y e] Cons.prems show ?thesis by auto
  qed
qed simp

lemma takes_bounded: "takes ch d e \<Longrightarrow> bounded_ops (ops ch)"
  by (auto simp: takes_def intro: pos_run_bounded)

lemma takes_iter:
  assumes "takes ch d e"
  shows "iter_ok (iter_new (ops ch))" "remaining (iter_new (ops ch)) = ops ch"
  using takes_bounded [OF assms] by (simp_all add: iter_new_ok)

lemma canonical_push_delta: "canonical (ops d) \<Longrightarrow> canonical (ops (push d p))"
  by (simp add: push_def canonical_push)

lemma canonical_compose_emit:
  "canonical (ops out) \<Longrightarrow> canonical (ops (compose_emit out pa pb n))"
  by (auto simp: compose_emit_def Let_def canonical_push_delta split: op_kind.splits)

lemma canonical_compose_loop:
  "canonical (ops out) \<Longrightarrow> canonical (ops (compose_loop ia ib out))"
proof (induction ia ib out rule: compose_loop.induct)
  case (1 ia ib out)
  show ?case
    by (subst compose_loop.simps)
      (auto simp: Let_def 1 canonical_push_delta canonical_compose_emit)
qed

lemma canonical_compose: "canonical (ops (compose a b))"
  by (simp add: compose_def chop_def canonical_chop canonical_compose_loop delta_new_def)

lemma canonical_pos: "canonical os \<Longrightarrow> pos_ops os"
  by (simp add: canonical_def)

lemma compose_takes:
  assumes "takes a d m" "takes b m e"
  shows "takes (compose a b) d e"
proof -
  have "apply_cells (ops (compose_loop (iter_new (ops a)) (iter_new (ops b)) delta_new)) ([] @ d)
      = Some ([] @ e)"
    using assms takes_iter [OF assms(1)] takes_iter [OF assms(2)]
    by (intro compose_loop_apply) (auto simp: takes_def delta_new_def)
  then have "apply_cells (ops (compose a b)) d = Some e"
    by (simp add: compose_def chop_def apply_chop)
  with assms show ?thesis
    by (simp add: takes_def canonical_pos canonical_compose)
qed

section \<open>Documents\<close>

definition proper_doc :: "delta \<Rightarrow> bool" where
  "proper_doc d = (is_document d \<and> pos_ops (ops d) \<and> width (cells d) < infinity)"

definition canonical_doc :: "delta \<Rightarrow> bool" where
  "canonical_doc d = (is_document d \<and> canonical (ops d) \<and> width (cells d) < infinity)"

lemma canonical_doc_proper: "canonical_doc d \<Longrightarrow> proper_doc d"
  by (simp add: canonical_doc_def proper_doc_def canonical_pos)

lemma delta_surj [simp]: "\<lparr>ops = ops d\<rparr> = d"
  by simp

lemma doc_takes: "proper_doc d \<Longrightarrow> takes d [] (cells d)"
  using run_document [of "ops d" "[]"]
  by (auto simp: takes_def proper_doc_def is_document_def apply_cells_Some simp del: kind_of_simps)

lemma takes_empty_doc:
  assumes "takes d [] e" "canonical (ops d)"
  shows "canonical_doc d" "cells d = e"
proof -
  from assms obtain out r where run: "run (ops d) [] = Some (out, r)" "e = out @ r"
    by (auto simp: takes_def apply_cells_Some)
  with assms have ins: "list_all (\<lambda>p. kind_of p = KInsert) (ops d)"
    by (intro run_empty_inserts) (auto simp: takes_def)
  with run run_document [OF ins, of "[]"] show "cells d = e" by simp
  with assms ins show "canonical_doc d"
    by (simp add: canonical_doc_def is_document_def takes_def)
qed

lemma compose_doc:
  assumes "proper_doc doc" "takes ch (cells doc) e"
  shows "canonical_doc (compose doc ch)" "cells (compose doc ch) = e"
  using takes_empty_doc [OF compose_takes [OF doc_takes [OF assms(1)] assms(2)] canonical_compose]
  by auto

lemma canonical_doc_eqI:
  assumes "canonical_doc d" "canonical_doc d'" "cells d = cells d'"
  shows "d = d'"
proof -
  have "ops d = ops d'"
    using canonical_unique [of "ops d" "ops d'"] assms
    by (simp add: canonical_doc_def is_document_def)
  then show ?thesis by (simp add: delta.equality)
qed

lemma cells_new [simp]: "cells delta_new = []"
  by (simp add: cells_def delta_new_def)

lemma canonical_doc_new [simp]: "canonical_doc delta_new"
  using usize_max_pos
  by (simp add: canonical_doc_def is_document_def del: cells_def) (simp add: delta_new_def)

section \<open>Measurements\<close>

lemma sum_saturating_min:
  "a \<le> usize_max \<Longrightarrow> foldl saturating_add a ns = min (a + sum_list ns) usize_max"
proof (induction ns arbitrary: a)
  case (Cons n ns)
  then have "foldl saturating_add (saturating_add a n) ns
      = min (saturating_add a n + sum_list ns) usize_max" using saturating_add_le by blast
  moreover have "min (saturating_add a n + sum_list ns) usize_max = min (a + sum_list (n # ns)) usize_max"
    by (simp add: saturating_add_def)
  ultimately show ?case by simp
qed simp

lemma run_lengths:
  "run os d = Some (out, r) \<Longrightarrow>
   width d = sum_list (map op_len (filter (\<lambda>p. kind_of p \<in> {KRetain, KDelete}) os)) + width r
   \<and> width out = sum_list (map op_len (filter (\<lambda>p. kind_of p \<in> {KRetain, KInsert}) os))"
proof (induction os arbitrary: d out)
  case (Cons p os)
  then show ?case by (cases "kind p") (fastforce simp: run_simps)+
qed simp

section \<open>Properties\<close>

text \<open>
  The measurements of a change: it consumes \<open>base_length\<close> units, produces
  \<open>target_length\<close> units, and changes the length of a document by \<open>change_length\<close>.
\<close>

theorem change_length_correct:
  assumes "apply_cells (ops ch) d = Some e" "width d < 2 ^ 63" "width e < 2 ^ 63"
  shows "base_length ch \<le> width d \<and> target_length ch \<le> width e
    \<and> change_length ch = int (width e) - int (width d)"
proof -
  from assms(1) obtain out r where run: "run (ops ch) d = Some (out, r)" "e = out @ r"
    by (auto simp: apply_cells_Some)
  note l = run_lengths [OF run(1)]
  have b: "width d = base_length ch + width r" and t: "width out = target_length ch"
    using l assms(2,3) run(2)
    by (auto simp: base_length_def target_length_def sum_saturating_def sum_saturating_min usize_max_def)
  have "change_length ch = int (target_length ch) - int (base_length ch)"
  proof -
    have "sint (word_of_int (int (target_length ch) - int (base_length ch)) :: 64 word)
        = int (target_length ch) - int (base_length ch)"
      using b t assms(2,3) run(2) unfolding sint_sbintrunc'
      by (simp add: signed_take_bit_int_eq_self_iff)
    then show ?thesis by (simp add: change_length_def)
  qed
  with b t run(2) show ?thesis by simp
qed

theorem change_length_correct_witness:
  "change_length \<lparr>ops = [op_retain 1, op_delete 1]\<rparr> = int 1 - int 2"
proof -
  have "apply_cells (ops \<lparr>ops = [op_retain 1, op_delete 1]\<rparr>) (insert_cells (Text [97, 98]) fmempty)
      = Some (insert_cells (Text [97]) fmempty)" by code_simp
  from change_length_correct [OF this] show ?thesis by (simp add: len_utf16_def)
qed

end
