(* ===== verification/Gal_Transform.thy ===== *)
theory Gal_Transform
  imports Gal_Compose
begin

text \<open>
  The transformation property. For two changes of the same document, \<open>transform a b True\<close>
  after \<open>a\<close> and \<open>transform b a False\<close> after \<open>b\<close> are both applicable and lead to the same
  document. The two loops run in lockstep: whatever one retains the other inserts, and the
  other way round.
\<close>

section \<open>One round of the two loops\<close>

lemma round_consumes:
  assumes "apply_cells as d = Some A" "apply_cells bs d = Some B"
    and "\<not> starts KInsert as" "\<not> starts KInsert bs"
    and "n = min (peek as) (peek bs)" "n < infinity"
  obtains x y where "d = x @ y" "width x = n"
proof (cases "n = peek as")
  case True
  with assms(6) obtain p qs where "as = p # qs" by (cases as) auto
  with True assms first_consumes [of p qs d A] that show ?thesis by auto
next
  case False
  with assms(5,6) have "n = peek bs" by (auto simp: min_def split: if_splits)
  with assms(6) obtain p qs where "bs = p # qs" by (cases bs) auto
  with \<open>n = peek bs\<close> assms first_consumes [of p qs d B] that show ?thesis by auto
qed

text \<open>
  What a round of \<open>transform\<close> appends acts on the cells the other side left of \<open>x\<close>; the
  two sides agree on the outcome \<open>z\<close>.
\<close>

definition merged :: "op \<Rightarrow> op \<Rightarrow> cell list \<Rightarrow> cell list" where
  "merged pa pb x =
     (if kind_of pa = KDelete \<or> kind_of pb = KDelete then []
      else map (format_cell (transform_attributes (attributes pa) (attributes pb) True))
             (map (format_cell (attributes pa)) x))"

lemma width_merged: "width (merged pa pb x) \<le> width (effect pa x)"
  by (simp add: merged_def effect_def del: map_map)

lemma emit_priority:
  assumes "run (ops out) xa = Some (y, [])" "kind_of pa \<noteq> KInsert" "kind_of pb \<noteq> KInsert"
    and "\<And>l. kind pb = Delete l \<Longrightarrow> l = width x"
    and "width (xa @ effect pa x) \<le> usize_max"
  shows "run (ops (transform_emit out pa pb (width x) True)) (xa @ effect pa x)
    = Some (y @ merged pa pb x, [])"
proof (cases "kind pa")
  case (Retain k)
  show ?thesis
  proof (cases "kind pb")
    case (Retain l)
    with assms(1,5) \<open>kind pa = Retain k\<close> show ?thesis
      by (auto simp: transform_emit_def effect_def merged_def kind_of_def op_builders
          intro!: run_emit_push)
  next
    case (Delete l)
    then have "kind pb = Delete (width x)" using assms(4) by blast
    with assms(1,5) Retain run_emit_push [of out xa y pb "map (format_cell (attributes pa)) x" "[]"]
    show ?thesis by (auto simp: transform_emit_def effect_def merged_def kind_of_def)
  qed (use assms(3) in simp)
next
  case (Delete k)
  with assms(1) show ?thesis
    by (simp add: transform_emit_def effect_def merged_def kind_of_def)
qed (use assms(2) in simp)

lemma emit_other:
  assumes "run (ops out) xb = Some (y, [])" "kind_of pa \<noteq> KInsert" "kind_of pb \<noteq> KInsert"
    and "\<And>l. kind pa = Delete l \<Longrightarrow> l = width x"
    and "width (xb @ effect pb x) \<le> usize_max"
  shows "run (ops (transform_emit out pb pa (width x) False)) (xb @ effect pb x)
    = Some (y @ merged pa pb x, [])"
proof (cases "kind pb")
  case (Retain k)
  show ?thesis
  proof (cases "kind pa")
    case (Retain l)
    with assms(1,5) \<open>kind pb = Retain k\<close> show ?thesis
      by (auto simp: transform_emit_def effect_def merged_def kind_of_def op_builders
          format_converge intro!: run_emit_push)
  next
    case (Delete l)
    then have "kind pa = Delete (width x)" using assms(4) by blast
    with assms(1,5) Retain run_emit_push [of out xb y pa "map (format_cell (attributes pb)) x" "[]"]
    show ?thesis by (auto simp: transform_emit_def effect_def merged_def kind_of_def)
  qed (use assms(2) in simp)
next
  case (Delete k)
  with assms(1) show ?thesis
    by (simp add: transform_emit_def effect_def merged_def kind_of_def)
qed (use assms(3) in simp)

lemma transform_round:
  assumes a: "apply_cells as d = Some A" and b: "apply_cells bs d = Some B"
    and heads: "\<not> starts KInsert as" "\<not> starts KInsert bs"
    and n: "n = min (peek as) (peek bs)" "0 < n" "n < infinity"
    and out: "run (ops out1) xa = Some (y, [])" "run (ops out2) xb = Some (y, [])"
      "width (xa @ A) \<le> usize_max" "width (xb @ B) \<le> usize_max"
  obtains u v A' B' ea eb z where "d = u @ v" "A = ea @ A'" "B = eb @ B'" "width z \<le> width ea"
    "apply_cells (snd (take_op as n)) v = Some A'" "apply_cells (snd (take_op bs n)) v = Some B'"
    "run (ops (transform_emit out1 (fst (take_op as n)) (fst (take_op bs n)) n True)) (xa @ ea)
       = Some (y @ z, [])"
    "run (ops (transform_emit out2 (fst (take_op bs n)) (fst (take_op as n)) n False)) (xb @ eb)
       = Some (y @ z, [])"
proof -
  obtain u v where d: "d = u @ v" "width u = n"
    using round_consumes [OF a b heads n(1,3)] by blast
  let ?pa = "fst (take_op as n)" and ?pb = "fst (take_op bs n)"
  have ha: "as = [] \<or> (kind_of (hd as) \<noteq> KInsert \<and> n \<le> op_len (hd as))"
    using heads(1) n(1) by (cases as) auto
  have hb: "bs = [] \<or> (kind_of (hd bs) \<noteq> KInsert \<and> n \<le> op_len (hd bs))"
    using heads(2) n(1) by (cases bs) auto
  obtain A' where A': "apply_cells (snd (take_op as n)) v = Some A'" "A = effect ?pa u @ A'"
    "kind_of ?pa \<noteq> KInsert" using take_op_apply [OF a d n(2) ha] by blast
  obtain B' where B': "apply_cells (snd (take_op bs n)) v = Some B'" "B = effect ?pb u @ B'"
    "kind_of ?pb \<noteq> KInsert" using take_op_apply [OF b d n(2) hb] by blast
  have la: "l = width u" if "kind ?pa = Delete l" for l
    using take_op_delete_len [OF heads(1) _ that] n(1) d by auto
  have lb: "l = width u" if "kind ?pb = Delete l" for l
    using take_op_delete_len [OF heads(2) _ that] n(1) d by auto
  show ?thesis
    using that [of u v "effect ?pa u" A' "effect ?pb u" B' "merged ?pa ?pb u"] d A' B' out width_merged
      emit_priority [OF out(1) A'(3) B'(3) lb] emit_other [OF out(2) A'(3) B'(3) la] by auto
qed

section \<open>The loops in lockstep\<close>

lemma transform_loops_converge:
  assumes "iter_ok ia" "iter_ok ib"
    and "run (ops out1) xa = Some (y, [])" "run (ops out2) xb = Some (y, [])"
    and "apply_cells (remaining ia) d = Some A" "apply_cells (remaining ib) d = Some B"
    and "width (xa @ A) \<le> usize_max" "width (xb @ B) \<le> usize_max"
  shows "\<exists>e. apply_cells (ops (transform_loop ia ib True out1)) (xa @ A) = Some (y @ e)
    \<and> apply_cells (ops (transform_loop ib ia False out2)) (xb @ B) = Some (y @ e)
    \<and> width e \<le> width A + width B"
  using assms
proof (induction ia ib "True" out1 arbitrary: out2 xa xb y d A B rule: transform_loop.induct)
  case (1 ia ib out1)
  note prems = "1.prems"
  note nexts = has_next_remaining [OF prems(1)] has_next_remaining [OF prems(2)]
  consider (stop) "remaining ia = []" "remaining ib = []"
    | (insa) "has_next ia \<or> has_next ib" "peek_kind ia = KInsert"
    | (insb) "has_next ia \<or> has_next ib" "peek_kind ia \<noteq> KInsert" "peek_kind ib = KInsert"
    | (both) "has_next ia \<or> has_next ib" "peek_kind ia \<noteq> KInsert" "peek_kind ib \<noteq> KInsert"
    using nexts by blast
  then show ?case
  proof cases
    case stop
    then have "A = d" "B = d" using prems(5,6) by simp_all
    with stop prems run_frame [OF prems(3), of d] run_frame [OF prems(4), of d] nexts show ?thesis
      by (intro exI [of _ d]) (subst transform_loop.simps, subst transform_loop.simps [of ib],
        auto simp: apply_cells_Some)
  next
    case insa
    then obtain p qs i where a: "remaining ia = p # qs" "kind p = Insert i"
      by (auto simp: starts_iter elim: starts_insertE)
    note nx = iter_next_infinity [OF prems(1) a(1)]
    let ?c = "insert_cells i (attributes p)"
    obtain A' where A': "apply_cells qs d = Some A'" "A = ?c @ A'"
      using prems(5) a by (auto simp: apply_Insert)
    have o1: "run (ops (push out1 (op_retain (op_len (fst (iter_next ia infinity)))))) (xa @ ?c)
        = Some (y @ ?c, [])"
      using nx a prems(3,7) A' by (intro run_emit_push) (auto simp: op_builders)
    have o2: "run (ops (push out2 (fst (iter_next ia infinity)))) xb = Some (y @ ?c, [])"
      using nx a prems(4,8) by (intro run_emit_push0) auto
    obtain e where "apply_cells (ops (transform_loop (snd (iter_next ia infinity)) ib True
          (push out1 (op_retain (op_len (fst (iter_next ia infinity))))))) ((xa @ ?c) @ A')
          = Some ((y @ ?c) @ e)"
      "apply_cells (ops (transform_loop ib (snd (iter_next ia infinity)) False
          (push out2 (fst (iter_next ia infinity))))) (xb @ B) = Some ((y @ ?c) @ e)"
      "width e \<le> width A' + width B"
      using "1.hyps"(1) [OF insa(1) _ _ prems(2) o1 o2 _ prems(6), of A'] insa nx A' prems(7,8)
      by auto
    with insa A' show ?thesis
      by (intro exI [of _ "?c @ e"]) (subst transform_loop.simps, subst transform_loop.simps [of ib], auto)
  next
    case insb
    then obtain p qs i where b: "remaining ib = p # qs" "kind p = Insert i"
      by (auto simp: starts_iter elim: starts_insertE)
    note nx = iter_next_infinity [OF prems(2) b(1)]
    let ?c = "insert_cells i (attributes p)"
    obtain B' where B': "apply_cells qs d = Some B'" "B = ?c @ B'"
      using prems(6) b by (auto simp: apply_Insert)
    have o1: "run (ops (push out1 (fst (iter_next ib infinity)))) xa = Some (y @ ?c, [])"
      using nx b prems(3,7) by (intro run_emit_push0) auto
    have o2: "run (ops (push out2 (op_retain (op_len (fst (iter_next ib infinity)))))) (xb @ ?c)
        = Some (y @ ?c, [])"
      using nx b prems(4,8) B' by (intro run_emit_push) (auto simp: op_builders)
    obtain e where "apply_cells (ops (transform_loop ia (snd (iter_next ib infinity)) True
          (push out1 (fst (iter_next ib infinity))))) (xa @ A) = Some ((y @ ?c) @ e)"
      "apply_cells (ops (transform_loop (snd (iter_next ib infinity)) ia False
          (push out2 (op_retain (op_len (fst (iter_next ib infinity))))))) ((xb @ ?c) @ B')
          = Some ((y @ ?c) @ e)"
      "width e \<le> width A + width B'"
      using "1.hyps"(2) [OF insb(1) _ insb(3) prems(1) _ o1 o2 prems(5), of B'] insb nx B' prems(7,8)
      by auto
    with insb B' show ?thesis
      by (intro exI [of _ "?c @ e"]) (subst transform_loop.simps, subst transform_loop.simps [of ib], auto)
  next
    case both
    define n where "n = min (peek_length ia) (peek_length ib)"
    have n': "n = min (peek (remaining ia)) (peek (remaining ib))"
      using prems(1,2) by (simp add: n_def peek_iter)
    have ne: "remaining ia \<noteq> [] \<or> remaining ib \<noteq> []" using both(1) nexts by auto
    have heads: "\<not> starts KInsert (remaining ia)" "\<not> starts KInsert (remaining ib)"
      using both by (auto simp: starts_iter)
    have n: "0 < n" "n < infinity"
      using min_peek_bounds [OF iter_bounded iter_bounded ne] prems(1,2) n' by auto
    note na = iter_next_take_op [OF prems(1) aligned_no_insert [OF heads(1)] n(1)]
    note nb = iter_next_take_op [OF prems(2) aligned_no_insert [OF heads(2)] n(1)]
    obtain u v A' B' ea eb z where step: "d = u @ v" "A = ea @ A'" "B = eb @ B'" "width z \<le> width ea"
      "apply_cells (snd (take_op (remaining ia) n)) v = Some A'"
      "apply_cells (snd (take_op (remaining ib) n)) v = Some B'"
      "run (ops (transform_emit out1 (fst (take_op (remaining ia) n))
          (fst (take_op (remaining ib) n)) n True)) (xa @ ea) = Some (y @ z, [])"
      "run (ops (transform_emit out2 (fst (take_op (remaining ib) n))
          (fst (take_op (remaining ia) n)) n False)) (xb @ eb) = Some (y @ z, [])"
      by (rule transform_round [OF prems(5,6) heads n' n prems(3,4,7,8)])
    have aside: "\<not> (peek_kind ia = KInsert \<and> (True \<or> peek_kind ib \<noteq> KInsert))"
      using both(2) by simp
    have oks: "iter_ok (snd (iter_next ia n))" "iter_ok (snd (iter_next ib n))"
      using na nb by blast+
    have runs: "run (ops (transform_emit out1 (fst (iter_next ia n)) (fst (iter_next ib n)) n True))
        (xa @ ea) = Some (y @ z, [])"
      "run (ops (transform_emit out2 (fst (iter_next ib n)) (fst (iter_next ia n)) n False))
        (xb @ eb) = Some (y @ z, [])"
      using na nb step(7,8) by simp_all
    have applies: "apply_cells (remaining (snd (iter_next ia n))) v = Some A'"
      "apply_cells (remaining (snd (iter_next ib n))) v = Some B'"
      using na nb step(5,6) by simp_all
    have widths: "width ((xa @ ea) @ A') \<le> usize_max" "width ((xb @ eb) @ B') \<le> usize_max"
      using prems(7,8) step(2,3) by simp_all
    have loopa: "transform_loop ia ib True out1 = transform_loop (snd (iter_next ia n))
        (snd (iter_next ib n)) True
        (transform_emit out1 (fst (iter_next ia n)) (fst (iter_next ib n)) n True)"
      using both by (subst transform_loop.simps) (simp add: Let_def n_def)
    have loopb: "transform_loop ib ia False out2 = transform_loop (snd (iter_next ib n))
        (snd (iter_next ia n)) False
        (transform_emit out2 (fst (iter_next ib n)) (fst (iter_next ia n)) n False)"
      using both by (subst transform_loop.simps) (simp add: Let_def n_def min.commute disj_commute)
    obtain e where "apply_cells (ops (transform_loop (snd (iter_next ia n)) (snd (iter_next ib n)) True
          (transform_emit out1 (fst (iter_next ia n)) (fst (iter_next ib n)) n True)))
          ((xa @ ea) @ A') = Some ((y @ z) @ e)"
      "apply_cells (ops (transform_loop (snd (iter_next ib n)) (snd (iter_next ia n)) False
          (transform_emit out2 (fst (iter_next ib n)) (fst (iter_next ia n)) n False)))
          ((xb @ eb) @ B') = Some ((y @ z) @ e)"
      "width e \<le> width A' + width B'"
      using "1.hyps"(3) [OF both(1) aside both(3) n_def oks runs applies widths] by blast
    then show ?thesis
      unfolding step(2,3) loopa loopb using step(4) by (intro exI [of _ "z @ e"]) simp
  qed
qed

section \<open>transform\<close>

lemma canonical_transform_emit:
  "canonical (ops out) \<Longrightarrow> canonical (ops (transform_emit out pa pb n priority))"
  by (auto simp: transform_emit_def canonical_push_delta split: op_kind.splits)

lemma canonical_transform_loop:
  "canonical (ops out) \<Longrightarrow> canonical (ops (transform_loop ia ib priority out))"
proof (induction ia ib priority out rule: transform_loop.induct)
  case (1 ia ib priority out)
  show ?case
    by (subst transform_loop.simps)
      (auto simp: Let_def 1 canonical_push_delta canonical_transform_emit)
qed

lemma canonical_transform: "canonical (ops (transform a b priority))"
  by (simp add: transform_def chop_def canonical_chop canonical_transform_loop delta_new_def)

text \<open>
  Both transformed changes fit the document the other side left, and they close the square.
  The merged document can be longer than either, up to the sum of their lengths.
\<close>

lemma transform_takes:
  assumes "takes a d A" "takes b d B" "width A + width B < infinity"
  obtains e where "takes (transform a b True) A e" "takes (transform b a False) B e"
    "width e \<le> width A + width B"
proof -
  have "\<exists>e. apply_cells (ops (transform_loop (iter_new (ops a)) (iter_new (ops b)) True delta_new))
        ([] @ A) = Some ([] @ e)
      \<and> apply_cells (ops (transform_loop (iter_new (ops b)) (iter_new (ops a)) False delta_new))
        ([] @ B) = Some ([] @ e) \<and> width e \<le> width A + width B"
    using assms takes_iter [OF assms(1)] takes_iter [OF assms(2)]
    by (intro transform_loops_converge [where d = d]) (auto simp: takes_def delta_new_def)
  then obtain e where "apply_cells (ops (transform a b True)) A = Some e"
    "apply_cells (ops (transform b a False)) B = Some e" "width e \<le> width A + width B"
    by (auto simp: transform_def chop_def apply_chop)
  with assms that [of e] show ?thesis
    by (simp add: takes_def canonical_pos canonical_transform)
qed

end
