(* ===== verification/Gal_Validate.thy ===== *)
theory Gal_Validate
  imports Gal_Transform
begin

text \<open>
  \<open>validate\<close> decides exactly whether a change fits a document: it walks the plain text, the
  specification walks the cells. Transforming one fitting change over another keeps it
  fitting, which is why a rebase by the server is never refused.
\<close>

section \<open>The plain text of a document\<close>

definition cell_char :: "cell \<Rightarrow> uchar" where
  "cell_char c = (case fst c of IChar u \<Rightarrow> u | IEmbed _ \<Rightarrow> 0xfffc)"

lemma len_cell_char [simp]: "len_utf16 (cell_char c) = cell_width c"
  by (simp add: cell_char_def cell_width_def len_utf16_def split: item.splits)

lemma utf16_len_cell_chars [simp]: "utf16_len (map cell_char d) = width d"
  by (induction d) auto

lemma op_plain_text_cells:
  "op_plain_text p =
     map cell_char (case kind p of Insert i \<Rightarrow> insert_cells i (attributes p) | _ \<Rightarrow> [])"
  by (cases p rule: op_cases) (simp_all add: op_plain_text_def insert_cells_def cell_char_def o_def)

lemma to_plain_text_append:
  "foldl (\<lambda>out p. out @ op_plain_text p) acc os = acc @ concat (map op_plain_text os)"
  by (induction os arbitrary: acc) auto

lemma to_plain_text_cells: "to_plain_text d = map cell_char (cells d)"
  unfolding to_plain_text_def to_plain_text_append
  by (simp add: cells_def map_concat op_plain_text_cells [abs_def] o_def)

section \<open>The walk\<close>

lemma split_cells_past: "width d < n \<Longrightarrow> split_cells n d = None"
  by (cases "split_cells n d") (auto simp: split_cells_iff)

definition span_fault :: "nat \<Rightarrow> nat \<Rightarrow> nat \<Rightarrow> cell list \<Rightarrow> invalid_change" where
  "span_fault doc_len n cursor d =
     (if width d < n then PastEnd (saturating_add cursor n) doc_len
      else SplitCharacter (saturating_add cursor n))"

lemma validate_span_cells:
  "validate_span (pre @ map cell_char d) doc_len n (utf16_len pre) (str_len pre) =
     (case split_cells n d of
        None \<Rightarrow> Err (span_fault doc_len n (utf16_len pre) d)
      | Some (x, y) \<Rightarrow> Ok (utf16_len (pre @ map cell_char x), str_len (pre @ map cell_char x)))"
proof (induction n d arbitrary: pre rule: split_cells.induct)
  case (1 n)
  then show ?case by (subst validate_span.simps) (simp add: span_fault_def)
next
  case (2 n c cs)
  show ?case
  proof (cases "n = 0 \<or> cell_width c > n")
    case True
    then show ?thesis
      by (subst validate_span.simps) (auto simp: span_fault_def Let_def)
  next
    case False
    then have IH: "validate_span ((pre @ [cell_char c]) @ map cell_char cs) doc_len
        (n - cell_width c) (utf16_len (pre @ [cell_char c])) (str_len (pre @ [cell_char c])) =
       (case split_cells (n - cell_width c) cs of
          None \<Rightarrow> Err (span_fault doc_len (n - cell_width c) (utf16_len (pre @ [cell_char c])) cs)
        | Some (x, y) \<Rightarrow> Ok (utf16_len ((pre @ [cell_char c]) @ map cell_char x),
            str_len ((pre @ [cell_char c]) @ map cell_char x)))"
      by (intro 2) auto
    have step: "validate_span (pre @ map cell_char (c # cs)) doc_len n (utf16_len pre) (str_len pre)
      = validate_span ((pre @ [cell_char c]) @ map cell_char cs) doc_len
          (n - cell_width c) (utf16_len (pre @ [cell_char c])) (str_len (pre @ [cell_char c]))"
      using False by (subst validate_span.simps) (simp add: Let_def)
    have sat: "saturating_add (utf16_len pre + cell_width c) (n - cell_width c)
      = saturating_add (utf16_len pre) n" using False by (simp add: saturating_add_def)
    show ?thesis
      unfolding step IH using False sat
      by (auto simp: span_fault_def split: option.splits)
  qed
qed

text \<open>
  The specification of the refusal: the first retain or delete that cannot be split off the
  rest of the document, with the offset it reaches.
\<close>

fun refusal :: "nat \<Rightarrow> nat \<Rightarrow> op list \<Rightarrow> cell list \<Rightarrow> invalid_change option" where
  "refusal doc_len cursor [] d = None"
| "refusal doc_len cursor (p # os) d =
     (if kind_of p = KInsert then refusal doc_len cursor os d
      else case split_cells (op_len p) d of
             None \<Rightarrow> Some (span_fault doc_len (op_len p) cursor d)
           | Some (x, y) \<Rightarrow> refusal doc_len (cursor + op_len p) os y)"

lemma validate_loop_cells:
  "validate_loop (pre @ map cell_char d) doc_len os (utf16_len pre) (str_len pre) =
     (case refusal doc_len (utf16_len pre) os d of None \<Rightarrow> Ok () | Some e \<Rightarrow> Err e)"
proof (induction os arbitrary: pre d)
  case (Cons p os)
  have move: "bind_result (validate_span (pre @ map cell_char d) doc_len n (utf16_len pre) (str_len pre))
      (\<lambda>(cursor, byte). validate_loop (pre @ map cell_char d) doc_len os cursor byte)
    = (case (case split_cells n d of None \<Rightarrow> Some (span_fault doc_len n (utf16_len pre) d)
             | Some (x, y) \<Rightarrow> refusal doc_len (utf16_len pre + n) os y)
       of None \<Rightarrow> Ok () | Some e \<Rightarrow> Err e)" for n
  proof (cases "split_cells n d")
    case None
    then show ?thesis by (simp add: validate_span_cells)
  next
    case (Some xy)
    then obtain x y where xy: "split_cells n d = Some (x, y)" "d = x @ y" "width x = n"
      by (cases xy) (auto simp: split_cells_iff)
    with Cons [of "pre @ map cell_char x" y] show ?thesis
      unfolding validate_span_cells by simp
  qed
  show ?case by (cases "kind p") (simp_all add: move Cons cong: option.case_cong)
qed simp

lemma validate_refusal:
  "validate ch doc =
     (case refusal (width (cells doc)) 0 (ops ch) (cells doc) of None \<Rightarrow> Ok () | Some e \<Rightarrow> Err e)"
  using validate_loop_cells [of "[]" "cells doc"]
  by (simp add: validate_def to_plain_text_cells)

lemma refusal_None: "refusal doc_len cursor os d = None \<longleftrightarrow> run os d \<noteq> None"
proof (induction os arbitrary: cursor d)
  case (Cons p os)
  show ?case
    by (cases "kind p") (auto simp: run.simps(2) Cons split: option.splits)
qed simp

lemma apply_cells_None: "apply_cells os d = None \<longleftrightarrow> run os d = None"
  by (simp add: apply_cells_def)

lemma validate_iff_apply: "validate ch doc = Ok () \<longleftrightarrow> (\<exists>e. apply_cells (ops ch) (cells doc) = Some e)"
proof -
  have "validate ch doc = Ok () \<longleftrightarrow> refusal (width (cells doc)) 0 (ops ch) (cells doc) = None"
    by (simp add: validate_refusal split: option.splits)
  then show ?thesis by (auto simp: refusal_None apply_cells_None [symmetric])
qed

text \<open>What a refusal says: how far the change reaches, or which character it would split.\<close>

lemma refusal_PastEnd:
  "refusal doc_len cursor os d = Some (PastEnd needed l) \<Longrightarrow> l = doc_len \<and>
   (\<exists>k. width d < k \<and> needed = saturating_add cursor k)"
proof (induction os arbitrary: cursor d)
  case (Cons p os)
  show ?case
  proof (cases "kind_of p = KInsert")
    case True
    then show ?thesis using Cons by simp
  next
    case False
    show ?thesis
    proof (cases "split_cells (op_len p) d")
      case None
      with False Cons.prems show ?thesis
        by (auto simp: span_fault_def simp del: kind_of_simps split: if_splits)
    next
      case (Some xy)
      then obtain x y where xy: "split_cells (op_len p) d = Some (x, y)" "d = x @ y" "width x = op_len p"
        by (cases xy) (auto simp: split_cells_iff)
      with False Cons.prems Cons.IH [of "cursor + op_len p" y] obtain k where
        "l = doc_len" "width y < k" "needed = saturating_add (cursor + op_len p) k"
        by (auto simp del: kind_of_simps)
      with xy show ?thesis
        by (intro conjI exI [of _ "op_len p + k"]) (auto simp: saturating_add_def ac_simps)
    qed
  qed
qed simp

lemma split_cells_inside:
  "split_cells n d = None \<Longrightarrow> n \<le> width d \<Longrightarrow>
   \<exists>x c y. d = x @ c # y \<and> width x < n \<and> n < width x + cell_width c"
proof (induction n d rule: split_cells.induct)
  case (2 n c cs)
  show ?case
  proof (cases "cell_width c > n")
    case True
    with 2 show ?thesis by (intro exI [of _ "[]"]) (auto split: if_splits)
  next
    case False
    with 2(2,3) have "n \<noteq> 0" "split_cells (n - cell_width c) cs = None" "n - cell_width c \<le> width cs"
      by (auto split: if_splits)
    with 2(1) False obtain x c' y where "cs = x @ c' # y" "width x < n - cell_width c"
      "n - cell_width c < width x + cell_width c'" by blast
    with False show ?thesis by (intro exI [of _ "c # x"]) auto
  qed
qed (auto split: if_splits)

lemma refusal_SplitCharacter:
  "refusal doc_len cursor os d = Some (SplitCharacter off) \<Longrightarrow>
   \<exists>x c y k. d = x @ c # y \<and> width x < k \<and> k < width x + cell_width c \<and> off = saturating_add cursor k"
proof (induction os arbitrary: cursor d)
  case (Cons p os)
  show ?case
  proof (cases "kind_of p = KInsert")
    case True
    then show ?thesis using Cons by simp
  next
    case False
    show ?thesis
    proof (cases "split_cells (op_len p) d")
      case None
      with False Cons.prems have "\<not> width d < op_len p" "off = saturating_add cursor (op_len p)"
        by (auto simp: span_fault_def simp del: kind_of_simps split: if_splits)
      with split_cells_inside [OF None] show ?thesis by fastforce
    next
      case (Some xy)
      then obtain u y where u: "split_cells (op_len p) d = Some (u, y)" "d = u @ y" "width u = op_len p"
        by (cases xy) (auto simp: split_cells_iff)
      with False Cons.prems Cons.IH [of "cursor + op_len p" y] obtain x c z k where
        "y = x @ c # z" "width x < k" "k < width x + cell_width c"
        "off = saturating_add (cursor + op_len p) k"
        by (auto simp del: kind_of_simps)
      with u show ?thesis
        by (intro exI [of _ "u @ x"] exI [of _ c] exI [of _ z] exI [of _ "op_len p + k"])
          (auto simp: saturating_add_def ac_simps)
    qed
  qed
qed simp

section \<open>Changes that fit\<close>

text \<open>A change fits a document when it has no empty op, is valid, and the result is not too long.\<close>

definition fits :: "delta \<Rightarrow> delta \<Rightarrow> bool" where
  "fits ch doc = (pos_ops (ops ch) \<and> validate ch doc = Ok () \<and> width (cells doc) < infinity
     \<and> width (cells (compose doc ch)) < infinity)"

lemma takes_fits:
  assumes "proper_doc doc" "takes ch (cells doc) e"
  shows "fits ch doc"
  using assms compose_doc [OF assms] by (auto simp: fits_def takes_def validate_iff_apply)

section \<open>Properties\<close>

text \<open>
  (C1) Convergence. Two changes made to the same document, each transformed over the other
  (one side with priority), are both valid where they are applied and lead to the same
  document, down to the list of ops.
\<close>

theorem transform_converges:
  assumes "proper_doc doc" "takes a (cells doc) A" "takes b (cells doc) B"
    and "width A + width B < infinity"
  shows "validate (transform a b True) (compose doc a) = Ok ()
    \<and> validate (transform b a False) (compose doc b) = Ok ()
    \<and> compose (compose doc a) (transform a b True) = compose (compose doc b) (transform b a False)"
proof -
  from transform_takes [OF assms(2-4)] obtain e where
    e: "takes (transform a b True) A e" "takes (transform b a False) B e" by blast
  note a = compose_doc [OF assms(1,2)] and b = compose_doc [OF assms(1,3)]
  have "takes (transform a b True) (cells (compose doc a)) e"
    "takes (transform b a False) (cells (compose doc b)) e" using e a b by auto
  moreover from this have
    "compose (compose doc a) (transform a b True) = compose (compose doc b) (transform b a False)"
    using compose_doc [OF canonical_doc_proper [OF a(1)]] compose_doc [OF canonical_doc_proper [OF b(1)]]
    by (intro canonical_doc_eqI) auto
  ultimately show ?thesis by (auto simp: validate_iff_apply takes_def)
qed

text \<open>Two users edit ``hi'': one types after the h, the other replaces it.\<close>

theorem transform_converges_witness:
  "takes \<lparr>ops = [op_retain 1, op_insert [120]]\<rparr> (cells (delta_document [104, 105]))
       (insert_cells (Text [104, 120, 105]) fmempty)
   \<and> compose (compose (delta_document [104, 105]) \<lparr>ops = [op_retain 1, op_insert [120]]\<rparr>)
       (transform \<lparr>ops = [op_retain 1, op_insert [120]]\<rparr> \<lparr>ops = [op_delete 1, op_insert [72]]\<rparr> True)
     = compose (compose (delta_document [104, 105]) \<lparr>ops = [op_delete 1, op_insert [72]]\<rparr>)
       (transform \<lparr>ops = [op_delete 1, op_insert [72]]\<rparr> \<lparr>ops = [op_retain 1, op_insert [120]]\<rparr> False)"
proof -
  have a: "takes \<lparr>ops = [op_retain 1, op_insert [120]]\<rparr> (cells (delta_document [104, 105]))
      (insert_cells (Text [104, 120, 105]) fmempty)" by code_simp
  have b: "takes \<lparr>ops = [op_delete 1, op_insert [72]]\<rparr> (cells (delta_document [104, 105]))
      (insert_cells (Text [72, 105]) fmempty)" by code_simp
  have "proper_doc (delta_document [104, 105])" by code_simp
  moreover have "width (insert_cells (Text [104, 120, 105]) fmempty)
      + width (insert_cells (Text [72, 105]) fmempty) < infinity" by code_simp
  ultimately show ?thesis using transform_converges [OF _ a b] a by blast
qed

text \<open>
  \<open>validate\<close> accepts a change exactly when the change can be carried out on the cells of
  the document: no op reaches past the end and none ends inside a character.
\<close>

lemma validate_exact: "validate ch doc = Ok () \<longleftrightarrow> (\<exists>e. apply_cells (ops ch) (cells doc) = Some e)"
  by (rule validate_iff_apply)

text \<open>
  A refusal is accurate: \<open>PastEnd\<close> reports the length of the document and an offset
  beyond it; \<open>SplitCharacter\<close> reports an offset strictly inside a character of the document.
\<close>

lemma validate_errors:
  assumes "validate ch doc = Err e" "width (cells doc) < infinity"
  shows "case e of
      PastEnd needed doc_len \<Rightarrow> doc_len = utf16_len (to_plain_text doc) \<and> doc_len < needed
    | SplitCharacter off \<Rightarrow>
        \<exists>x c y. cells doc = x @ c # y \<and> width x < off \<and> off < width x + cell_width c"
proof -
  from assms(1) have r: "refusal (width (cells doc)) 0 (ops ch) (cells doc) = Some e"
    by (auto simp: validate_refusal split: option.splits)
  show ?thesis
  proof (cases e)
    case (PastEnd needed l)
    with refusal_PastEnd [of "width (cells doc)" 0 "ops ch" "cells doc" needed l] r assms(2)
    show ?thesis by (auto simp: to_plain_text_cells saturating_add_def)
  next
    case (SplitCharacter off)
    with refusal_SplitCharacter [of "width (cells doc)" 0 "ops ch" "cells doc" off] r
    obtain x c y k where k: "cells doc = x @ c # y" "width x < k" "k < width x + cell_width c"
      "off = saturating_add 0 k" by auto
    with assms(2) have "off = k" by (simp add: saturating_add_def)
    with k SplitCharacter show ?thesis by (simp del: split_paired_Ex) blast
  qed
qed

lemma validate_errors_witness:
  "validate \<lparr>ops = [op_retain 2, op_delete 1]\<rparr> (delta_document [0x61, 0x1F600])
     = Err (SplitCharacter 2)
   \<and> (\<exists>x c y. cells (delta_document [0x61, 0x1F600]) = x @ c # y \<and> width x < 2 \<and> 2 < width x + cell_width c)"
proof -
  have v: "validate \<lparr>ops = [op_retain 2, op_delete 1]\<rparr> (delta_document [0x61, 0x1F600])
      = Err (SplitCharacter 2)" by code_simp
  have "width (cells (delta_document [0x61, 0x1F600])) < infinity" by code_simp
  from validate_errors [OF v this] v show ?thesis by simp
qed

text \<open>
  (C37) Composing a document with a change gives the canonical document after the change, and
  composing the change with a later one first gives the same document.
\<close>

theorem compose_sequential:
  assumes "proper_doc doc" "takes a (cells doc) m" "takes b m e"
  shows "canonical_doc (compose doc a) \<and> cells (compose doc a) = m
    \<and> compose (compose doc a) b = compose doc (compose a b)"
proof -
  note a = compose_doc [OF assms(1,2)]
  have b: "takes b (cells (compose doc a)) e" using a(2) assms(3) by simp
  have "takes (compose a b) (cells doc) e" by (rule compose_takes [OF assms(2,3)])
  from compose_doc [OF assms(1) this] compose_doc [OF canonical_doc_proper [OF a(1)] b]
  have "compose (compose doc a) b = compose doc (compose a b)" by (intro canonical_doc_eqI) auto
  with a show ?thesis by blast
qed

theorem compose_sequential_witness:
  "compose (compose (delta_document [97]) \<lparr>ops = [op_retain 1, op_insert [98, 99]]\<rparr>)
      \<lparr>ops = [op_retain 1, op_delete 1]\<rparr>
    = compose (delta_document [97])
      (compose \<lparr>ops = [op_retain 1, op_insert [98, 99]]\<rparr> \<lparr>ops = [op_retain 1, op_delete 1]\<rparr>)"
proof -
  have "proper_doc (delta_document [97])" by code_simp
  moreover have "takes \<lparr>ops = [op_retain 1, op_insert [98, 99]]\<rparr> (cells (delta_document [97]))
      (insert_cells (Text [97, 98, 99]) fmempty)" by code_simp
  moreover have "takes \<lparr>ops = [op_retain 1, op_delete 1]\<rparr> (insert_cells (Text [97, 98, 99]) fmempty)
      (insert_cells (Text [97, 99]) fmempty)" by code_simp
  ultimately show ?thesis by (rule compose_sequential [THEN conjunct2, THEN conjunct2])
qed

text \<open>
  An op of length zero, which the wire format admits, breaks \<open>compose\<close>: the iterator hands
  out the embed without moving past it, so the embed is copied. \<open>validate\<close> accepts the change.
\<close>

lemma compose_zero_retain_copies_embed:
  "validate \<lparr>ops = [op_retain 0]\<rparr> \<lparr>ops = [op_embed JNull]\<rparr> = Ok ()"
  "ops (compose \<lparr>ops = [op_embed JNull]\<rparr> \<lparr>ops = [op_retain 0]\<rparr>) = [op_embed JNull, op_embed JNull]"
  by code_simp+

end
