(* ===== verification/Gal_Invert.thy ===== *)
theory Gal_Invert
  imports Gal_Validate
begin

text \<open>
  \<open>slice\<close> cuts a document out of a document, and \<open>invert\<close> builds the change that undoes a
  change: applied to the changed document it gives back the cells of the base, provided the
  base stores no null-valued formatting.
\<close>

section \<open>Taking from a document\<close>

abbreviation inserts_only :: "op list \<Rightarrow> bool" where
  "inserts_only os \<equiv> list_all (\<lambda>p. kind_of p = KInsert) os"

lemma drop_units_nonempty: "utf16_len (take_units n s) < utf16_len s \<Longrightarrow> drop_units n s \<noteq> []"
  by (metis append_Nil2 less_irrefl take_drop_units)

lemma take_op_document:
  assumes "inserts_only os" "pos_ops os" "cells \<lparr>ops = os\<rparr> = x @ y" "width x = n" "0 < n"
  obtains p qs x1 x2 where "take_op os n = (p, qs)" "aligned os n" "x = x1 @ x2"
    "run [p] [] = Some (x1, [])" "width x1 = op_len p" "0 < op_len p"
    "cells \<lparr>ops = qs\<rparr> = x2 @ y" "inserts_only qs" "pos_ops qs"
proof -
  from assms(3,4,5) obtain q os' where os: "os = q # os'" by (cases os) auto
  with assms(1) obtain i where i: "kind q = Insert i" by auto
  have cells: "insert_cells i (attributes q) @ cells \<lparr>ops = os'\<rparr> = x @ y"
    using assms(3) os i by simp
  show thesis
  proof (cases "op_len q \<le> n")
    case True
    with cells i assms(4) obtain x2 where "x = insert_cells i (attributes q) @ x2"
      "cells \<lparr>ops = os'\<rparr> = x2 @ y"
      using width_split_left [of "insert_cells i (attributes q)" "cells \<lparr>ops = os'\<rparr>" x y] by auto
    with True os i assms(1,2) that [of q os' "insert_cells i (attributes q)" x2] show ?thesis
      by (cases i) (auto simp: take_op_def aligned_def)
  next
    case False
    have "apply_cells os [] = Some (x @ y)"
      using run_document [OF assms(1), of "[]"] assms(3) by (auto simp: apply_cells_Some)
    with os have ap: "apply_cells (q # os') [] = Some (x @ y)" by simp
    have al: "aligned os n"
      using take_op_insert [OF ap i refl assms(4,5)] False os by simp
    obtain j where j: "kind (fst (take_op os n)) = Insert j"
      "attributes (fst (take_op os n)) = attributes q" "insert_cells j (attributes q) = x"
      "apply_cells (snd (take_op os n)) [] = Some y"
      using take_op_insert [OF ap i refl assms(4,5)] False os by auto
    have rest: "inserts_only (snd (take_op os n)) \<and> pos_ops (snd (take_op os n))"
      using False os i assms(1,2,5) al
      by (cases i) (auto simp: take_op_def aligned_def utf16_len_pos drop_units_nonempty)
    have "cells \<lparr>ops = snd (take_op os n)\<rparr> = y"
      using j(4) run_document [of "snd (take_op os n)" "[]"] rest by (auto simp: apply_cells_Some)
    moreover have "width x = op_len (fst (take_op os n))"
      using j by (metis op_len_simps(1) width_insert_cells)
    ultimately show ?thesis
      using that [of "fst (take_op os n)" "snd (take_op os n)" x "[]"] j al rest assms(4,5) by simp
  qed
qed

section \<open>slice\<close>

lemma iter_take_document:
  assumes "iter_ok it" "inserts_only (remaining it)" "cells \<lparr>ops = remaining it\<rparr> = x @ y"
    "width x = n" "0 < n"
  obtains p x1 x2 where "fst (iter_next it n) = p" "iter_ok (snd (iter_next it n))" "x = x1 @ x2"
    "run [p] [] = Some (x1, [])" "width x1 = op_len p" "0 < op_len p" "has_next it"
    "cells \<lparr>ops = remaining (snd (iter_next it n))\<rparr> = x2 @ y"
    "inserts_only (remaining (snd (iter_next it n)))"
proof -
  have "pos_ops (remaining it)" using iter_bounded [OF assms(1)]
    by (auto simp: pos_ops_def bounded_ops_def list_all_iff)
  from take_op_document [OF assms(2) this assms(3-5)] obtain p qs x1 x2 where
    t: "take_op (remaining it) n = (p, qs)" "aligned (remaining it) n" "x = x1 @ x2"
    "run [p] [] = Some (x1, [])" "width x1 = op_len p" "0 < op_len p"
    "cells \<lparr>ops = qs\<rparr> = x2 @ y" "inserts_only qs" by metis
  have "remaining it \<noteq> []" using assms(3-5) by auto
  with t iter_next_take_op [OF assms(1) t(2) assms(5)] that [of p x1 x2] show ?thesis
    by (simp add: has_next_remaining [OF assms(1)] del: kind_of_simps)
qed

lemma slice_loop_copy:
  assumes "iter_ok it" "inserts_only (remaining it)" "cells \<lparr>ops = remaining it\<rparr> = x @ y"
    "index + width x = stop" "start \<le> index" "run (ops out) [] = Some (c, [])"
  shows "run (ops (slice_loop it index start stop out)) [] = Some (c @ x, [])"
  using assms
proof (induction "width x" arbitrary: it index x out c rule: less_induct)
  case less
  note prems = less.prems
  show ?case
  proof (cases "x = []")
    case True
    with prems show ?thesis by (subst slice_loop.simps) simp
  next
    case False
    then have n: "width x = stop - index" "0 < stop - index"
      using prems(4) by (auto simp flip: width_eq_0)
    obtain p x1 x2 where t: "fst (iter_next it (stop - index)) = p"
      "iter_ok (snd (iter_next it (stop - index)))" "x = x1 @ x2"
      "run [p] [] = Some (x1, [])" "width x1 = op_len p" "0 < op_len p" "has_next it"
      "cells \<lparr>ops = remaining (snd (iter_next it (stop - index)))\<rparr> = x2 @ y"
      "inserts_only (remaining (snd (iter_next it (stop - index))))"
      by (rule iter_take_document [OF prems(1-3) n])
    have "run (ops (push out p)) [] = Some (c @ x1, [])"
      using prems(6) t(4) by (intro run_emit_push0) auto
    from less.hyps [OF _ t(2,9,8) _ _ this, of "index + op_len p"] t(3,5,6) prems(4,5) have
      "run (ops (slice_loop (snd (iter_next it (stop - index))) (index + op_len p) start stop
         (push out p))) [] = Some (c @ x, [])" by simp
    with t(1,7) n prems(5) show ?thesis by (subst slice_loop.simps) simp
  qed
qed

lemma slice_loop_skip:
  assumes "iter_ok it" "inserts_only (remaining it)" "cells \<lparr>ops = remaining it\<rparr> = u @ x @ y"
    "index + width u = start" "start + width x = stop" "run (ops out) [] = Some (c, [])"
  shows "run (ops (slice_loop it index start stop out)) [] = Some (c @ x, [])"
  using assms
proof (induction "width u" arbitrary: it index u rule: less_induct)
  case less
  note prems = less.prems
  show ?case
  proof (cases "u = []")
    case True
    with prems show ?thesis by (intro slice_loop_copy) auto
  next
    case False
    then have n: "width u = start - index" "0 < start - index"
      using prems(4) by (auto simp flip: width_eq_0)
    obtain p x1 x2 where t: "fst (iter_next it (start - index)) = p"
      "iter_ok (snd (iter_next it (start - index)))" "u = x1 @ x2"
      "run [p] [] = Some (x1, [])" "width x1 = op_len p" "0 < op_len p" "has_next it"
      "cells \<lparr>ops = remaining (snd (iter_next it (start - index)))\<rparr> = x2 @ x @ y"
      "inserts_only (remaining (snd (iter_next it (start - index))))"
      by (rule iter_take_document [OF prems(1-3) n])
    from less.hyps [OF _ t(2,9,8) _ prems(5,6), of "index + op_len p"] t(3,5,6) prems(4) have
      "run (ops (slice_loop (snd (iter_next it (start - index))) (index + op_len p) start stop out)) []
       = Some (c @ x, [])" by simp
    with t(1,7) n prems(4,5) show ?thesis by (subst slice_loop.simps) simp
  qed
qed

lemma canonical_slice_loop:
  "canonical (ops out) \<Longrightarrow> canonical (ops (slice_loop it index start stop out))"
proof (induction it index start stop out rule: slice_loop.induct)
  case (1 it index start stop out)
  show ?case by (subst slice_loop.simps) (auto simp: 1 canonical_push_delta)
qed

lemma slice_cells:
  assumes "proper_doc base" "cells base = u @ x @ y" "width u = start" "start + width x = stop"
  shows "canonical_doc (slice base start stop)" "cells (slice base start stop) = x"
proof -
  have b: "takes base [] (cells base)" by (rule doc_takes [OF assms(1)])
  have "inserts_only (ops base)" using assms(1) by (simp add: proper_doc_def is_document_def)
  then have "run (ops (slice base start stop)) [] = Some ([] @ x, [])"
    unfolding slice_def using takes_iter [OF b] assms
    by (intro slice_loop_skip [where u = u and y = y]) (simp_all add: delta_new_def)
  then have "takes (slice base start stop) [] x"
    using assms b by (auto simp: takes_def apply_cells_Some canonical_pos canonical_slice_loop
        slice_def delta_new_def)
  from takes_empty_doc [OF this] show "canonical_doc (slice base start stop)"
    "cells (slice base start stop) = x"
    by (simp_all add: slice_def canonical_slice_loop delta_new_def)
qed

section \<open>invert\<close>

definition null_free_cells :: "cell list \<Rightarrow> bool" where
  "null_free_cells cs = list_all (\<lambda>c. null_free (snd c)) cs"

lemma null_free_cells_simps [simp]:
  "null_free_cells []"
  "null_free_cells (c # cs) \<longleftrightarrow> null_free (snd c) \<and> null_free_cells cs"
  "null_free_cells (xs @ ys) \<longleftrightarrow> null_free_cells xs \<and> null_free_cells ys"
  by (simp_all add: null_free_cells_def)

text \<open>Re-inserting a slice, op by op.\<close>

lemma run_foldl_push:
  assumes "inserts_only os" "run (ops iv) d = Some (y, [])" "width d \<le> usize_max"
  shows "run (ops (foldl push iv os)) d = Some (y @ cells \<lparr>ops = os\<rparr>, [])"
  using assms
proof (induction os arbitrary: iv y)
  case (Cons p os)
  then obtain i where i: "kind p = Insert i" by auto
  with Cons.prems have "run (ops (push iv p)) d = Some (y @ insert_cells i (attributes p), [])"
    by (intro run_emit_push0) auto
  with Cons.IH [OF _ this] Cons.prems i show ?case by simp
qed simp

text \<open>Undoing formatting over a slice: each run gets back what the change overwrote.\<close>

lemma undo_format:
  "null_free a \<Longrightarrow> map (format_cell (invert_attributes attrs a) \<circ> format_cell attrs) (insert_cells i a)
    = insert_cells i a"
  by (cases i) (simp_all add: insert_cells_def format_cell_def invert_attributes_undo)

lemma run_foldl_unformat:
  assumes "inserts_only os" "pos_ops os" "null_free_cells (cells \<lparr>ops = os\<rparr>)"
    "run (ops iv) d = Some (y, [])"
    "width (d @ map (format_cell attrs) (cells \<lparr>ops = os\<rparr>)) \<le> usize_max"
  shows "run (ops (foldl (\<lambda>iv base_op.
              push iv (with_attributes (op_retain (op_len base_op))
                (invert_attributes attrs (attributes base_op)))) iv os))
            (d @ map (format_cell attrs) (cells \<lparr>ops = os\<rparr>))
          = Some (y @ cells \<lparr>ops = os\<rparr>, [])"
  using assms
proof (induction os arbitrary: iv d y)
  case (Cons p os)
  then obtain i where i: "kind p = Insert i" by auto
  let ?x = "insert_cells i (attributes p)"
  have "null_free (attributes p)"
  proof (cases i)
    case (Text s)
    with Cons.prems(2,3) i show ?thesis by (cases s) (auto simp: insert_cells_def)
  qed (use Cons.prems(3) i in \<open>simp add: insert_cells_def\<close>)
  then have "run (ops (push iv (with_attributes (op_retain (op_len p))
      (invert_attributes attrs (attributes p))))) (d @ map (format_cell attrs) ?x)
      = Some (y @ ?x, [])"
    using Cons.prems(4,5) i by (intro run_emit_push) (auto simp: op_builders undo_format)
  with Cons.IH [OF _ _ _ this] Cons.prems i show ?case by simp
qed simp

text \<open>
  The invariant of the loop over the change: \<open>inverted\<close> turns what the change produced so
  far back into what it consumed, and \<open>base_index\<close> is how far it has consumed.
\<close>

lemma invert_fold:
  assumes "proper_doc base" "null_free_cells (cells base)"
    and "cells base = u @ d" "run os d = Some (out, r)"
    and "run (ops iv) y = Some (u, [])" "width (y @ out) \<le> usize_max"
  shows "\<exists>c. d = c @ r \<and>
    run (ops (fst (fold (invert_step base) os (iv, width u)))) (y @ out) = Some (u @ c, [])"
  using assms(3-)
proof (induction os arbitrary: u d out iv y)
  case (Cons p os)
  have bound: "width (cells base) \<le> usize_max" using assms(1) by (simp add: proper_doc_def)
  have slice: "inserts_only (ops (slice base (width u) (width u + width x)))"
    "pos_ops (ops (slice base (width u) (width u + width x)))"
    "cells \<lparr>ops = ops (slice base (width u) (width u + width x))\<rparr> = x" if "d = x @ e" for x e
    using slice_cells [OF assms(1), of u x e] Cons.prems(1) that
    by (simp_all add: canonical_doc_def is_document_def canonical_pos)
  have index: "wrapping_add (width u) (width x) = width u + width x" if "d = x @ e" for x e
    using bound Cons.prems(1) that by (intro wrapping_add_exact) simp
  show ?case
  proof (cases "kind p")
    case (Insert i)
    with Cons.prems(2) obtain out' where o: "run os d = Some (out', r)"
      "out = insert_cells i (attributes p) @ out'" by (auto simp: run_simps)
    have "run (ops (push iv (op_delete (op_len p)))) (y @ insert_cells i (attributes p))
        = Some (u @ [], [])"
      using Cons.prems(3,4) o Insert by (intro run_emit_push) (auto simp: op_builders)
    from Cons.IH [OF Cons.prems(1) o(1) this [simplified]] o Cons.prems(4) Insert show ?thesis
      by (simp add: invert_step_def)
  next
    case (Retain n)
    with Cons.prems(2) obtain x e out' where o: "d = x @ e" "width x = n"
      "run os e = Some (out', r)" "out = map (format_cell (attributes p)) x @ out'"
      by (auto simp: run_simps)
    define iv' where "iv' = fst (invert_step base p (iv, width u))"
    have step: "invert_step base p (iv, width u) = (iv', width (u @ x))"
      using Retain o index [OF o(1)] by (simp add: iv'_def invert_step_def)
    have "null_free_cells x" using assms(2) Cons.prems(1) o(1) by simp
    then have "run (ops iv') (y @ map (format_cell (attributes p)) x) = Some (u @ x, [])"
      using Retain o(2,4) index [OF o(1)] slice [OF o(1)] Cons.prems(3,4)
        run_foldl_unformat [OF slice(1,2) [OF o(1)] _ Cons.prems(3), of "attributes p"]
      by (auto simp: iv'_def invert_step_def op_builders intro!: run_emit_push)
    from Cons.IH [OF _ o(3) this] Cons.prems(1,4) o step show ?thesis by auto
  next
    case (Delete n)
    with Cons.prems(2) obtain x e where o: "d = x @ e" "width x = n" "run os e = Some (out, r)"
      by (auto simp: run_simps)
    define iv' where "iv' = fst (invert_step base p (iv, width u))"
    have step: "invert_step base p (iv, width u) = (iv', width (u @ x))"
      using Delete o index [OF o(1)] by (simp add: iv'_def invert_step_def)
    have "run (ops iv') y = Some (u @ x, [])"
      using Delete o(2) index [OF o(1)] slice [OF o(1)] Cons.prems(3,4)
        run_foldl_push [OF slice(1) [OF o(1)] Cons.prems(3)]
      by (simp add: iv'_def invert_step_def)
    from Cons.IH [OF _ o(3) this] Cons.prems(1,4) o step show ?thesis by auto
  qed
qed auto

lemma canonical_foldl_push:
  "canonical (ops iv) \<Longrightarrow> canonical (ops (foldl (\<lambda>i p. push i (f p)) iv os))"
  by (induction os arbitrary: iv) (auto simp: canonical_push_delta)

lemma canonical_invert_step:
  "canonical (ops (fst st)) \<Longrightarrow> canonical (ops (fst (invert_step base p st)))"
  using canonical_foldl_push [where f = "\<lambda>p. p"]
  by (auto simp: invert_step_def canonical_push_delta canonical_foldl_push split: op_kind.splits prod.splits)

lemma canonical_invert: "canonical (ops (invert ch base))"
proof -
  have "canonical (ops (fst st)) \<Longrightarrow> canonical (ops (fst (fold (invert_step base) os st)))" for os st
    by (induction os arbitrary: st) (auto simp: canonical_invert_step)
  then show ?thesis by (simp add: invert_def chop_def canonical_chop delta_new_def)
qed

lemma invert_takes:
  assumes "proper_doc base" "null_free_cells (cells base)" "takes ch (cells base) e"
  shows "takes (invert ch base) e (cells base)"
proof -
  obtain out r where run: "run (ops ch) (cells base) = Some (out, r)" "e = out @ r"
    using assms(3) by (auto simp: takes_def apply_cells_Some)
  have "width ([] @ out) \<le> usize_max" using assms(3) run by (simp add: takes_def)
  with invert_fold [OF assms(1,2) _ run(1), of "[]" delta_new "[]"] obtain c where
    c: "cells base = c @ r"
    "run (ops (fst (fold (invert_step base) (ops ch) (delta_new, 0)))) out = Some (c, [])"
    by (auto simp: delta_new_def)
  from run_frame [OF c(2), of r] c(1) run(2) have
    "apply_cells (ops (fst (fold (invert_step base) (ops ch) (delta_new, 0)))) e = Some (cells base)"
    by (auto simp: apply_cells_Some)
  then have "apply_cells (ops (invert ch base)) e = Some (cells base)"
    by (simp add: invert_def chop_def apply_chop)
  with assms show ?thesis by (simp add: takes_def canonical_pos canonical_invert)
qed

section \<open>Changes that store no null\<close>

definition null_free_inserts :: "delta \<Rightarrow> bool" where
  "null_free_inserts d = list_all (\<lambda>p. kind_of p = KInsert \<longrightarrow> null_free (attributes p)) (ops d)"

lemma null_free_format: "null_free_cells x \<Longrightarrow> null_free_cells (map (format_cell a) x)"
  by (induction x) (auto simp: format_cell_def null_free_compose)

lemma null_free_insert_cells: "null_free a \<Longrightarrow> null_free_cells (insert_cells i a)"
  by (cases i) (auto simp: insert_cells_def null_free_cells_def list_all_iff)

lemma null_free_run:
  "run os d = Some (out, r) \<Longrightarrow> null_free_inserts \<lparr>ops = os\<rparr> \<Longrightarrow> null_free_cells d \<Longrightarrow>
   null_free_cells out \<and> null_free_cells r"
proof (induction os arbitrary: d out)
  case (Cons p os)
  have IH: "run os d = Some (out, r) \<Longrightarrow> null_free_cells d \<Longrightarrow> null_free_cells out \<and> null_free_cells r"
    for d out using Cons.IH [of d out] Cons.prems(2) by (simp add: null_free_inserts_def)
  show ?case
  proof (cases "kind p")
    case (Insert i)
    with Cons.prems obtain out' where "run os d = Some (out', r)"
      "out = insert_cells i (attributes p) @ out'" "null_free (attributes p)"
      by (auto simp: run_simps null_free_inserts_def)
    with IH [of d out'] Cons.prems(3) show ?thesis by (simp add: null_free_insert_cells)
  next
    case (Retain n)
    with Cons.prems obtain x e out' where "d = x @ e" "run os e = Some (out', r)"
      "out = map (format_cell (attributes p)) x @ out'" by (auto simp: run_simps)
    with IH [of e out'] Cons.prems(3) show ?thesis by (simp add: null_free_format)
  next
    case (Delete n)
    with Cons.prems obtain x e where "d = x @ e" "run os e = Some (out, r)" by (auto simp: run_simps)
    with IH [of e out] Cons.prems(3) show ?thesis by simp
  qed
qed simp

lemma null_free_takes:
  "takes ch d e \<Longrightarrow> null_free_inserts ch \<Longrightarrow> null_free_cells d \<Longrightarrow> null_free_cells e"
  using null_free_run [of "ops ch" d] by (auto simp: takes_def apply_cells_Some)

text \<open>A transformed change inserts pieces of what the original inserted.\<close>

definition null_free_op :: "op \<Rightarrow> bool" where
  "null_free_op p = (kind_of p = KInsert \<longrightarrow> null_free (attributes p))"

lemma null_free_inserts_ops: "null_free_inserts d \<longleftrightarrow> list_all null_free_op (ops d)"
  by (simp add: null_free_inserts_def null_free_op_def [abs_def])

lemma null_free_op_builders [simp]:
  "null_free_op (op_retain n)" "null_free_op (op_delete n)"
  "null_free_op (with_attributes (op_retain n) a)"
  by (simp_all add: null_free_op_def op_builders)

lemma null_free_merge2:
  "null_free_op q \<Longrightarrow> null_free_op p \<Longrightarrow> list_all null_free_op (merge2 q p)"
  by (auto simp: merge2_def null_free_op_def op_text_def
      split: option.splits op_kind.splits insert_payload.splits)

lemma null_free_push:
  assumes "null_free_inserts d" "null_free_op p"
  shows "null_free_inserts (push d p)"
proof -
  have "list_all null_free_op (push_ops (ops d) p)"
    using assms unfolding null_free_inserts_ops
    by (cases p "ops d" rule: push_ops_cases)
      (auto simp: null_free_merge2, auto simp: null_free_op_def)
  then show ?thesis by (simp add: null_free_inserts_ops push_def)
qed

lemma null_free_iter_next:
  assumes "list_all null_free_op (it_ops it)"
  shows "null_free_op (fst (iter_next it n))" "it_ops (snd (iter_next it n)) = it_ops it"
proof -
  have "null_free_op p" if "it_current it = Some p" for p
    using assms that by (auto simp: it_current_def list_all_length split: if_splits)
  then show "null_free_op (fst (iter_next it n))"
    by (auto simp: iter_next_def next_piece_def Let_def null_free_op_def op_builders
        split: option.splits op_kind.splits insert_payload.splits prod.splits)
  show "it_ops (snd (iter_next it n)) = it_ops it"
    by (auto simp: iter_next_def Let_def split: option.splits prod.splits)
qed

lemma null_free_transform_emit:
  "null_free_inserts out \<Longrightarrow> null_free_op pb \<Longrightarrow>
   null_free_inserts (transform_emit out pa pb n priority)"
  by (auto simp: transform_emit_def null_free_push split: op_kind.splits)

lemma null_free_transform_loop:
  "null_free_inserts out \<Longrightarrow> list_all null_free_op (it_ops ib) \<Longrightarrow>
   null_free_inserts (transform_loop ia ib priority out)"
proof (induction ia ib priority out rule: transform_loop.induct)
  case (1 ia ib priority out)
  show ?case
    by (subst transform_loop.simps)
      (auto simp: Let_def 1 null_free_push null_free_iter_next null_free_transform_emit)
qed

lemma null_free_chop: "null_free_inserts d \<Longrightarrow> null_free_inserts (chop d)"
  by (cases "ops d" rule: rev_cases) (auto simp: null_free_inserts_ops chop_def chop_ops_def)

lemma null_free_transform: "null_free_inserts b \<Longrightarrow> null_free_inserts (transform a b priority)"
  unfolding transform_def
  by (intro null_free_chop null_free_transform_loop)
    (simp_all add: null_free_inserts_ops delta_new_def iter_new_def)

section \<open>Properties\<close>

text \<open>
  (C38) Undo. The inverse of a change, captured against the canonical document it was applied
  to, restores that document exactly, provided the document stores no null-valued formatting.
\<close>

theorem invert_restores:
  assumes "canonical_doc base" "null_free_cells (cells base)" "takes ch (cells base) e"
  shows "compose (compose base ch) (invert ch base) = base"
proof -
  note p = canonical_doc_proper [OF assms(1)]
  note c = compose_doc [OF p assms(3)]
  have "takes (invert ch base) (cells (compose base ch)) (cells base)"
    using invert_takes [OF p assms(2,3)] c(2) by simp
  from compose_doc [OF canonical_doc_proper [OF c(1)] this] assms(1) show ?thesis
    by (intro canonical_doc_eqI) auto
qed

theorem invert_restores_witness:
  "compose (compose (delta_document [97, 98]) \<lparr>ops = [op_delete 1, with_attr (op_retain 1) [98] (JBool True)]\<rparr>)
     (invert \<lparr>ops = [op_delete 1, with_attr (op_retain 1) [98] (JBool True)]\<rparr> (delta_document [97, 98]))
   = delta_document [97, 98]"
proof -
  have "canonical_doc (delta_document [97, 98])" by code_simp
  moreover have "null_free_cells (cells (delta_document [97, 98]))" by code_simp
  moreover have "takes \<lparr>ops = [op_delete 1, with_attr (op_retain 1) [98] (JBool True)]\<rparr>
      (cells (delta_document [97, 98])) (insert_cells (Text [98]) (fmupd [98] (JBool True) fmempty))"
    by code_simp
  ultimately show ?thesis by (rule invert_restores)
qed

text \<open>
  The proviso is needed: formatting stored as null, which an insert can carry, is lost when a
  later change of that key is undone.
\<close>

lemma invert_loses_stored_null:
  "let base = \<lparr>ops = [with_attr (op_insert [97]) [98] JNull]\<rparr>;
       ch = \<lparr>ops = [with_attr (op_retain 1) [98] (JBool True)]\<rparr>
   in ops (compose (compose base ch) (invert ch base)) = [op_insert [97]]"
  by code_simp

text \<open>
  \<open>slice\<close> of a document between two character boundaries is the canonical document of the
  cells between them.
\<close>

theorem slice_correct:
  assumes "proper_doc base" "cells base = u @ x @ y"
  shows "canonical_doc (slice base (width u) (width u + width x))
    \<and> cells (slice base (width u) (width u + width x)) = x"
  using slice_cells [OF assms refl refl] by blast

theorem slice_correct_witness:
  "cells (slice (delta_document [97, 98, 99]) 1 2) = insert_cells (Text [98]) fmempty"
proof -
  have "proper_doc (delta_document [97, 98, 99])" by code_simp
  moreover have "cells (delta_document [97, 98, 99]) = insert_cells (Text [97]) fmempty
      @ insert_cells (Text [98]) fmempty @ insert_cells (Text [99]) fmempty" by code_simp
  ultimately have "cells (slice (delta_document [97, 98, 99]) (width (insert_cells (Text [97]) fmempty))
      (width (insert_cells (Text [97]) fmempty) + width (insert_cells (Text [98]) fmempty)))
      = insert_cells (Text [98]) fmempty"
    by (rule slice_correct [THEN conjunct2])
  moreover have "width (insert_cells (Text [97]) fmempty) = 1"
    "width (insert_cells (Text [98]) fmempty) = 1" by code_simp+
  ultimately show ?thesis by (simp add: numeral_2_eq_2)
qed

end
