(* ===== verification/Gal_Position.thy ===== *)
theory Gal_Position
  imports Gal_Invert
begin

text \<open>
  Offsets that follow a change (\<open>transform_position\<close>, used for remote carets) and the change
  computed from two texts (\<open>diff_text\<close>).
\<close>

section \<open>transform\_position\<close>

text \<open>
  The invariant: the loop has passed \<open>offset\<close> units of the new document, \<open>x\<close> is what lies
  between there and the caret in the rest \<open>x @ y\<close> of the old one. The caret ends on a
  character boundary of the new document.
\<close>

lemma transform_position_loop_boundary:
  assumes "iter_ok it" "apply_cells (remaining it) (x @ y) = Some e"
    and "offset + width x = index" "offset + width e + width (x @ y) \<le> usize_max"
  shows "\<exists>x' y'. e = x' @ y'
    \<and> transform_position_loop it offset index priority = offset + width x'"
  using assms
proof (induction it offset index priority arbitrary: x y e rule: transform_position_loop.induct)
  case (1 it offset index priority)
  note prems = "1.prems"
  show ?case
  proof (cases "remaining it")
    case Nil
    with prems has_next_remaining [OF prems(1)] show ?thesis
      by (subst transform_position_loop.simps) auto
  next
    case (Cons p qs)
    then have go: "has_next it \<and> offset \<le> index"
      using has_next_remaining [OF prems(1)] prems(3) by simp
    note nx = iter_next_infinity [OF prems(1) Cons]
    have len: "peek_length it = op_len p" and knd: "peek_kind it = kind_of p"
      using Cons peek_iter [OF prems(1)] by (simp_all add: peek_kind_remaining)
    have ok: "iter_ok (snd (iter_next it infinity))" and
      rest: "remaining (snd (iter_next it infinity)) = qs" using nx by auto
    have "0 < op_len p" using iter_bounded [OF prems(1)] Cons by simp
    note IHd = "1.IH"(1) [OF go refl refl refl]
    note IHo = "1.IH"(2) [OF go refl refl refl]
    note unfold = transform_position_loop.simps [of it]
    show ?thesis
    proof (cases "kind p")
      case (Insert i)
      then obtain e' where e': "apply_cells qs (x @ y) = Some e'"
        "e = insert_cells i (attributes p) @ e'" using prems(2) Cons by (auto simp: apply_Insert)
      have w: "wrapping_add offset (insert_len i) = offset + insert_len i"
        "wrapping_add index (insert_len i) = index + insert_len i"
        using e' prems(3,4) by (simp_all add: wrapping_add_exact)
      show ?thesis
      proof (cases "offset < index \<or> \<not> priority")
        case True
        obtain x' y' where "e' = x' @ y'" "transform_position_loop (snd (iter_next it infinity))
            (offset + insert_len i) (index + insert_len i) priority = offset + insert_len i + width x'"
          using IHo [of x y e'] ok rest e' w prems(3,4) True Insert knd len by auto
        with True Insert e'(2) w go knd len show ?thesis
          by - (rule exI [of _ "insert_cells i (attributes p) @ x'"],
            auto simp: unfold Let_def)
      next
        case False
        then have "transform_position_loop it offset index priority = index"
          using Insert w go knd len \<open>0 < op_len p\<close>
          by (simp add: unfold Let_def transform_position_loop.simps [of "snd (iter_next it infinity)"])
        with False prems(3) show ?thesis by - (rule exI [of _ "[]"], auto)
      qed
    next
      case (Retain n)
      then obtain u v e' where e': "x @ y = u @ v" "width u = n" "apply_cells qs v = Some e'"
        "e = map (format_cell (attributes p)) u @ e'" using prems(2) Cons by (auto simp: apply_Retain)
      have w: "wrapping_add offset n = offset + n"
        using e' prems(4) by (simp add: wrapping_add_exact)
      show ?thesis
      proof (cases "n \<le> width x")
        case True
        then obtain x2 where x2: "x = u @ x2" "v = x2 @ y"
          using width_split_left [of u v x y] e' by auto
        obtain x' y' where "e' = x' @ y'" "transform_position_loop (snd (iter_next it infinity))
            (offset + n) index priority = offset + n + width x'"
          using IHo [of x2 y e'] ok rest e' w x2 prems(3,4) Retain knd len by auto
        with Retain e'(2,4) w go knd len show ?thesis
          by - (rule exI [of _ "map (format_cell (attributes p)) u @ x'"],
            auto simp: unfold Let_def)
      next
        case False
        then obtain u2 where u2: "u = x @ u2" using width_split_left [of x y u v] e' by auto
        with False Retain e' w go knd len prems(3) show ?thesis
          by - (rule exI [of _ "map (format_cell (attributes p)) x"],
            auto simp: unfold Let_def transform_position_loop.simps [of "snd (iter_next it infinity)"])
      qed
    next
      case (Delete n)
      then obtain u v where u: "x @ y = u @ v" "width u = n" "apply_cells qs v = Some e"
        using prems(2) Cons by (auto simp: apply_Delete)
      obtain x2 y2 where x2: "v = x2 @ y2" "width x2 = width x - n"
      proof (cases "n \<le> width x")
        case True
        then obtain x2 where "x = u @ x2" "v = x2 @ y" using width_split_left [of u v x y] u by auto
        with u(2) that show ?thesis by auto
      qed (use that [of "[]" v] in simp)
      have "offset + width x2 = index - min n (index - offset)" using x2 prems(3) by auto
      moreover have "width v \<le> width (x @ y)" unfolding u(1) by simp
      ultimately obtain x' y' where "e = x' @ y'"
        "transform_position_loop (snd (iter_next it infinity)) offset
           (index - min n (index - offset)) priority = offset + width x'"
        using IHd [of x2 y2 e] ok rest u x2 prems(4) Delete knd len by auto
      with Delete go knd len show ?thesis by (auto simp: unfold Let_def)
    qed
  qed
qed

lemma transform_position_split:
  assumes "takes ch (x @ y) e" "width (x @ y) + width e \<le> usize_max"
  shows "\<exists>x' y'. e = x' @ y' \<and> width x' = transform_position ch (width x) priority"
  using transform_position_loop_boundary [of "iter_new (ops ch)" x y e 0 "width x" priority]
    takes_iter [OF assms(1)] assms by (auto simp: takes_def transform_position_def)

section \<open>diff\_text\<close>

lemma common_prefix_split:
  "\<exists>p a' b'. a = p @ a' \<and> b = p @ b' \<and> common_prefix a b n = n + utf16_len p"
proof (induction a b n rule: common_prefix.induct)
  case (1 x a y b prefix)
  show ?case
  proof (cases "x = y")
    case True
    with 1 obtain p a' b' where "a = p @ a'" "b = p @ b'"
      "common_prefix a b (prefix + len_utf16 x) = prefix + len_utf16 x + utf16_len p" by blast
    with True show ?thesis by (intro exI [of _ "x # p"] exI [of _ a'] exI [of _ b']) auto
  qed auto
qed auto

lemma common_suffix_split:
  "n \<le> m \<Longrightarrow> \<exists>p a' b'. a = p @ a' \<and> b = p @ b' \<and> common_suffix a b m n = n + utf16_len p
     \<and> n + utf16_len p \<le> m"
proof (induction a b m n rule: common_suffix.induct)
  case (1 x a y b m n)
  show ?case
  proof (cases "n < m \<and> x = y \<and> n + len_utf16 x \<le> m")
    case True
    with 1 obtain p a' b' where "a = p @ a'" "b = p @ b'"
      "common_suffix a b m (n + len_utf16 x) = n + len_utf16 x + utf16_len p"
      "n + len_utf16 x + utf16_len p \<le> m" by fastforce
    with True show ?thesis by (intro exI [of _ "x # p"] exI [of _ a'] exI [of _ b']) auto
  next
    case False
    with 1(2) show ?thesis by - (rule exI [of _ "[]"], auto)
  qed
qed auto

lemma append_suffix_split:
  assumes "a @ b = c @ d" "utf16_len d \<le> utf16_len b"
  obtains m where "b = m @ d" "c = a @ m"
  using assms by (auto simp: append_eq_append_conv2)

lemma utf16_len_rev [simp]: "utf16_len (rev s) = utf16_len s"
  by (induction s) auto

text \<open>The two texts share a prefix and a suffix that do not overlap; the middles differ.\<close>

lemma diff_text_parts:
  assumes "old_text \<noteq> new_text"
  obtains p m k s where "old_text = p @ m @ s" "new_text = p @ k @ s"
    "diff_text old_text new_text =
       chop (push (push (push delta_new (op_retain (utf16_len p))) (op_delete (utf16_len m)))
               (op_insert k))"
proof -
  obtain p a b where p: "old_text = p @ a" "new_text = p @ b"
    "common_prefix old_text new_text 0 = utf16_len p"
    using common_prefix_split [of old_text new_text 0] by auto
  define mx where "mx = min (utf16_len old_text) (utf16_len new_text) - utf16_len p"
  obtain r a' b' where r: "rev old_text = r @ a'" "rev new_text = r @ b'"
    "common_suffix (rev old_text) (rev new_text) mx 0 = utf16_len r" "utf16_len r \<le> mx"
    using common_suffix_split [of 0 mx "rev old_text" "rev new_text"] by auto
  have eq: "old_text = rev a' @ rev r" "new_text = rev b' @ rev r"
    using r(1,2) by (metis rev_append rev_rev_ident)+
  have le: "utf16_len (rev r) \<le> utf16_len a" "utf16_len (rev r) \<le> utf16_len b"
    using r(4) p(1,2) by (simp_all add: mx_def)
  obtain m where m: "a = m @ rev r" using append_suffix_split [of p a "rev a'" "rev r"] eq p le by metis
  obtain k where k: "b = k @ rev r" using append_suffix_split [of p b "rev b'" "rev r"] eq p le by metis
  have "utf16_slice new_text (utf16_len p) (utf16_len new_text - utf16_len r) = k"
    using p(2) k by (simp add: utf16_slice_eq)
  with assms p m k r(3) that [of p m "rev r" k] show ?thesis
    by (simp add: diff_text_def Let_def mx_def)
qed

lemma delta_document_cells:
  "utf16_len s < infinity \<Longrightarrow> canonical_doc (delta_document s)"
  "cells (delta_document s) = insert_cells (Text s) fmempty"
  by (cases "s = []"; simp add: delta_document_def push_def delta_new_def push_ops_def canonical_doc_def
      is_document_def canonical_def op_builders op_is_empty_def utf16_len_pos)+

lemma diff_text_takes:
  assumes "utf16_len old_text < infinity" "utf16_len new_text < infinity"
  shows "takes (diff_text old_text new_text) (cells (delta_document old_text))
    (cells (delta_document new_text))"
proof (cases "old_text = new_text")
  case True
  with assms show ?thesis
    by (simp add: takes_def diff_text_def delta_new_def delta_document_cells(2))
next
  case False
  then obtain p m k s where t: "old_text = p @ m @ s" "new_text = p @ k @ s"
    "diff_text old_text new_text =
       chop (push (push (push delta_new (op_retain (utf16_len p))) (op_delete (utf16_len m)))
               (op_insert k))" by (rule diff_text_parts)
  let ?c = "\<lambda>s. insert_cells (Text s) fmempty"
  let ?d1 = "push delta_new (op_retain (utf16_len p))"
  let ?d2 = "push ?d1 (op_delete (utf16_len m))"
  have r1: "run (ops ?d1) (?c p) = Some (?c p, [])"
    using run_emit_push [of delta_new "[]" "[]" "op_retain (utf16_len p)" "?c p" "?c p"] t assms
    by (auto simp: op_builders delta_new_def)
  have r2: "run (ops ?d2) (?c p @ ?c m) = Some (?c p @ [], [])"
    using t assms by (intro run_emit_push [OF r1]) (auto simp: op_builders)
  have "run (ops (push ?d2 (op_insert k))) (?c p @ ?c m) = Some ((?c p @ []) @ ?c k, [])"
    using t assms by (intro run_emit_push0 [OF r2]) (auto simp: op_builders)
  from run_frame [OF this, of "?c s"] have
    "apply_cells (ops (push ?d2 (op_insert k))) (?c old_text) = Some (?c new_text)"
    by (simp add: t(1,2) apply_cells_Some)
  then have "apply_cells (ops (diff_text old_text new_text)) (?c old_text) = Some (?c new_text)"
    unfolding t(3) by (simp add: chop_def apply_chop)
  moreover have "canonical (ops (diff_text old_text new_text))"
    by (simp add: t(3) chop_def canonical_chop canonical_push_delta delta_new_def)
  ultimately show ?thesis
    using assms by (simp add: takes_def delta_document_cells(2) canonical_pos)
qed

section \<open>Properties\<close>

text \<open>
  A caret on a character boundary of the old document is moved to a character boundary
  of the new one, never past its end.
\<close>

lemma transform_position_boundary:
  assumes "takes ch (x @ y) e" "width (x @ y) + width e \<le> usize_max"
  shows "\<exists>x' y'. e = x' @ y' \<and> width x' = transform_position ch (width x) priority"
  by (rule transform_position_split [OF assms])

lemma transform_position_boundary_witness:
  "\<exists>x' y'. insert_cells (Text [0x1F600, 98]) fmempty = x' @ y' \<and> width x' =
     transform_position \<lparr>ops = [op_insert [0x1F600], op_delete 1]\<rparr>
       (width (insert_cells (Text [97, 98]) fmempty)) True"
proof -
  have "takes \<lparr>ops = [op_insert [0x1F600], op_delete 1]\<rparr> (insert_cells (Text [97, 98]) fmempty @ [])
      (insert_cells (Text [0x1F600, 98]) fmempty)" by code_simp
  moreover have "width (insert_cells (Text [97, 98]) fmempty @ [])
      + width (insert_cells (Text [0x1F600, 98]) fmempty) \<le> usize_max" by code_simp
  ultimately show ?thesis by (rule transform_position_boundary)
qed

text \<open>\<open>diff_text\<close> turns the old text into the new one.\<close>

lemma diff_text_correct:
  assumes "utf16_len old_text < infinity" "utf16_len new_text < infinity"
  shows "validate (diff_text old_text new_text) (delta_document old_text) = Ok ()
    \<and> compose (delta_document old_text) (diff_text old_text new_text) = delta_document new_text"
proof -
  note t = diff_text_takes [OF assms]
  note d = delta_document_cells(1) [OF assms(1)] delta_document_cells(1) [OF assms(2)]
  from compose_doc [OF canonical_doc_proper [OF d(1)] t] d(2) have
    "compose (delta_document old_text) (diff_text old_text new_text) = delta_document new_text"
    by (intro canonical_doc_eqI) auto
  with t show ?thesis by (auto simp: validate_iff_apply takes_def)
qed

lemma diff_text_correct_witness:
  "compose (delta_document [97, 97, 98]) (diff_text [97, 97, 98] [97, 98]) = delta_document [97, 98]"
proof -
  have "utf16_len [97, 97, 98] < infinity" "utf16_len [97, 98] < infinity" by code_simp+
  then show ?thesis by (rule diff_text_correct [THEN conjunct2])
qed

end
