(* ===== verification/Gal_ServerDoc.thy ===== *)
theory Gal_ServerDoc
  imports Gal_Position
begin

text \<open>
  The authoritative document of the server, \<open>crates/gal-ot/src/lib.rs\<close>: a document, its
  revision number and the recent history that late submissions are transformed over.
\<close>

section \<open>The model\<close>

definition MAX_HISTORY :: nat where
  "MAX_HISTORY = 2048"

datatype ot_error =
    RevisionInFuture nat nat      \<comment> \<open>requested, current\<close>
  | RevisionTooOld nat nat        \<comment> \<open>requested, oldest\<close>
  | LengthMismatch nat nat        \<comment> \<open>op\_base, doc\_len\<close>
  | OtSplitCharacter nat          \<comment> \<open>offset\<close>
  | NotADocument

record revision =
  rev_number :: nat
  rev_delta :: delta
  rev_undo :: delta
  rev_author :: ustring

record server_doc =
  content :: delta
  sd_revision :: nat
  history :: "revision list"

definition server_doc_new :: server_doc where
  "server_doc_new = \<lparr>content = delta_new, sd_revision = 0, history = []\<rparr>"

definition from_snapshot :: "delta \<Rightarrow> nat \<Rightarrow> (ot_error, server_doc) result" where
  "from_snapshot cont revn =
     (if \<not> is_document cont then Err NotADocument
      else Ok \<lparr>content = cont, sd_revision = revn, history = []\<rparr>)"

definition server_doc_len :: "server_doc \<Rightarrow> nat" where
  "server_doc_len sd = delta_len (content sd)"

definition server_doc_is_empty :: "server_doc \<Rightarrow> bool" where
  "server_doc_is_empty sd = delta_is_empty (content sd)"

definition server_doc_plain_text :: "server_doc \<Rightarrow> ustring" where
  "server_doc_plain_text sd = to_plain_text (content sd)"

definition oldest_retained :: "server_doc \<Rightarrow> nat" where
  "oldest_retained sd =
     (case history sd of r # _ \<Rightarrow> wrapping_sub (rev_number r) 1 | [] \<Rightarrow> sd_revision sd)"

definition history_since :: "server_doc \<Rightarrow> nat \<Rightarrow> revision list" where
  "history_since sd since = filter (\<lambda>r. rev_number r > since) (history sd)"

text \<open>The loop that rebases an incoming op over committed ones, which have priority.\<close>

definition rebase :: "revision list \<Rightarrow> delta \<Rightarrow> delta" where
  "rebase rs d = foldl (\<lambda>rebased committed. transform (rev_delta committed) rebased True) d rs"

definition ot_error_of :: "invalid_change \<Rightarrow> ot_error" where
  "ot_error_of e =
     (case e of PastEnd needed doc_len \<Rightarrow> LengthMismatch needed doc_len
      | SplitCharacter offset \<Rightarrow> OtSplitCharacter offset)"

text \<open>\<open>while self.history.len() > MAX_HISTORY { pop_front() }\<close>.\<close>

fun trim_history :: "revision list \<Rightarrow> revision list" where
  "trim_history rs = (if length rs > MAX_HISTORY then trim_history (tl rs) else rs)"

declare trim_history.simps [simp del]

definition server_apply ::
  "server_doc \<Rightarrow> nat \<Rightarrow> delta \<Rightarrow> ustring \<Rightarrow> (ot_error, revision \<times> server_doc) result" where
  "server_apply sd client_revision d author =
     (if client_revision > sd_revision sd
      then Err (RevisionInFuture client_revision (sd_revision sd))
      else if client_revision < oldest_retained sd
      then Err (RevisionTooOld client_revision (oldest_retained sd))
      else
        let rebased = rebase (filter (\<lambda>r. rev_number r > client_revision) (history sd)) d
        in case validate rebased (content sd) of
             Err e \<Rightarrow> Err (ot_error_of e)
           | Ok _ \<Rightarrow>
               let undo = invert rebased (content sd);
                   revn = wrapping_add (sd_revision sd) 1;
                   entry = \<lparr>rev_number = revn, rev_delta = rebased, rev_undo = undo,
                            rev_author = author\<rparr>
               in Ok (entry,
                      \<lparr>content = compose (content sd) rebased, sd_revision = revn,
                       history = trim_history (history sd @ [entry])\<rparr>))"

definition rollback_last :: "server_doc \<Rightarrow> bool \<times> server_doc" where
  "rollback_last sd =
     (if history sd = [] then (False, sd)
      else (True,
            \<lparr>content = compose (content sd) (rev_undo (last (history sd))),
             sd_revision = wrapping_sub (sd_revision sd) 1,
             history = butlast (history sd)\<rparr>))"

text \<open>The loop of \<open>at_revision\<close>, over the history from its newest entry.\<close>

fun walk_back :: "revision list \<Rightarrow> nat \<Rightarrow> delta \<Rightarrow> delta" where
  "walk_back [] revn doc = doc"
| "walk_back (entry # rs) revn doc =
     (if rev_number entry \<le> revn then doc else walk_back rs revn (compose doc (rev_undo entry)))"

definition at_revision :: "server_doc \<Rightarrow> nat \<Rightarrow> delta option" where
  "at_revision sd revn =
     (if revn = sd_revision sd then Some (content sd)
      else if revn > sd_revision sd \<or> revn < oldest_retained sd then None
      else Some (walk_back (rev (history sd)) revn (content sd)))"

definition replay :: "delta list \<Rightarrow> nat \<Rightarrow> delta" where
  "replay log up_to = foldl compose delta_new (take up_to log)"

section \<open>The interface to the algebra\<close>

text \<open>
  What the server relies on: applying a change is a partial function, and two changes of
  one document can be transformed past each other. \<open>size\<close> measures a document; the
  algebra promises convergence for documents below \<open>limit\<close>.
\<close>

fun path :: "('c \<Rightarrow> 'd \<Rightarrow> 'd \<Rightarrow> bool) \<Rightarrow> 'c list \<Rightarrow> 'd \<Rightarrow> 'd \<Rightarrow> bool" where
  "path app [] d e \<longleftrightarrow> d = e"
| "path app (c # cs) d e \<longleftrightarrow> (\<exists>m. app c d m \<and> path app cs m e)"

text \<open>A change moved past a list of changes, and that list moved past the change.\<close>

fun rebase_over :: "('c \<Rightarrow> 'c \<Rightarrow> bool \<Rightarrow> 'c) \<Rightarrow> 'c list \<Rightarrow> 'c \<Rightarrow> 'c" where
  "rebase_over xform [] ch = ch"
| "rebase_over xform (c # cs) ch = rebase_over xform cs (xform c ch True)"

fun bridge :: "('c \<Rightarrow> 'c \<Rightarrow> bool \<Rightarrow> 'c) \<Rightarrow> 'c list \<Rightarrow> 'c \<Rightarrow> 'c list" where
  "bridge xform [] ch = []"
| "bridge xform (c # cs) ch = xform ch c False # bridge xform cs (xform c ch True)"

locale ot_algebra =
  fixes app :: "'c \<Rightarrow> 'd \<Rightarrow> 'd \<Rightarrow> bool"
    and xform :: "'c \<Rightarrow> 'c \<Rightarrow> bool \<Rightarrow> 'c"
    and measure_doc :: "'d \<Rightarrow> nat"
    and limit :: nat
  assumes app_functional: "app c d e \<Longrightarrow> app c d e' \<Longrightarrow> e = e'"
    and converge: "app a d A \<Longrightarrow> app b d B \<Longrightarrow> measure_doc A + measure_doc B < limit \<Longrightarrow>
      \<exists>e. app (xform a b True) A e \<and> app (xform b a False) B e
        \<and> measure_doc e \<le> measure_doc A + measure_doc B"
begin

lemma path_functional: "path app cs d e \<Longrightarrow> path app cs d e' \<Longrightarrow> e = e'"
proof (induction cs arbitrary: d)
  case (Cons c cs)
  then obtain m m' where "app c d m" "path app cs m e" "app c d m'" "path app cs m' e'" by auto
  with Cons.IH app_functional show ?case by metis
qed simp

lemma path_append: "path app (cs @ cs') d e \<longleftrightarrow> (\<exists>m. path app cs d m \<and> path app cs' m e)"
  by (induction cs arbitrary: d) auto

text \<open>
  Committed changes lead from \<open>d\<close> to \<open>e\<close> through documents of at most \<open>W\<close> units; a
  submission \<open>ch\<close> leads from \<open>d\<close> to \<open>B\<close>. Rebased, it applies to \<open>e\<close>; the committed
  changes moved past it apply to \<open>B\<close>, and both ways meet.
\<close>

lemma rebase_converges:
  assumes "path (\<lambda>c d e. app c d e \<and> measure_doc e \<le> W) cs d e" "app ch d B"
    and "(length cs + 1) * W + measure_doc B < limit"
  shows "\<exists>f. app (rebase_over xform cs ch) e f \<and> path app (bridge xform cs ch) B f
    \<and> measure_doc f \<le> length cs * W + measure_doc B"
  using assms
proof (induction cs arbitrary: d ch B)
  case (Cons c cs)
  then obtain m where m: "app c d m" "measure_doc m \<le> W"
    "path (\<lambda>c d e. app c d e \<and> measure_doc e \<le> W) cs m e" by auto
  from Cons.prems(3) have "measure_doc m + measure_doc B < limit" using m(2) by simp
  from converge [OF m(1) Cons.prems(2) this] obtain f where
    f: "app (xform c ch True) m f" "app (xform ch c False) B f"
    "measure_doc f \<le> measure_doc m + measure_doc B" by blast
  from f(3) m(2) have le: "measure_doc f \<le> W + measure_doc B" by simp
  with Cons.prems(3) have "(length cs + 1) * W + measure_doc f < limit" by simp
  from Cons.IH [OF m(3) f(1) this] obtain g where
    "app (rebase_over xform cs (xform c ch True)) e g"
    "path app (bridge xform cs (xform c ch True)) f g"
    "measure_doc g \<le> length cs * W + measure_doc f" by blast
  with f(2) le show ?case by (intro exI [of _ g]) auto
qed auto

end

lemma takes_functional: "takes c d e \<Longrightarrow> takes c d e' \<Longrightarrow> e = e'"
  by (simp add: takes_def)

interpretation delta_ot: ot_algebra takes transform width infinity
proof unfold_locales
  fix a b d A B
  assume "takes a d A" "takes b d B" "width A + width B < infinity"
  then show "\<exists>e. takes (transform a b True) A e \<and> takes (transform b a False) B e
      \<and> width e \<le> width A + width B"
    by (metis transform_takes)
qed (rule takes_functional)

lemma rebase_rebase_over: "rebase rs d = rebase_over transform (map rev_delta rs) d"
  by (induction rs arbitrary: d) (simp_all add: rebase_def)

section \<open>The invariant\<close>

text \<open>
  The longest document the theorems of this theory speak about: far above the 2 to the 18
  units the server accepts, and small enough that rebasing over a full history stays below
  the sentinel \<open>usize::MAX\<close>.
\<close>

definition doc_limit :: nat where
  "doc_limit = 2 ^ 48"

lemma limit_bounds: "n \<le> MAX_HISTORY \<Longrightarrow> (n + 1) * doc_limit + doc_limit < infinity"
proof -
  assume "n \<le> MAX_HISTORY"
  then have "(n + 1) * doc_limit \<le> 2049 * doc_limit"
    by (intro mult_right_mono) (simp_all add: MAX_HISTORY_def)
  then show ?thesis by (simp add: doc_limit_def usize_max_def)
qed

lemma doc_limit_less [simp]: "doc_limit < infinity"
  by (simp add: doc_limit_def usize_max_def)

text \<open>
  The retained revisions lead from one document to another; with \<open>exact\<close>, each stored undo
  leads back and no document stores a null.
\<close>

fun chain :: "bool \<Rightarrow> revision list \<Rightarrow> cell list \<Rightarrow> cell list \<Rightarrow> bool" where
  "chain exact [] d e \<longleftrightarrow> d = e \<and> width d \<le> doc_limit \<and> (exact \<longrightarrow> null_free_cells d)"
| "chain exact (r # rs) d e \<longleftrightarrow>
     (\<exists>m. takes (rev_delta r) d m \<and> (exact \<longrightarrow> takes (rev_undo r) m d \<and> null_free_cells d)
        \<and> width d \<le> doc_limit \<and> chain exact rs m e)"

definition server_ok :: "bool \<Rightarrow> server_doc \<Rightarrow> bool" where
  "server_ok exact sd =
     (proper_doc (content sd) \<and> sd_revision sd \<le> usize_max
      \<and> length (history sd) \<le> min (sd_revision sd) MAX_HISTORY
      \<and> map rev_number (history sd)
          = [Suc (sd_revision sd - length (history sd))..<Suc (sd_revision sd)]
      \<and> (\<exists>d. chain exact (history sd) d (cells (content sd))))"

lemma chain_start: "chain exact rs d e \<Longrightarrow> width d \<le> doc_limit \<and> (exact \<longrightarrow> null_free_cells d)"
  by (cases rs) auto

lemma chain_end: "chain exact rs d e \<Longrightarrow> width e \<le> doc_limit \<and> (exact \<longrightarrow> null_free_cells e)"
  by (induction rs arbitrary: d) auto

lemma chain_append:
  "chain exact (rs @ qs) d e \<longleftrightarrow> (\<exists>m. chain exact rs d m \<and> chain exact qs m e)"
  by (induction rs arbitrary: d) (auto dest: chain_start)

lemma chain_drop: "chain exact rs d e \<Longrightarrow> \<exists>m. chain exact (drop n rs) m e"
  using chain_append [of exact "take n rs" "drop n rs" d e] by auto

lemma chain_path:
  "chain exact rs d e \<Longrightarrow> path (\<lambda>c d e. takes c d e \<and> width e \<le> doc_limit) (map rev_delta rs) d e"
proof (induction rs arbitrary: d)
  case (Cons r rs)
  then show ?case by (auto dest: chain_start)
qed simp

lemma trim_history_drop: "trim_history rs = drop (length rs - MAX_HISTORY) rs"
proof (induction rs rule: trim_history.induct)
  case (1 rs)
  show ?case
  proof (cases "length rs > MAX_HISTORY")
    case True
    then have "drop (length (tl rs) - MAX_HISTORY) (tl rs) = drop (length rs - MAX_HISTORY) rs"
      by (cases rs) (simp_all add: Suc_diff_le)
    with True 1 show ?thesis by (subst trim_history.simps) simp
  qed (subst trim_history.simps, simp)
qed

lemma length_trim_history: "length (trim_history rs) = min (length rs) MAX_HISTORY"
  by (simp add: trim_history_drop)

lemma MAX_HISTORY_pos [simp]: "0 < MAX_HISTORY"
  by (simp add: MAX_HISTORY_def)

lemma number_nth:
  assumes "server_ok exact sd" "i < length (history sd)"
  shows "rev_number (history sd ! i) = Suc (sd_revision sd - length (history sd) + i)"
proof -
  have "map rev_number (history sd) ! i = [Suc (sd_revision sd - length (history sd))..<Suc (sd_revision sd)] ! i"
    using assms(1) by (simp add: server_ok_def del: upt_Suc)
  moreover have "length (history sd) \<le> sd_revision sd" using assms(1) by (simp add: server_ok_def)
  ultimately show ?thesis using assms(2) by (simp del: upt_Suc)
qed

lemma oldest_retained_eq:
  assumes "server_ok exact sd"
  shows "oldest_retained sd = sd_revision sd - length (history sd)"
proof (cases "history sd")
  case (Cons r rs)
  then have "rev_number r = Suc (sd_revision sd - length (history sd))"
    using number_nth [OF assms, of 0] by simp
  moreover from this have "rev_number r \<le> usize_max"
    using assms Cons by (simp add: server_ok_def) linarith
  ultimately show ?thesis using Cons by (simp add: oldest_retained_def wrapping_sub_exact)
qed (simp add: oldest_retained_def)

lemma history_since_drop:
  assumes "server_ok exact sd" "oldest_retained sd \<le> c"
  shows "filter (\<lambda>r. rev_number r > c) (history sd) = drop (c - oldest_retained sd) (history sd)"
proof -
  let ?k = "c - oldest_retained sd" and ?h = "history sd"
  note nth = number_nth [OF assms(1)] and old = oldest_retained_eq [OF assms(1)]
  have "filter (\<lambda>r. rev_number r > c) (take ?k ?h) = []"
    using nth old assms(2) by (auto simp: filter_empty_conv in_set_conv_nth)
  moreover have "filter (\<lambda>r. rev_number r > c) (drop ?k ?h) = drop ?k ?h"
    using nth old assms(2) by (auto simp: filter_id_conv in_set_conv_nth)
  ultimately show ?thesis
    by (metis append_Nil append_take_drop_id filter_append)
qed

section \<open>apply\<close>

lemma server_apply_Ok_iff:
  "server_apply sd c ch author = Ok (entry, sd') \<longleftrightarrow>
     c \<le> sd_revision sd \<and> oldest_retained sd \<le> c
     \<and> validate (rev_delta entry) (content sd) = Ok ()
     \<and> entry = \<lparr>rev_number = wrapping_add (sd_revision sd) 1,
         rev_delta = rebase (history_since sd c) ch,
         rev_undo = invert (rebase (history_since sd c) ch) (content sd), rev_author = author\<rparr>
     \<and> sd' = \<lparr>content = compose (content sd) (rev_delta entry),
         sd_revision = wrapping_add (sd_revision sd) 1,
         history = trim_history (history sd @ [entry])\<rparr>"
  by (auto simp: server_apply_def history_since_def Let_def split: sum.splits if_splits)

lemma rebase_takes:
  assumes "server_ok exact sd" "chain exact (history_since sd c) d (cells (content sd))"
    "takes ch d B" "width B \<le> doc_limit"
  shows "\<exists>f. takes (rebase (history_since sd c) ch) (cells (content sd)) f
    \<and> path takes (bridge transform (map rev_delta (history_since sd c)) ch) B f"
proof -
  have "length (history_since sd c) \<le> MAX_HISTORY"
    using assms(1) le_trans [OF length_filter_le] by (auto simp: server_ok_def history_since_def)
  from limit_bounds [OF this] assms(4) have
    "(length (map rev_delta (history_since sd c)) + 1) * doc_limit + width B < infinity" by simp
  from delta_ot.rebase_converges [OF chain_path [OF assms(2)] assms(3) this] show ?thesis
    unfolding rebase_rebase_over by blast
qed

text \<open>Without an empty op in it, a submission has none after the rebase either.\<close>

lemma pos_rebase: "pos_ops (ops ch) \<Longrightarrow> pos_ops (ops (rebase rs ch))"
  by (induction rs arbitrary: ch) (simp_all add: rebase_def canonical_pos canonical_transform)

lemma null_free_rebase: "null_free_inserts ch \<Longrightarrow> null_free_inserts (rebase rs ch)"
  by (induction rs arbitrary: ch) (simp_all add: rebase_def null_free_transform)

lemma apply_takes:
  assumes "server_ok exact sd" "server_apply sd c ch author = Ok (entry, sd')" "pos_ops (ops ch)"
    "apply_cells (ops (rev_delta entry)) (cells (content sd)) = Some e" "width e \<le> doc_limit"
  shows "takes (rev_delta entry) (cells (content sd)) e"
    "canonical_doc (content sd')" "cells (content sd') = e"
proof -
  have "width (cells (content sd)) < infinity" using assms(1) by (simp add: server_ok_def proper_doc_def)
  moreover have "width e < infinity" using assms(5) doc_limit_less by linarith
  ultimately show t: "takes (rev_delta entry) (cells (content sd)) e"
    using assms(2-4) by (auto simp: takes_def server_apply_Ok_iff intro: pos_rebase)
  have "proper_doc (content sd)" using assms(1) by (simp add: server_ok_def)
  from compose_doc [OF this t] show "canonical_doc (content sd')" "cells (content sd') = e"
    using assms(2) by (auto simp: server_apply_Ok_iff)
qed

lemma apply_entry_exact:
  assumes "server_ok True sd" "server_apply sd c ch author = Ok (entry, sd')" "pos_ops (ops ch)"
    "null_free_inserts ch"
    "apply_cells (ops (rev_delta entry)) (cells (content sd)) = Some e" "width e \<le> doc_limit"
  shows "takes (rev_undo entry) e (cells (content sd))" "null_free_cells e"
proof -
  note t = apply_takes(1) [OF assms(1-3,5,6)]
  have p: "proper_doc (content sd)" "null_free_cells (cells (content sd))"
    using assms(1) chain_end by (auto simp: server_ok_def)
  from invert_takes [OF p t] assms(2) show "takes (rev_undo entry) e (cells (content sd))"
    by (auto simp: server_apply_Ok_iff)
  have "null_free_inserts (rev_delta entry)"
    using assms(2,4) by (auto simp: server_apply_Ok_iff null_free_rebase)
  from null_free_takes [OF t this p(2)] show "null_free_cells e" .
qed

lemma numbered_snoc:
  "length h \<le> k \<Longrightarrow> map rev_number h = [Suc (k - length h)..<Suc k] \<Longrightarrow> rev_number r = Suc k \<Longrightarrow>
   map rev_number (h @ [r]) = [Suc (Suc k - length (h @ [r]))..<Suc (Suc k)]"
  by simp

lemma numbered_trim:
  assumes "length h \<le> k" "map rev_number h = [Suc (k - length h)..<Suc k]"
  shows "map rev_number (trim_history h) = [Suc (k - length (trim_history h))..<Suc k]"
  using assms by (auto simp: trim_history_drop drop_map [symmetric] drop_upt simp del: upt_Suc)

lemma apply_preserves:
  assumes "server_ok exact sd" "server_apply sd c ch author = Ok (entry, sd')" "pos_ops (ops ch)"
    "exact \<longrightarrow> null_free_inserts ch" "sd_revision sd < usize_max"
    "apply_cells (ops (rev_delta entry)) (cells (content sd)) = Some e" "width e \<le> doc_limit"
  shows "server_ok exact sd'"
proof -
  note t = apply_takes [OF assms(1-3,6,7)]
  have revn: "sd_revision sd' = Suc (sd_revision sd)" "rev_number entry = Suc (sd_revision sd)"
    "history sd' = trim_history (history sd @ [entry])"
    using assms(2,5) by (auto simp: server_apply_Ok_iff wrapping_add_exact)
  obtain d where d: "chain exact (history sd) d (cells (content sd))"
    using assms(1) by (auto simp: server_ok_def)
  have "exact \<longrightarrow> takes (rev_undo entry) e (cells (content sd)) \<and> null_free_cells e"
    using apply_entry_exact [OF _ assms(2,3) _ assms(6,7)] assms(1,4) by (cases exact) auto
  then have "chain exact (history sd @ [entry]) d e"
    using d t(1) chain_end [OF d] assms(7) by (auto simp: chain_append)
  from chain_drop [OF this] have c: "\<exists>m. chain exact (history sd') m (cells (content sd'))"
    unfolding revn(3) trim_history_drop t(3) .
  have len: "length (history sd) \<le> sd_revision sd" using assms(1) by (simp add: server_ok_def)
  have "map rev_number (history sd') = [Suc (sd_revision sd' - length (history sd'))..<Suc (sd_revision sd')]"
    unfolding revn(1,3) using assms(1) len revn(2)
    by (intro numbered_trim numbered_snoc) (simp_all add: server_ok_def del: upt_Suc)
  moreover have "length (history sd') \<le> min (sd_revision sd') MAX_HISTORY"
    unfolding revn(1,3) length_trim_history using len by simp
  ultimately show ?thesis
    using c t(2) revn(1) assms(5) by (simp add: server_ok_def canonical_doc_proper del: upt_Suc)
qed

section \<open>rollback\_last and at\_revision\<close>

lemma undo_entry:
  assumes "proper_doc doc" "chain True [r] d (cells doc)"
  shows "canonical_doc (compose doc (rev_undo r))" "cells (compose doc (rev_undo r)) = d"
  using compose_doc [OF assms(1), of "rev_undo r" d] assms(2) by auto

lemma rollback_ok:
  assumes "server_ok True sd" "history sd \<noteq> []"
  shows "server_ok True (snd (rollback_last sd))" "canonical_doc (content (snd (rollback_last sd)))"
    "sd_revision (snd (rollback_last sd)) = sd_revision sd - 1"
    "oldest_retained (snd (rollback_last sd)) = oldest_retained sd"
proof -
  obtain h r where h: "history sd = h @ [r]" using assms(2) by (cases "history sd" rule: rev_cases) auto
  obtain d m where "chain True h d m" "chain True [r] m (cells (content sd))"
    using assms(1) h by (auto simp: server_ok_def chain_append simp del: chain.simps)
  note m = this
  note u = undo_entry [OF _ m(2)]
  have p: "proper_doc (content sd)" using assms(1) by (simp add: server_ok_def)
  have bounds: "Suc (length h) \<le> sd_revision sd" "sd_revision sd \<le> usize_max" "length h \<le> MAX_HISTORY"
    using assms(1) h by (simp_all add: server_ok_def)
  have revn: "sd_revision (snd (rollback_last sd)) = sd_revision sd - 1"
    using assms(2) bounds by (simp add: rollback_last_def wrapping_sub_exact)
  have rest: "history (snd (rollback_last sd)) = h"
    "content (snd (rollback_last sd)) = compose (content sd) (rev_undo r)"
    using h by (simp_all add: rollback_last_def)
  have "map rev_number h = [Suc (sd_revision sd - 1 - length h)..<Suc (sd_revision sd - 1)]"
    using assms(1) h bounds(1) by (auto simp: server_ok_def split: if_splits)
  with bounds revn rest u [OF p] m(1) show ok: "server_ok True (snd (rollback_last sd))"
    by (auto simp: server_ok_def canonical_doc_proper simp del: upt_Suc)
  show "sd_revision (snd (rollback_last sd)) = sd_revision sd - 1" by (rule revn)
  show "canonical_doc (content (snd (rollback_last sd)))" using u(1) [OF p] rest(2) by simp
  show "oldest_retained (snd (rollback_last sd)) = oldest_retained sd"
    unfolding oldest_retained_eq [OF ok] oldest_retained_eq [OF assms(1)] revn rest(1) h by simp
qed

lemma walk_back_stop [simp]: "rs = [] \<or> rev_number (hd rs) \<le> n \<Longrightarrow> walk_back rs n doc = doc"
  by (cases rs) auto

lemma walk_back_append:
  "ys = [] \<or> rev_number (hd ys) \<le> n \<Longrightarrow> walk_back (xs @ ys) n doc = walk_back xs n doc"
  by (induction xs arbitrary: doc) auto

text \<open>Forgetting the oldest entries does not change where a walk to a retained revision ends.\<close>

lemma walk_back_trim:
  assumes "server_ok exact sd" "k \<le> length (history sd)" "oldest_retained sd + k \<le> n"
  shows "walk_back (rev (drop k (history sd))) n doc = walk_back (rev (history sd)) n doc"
proof -
  have "rev (take k (history sd)) = [] \<or> rev_number (hd (rev (take k (history sd)))) \<le> n"
  proof (cases k)
    case (Suc j)
    then have "rev (take k (history sd)) = history sd ! j # rev (take j (history sd))"
      using assms(2) by (simp add: take_Suc_conv_app_nth)
    with Suc assms number_nth [OF assms(1), of j] oldest_retained_eq [OF assms(1)] show ?thesis
      by simp
  qed simp
  from walk_back_append [OF this, of "rev (drop k (history sd))" doc] show ?thesis
    by (simp flip: rev_append)
qed

lemma at_revision_walk:
  assumes "server_ok exact sd" "oldest_retained sd \<le> n" "n \<le> sd_revision sd"
  shows "at_revision sd n = Some (walk_back (rev (history sd)) n (content sd))"
proof (cases "n = sd_revision sd")
  case True
  have "rev (history sd) = [] \<or> rev_number (hd (rev (history sd))) \<le> n"
  proof (cases "history sd" rule: rev_cases)
    case (snoc h r)
    with True number_nth [OF assms(1), of "length h"] assms(1) show ?thesis
      by (simp add: server_ok_def)
  qed simp
  with True show ?thesis by (simp add: at_revision_def)
qed (use assms in \<open>simp add: at_revision_def\<close>)

lemma walk_back_exact:
  assumes "chain True qs d (cells doc)" "canonical_doc doc" "\<forall>r\<in>set qs. n < rev_number r"
  shows "canonical_doc (walk_back (rev qs) n doc)" "cells (walk_back (rev qs) n doc) = d"
proof -
  have "canonical_doc (walk_back (rev qs) n doc) \<and> cells (walk_back (rev qs) n doc) = d"
    using assms
  proof (induction qs arbitrary: doc rule: rev_induct)
    case (snoc r qs)
    then obtain m where m: "chain True qs d m" "chain True [r] m (cells doc)"
      by (auto simp: chain_append simp del: chain.simps(2))
    note u = undo_entry [OF canonical_doc_proper [OF snoc.prems(2)] m(2)]
    with snoc.IH [of "compose doc (rev_undo r)"] snoc.prems(3) m(1) show ?case by simp
  qed simp
  then show "canonical_doc (walk_back (rev qs) n doc)" "cells (walk_back (rev qs) n doc) = d" by auto
qed

lemma apply_undo:
  assumes "server_ok True sd" "canonical_doc (content sd)"
    "server_apply sd c ch author = Ok (entry, sd')" "pos_ops (ops ch)" "null_free_inserts ch"
    "apply_cells (ops (rev_delta entry)) (cells (content sd)) = Some e" "width e \<le> doc_limit"
  shows "compose (content sd') (rev_undo entry) = content sd"
proof -
  note t = apply_takes [OF assms(1,3,4,6,7)] and x = apply_entry_exact [OF assms(1,3-7)]
  from compose_doc [OF canonical_doc_proper [OF t(2)], of "rev_undo entry"] x(1) t(3) assms(2)
  show ?thesis by (intro canonical_doc_eqI) auto
qed

lemma oldest_retained_mono:
  assumes "server_ok exact sd" "server_ok exact' sd'" "sd_revision sd' = Suc (sd_revision sd)"
    "history sd' = trim_history (history sd @ [entry])"
  shows "oldest_retained sd' = oldest_retained sd + (Suc (length (history sd)) - MAX_HISTORY)"
proof -
  have "length (history sd) \<le> sd_revision sd" using assms(1) by (simp add: server_ok_def)
  then show ?thesis
    unfolding oldest_retained_eq [OF assms(1)] oldest_retained_eq [OF assms(2)] assms(3,4)
      length_trim_history by simp
qed

text \<open>Earlier revisions stay as they were when a new one is committed.\<close>

lemma at_revision_apply:
  assumes ok: "server_ok True sd" and canon: "canonical_doc (content sd)"
    and ap: "server_apply sd c ch author = Ok (entry, sd')" and pos: "pos_ops (ops ch)"
    and nf: "null_free_inserts ch" and lt: "sd_revision sd < usize_max"
    and e: "apply_cells (ops (rev_delta entry)) (cells (content sd)) = Some e" "width e \<le> doc_limit"
    and n: "oldest_retained sd' \<le> n" "n \<le> sd_revision sd"
  shows "at_revision sd' n = at_revision sd n"
proof -
  have ok': "server_ok True sd'" using apply_preserves [OF ok ap pos _ lt e] nf by simp
  have revn: "sd_revision sd' = Suc (sd_revision sd)" "rev_number entry = Suc (sd_revision sd)"
    "history sd' = trim_history (history sd @ [entry])"
    using ap lt by (auto simp: server_apply_Ok_iff wrapping_add_exact)
  define k where "k = Suc (length (history sd)) - MAX_HISTORY"
  have k: "k \<le> length (history sd)"
    using MAX_HISTORY_pos unfolding k_def by linarith
  have old: "oldest_retained sd' = oldest_retained sd + k"
    unfolding k_def by (rule oldest_retained_mono [OF ok ok' revn(1,3)])
  have "history sd' = drop k (history sd) @ [entry]"
    using k unfolding revn(3) trim_history_drop by (simp add: k_def)
  then have "walk_back (rev (history sd')) n (content sd')
      = walk_back (rev (drop k (history sd))) n (content sd)"
    using n(2) revn(2) apply_undo [OF ok canon ap pos nf e] by simp
  also have "\<dots> = walk_back (rev (history sd)) n (content sd)"
    using n(1) old k by (intro walk_back_trim [OF ok]) auto
  finally show ?thesis
    using at_revision_walk [OF ok' n(1)] at_revision_walk [OF ok] n old revn(1) by simp
qed

section \<open>The life of a document\<close>

text \<open>
  The steps a document goes through on the server: a submission is committed, and its change
  appended to the log; or storing it fails and the last commit is taken back. \<open>log\<close> is the
  list of the changes that count.
\<close>

inductive served :: "delta list \<Rightarrow> server_doc \<Rightarrow> bool" where
  served_new: "served [] server_doc_new"
| served_commit:
    "served log sd \<Longrightarrow> server_apply sd c ch author = Ok (entry, sd') \<Longrightarrow>
     pos_ops (ops ch) \<Longrightarrow> null_free_inserts ch \<Longrightarrow> sd_revision sd < usize_max \<Longrightarrow>
     apply_cells (ops (rev_delta entry)) (cells (content sd)) = Some e \<Longrightarrow> width e \<le> doc_limit \<Longrightarrow>
     served (log @ [rev_delta entry]) sd'"
| served_rollback:
    "served log sd \<Longrightarrow> rollback_last sd = (True, sd') \<Longrightarrow> served (butlast log) sd'"

definition playback :: "delta list \<Rightarrow> server_doc \<Rightarrow> bool" where
  "playback log sd \<longleftrightarrow>
     server_ok True sd \<and> canonical_doc (content sd) \<and> sd_revision sd = length log
     \<and> (\<forall>n. oldest_retained sd \<le> n \<longrightarrow> n \<le> length log \<longrightarrow> at_revision sd n = Some (replay log n))"

lemma replay_append: "n \<le> length log \<Longrightarrow> replay (log @ [d]) n = replay log n"
  by (simp add: replay_def)

lemma replay_snoc: "replay (log @ [d]) (Suc (length log)) = compose (replay log (length log)) d"
  by (simp add: replay_def)

lemma server_ok_new: "server_ok True server_doc_new"
  by (simp add: server_ok_def server_doc_new_def canonical_doc_proper)

lemma playback_new: "playback [] server_doc_new"
  using server_ok_new
  by (simp add: playback_def) (simp add: server_doc_new_def at_revision_def replay_def)

lemma playback_content:
  assumes "playback log sd"
  shows "content sd = replay log (length log)"
proof -
  have "oldest_retained sd \<le> length log"
    using assms oldest_retained_eq [of True sd] by (simp add: playback_def)
  with assms have "at_revision sd (length log) = Some (replay log (length log))"
    by (simp add: playback_def)
  with assms show ?thesis by (simp add: playback_def at_revision_def)
qed

lemma playback_commit:
  assumes "playback log sd" "server_apply sd c ch author = Ok (entry, sd')"
    "pos_ops (ops ch)" "null_free_inserts ch" "sd_revision sd < usize_max"
    "apply_cells (ops (rev_delta entry)) (cells (content sd)) = Some e" "width e \<le> doc_limit"
  shows "playback (log @ [rev_delta entry]) sd'"
proof -
  have ok: "server_ok True sd" "canonical_doc (content sd)" and len: "sd_revision sd = length log"
    using assms(1) by (auto simp: playback_def)
  have ok': "server_ok True sd'" using apply_preserves [OF ok(1) assms(2,3) _ assms(5-7)] assms(4) by simp
  have revn: "sd_revision sd' = Suc (length log)"
    "content sd' = compose (content sd) (rev_delta entry)"
    "history sd' = trim_history (history sd @ [entry])"
    using assms(2,5) len by (auto simp: server_apply_Ok_iff wrapping_add_exact)
  have "at_revision sd' n = Some (replay (log @ [rev_delta entry]) n)"
    if n: "oldest_retained sd' \<le> n" "n \<le> Suc (length log)" for n
  proof (cases "n \<le> length log")
    case True
    have "oldest_retained sd \<le> n"
      using n(1) oldest_retained_mono [OF ok(1) ok' _ revn(3)] revn(1) len by simp
    with True n len assms(1) at_revision_apply [OF ok assms(2-7) n(1)] show ?thesis
      by (simp add: playback_def replay_append)
  next
    case False
    with n(2) have "n = Suc (length log)" by simp
    with revn playback_content [OF assms(1)] show ?thesis by (simp add: at_revision_def replay_snoc)
  qed
  with ok' revn(1) apply_takes(2) [OF ok(1) assms(2,3,6,7)] show ?thesis
    by (simp add: playback_def)
qed

lemma playback_rollback:
  assumes "playback log sd" "rollback_last sd = (True, sd')"
  shows "playback (butlast log) sd'"
proof -
  have ok: "server_ok True sd" "canonical_doc (content sd)" and len: "sd_revision sd = length log"
    using assms(1) by (auto simp: playback_def)
  have ne: "history sd \<noteq> []" and sd': "sd' = snd (rollback_last sd)"
    using assms(2) by (auto simp: rollback_last_def split: if_splits)
  then obtain h r where h: "history sd = h @ [r]" by (cases "history sd" rule: rev_cases) auto
  note rb = rollback_ok [OF ok(1) ne, folded sd']
  have pos: "0 < length log" using ok(1) ne len by (cases "length log") (auto simp: server_ok_def)
  have num: "rev_number r = length log"
    using number_nth [OF ok(1), of "length h"] h len ok(1) pos by (simp add: server_ok_def)
  have "at_revision sd' n = Some (replay (butlast log) n)"
    if n: "oldest_retained sd' \<le> n" "n \<le> length (butlast log)" for n
  proof -
    have lt: "n < length log" using n(2) pos unfolding length_butlast by linarith
    have "at_revision sd' n = Some (walk_back (rev h) n (compose (content sd) (rev_undo r)))"
      using at_revision_walk [OF rb(1) n(1)] rb(3) len n(2) h sd' ne by (simp add: rollback_last_def)
    also have "\<dots> = at_revision sd n"
      using at_revision_walk [OF ok(1)] n rb(4) lt len h num by simp
    also have "\<dots> = Some (replay log n)" using assms(1) n(1) rb(4) lt by (simp add: playback_def)
    also have "replay log n = replay (butlast log) n"
      using lt by (simp add: replay_def butlast_conv_take)
    finally show ?thesis .
  qed
  with rb len show ?thesis by (simp add: playback_def)
qed

lemma served_playback: "served log sd \<Longrightarrow> playback log sd"
  by (induction rule: served.induct) (auto intro: playback_new playback_commit playback_rollback)

section \<open>A sample document\<close>

text \<open>The document ``a'' after one commit, used as the concrete state of the witnesses.\<close>

definition sample_entry :: revision where
  "sample_entry = \<lparr>rev_number = 1, rev_delta = \<lparr>ops = [op_insert [97]]\<rparr>,
     rev_undo = \<lparr>ops = [op_delete 1]\<rparr>, rev_author = []\<rparr>"

definition sample_doc :: server_doc where
  "sample_doc = \<lparr>content = delta_document [97], sd_revision = 1, history = [sample_entry]\<rparr>"

lemma sample_apply:
  "server_apply server_doc_new 0 \<lparr>ops = [op_insert [97]]\<rparr> [] = Ok (sample_entry, sample_doc)"
  by code_simp

lemma sample_chain:
  "chain True [sample_entry] [] (cells (content sample_doc))"
  "takes \<lparr>ops = [op_insert [98]]\<rparr> [] (insert_cells (Text [98]) fmempty)"
proof -
  have "takes (rev_delta sample_entry) [] (cells (content sample_doc))"
    "takes (rev_undo sample_entry) (cells (content sample_doc)) []"
    "width (cells (content sample_doc)) \<le> doc_limit" "null_free_cells (cells (content sample_doc))"
    by code_simp+
  then show "chain True [sample_entry] [] (cells (content sample_doc))" by auto
  show "takes \<lparr>ops = [op_insert [98]]\<rparr> [] (insert_cells (Text [98]) fmempty)" by code_simp
qed

lemma sample_ok: "server_ok True sample_doc" "canonical_doc (content sample_doc)"
proof -
  have "proper_doc (content sample_doc)" "sd_revision sample_doc \<le> usize_max"
    "length (history sample_doc) \<le> min (sd_revision sample_doc) MAX_HISTORY"
    "map rev_number (history sample_doc)
       = [Suc (sd_revision sample_doc - length (history sample_doc))..<Suc (sd_revision sample_doc)]"
    "history sample_doc = [sample_entry]"
    by code_simp+
  with sample_chain(1) show "server_ok True sample_doc" unfolding server_ok_def by metis
  show "canonical_doc (content sample_doc)" by code_simp
qed

lemma sample_served: "served [rev_delta sample_entry] sample_doc"
proof -
  have "pos_ops (ops \<lparr>ops = [op_insert [97]]\<rparr>)" "null_free_inserts \<lparr>ops = [op_insert [97]]\<rparr>"
    "sd_revision server_doc_new < usize_max"
    "apply_cells (ops (rev_delta sample_entry)) (cells (content server_doc_new))
       = Some (insert_cells (Text [97]) fmempty)"
    "width (insert_cells (Text [97]) fmempty) \<le> doc_limit"
    by code_simp+
  from served_commit [OF served_new sample_apply this] show ?thesis by simp
qed

section \<open>Properties\<close>

text \<open>
  (C2) A submission written against a retained revision is never refused: rebased over the
  commits it has not seen it is valid, and the document it produces is the one the client
  gets by applying, after its own change, those commits transformed over it.
\<close>

theorem apply_accepts_and_converges:
  assumes "server_ok exact sd" "oldest_retained sd \<le> c" "c \<le> sd_revision sd"
    and "chain exact (history_since sd c) d (cells (content sd))"
    and "takes ch d B" "width B \<le> doc_limit"
  shows "\<exists>entry sd'. server_apply sd c ch author = Ok (entry, sd')
    \<and> rev_delta entry = rebase (history_since sd c) ch
    \<and> path takes (bridge transform (map rev_delta (history_since sd c)) ch) B (cells (content sd'))"
proof -
  from rebase_takes [OF assms(1,4-6)] obtain f where
    f: "takes (rebase (history_since sd c) ch) (cells (content sd)) f"
    "path takes (bridge transform (map rev_delta (history_since sd c)) ch) B f" by blast
  have "proper_doc (content sd)" using assms(1) by (simp add: server_ok_def)
  from compose_doc(2) [OF this f(1)] f assms(2,3) show ?thesis
    by (auto simp: server_apply_Ok_iff validate_iff_apply takes_def)
qed

theorem apply_accepts_and_converges_witness:
  "\<exists>entry sd'. server_apply sample_doc 0 \<lparr>ops = [op_insert [98]]\<rparr> [] = Ok (entry, sd')
    \<and> rev_delta entry = rebase (history_since sample_doc 0) \<lparr>ops = [op_insert [98]]\<rparr>
    \<and> path takes (bridge transform (map rev_delta (history_since sample_doc 0)) \<lparr>ops = [op_insert [98]]\<rparr>)
        (insert_cells (Text [98]) fmempty) (cells (content sd'))"
proof -
  have "oldest_retained sample_doc \<le> 0" "0 \<le> sd_revision sample_doc"
    "history_since sample_doc 0 = [sample_entry]"
    "width (insert_cells (Text [98]) fmempty) \<le> doc_limit" by code_simp+
  with apply_accepts_and_converges [OF sample_ok(1) _ _ _ sample_chain(2), of 0 "[]"] sample_chain(1)
  show ?thesis by simp
qed





text \<open>
  The invariant of the authoritative document: contiguous revision numbers, at most
  \<open>MAX_HISTORY\<close> retained entries, and retained changes (with \<open>exact\<close>, and undos) that lead
  up to the content. An accepted submission keeps it.
\<close>

lemma apply_keeps_invariant:
  assumes "server_ok exact sd" "server_apply sd c ch author = Ok (entry, sd')" "pos_ops (ops ch)"
    "exact \<longrightarrow> null_free_inserts ch" "sd_revision sd < usize_max"
    "apply_cells (ops (rev_delta entry)) (cells (content sd)) = Some e" "width e \<le> doc_limit"
  shows "server_ok exact sd' \<and> sd_revision sd' = Suc (sd_revision sd)
    \<and> length (history sd') \<le> MAX_HISTORY \<and> cells (content sd') = e"
  using apply_preserves [OF assms] apply_takes(3) [OF assms(1-3,6,7)] assms(2,5)
  by (auto simp: server_apply_Ok_iff wrapping_add_exact server_ok_def)

lemma apply_keeps_invariant_witness:
  "server_ok True sample_doc \<and> sd_revision sample_doc = Suc (sd_revision server_doc_new)
   \<and> length (history sample_doc) \<le> MAX_HISTORY
   \<and> cells (content sample_doc) = insert_cells (Text [97]) fmempty"
proof -
  have "pos_ops (ops \<lparr>ops = [op_insert [97]]\<rparr>)" "True \<longrightarrow> null_free_inserts \<lparr>ops = [op_insert [97]]\<rparr>"
    "sd_revision server_doc_new < usize_max"
    "apply_cells (ops (rev_delta sample_entry)) (cells (content server_doc_new))
       = Some (insert_cells (Text [97]) fmempty)"
    "width (insert_cells (Text [97]) fmempty) \<le> doc_limit"
    by code_simp+
  then show ?thesis by (rule apply_keeps_invariant [OF server_ok_new sample_apply])
qed


end
