(* ===== verification/Gal_Strings.thy ===== *)
theory Gal_Strings
  imports Gal_Text
begin

text \<open>
  What the server crates use of Rust's \<open>str\<close> and \<open>char\<close>: a string is the list of its scalar
  values. Case folding beyond ASCII follows the Unicode tables, so the functions that use
  \<open>to_lowercase\<close> take it as an argument.
\<close>

section \<open>Characters\<close>

definition is_ascii_digit :: "uchar \<Rightarrow> bool" where
  "is_ascii_digit c = (48 \<le> c \<and> c \<le> 57)"

definition is_ascii_alphanumeric :: "uchar \<Rightarrow> bool" where
  "is_ascii_alphanumeric c = (is_ascii_digit c \<or> (65 \<le> c \<and> c \<le> 90) \<or> (97 \<le> c \<and> c \<le> 122))"

definition char_to_ascii_lowercase :: "uchar \<Rightarrow> uchar" where
  "char_to_ascii_lowercase c = (if 65 \<le> c \<and> c \<le> 90 then c + 32 else c)"

definition to_ascii_lowercase :: "ustring \<Rightarrow> ustring" where
  "to_ascii_lowercase s = map char_to_ascii_lowercase s"

text \<open>The Unicode property \<open>White_Space\<close>, which \<open>trim\<close> uses.\<close>

definition is_whitespace :: "uchar \<Rightarrow> bool" where
  "is_whitespace c =
     ((9 \<le> c \<and> c \<le> 13) \<or> c = 32 \<or> c = 0x85 \<or> c = 0xA0 \<or> c = 0x1680
      \<or> (0x2000 \<le> c \<and> c \<le> 0x200A) \<or> c = 0x2028 \<or> c = 0x2029 \<or> c = 0x202F \<or> c = 0x205F
      \<or> c = 0x3000)"

text \<open>The category \<open>Cc\<close>.\<close>

definition is_control :: "uchar \<Rightarrow> bool" where
  "is_control c = (c \<le> 0x1F \<or> (0x7F \<le> c \<and> c \<le> 0x9F))"

definition utf8_bytes_of :: "uchar \<Rightarrow> nat list" where
  "utf8_bytes_of c =
     (if c < 0x80 then [c]
      else if c < 0x800 then [0xC0 + c div 0x40, 0x80 + c mod 0x40]
      else if c < 0x10000 then [0xE0 + c div 0x1000, 0x80 + c div 0x40 mod 0x40, 0x80 + c mod 0x40]
      else [0xF0 + c div 0x40000, 0x80 + c div 0x1000 mod 0x40, 0x80 + c div 0x40 mod 0x40,
            0x80 + c mod 0x40])"

definition as_bytes :: "ustring \<Rightarrow> nat list" where
  "as_bytes s = concat (map utf8_bytes_of s)"

section \<open>Strings\<close>

definition starts_with :: "ustring \<Rightarrow> ustring \<Rightarrow> bool" where
  "starts_with s p = (take (length p) s = p)"

definition strip_prefix :: "ustring \<Rightarrow> ustring \<Rightarrow> ustring option" where
  "strip_prefix s p = (if starts_with s p then Some (drop (length p) s) else None)"

definition trim_start_matches :: "(uchar \<Rightarrow> bool) \<Rightarrow> ustring \<Rightarrow> ustring" where
  "trim_start_matches f s = dropWhile f s"

definition trim_end_matches :: "(uchar \<Rightarrow> bool) \<Rightarrow> ustring \<Rightarrow> ustring" where
  "trim_end_matches f s = rev (dropWhile f (rev s))"

definition trim_matches :: "(uchar \<Rightarrow> bool) \<Rightarrow> ustring \<Rightarrow> ustring" where
  "trim_matches f s = trim_end_matches f (trim_start_matches f s)"

definition trim :: "ustring \<Rightarrow> ustring" where
  "trim s = trim_matches is_whitespace s"

definition trim_end :: "ustring \<Rightarrow> ustring" where
  "trim_end s = trim_end_matches is_whitespace s"

text \<open>\<open>str::split\<close> with a character: always at least one piece.\<close>

fun split_char :: "uchar \<Rightarrow> ustring \<Rightarrow> ustring list" where
  "split_char c [] = [[]]"
| "split_char c (x # s) =
     (if x = c then [] # split_char c s
      else (case split_char c s of [] \<Rightarrow> [[x]] | p # ps \<Rightarrow> (x # p) # ps))"

fun split_once :: "uchar \<Rightarrow> ustring \<Rightarrow> (ustring \<times> ustring) option" where
  "split_once c [] = None"
| "split_once c (x # s) =
     (if x = c then Some ([], s) else map_option (apfst (Cons x)) (split_once c s))"

fun split_once_str :: "ustring \<Rightarrow> ustring \<Rightarrow> (ustring \<times> ustring) option" where
  "split_once_str p [] = (if p = [] then Some ([], []) else None)"
| "split_once_str p (x # s) =
     (if starts_with (x # s) p then Some ([], drop (length p) (x # s))
      else map_option (apfst (Cons x)) (split_once_str p s))"

fun contains_str :: "ustring \<Rightarrow> ustring \<Rightarrow> bool" where
  "contains_str [] p = (p = [])"
| "contains_str (x # s) p = (starts_with (x # s) p \<or> contains_str s p)"

text \<open>\<open>str::lines\<close>: pieces between newlines, without a final empty one and without a trailing
  carriage return where a newline followed.\<close>

definition strip_cr :: "ustring \<Rightarrow> ustring" where
  "strip_cr s = (if s \<noteq> [] \<and> last s = 13 then butlast s else s)"

definition lines :: "ustring \<Rightarrow> ustring list" where
  "lines s =
     (let ps = split_char 10 s
      in map strip_cr (butlast ps) @ (if last ps = [] then [] else [last ps]))"

text \<open>\<open>String::truncate\<close> counts bytes and panics off a character boundary; \<open>None\<close> is the panic.\<close>

definition str_truncate :: "nat \<Rightarrow> ustring \<Rightarrow> ustring option" where
  "str_truncate n s =
     (if str_len s \<le> n then Some s
      else if is_char_boundary s n then Some (str_to s n) else None)"

section \<open>Lemmas\<close>

lemma trim_sublist: "set (trim s) \<subseteq> set s"
  by (auto simp: trim_def trim_matches_def trim_end_matches_def trim_start_matches_def
      dest!: set_dropWhileD)

lemma trim_matches_set: "set (trim_matches f s) \<subseteq> set s"
  by (auto simp: trim_matches_def trim_end_matches_def trim_start_matches_def dest!: set_dropWhileD)

lemma trim_matches_length: "length (trim_matches f s) \<le> length s"
  using length_dropWhile_le [of f s] length_dropWhile_le [of f "rev (dropWhile f s)"]
  by (simp add: trim_matches_def trim_end_matches_def trim_start_matches_def)

lemma trim_matches_id:
  "s = [] \<or> (\<not> f (hd s) \<and> \<not> f (last s)) \<Longrightarrow> trim_matches f s = s"
proof -
  assume a: "s = [] \<or> (\<not> f (hd s) \<and> \<not> f (last s))"
  then have "dropWhile f s = s" by (cases s) auto
  moreover from a have "dropWhile f (rev s) = rev s"
    by (cases s rule: rev_cases) auto
  ultimately show ?thesis by (simp add: trim_matches_def trim_end_matches_def trim_start_matches_def)
qed

lemma trim_id: "list_all (\<lambda>c. \<not> is_whitespace c) s \<Longrightarrow> trim s = s"
  unfolding trim_def by (rule trim_matches_id) (cases s, auto simp: list_all_iff)

text \<open>What \<open>trim_matches\<close> leaves starts and ends with a character it keeps.\<close>

lemma trim_matches_ends:
  "trim_matches f s \<noteq> [] \<Longrightarrow> \<not> f (hd (trim_matches f s)) \<and> \<not> f (last (trim_matches f s))"
proof -
  define t where "t = dropWhile f s"
  define u where "u = dropWhile f (rev t)"
  assume "trim_matches f s \<noteq> []"
  then have u: "u \<noteq> []" by (simp add: trim_matches_def trim_end_matches_def trim_start_matches_def u_def t_def)
  then have "\<not> f (hd u)" by (simp add: u_def hd_dropWhile)
  moreover have "t \<noteq> []" using u by (auto simp: u_def)
  then have "\<not> f (hd t)" by (simp add: t_def hd_dropWhile)
  moreover obtain w where "rev t = w @ u" unfolding u_def by (metis takeWhile_dropWhile_id)
  then have "t = rev u @ rev w" by (metis rev_append rev_rev_ident)
  then have "hd t = last u" using u by (simp add: hd_rev)
  ultimately show ?thesis
    using u by (simp add: trim_matches_def trim_end_matches_def trim_start_matches_def last_rev hd_rev
        flip: t_def u_def)
qed

lemma trim_idem: "trim (trim s) = trim s"
  unfolding trim_def by (rule trim_matches_id) (metis trim_matches_ends)

lemma split_char_nonempty [simp]: "split_char c s \<noteq> []"
  by (induction s) (auto split: list.splits)

lemma split_char_pieces: "p \<in> set (split_char c s) \<Longrightarrow> c \<notin> set p"
  by (induction s arbitrary: p) (auto split: list.splits if_splits)

lemma lines_no_newline: "l \<in> set (lines s) \<Longrightarrow> 10 \<notin> set l"
  using split_char_pieces [of _ 10 s]
  by (auto simp: lines_def Let_def strip_cr_def dest: in_set_butlastD split: if_splits)

lemma ascii_len_utf8: "is_ascii_alphanumeric c \<Longrightarrow> len_utf8 c = 1"
  by (auto simp: is_ascii_alphanumeric_def is_ascii_digit_def len_utf8_def)

lemma starts_with_append [simp]: "starts_with (p @ s) p"
  by (simp add: starts_with_def)

lemma strip_prefix_iff: "strip_prefix s p = Some r \<longleftrightarrow> s = p @ r"
  by (auto simp: strip_prefix_def starts_with_def) (metis append_take_drop_id)

lemma strip_prefix_append [simp]: "strip_prefix (p @ r) p = Some r"
  by (simp add: strip_prefix_iff)

end
