(* ===== verification/Gal_Model.thy ===== *)
theory Gal_Model
  imports Gal_ServerDoc Gal_Strings
begin

text \<open>
  The domain model, \<open>crates/gal-core/src/model.rs\<close>: identifiers, users, wave modes with
  their permission tables, waves, wavelets, blips, comment threads and attachments. The
  clock and the random part of a fresh identifier are arguments.
\<close>

section \<open>Identifiers\<close>

type_synonym timestamp = int

datatype user_id = UserId ustring
datatype wave_id = WaveId ustring
datatype wavelet_id = WaveletId ustring
datatype blip_id = BlipId ustring
datatype comment_id = CommentId ustring
datatype attachment_id = AttachmentId ustring

definition user_id_new :: "ustring \<Rightarrow> user_id" where
  "user_id_new uuid = UserId (lit ''u-'' @ uuid)"

definition wave_id_new :: "ustring \<Rightarrow> wave_id" where
  "wave_id_new uuid = WaveId (lit ''w-'' @ uuid)"

definition wavelet_id_new :: "ustring \<Rightarrow> wavelet_id" where
  "wavelet_id_new uuid = WaveletId (lit ''s-'' @ uuid)"

definition blip_id_new :: "ustring \<Rightarrow> blip_id" where
  "blip_id_new uuid = BlipId (lit ''b-'' @ uuid)"

definition comment_id_new :: "ustring \<Rightarrow> comment_id" where
  "comment_id_new uuid = CommentId (lit ''c-'' @ uuid)"

definition attachment_id_new :: "ustring \<Rightarrow> attachment_id" where
  "attachment_id_new uuid = AttachmentId (lit ''a-'' @ uuid)"

definition ID_MAX_LEN :: nat where
  "ID_MAX_LEN = 64"

definition user_id_is_well_formed :: "user_id \<Rightarrow> bool" where
  "user_id_is_well_formed u =
     (case u of UserId s \<Rightarrow>
        (case strip_prefix s (lit ''u-'') of
           None \<Rightarrow> False
         | Some rest \<Rightarrow>
             rest \<noteq> [] \<and> str_len s \<le> ID_MAX_LEN \<and> list_all is_ascii_alphanumeric rest))"

definition comment_id_is_well_formed :: "comment_id \<Rightarrow> bool" where
  "comment_id_is_well_formed u =
     (case u of CommentId s \<Rightarrow>
        (case strip_prefix s (lit ''c-'') of
           None \<Rightarrow> False
         | Some rest \<Rightarrow>
             rest \<noteq> [] \<and> str_len s \<le> ID_MAX_LEN \<and> list_all is_ascii_alphanumeric rest))"

definition COMMENT_ATTRIBUTE :: ustring where
  "COMMENT_ATTRIBUTE = lit ''comment''"

definition MENTION_ATTRIBUTE :: ustring where
  "MENTION_ATTRIBUTE = lit ''mention''"

section \<open>Users\<close>

record user =
  user_id :: user_id
  user_name :: ustring
  user_display_name :: ustring
  user_email :: ustring
  user_password_hash :: ustring
  user_color :: nat
  user_created_at :: timestamp

record public_user =
  pu_id :: user_id
  pu_name :: ustring
  pu_display_name :: ustring
  pu_color :: nat

definition user_public :: "user \<Rightarrow> public_user" where
  "user_public u =
     \<lparr>pu_id = user_id u, pu_name = user_name u, pu_display_name = user_display_name u,
      pu_color = user_color u\<rparr>"

text \<open>FNV-1a on the bytes of the name; the multiplication wraps at 64 bits.\<close>

definition fnv_step :: "64 word \<Rightarrow> nat \<Rightarrow> 64 word" where
  "fnv_step hash byte = xor hash (word_of_nat byte) * 0x100000001b3"

definition color_for :: "ustring \<Rightarrow> nat" where
  "color_for name = unat (foldl fnv_step 0xcbf29ce484222325 (as_bytes name)) mod 360"

section \<open>Wave modes\<close>

datatype wave_mode = Document | Chat | Announcement | Notepad | Frozen

definition MODE_ALL :: "wave_mode list" where
  "MODE_ALL = [Document, Chat, Announcement, Notepad, Frozen]"

definition mode_as_str :: "wave_mode \<Rightarrow> ustring" where
  "mode_as_str m =
     (case m of Document \<Rightarrow> lit ''document'' | Chat \<Rightarrow> lit ''chat''
      | Announcement \<Rightarrow> lit ''announcement'' | Notepad \<Rightarrow> lit ''notepad'' | Frozen \<Rightarrow> lit ''frozen'')"

definition mode_parse :: "ustring \<Rightarrow> wave_mode option" where
  "mode_parse value = find (\<lambda>m. mode_as_str m = value) MODE_ALL"

definition mode_label :: "wave_mode \<Rightarrow> ustring" where
  "mode_label m =
     (case m of Document \<Rightarrow> lit ''Document'' | Chat \<Rightarrow> lit ''Chat''
      | Announcement \<Rightarrow> lit ''Announcement'' | Notepad \<Rightarrow> lit ''Notepad'' | Frozen \<Rightarrow> lit ''Frozen'')"

definition is_frozen :: "wave_mode \<Rightarrow> bool" where
  [perm_defs]: "is_frozen m = (m = Frozen)"

definition allows_new_message :: "wave_mode \<Rightarrow> bool \<Rightarrow> bool" where
  [perm_defs]: "allows_new_message m is_creator =
     (case m of Document \<Rightarrow> True | Chat \<Rightarrow> True | Announcement \<Rightarrow> is_creator
      | Notepad \<Rightarrow> False | Frozen \<Rightarrow> False)"

definition allows_replies :: "wave_mode \<Rightarrow> bool" where
  [perm_defs]: "allows_replies m = (m \<in> {Document, Announcement})"

definition allows_edit :: "wave_mode \<Rightarrow> bool \<Rightarrow> bool" where
  [perm_defs]: "allows_edit m is_author =
     (case m of Document \<Rightarrow> True | Notepad \<Rightarrow> True | Chat \<Rightarrow> is_author
      | Announcement \<Rightarrow> is_author | Frozen \<Rightarrow> False)"

definition allows_delete :: "wave_mode \<Rightarrow> bool" where
  [perm_defs]: "allows_delete m = (m \<in> {Document, Chat, Announcement})"

definition allows_retitle :: "wave_mode \<Rightarrow> bool \<Rightarrow> bool" where
  [perm_defs]: "allows_retitle m is_creator =
     (case m of Document \<Rightarrow> True | Chat \<Rightarrow> True | Notepad \<Rightarrow> True
      | Announcement \<Rightarrow> is_creator | Frozen \<Rightarrow> False)"

definition allows_comments :: "wave_mode \<Rightarrow> bool" where
  [perm_defs]: "allows_comments m = (m \<in> {Notepad})"

definition allows_resolve :: "wave_mode \<Rightarrow> bool" where
  [perm_defs]: "allows_resolve m = (\<not> is_frozen m)"

definition allows_private_reply :: "wave_mode \<Rightarrow> bool" where
  [perm_defs]: "allows_private_reply m = (m \<in> {Document, Chat, Announcement})"

definition is_flat :: "wave_mode \<Rightarrow> bool" where
  [perm_defs]: "is_flat m = (m \<in> {Chat, Notepad})"

definition mode_description :: "wave_mode \<Rightarrow> ustring" where
  "mode_description m =
     (case m of
        Document \<Rightarrow> lit ''Everyone can edit every message. Replies nest.''
      | Chat \<Rightarrow> lit ''A channel. Only you can edit your own messages.''
      | Announcement \<Rightarrow> lit ''Only you can post; anyone can reply.''
      | Notepad \<Rightarrow> lit ''One shared page that everyone edits, with comments in the margin.''
      | Frozen \<Rightarrow> lit ''Read-only. Nothing can change until you unfreeze it.'')"

section \<open>Waves and their parts\<close>

record wave =
  w_id :: wave_id
  w_creator :: user_id
  w_created_at :: timestamp
  w_mode :: wave_mode

datatype wavelet_kind = Conversation | PrivateReplyKind

record wavelet =
  wl_id :: wavelet_id
  wl_wave_id :: wave_id
  wl_kind :: wavelet_kind
  wl_title :: ustring
  wl_participants :: "user_id list"
  wl_anchor_blip :: "blip_id option"
  wl_created_at :: timestamp
  wl_last_modified :: timestamp

definition has_participant :: "wavelet \<Rightarrow> user_id \<Rightarrow> bool" where
  "has_participant w u = list_ex (\<lambda>p. p = u) (wl_participants w)"

record blip =
  b_id :: blip_id
  b_wavelet_id :: wavelet_id
  b_wave_id :: wave_id
  b_parent :: "blip_id option"
  b_comment :: "comment_id option"
  b_seq :: int
  b_author :: user_id
  b_contributors :: "user_id list"
  b_created_at :: timestamp
  b_last_modified :: timestamp
  b_content :: delta
  b_revision :: nat
  b_deleted :: bool

definition blip_new ::
  "timestamp \<Rightarrow> ustring \<Rightarrow> wave_id \<Rightarrow> wavelet_id \<Rightarrow> user_id \<Rightarrow> blip_id option \<Rightarrow> int \<Rightarrow> blip" where
  "blip_new ts uuid wave_id wavelet_id author parent seq =
     \<lparr>b_id = blip_id_new uuid, b_wavelet_id = wavelet_id, b_wave_id = wave_id, b_parent = parent,
      b_comment = None, b_seq = seq, b_author = author, b_contributors = [author],
      b_created_at = ts, b_last_modified = ts, b_content = delta_new, b_revision = 0,
      b_deleted = False\<rparr>"

definition record_contributor :: "timestamp \<Rightarrow> blip \<Rightarrow> user_id \<Rightarrow> blip" where
  "record_contributor now b u =
     (let b = (if \<not> list_ex (\<lambda>c. c = u) (b_contributors b)
               then b\<lparr>b_contributors := b_contributors b @ [u]\<rparr> else b)
      in b\<lparr>b_last_modified := now\<rparr>)"

definition preview :: "blip \<Rightarrow> nat \<Rightarrow> ustring" where
  "preview b max_chars =
     (let txt = to_plain_text (b_content b);
          line = (case find (\<lambda>l. trim l \<noteq> []) (lines txt) of Some l \<Rightarrow> l | None \<Rightarrow> []);
          trimmed = trim line
      in if length trimmed \<le> max_chars then trimmed
         else trim_end (take max_chars trimmed) @ [0x2026])"

record comment_thread =
  ct_id :: comment_id
  ct_wavelet_id :: wavelet_id
  ct_blip_id :: blip_id
  ct_author :: user_id
  ct_created_at :: timestamp
  ct_resolved_by :: "user_id option"
  ct_resolved_at :: "timestamp option"

definition resolved :: "comment_thread \<Rightarrow> bool" where
  "resolved t = (ct_resolved_by t \<noteq> None)"

record read_mark =
  rm_user_id :: user_id
  rm_blip_id :: blip_id
  rm_revision :: nat

record wave_flags =
  wf_archived :: bool
  wf_muted :: bool

record attachment =
  at_id :: attachment_id
  at_wavelet_id :: wavelet_id
  at_name :: ustring
  at_mime :: ustring
  at_size :: nat
  at_uploader :: user_id
  at_created_at :: timestamp

definition is_image :: "attachment \<Rightarrow> bool" where
  "is_image a = starts_with (at_mime a) (lit ''image/'')"

section \<open>Lemmas\<close>

lemma contributors_record:
  "b_contributors (record_contributor now b u) =
     (if u \<in> set (b_contributors b) then b_contributors b else b_contributors b @ [u])"
  by (auto simp: record_contributor_def Let_def list_ex_iff)

lemma has_participant_iff [simp]: "has_participant w u \<longleftrightarrow> u \<in> set (wl_participants w)"
  by (auto simp: has_participant_def list_ex_iff)

lemma minted_shape:
  assumes "list_all is_ascii_alphanumeric uuid" "length uuid = 32" "str_len p = 2"
  shows "str_len (p @ uuid) \<le> ID_MAX_LEN"
proof -
  have "str_len uuid = length uuid" using assms(1) by (induction uuid) (auto simp: ascii_len_utf8)
  with assms show ?thesis by (simp add: ID_MAX_LEN_def)
qed

lemma mode_cases_all: "m \<in> set MODE_ALL"
  by (cases m) (simp_all add: MODE_ALL_def)

section \<open>Properties\<close>

text \<open>
  Frozen means frozen: of all modes, exactly \<open>Frozen\<close> lets nobody, whatever their
  role, post, reply, edit, delete, retitle, comment, resolve or branch off a private reply.
\<close>

theorem frozen_exactly_when_nothing_allowed:
  "is_frozen m \<longleftrightarrow>
     (\<forall>is_creator is_author.
        \<not> (allows_new_message m is_creator \<or> allows_replies m \<or> allows_edit m is_author
           \<or> allows_delete m \<or> allows_retitle m is_creator \<or> allows_comments m \<or> allows_resolve m
           \<or> allows_private_reply m))"
  by (cases m) (auto simp: perm_defs)

text \<open>
  The permission tables: being creator or author never takes a right away; in the
  author-owned modes nobody else edits; a comment is possible exactly where the page is
  everyone's to edit but nothing new can be posted.
\<close>

theorem permission_tables_consistent:
  "(allows_new_message m False \<longrightarrow> allows_new_message m True)
   \<and> (allows_retitle m False \<longrightarrow> allows_retitle m True)
   \<and> (allows_edit m False \<longrightarrow> allows_edit m True)
   \<and> (allows_edit m True \<and> \<not> allows_edit m False \<longleftrightarrow> m = Chat \<or> m = Announcement)
   \<and> (allows_comments m \<longleftrightarrow> allows_edit m False \<and> \<not> allows_new_message m True)
   \<and> (allows_replies m \<longrightarrow> \<not> is_flat m)"
  by (cases m) (auto simp: perm_defs)

theorem permission_tables_consistent_witness:
  "allows_new_message Document False \<and> allows_new_message Document True
   \<and> allows_comments Notepad \<and> allows_replies Announcement \<and> \<not> is_flat Announcement"
  using permission_tables_consistent [of Document] permission_tables_consistent [of Announcement]
    permission_tables_consistent [of Notepad]
  by (simp add: perm_defs)

text \<open>A stored mode is read back as itself, and nothing else is read as a mode.\<close>

theorem mode_parse_roundtrip: "mode_parse s = Some m \<longleftrightarrow> s = mode_as_str m"
proof -
  have "mode_as_str m = mode_as_str m' \<longleftrightarrow> m = m'" for m m'
    by (cases m; cases m'; simp add: mode_as_str_def lit_def)
  then show ?thesis
    by (cases m) (auto simp: mode_parse_def MODE_ALL_def)
qed

text \<open>
  Minted identifiers pass the server's own check, given that the random part is the
  32 hexadecimal digits of a UUID; and whatever passes the check is short and, after its
  prefix, purely alphanumeric.
\<close>

theorem minted_ids_well_formed:
  assumes "list_all is_ascii_alphanumeric uuid" "length uuid = 32"
  shows "user_id_is_well_formed (user_id_new uuid)
    \<and> comment_id_is_well_formed (comment_id_new uuid)
    \<and> (user_id_is_well_formed (UserId s) \<longrightarrow> length s \<le> ID_MAX_LEN \<and> (\<exists>r. s = lit ''u-'' @ r
         \<and> r \<noteq> [] \<and> list_all is_ascii_alphanumeric r))"
proof -
  have len: "length s \<le> str_len s" for s
    by (induction s) (auto simp: len_utf8_def)
  have "str_len (lit ''u-'') = 2" "str_len (lit ''c-'') = 2"
    by (simp_all add: lit_def len_utf8_def)
  with minted_shape [OF assms] assms have
    "user_id_is_well_formed (user_id_new uuid) \<and> comment_id_is_well_formed (comment_id_new uuid)"
    by (auto simp: user_id_is_well_formed_def comment_id_is_well_formed_def user_id_new_def
        comment_id_new_def)
  moreover have "length s \<le> ID_MAX_LEN \<and> (\<exists>r. s = lit ''u-'' @ r \<and> r \<noteq> [] \<and> list_all is_ascii_alphanumeric r)"
    if "user_id_is_well_formed (UserId s)"
    using that order_trans [OF len [of s], of ID_MAX_LEN]
    by (simp add: user_id_is_well_formed_def strip_prefix_iff split: option.splits)
  ultimately show ?thesis by blast
qed

theorem minted_ids_well_formed_witness:
  "user_id_is_well_formed (user_id_new (replicate 32 97))"
proof -
  have "list_all is_ascii_alphanumeric (replicate 32 97)" "length (replicate 32 (97::nat)) = 32"
    by code_simp+
  then show ?thesis by (rule minted_ids_well_formed [THEN conjunct1])
qed

text \<open>
  Contributors are kept once each, in the order of their first contribution, and the
  author stays first; a hue is on the colour circle.
\<close>

theorem contributors_in_first_order:
  "let b = foldl (record_contributor now) (blip_new ts uuid w wl a parent seq) us
   in distinct (b_contributors b) \<and> set (b_contributors b) = insert a (set us)
      \<and> hd (b_contributors b) = a \<and> color_for name < 360"
proof -
  have "distinct (b_contributors b) \<Longrightarrow> b_contributors b \<noteq> [] \<Longrightarrow>
      (let b' = foldl (record_contributor now) b us
       in distinct (b_contributors b') \<and> set (b_contributors b') = set (b_contributors b) \<union> set us
          \<and> b_contributors b' \<noteq> [] \<and> hd (b_contributors b') = hd (b_contributors b))" for b
    by (induction us arbitrary: b) (auto simp: Let_def contributors_record)
  from this [of "blip_new ts uuid w wl a parent seq"] show ?thesis
    by (auto simp: blip_new_def Let_def color_for_def)
qed

text \<open>A preview is one line, and at most one character longer than asked for.\<close>

theorem preview_is_one_short_line:
  "length (preview b n) \<le> Suc n \<and> 10 \<notin> set (preview b n)"
proof -
  define line where "line = (case find (\<lambda>l. trim l \<noteq> []) (lines (to_plain_text (b_content b))) of
      Some l \<Rightarrow> l | None \<Rightarrow> [])"
  have "10 \<notin> set line"
  proof (cases "find (\<lambda>l. trim l \<noteq> []) (lines (to_plain_text (b_content b)))")
    case (Some l)
    then have "l \<in> set (lines (to_plain_text (b_content b)))" by (auto simp: find_Some_iff)
    with Some show ?thesis by (simp add: line_def lines_no_newline)
  qed (simp add: line_def)
  then have t: "10 \<notin> set (trim line)" using trim_sublist by blast
  have len: "length (trim_end s) \<le> length s" "set (trim_end s) \<subseteq> set s" for s
    using length_dropWhile_le [of is_whitespace "rev s"]
    by (auto simp: trim_end_def trim_end_matches_def dest: set_dropWhileD)
  have p: "preview b n = (if length (trim line) \<le> n then trim line
      else trim_end (take n (trim line)) @ [0x2026])"
    by (simp add: preview_def Let_def line_def)
  show ?thesis
    using t len [of "take n (trim line)"] unfolding p by (auto dest: in_set_takeD)
qed

end
