(* ===== verification/Gal_Protocol.thy ===== *)
theory Gal_Protocol
  imports Gal_Model
begin

text \<open>
  The wire protocol, \<open>crates/gal-core/src/protocol.rs\<close>: the views sent to clients, the
  commands clients send with their names and prices, and the messages the server sends.
  The names of server messages carry the suffix \<open>Msg\<close> to keep them apart from commands.
\<close>

section \<open>Views\<close>

record blip_view =
  bv_id :: blip_id
  bv_wavelet_id :: wavelet_id
  bv_parent :: "blip_id option"
  bv_comment :: "comment_id option"
  bv_seq :: int
  bv_author :: user_id
  bv_contributors :: "user_id list"
  bv_created_at :: timestamp
  bv_last_modified :: timestamp
  bv_content :: delta
  bv_revision :: nat
  bv_unread :: bool

record wavelet_view =
  wv_id :: wavelet_id
  wv_wave_id :: wave_id
  wv_kind :: wavelet_kind
  wv_title :: ustring
  wv_participants :: "public_user list"
  wv_anchor_blip :: "blip_id option"
  wv_created_at :: timestamp
  wv_last_modified :: timestamp
  wv_blips :: "blip_view list"
  wv_comments :: "comment_thread list"

record wave_view =
  v_id :: wave_id
  v_creator :: user_id
  v_created_at :: timestamp
  v_wavelets :: "wavelet_view list"
  v_flags :: wave_flags
  v_mode :: wave_mode

record wave_summary =
  ws_id :: wave_id
  ws_title :: ustring
  ws_participants :: "public_user list"
  ws_last_modified :: timestamp
  ws_snippet :: ustring
  ws_snippet_author :: "user_id option"
  ws_blip_count :: nat
  ws_unread_count :: nat
  ws_flags :: wave_flags

record presence_entry =
  pe_user :: public_user
  pe_editing :: "blip_id option"

record playback_frame =
  pf_blip_id :: blip_id
  pf_revision :: nat
  pf_author :: user_id
  pf_timestamp :: timestamp
  pf_delta :: delta
  pf_created :: bool

record search_hit =
  sh_wave_id :: wave_id
  sh_blip_id :: blip_id
  sh_title :: ustring
  sh_snippet :: ustring
  sh_author :: user_id
  sh_timestamp :: timestamp

section \<open>Commands\<close>

datatype client_message =
    Open wave_id
  | Close wave_id
  | CreateWave ustring "ustring list" "delta option" "wave_mode option"
  | Submit blip_id nat delta "ustring option"
  | CreateBlip wavelet_id "blip_id option" "delta option"
  | DeleteBlip blip_id
  | SetTitle wavelet_id ustring
  | SetMode wave_id wave_mode
  | AddParticipant wavelet_id ustring
  | RemoveParticipant wavelet_id user_id
  | CreateComment wavelet_id blip_id comment_id "delta option"
  | ReplyToComment comment_id "delta option"
  | ResolveComment comment_id bool
  | PrivateReply wavelet_id blip_id "ustring list"
  | Cursor wave_id blip_id nat nat
  | MarkRead wave_id
  | SetFlags wave_id wave_flags
  | RequestPlayback wave_id
  | Search ustring
  | Ping

definition message_name :: "client_message \<Rightarrow> ustring" where
  "message_name m =
     lit (case m of
        Open _ \<Rightarrow> ''open''
      | Close _ \<Rightarrow> ''close''
      | CreateWave _ _ _ _ \<Rightarrow> ''createWave''
      | Submit _ _ _ _ \<Rightarrow> ''submit''
      | CreateBlip _ _ _ \<Rightarrow> ''createBlip''
      | DeleteBlip _ \<Rightarrow> ''deleteBlip''
      | SetTitle _ _ \<Rightarrow> ''setTitle''
      | SetMode _ _ \<Rightarrow> ''setMode''
      | AddParticipant _ _ \<Rightarrow> ''addParticipant''
      | RemoveParticipant _ _ \<Rightarrow> ''removeParticipant''
      | CreateComment _ _ _ _ \<Rightarrow> ''createComment''
      | ReplyToComment _ _ \<Rightarrow> ''replyToComment''
      | ResolveComment _ _ \<Rightarrow> ''resolveComment''
      | PrivateReply _ _ _ \<Rightarrow> ''privateReply''
      | Cursor _ _ _ _ \<Rightarrow> ''cursor''
      | MarkRead _ \<Rightarrow> ''markRead''
      | SetFlags _ _ \<Rightarrow> ''setFlags''
      | RequestPlayback _ \<Rightarrow> ''requestPlayback''
      | Search _ \<Rightarrow> ''search''
      | Ping \<Rightarrow> ''ping'')"

text \<open>Prices are \<open>f64\<close> in the source; all of them are whole numbers.\<close>

definition message_cost :: "client_message \<Rightarrow> rat" where
  "message_cost m =
     (case m of
        RequestPlayback _ \<Rightarrow> 60
      | Search _ \<Rightarrow> 20
      | CreateWave _ _ _ _ \<Rightarrow> 20
      | PrivateReply _ _ _ \<Rightarrow> 20
      | CreateBlip _ _ _ \<Rightarrow> 5
      | CreateComment _ _ _ _ \<Rightarrow> 5
      | AddParticipant _ _ \<Rightarrow> 5
      | RemoveParticipant _ _ \<Rightarrow> 5
      | DeleteBlip _ \<Rightarrow> 3
      | ReplyToComment _ _ \<Rightarrow> 3
      | ResolveComment _ _ \<Rightarrow> 3
      | SetTitle _ _ \<Rightarrow> 3
      | SetMode _ _ \<Rightarrow> 3
      | SetFlags _ _ \<Rightarrow> 3
      | Open _ \<Rightarrow> 3
      | Submit _ _ _ _ \<Rightarrow> 1
      | Cursor _ _ _ _ \<Rightarrow> 1
      | MarkRead _ \<Rightarrow> 1
      | Close _ \<Rightarrow> 1
      | Ping \<Rightarrow> 1)"

section \<open>Messages of the server\<close>

datatype error_code = NotFound | BadRequest | Resync | Forbidden | TooManyRequests | Internal

datatype server_message =
    WelcomeMsg public_user "wave_summary list"
  | WaveStateMsg wave_view
  | OpMsg wave_id blip_id nat user_id delta
  | AckMsg wave_id blip_id nat delta "ustring option"
  | BlipAddedMsg wave_id blip_view
  | BlipRemovedMsg wave_id blip_id
  | CommentAddedMsg wave_id comment_thread blip_view
  | CommentResolvedMsg wave_id comment_id "user_id option" "timestamp option"
  | ModeChangedMsg wave_id wave_mode
  | TitleChangedMsg wave_id wavelet_id ustring
  | ParticipantAddedMsg wave_id wavelet_id public_user
  | ParticipantRemovedMsg wave_id wavelet_id user_id
  | WaveletAddedMsg wave_id wavelet_view
  | InboxUpdatedMsg wave_summary
  | WaveRemovedMsg wave_id
  | PresenceMsg wave_id "presence_entry list"
  | CursorMsg wave_id blip_id user_id nat nat
  | PlaybackMsg wave_id "playback_frame list"
  | SearchResultsMsg ustring "search_hit list"
  | ErrorMsg error_code ustring "blip_id option"
  | PongMsg

definition error_message :: "error_code \<Rightarrow> ustring \<Rightarrow> server_message" where
  "error_message code message = ErrorMsg code message None"

definition resync_message :: "blip_id \<Rightarrow> ustring \<Rightarrow> server_message" where
  "resync_message b message = ErrorMsg Resync message (Some b)"

section \<open>Properties\<close>

text \<open>
  No command is free and none costs more than a playback; and commands that cost
  differently have different names, so charging and counting by name is sound.
\<close>

theorem message_costs:
  "1 \<le> message_cost m \<and> message_cost m \<le> 60
   \<and> (message_name m = message_name m' \<longrightarrow> message_cost m = message_cost m')"
proof -
  have "message_name m = message_name m' \<Longrightarrow> message_cost m = message_cost m'"
    by (cases m; cases m') (simp_all add: message_name_def message_cost_def lit_def)
  then show ?thesis by (cases m) (simp_all add: message_cost_def)
qed

theorem message_costs_witness:
  "message_cost (Open (WaveId [97])) = message_cost (Open (WaveId [98]))"
  using message_costs [of "Open (WaveId [97])" "Open (WaveId [98])"] by (simp add: message_name_def)

end
