(* ===== verification/Gal_Limit.thy ===== *)
theory Gal_Limit
  imports Gal_Protocol
begin

text \<open>
  The rate limiter, \<open>crates/gal-server/src/limit.rs\<close>: token buckets by key, with idle buckets
  forgotten now and then. Tokens, prices and times are \<open>f64\<close> and \<open>Instant\<close> in the source and
  exact rationals (in seconds) here: rounding is not modelled. The clock is an argument.
\<close>

section \<open>The model\<close>

record bucket =
  tokens :: rat
  last_time :: rat

definition CLEANUP_INTERVAL :: rat where
  "CLEANUP_INTERVAL = 60"

record rate_limiter =
  entries :: "(ustring, bucket) fmap"
  last_cleanup :: rat
  capacity :: rat
  refill_per_sec :: rat
  idle_eviction :: rat

definition limiter_new :: "rat \<Rightarrow> rat \<Rightarrow> rat \<Rightarrow> rate_limiter" where
  "limiter_new now cap per_sec =
     \<lparr>entries = fmempty, last_cleanup = now, capacity = cap, refill_per_sec = per_sec,
      idle_eviction = max (cap / per_sec) 600\<rparr>"

text \<open>\<open>Instant::duration_since\<close>, which is zero for a later instant.\<close>

definition duration_since :: "rat \<Rightarrow> rat \<Rightarrow> rat" where
  "duration_since now t = max 0 (now - t)"

definition limiter_cleanup :: "rat \<Rightarrow> rate_limiter \<Rightarrow> rate_limiter" where
  "limiter_cleanup now rl =
     (if fcard (fmdom (entries rl)) > 4096 \<and> duration_since now (last_cleanup rl) \<ge> CLEANUP_INTERVAL
      then rl\<lparr>entries := fmfilter (\<lambda>k. case fmlookup (entries rl) k of
                 Some b \<Rightarrow> duration_since now (last_time b) < idle_eviction rl | None \<Rightarrow> False)
               (entries rl),
              last_cleanup := now\<rparr>
      else rl)"

definition limiter_take ::
  "rate_limiter \<Rightarrow> rat \<Rightarrow> ustring \<Rightarrow> rat \<Rightarrow> bool \<Rightarrow> bool \<times> rate_limiter" where
  "limiter_take rl0 now key cost consume =
     (let rl = limiter_cleanup now rl0;
          bucket = (case fmlookup (entries rl) key of
                      Some b \<Rightarrow> b | None \<Rightarrow> \<lparr>tokens = capacity rl, last_time = now\<rparr>);
          elapsed = duration_since now (last_time bucket);
          toks = min (tokens bucket + elapsed * refill_per_sec rl) (capacity rl)
      in if toks \<ge> cost
         then (True, rl\<lparr>entries := fmupd key
                 \<lparr>tokens = (if consume then toks - cost else toks), last_time = now\<rparr> (entries rl)\<rparr>)
         else (False, rl\<lparr>entries := fmupd key \<lparr>tokens = toks, last_time = now\<rparr> (entries rl)\<rparr>))"

definition check_cost :: "rate_limiter \<Rightarrow> rat \<Rightarrow> ustring \<Rightarrow> rat \<Rightarrow> bool \<times> rate_limiter" where
  "check_cost rl now key cost = limiter_take rl now key cost True"

definition limiter_check :: "rate_limiter \<Rightarrow> rat \<Rightarrow> ustring \<Rightarrow> bool \<times> rate_limiter" where
  "limiter_check rl now key = check_cost rl now key 1"

definition would_allow :: "rate_limiter \<Rightarrow> rat \<Rightarrow> ustring \<Rightarrow> bool \<times> rate_limiter" where
  "would_allow rl now key = limiter_take rl now key 1 False"

text \<open>The peer address is already rendered as text.\<close>

definition client_key :: "ustring option \<Rightarrow> ustring option \<Rightarrow> bool \<Rightarrow> ustring" where
  "client_key peer forwarded trust_forwarded =
     (let fallback = (case peer of Some ip \<Rightarrow> ip | None \<Rightarrow> lit ''unknown'')
      in if trust_forwarded
         then (case forwarded of
                 Some value \<Rightarrow>
                   (case split_char 44 value of
                      first # _ \<Rightarrow>
                        let first = trim first in if first \<noteq> [] then first else fallback
                    | [] \<Rightarrow> fallback)
               | None \<Rightarrow> fallback)
         else fallback)"

section \<open>The contract of a meter\<close>

text \<open>
  What callers rely on: every key has a level that grows at most at a fixed rate, a call
  for \<open>cost\<close> is granted exactly when the level covers it, and is then paid for.
\<close>

fun granted ::
  "('s \<Rightarrow> rat \<Rightarrow> 'k \<Rightarrow> rat \<Rightarrow> bool \<times> 's) \<Rightarrow> 's \<Rightarrow> 'k \<Rightarrow> (rat \<times> 'k \<times> rat) list \<Rightarrow> rat" where
  "granted charge s k [] = 0"
| "granted charge s k ((t, key, cost) # calls) =
     (if fst (charge s t key cost) \<and> key = k then cost else 0)
     + granted charge (snd (charge s t key cost)) k calls"

locale meter =
  fixes ok :: "'s \<Rightarrow> rat \<Rightarrow> bool"
    and level :: "'s \<Rightarrow> rat \<Rightarrow> 'k \<Rightarrow> rat"
    and charge :: "'s \<Rightarrow> rat \<Rightarrow> 'k \<Rightarrow> rat \<Rightarrow> bool \<times> 's"
    and rate :: "'s \<Rightarrow> rat"
  assumes grants: "ok s t0 \<Longrightarrow> t0 \<le> t \<Longrightarrow> 0 \<le> cost \<Longrightarrow>
      fst (charge s t key cost) \<longleftrightarrow> cost \<le> level s t key"
    and charged: "ok s t0 \<Longrightarrow> t0 \<le> t \<Longrightarrow> 0 \<le> cost \<Longrightarrow>
      ok (snd (charge s t key cost)) t \<and> rate (snd (charge s t key cost)) = rate s
      \<and> level (snd (charge s t key cost)) t k =
          (if k = key \<and> fst (charge s t key cost) then level s t k - cost else level s t k)"
    and grows: "ok s t0 \<Longrightarrow> t0 \<le> t \<Longrightarrow> level s t k \<le> level s t0 k + rate s * (t - t0)"
    and level_nonneg: "ok s t0 \<Longrightarrow> t0 \<le> t \<Longrightarrow> 0 \<le> level s t k"
begin

text \<open>
  However calls are timed, what a key is granted is bounded by what it had at the start and
  what was refilled since.
\<close>

lemma granted_bound:
  assumes "ok s t0" "sorted (map fst calls)" "\<forall>c\<in>set calls. t0 \<le> fst c \<and> 0 \<le> snd (snd c)"
    and "\<forall>c\<in>set calls. fst c \<le> tn" "t0 \<le> tn"
  shows "granted charge s k calls \<le> level s t0 k + rate s * (tn - t0)"
  using assms
proof (induction calls arbitrary: s t0)
  case Nil
  then show ?case using grows [of s t0 tn k] level_nonneg [of s t0 tn k] by simp
next
  case (Cons c calls)
  obtain t key cost where c: "c = (t, key, cost)" by (cases c) auto
  have t: "t0 \<le> t" "0 \<le> cost" "t \<le> tn" using Cons.prems(3,4) c by auto
  define s' where "s' = snd (charge s t key cost)"
  note ch = charged [OF Cons.prems(1) t(1,2), of key, folded s'_def]
  have "granted charge s' k calls \<le> level s' t k + rate s' * (tn - t)"
    using Cons.prems(2-4) c t ch by (intro Cons.IH) auto
  moreover have "level s t k \<le> level s t0 k + rate s * (t - t0)"
    by (rule grows [OF Cons.prems(1) t(1)])
  moreover have "rate s * (tn - t) + rate s * (t - t0) = rate s * (tn - t0)"
    by (simp add: algebra_simps)
  ultimately show ?case using ch [of k] by (auto simp: c s'_def)
qed

end

section \<open>The buckets as a meter\<close>

definition bucket_level :: "rate_limiter \<Rightarrow> rat \<Rightarrow> ustring \<Rightarrow> rat" where
  "bucket_level rl t key =
     (case fmlookup (entries rl) key of
        None \<Rightarrow> capacity rl
      | Some b \<Rightarrow> min (tokens b + duration_since t (last_time b) * refill_per_sec rl) (capacity rl))"

definition limiter_ok :: "rate_limiter \<Rightarrow> rat \<Rightarrow> bool" where
  "limiter_ok rl t \<longleftrightarrow>
     0 < refill_per_sec rl \<and> 0 \<le> capacity rl \<and> capacity rl \<le> idle_eviction rl * refill_per_sec rl
     \<and> (\<forall>k b. fmlookup (entries rl) k = Some b \<longrightarrow>
           0 \<le> tokens b \<and> tokens b \<le> capacity rl \<and> last_time b \<le> t)"

lemma limiter_okD:
  assumes "limiter_ok rl t"
  shows "0 < refill_per_sec rl" "0 \<le> capacity rl" "capacity rl \<le> idle_eviction rl * refill_per_sec rl"
    "fmlookup (entries rl) k = Some b \<Longrightarrow> 0 \<le> tokens b \<and> tokens b \<le> capacity rl \<and> last_time b \<le> t"
  using assms by (auto simp: limiter_ok_def)

lemma limiter_ok_later: "limiter_ok rl t \<Longrightarrow> t \<le> t' \<Longrightarrow> limiter_ok rl t'"
  by (fastforce simp: limiter_ok_def)

lemma duration_since_mono: "t \<le> t' \<Longrightarrow> duration_since t x \<le> duration_since t' x"
  by (auto simp: duration_since_def)

text \<open>
  Forgetting an idle bucket changes no level: it was full again anyway. This is why the
  eviction time is at least the time a bucket takes to fill.
\<close>

lemma cleanup_level:
  assumes "limiter_ok rl t0" "now \<le> t"
  shows "bucket_level (limiter_cleanup now rl) t k = bucket_level rl t k"
proof (cases "fmlookup (entries rl) k")
  case (Some b)
  have full: "capacity rl \<le> tokens b + duration_since t (last_time b) * refill_per_sec rl"
    if "\<not> duration_since now (last_time b) < idle_eviction rl"
  proof -
    have "idle_eviction rl \<le> duration_since t (last_time b)"
      using that duration_since_mono [OF assms(2)] by (meson not_less order_trans)
    then have "idle_eviction rl * refill_per_sec rl \<le> duration_since t (last_time b) * refill_per_sec rl"
      using limiter_okD(1) [OF assms(1)] by (intro mult_right_mono) auto
    with limiter_okD(3,4) [OF assms(1)] Some show ?thesis by fastforce
  qed
  with Some show ?thesis
    by (auto simp: bucket_level_def limiter_cleanup_def min_def)
qed (simp add: bucket_level_def limiter_cleanup_def)

lemma cleanup_ok: "limiter_ok rl t \<Longrightarrow> limiter_ok (limiter_cleanup now rl) t"
  by (auto simp: limiter_ok_def limiter_cleanup_def split: option.splits if_splits)

lemma cleanup_fields [simp]:
  "capacity (limiter_cleanup now rl) = capacity rl"
  "refill_per_sec (limiter_cleanup now rl) = refill_per_sec rl"
  "idle_eviction (limiter_cleanup now rl) = idle_eviction rl"
  by (simp_all add: limiter_cleanup_def)

lemma duration_since_self [simp]: "duration_since t t = 0"
  by (simp add: duration_since_def)

lemma take_bucket:
  assumes "limiter_ok rl t0"
  shows "limiter_take rl now key cost consume =
    (let lv = bucket_level rl now key; rl' = limiter_cleanup now rl
     in (cost \<le> lv, rl'\<lparr>entries := fmupd key
           \<lparr>tokens = (if cost \<le> lv \<and> consume then lv - cost else lv), last_time = now\<rparr> (entries rl')\<rparr>))"
proof -
  have lv: "bucket_level rl now key = bucket_level (limiter_cleanup now rl) now key"
    using cleanup_level [OF assms order_refl] by simp
  show ?thesis
    unfolding lv
    by (auto simp: limiter_take_def bucket_level_def Let_def split: option.splits)
qed

lemma level_bounds:
  assumes "limiter_ok rl t0" "t0 \<le> t"
  shows "0 \<le> bucket_level rl t k" "bucket_level rl t k \<le> capacity rl"
proof -
  have "0 \<le> duration_since t x * refill_per_sec rl" for x
    using assms(1) by (auto simp: limiter_ok_def duration_since_def)
  with assms(1) show "0 \<le> bucket_level rl t k" "bucket_level rl t k \<le> capacity rl"
    by (auto simp: bucket_level_def limiter_ok_def split: option.splits)
qed

lemma level_grows:
  assumes "limiter_ok rl t0" "t0 \<le> t"
  shows "bucket_level rl t k \<le> bucket_level rl t0 k + refill_per_sec rl * (t - t0)"
proof (cases "fmlookup (entries rl) k")
  case None
  with assms show ?thesis by (simp add: bucket_level_def limiter_ok_def)
next
  case (Some b)
  define x where "x = tokens b + duration_since t0 (last_time b) * refill_per_sec rl"
  define y where "y = refill_per_sec rl * (t - t0)"
  have d: "duration_since t (last_time b) = duration_since t0 (last_time b) + (t - t0)"
    using assms(2) limiter_okD(4) [OF assms(1) Some] by (simp add: duration_since_def)
  have "tokens b + duration_since t (last_time b) * refill_per_sec rl = x + y"
    unfolding x_def y_def d by (simp add: algebra_simps)
  with Some have "bucket_level rl t k = min (x + y) (capacity rl)" by (simp add: bucket_level_def)
  moreover from Some have "bucket_level rl t0 k = min x (capacity rl)"
    by (simp add: bucket_level_def x_def)
  moreover have "0 \<le> y" using assms limiter_okD(1) [OF assms(1)] by (simp add: y_def)
  ultimately show ?thesis by (simp add: min_def flip: y_def)
qed

lemma take_ok_level:
  assumes "limiter_ok rl t0" "t0 \<le> now" "0 \<le> cost" "limiter_take rl now key cost consume = (g, rl')"
  shows "limiter_ok rl' now" "refill_per_sec rl' = refill_per_sec rl"
    "now \<le> t \<Longrightarrow> k \<noteq> key \<Longrightarrow> bucket_level rl' t k = bucket_level rl t k"
    "bucket_level rl' now key = (if g \<and> consume then bucket_level rl now key - cost
       else bucket_level rl now key)"
proof -
  have rl': "g = (cost \<le> bucket_level rl now key)"
    "rl' = (limiter_cleanup now rl)\<lparr>entries := fmupd key
       \<lparr>tokens = (if g \<and> consume then bucket_level rl now key - cost else bucket_level rl now key),
        last_time = now\<rparr> (entries (limiter_cleanup now rl))\<rparr>"
    using assms(4) take_bucket [OF assms(1), of now key cost consume] by (auto simp: Let_def)
  note b = level_bounds [OF assms(1,2), of key]
  show "limiter_ok rl' now"
    using cleanup_ok [OF limiter_ok_later [OF assms(1,2)], of now] b assms(3) rl'
    by (auto simp: limiter_ok_def split: if_splits)
  show "refill_per_sec rl' = refill_per_sec rl" using rl' by simp
  show "bucket_level rl' t k = bucket_level rl t k" if "now \<le> t" "k \<noteq> key"
  proof -
    have "bucket_level rl' t k = bucket_level (limiter_cleanup now rl) t k"
      unfolding rl'(2) using that(2) by (simp add: bucket_level_def cong: option.case_cong)
    then show ?thesis using cleanup_level [OF assms(1) that(1), of k] by simp
  qed
  show "bucket_level rl' now key = (if g \<and> consume then bucket_level rl now key - cost
       else bucket_level rl now key)"
    using b assms(3) unfolding rl'(2) by (simp add: bucket_level_def)
qed

interpretation bucket_meter: meter limiter_ok bucket_level check_cost refill_per_sec
proof unfold_locales
  fix s t0 t cost key k
  assume a: "limiter_ok s t0" "t0 \<le> t" "(0::rat) \<le> cost"
  show "fst (check_cost s t key cost) \<longleftrightarrow> cost \<le> bucket_level s t key"
    using take_bucket [OF a(1)] by (simp add: check_cost_def Let_def)
  obtain g rl' where r: "limiter_take s t key cost True = (g, rl')" by fastforce
  show "limiter_ok (snd (check_cost s t key cost)) t
      \<and> refill_per_sec (snd (check_cost s t key cost)) = refill_per_sec s
      \<and> bucket_level (snd (check_cost s t key cost)) t k =
          (if k = key \<and> fst (check_cost s t key cost) then bucket_level s t k - cost
           else bucket_level s t k)"
    using take_ok_level(1,2) [OF a r] take_ok_level(3) [OF a r order_refl, of k]
      take_ok_level(4) [OF a r] r by (cases "k = key") (auto simp: check_cost_def)
next
  fix s t0 t k
  assume a: "limiter_ok s t0" "t0 \<le> t"
  show "bucket_level s t k \<le> bucket_level s t0 k + refill_per_sec s * (t - t0)"
    by (rule level_grows [OF a])
  show "0 \<le> bucket_level s t k" by (rule level_bounds(1) [OF a])
qed

lemma limiter_new_ok: "0 < per_sec \<Longrightarrow> 0 \<le> cap \<Longrightarrow> limiter_ok (limiter_new now cap per_sec) now"
  by (auto simp: limiter_ok_def limiter_new_def max_def field_simps)

section \<open>Properties\<close>

text \<open>
  (C40) A limiter holds: whatever calls arrive from whatever keys, and however the map of
  buckets is cleaned up in between, a key is granted no more than the burst capacity plus
  the refill for the time that passed.
\<close>

theorem limiter_bounds_every_key:
  assumes "0 < per_sec" "0 \<le> cap" "sorted (map fst calls)"
    and "\<forall>c\<in>set calls. t0 \<le> fst c \<and> 0 \<le> snd (snd c)" "\<forall>c\<in>set calls. fst c \<le> tn" "t0 \<le> tn"
  shows "granted check_cost (limiter_new t0 cap per_sec) k calls \<le> cap + per_sec * (tn - t0)"
  using bucket_meter.granted_bound [OF limiter_new_ok [OF assms(1,2)] assms(3-6), of k]
  by (simp add: bucket_level_def limiter_new_def)

theorem limiter_bounds_every_key_witness:
  "granted check_cost (limiter_new 0 2 1) [97] [(0, [97], 1), (0, [97], 1), (0, [97], 1), (1, [98], 1)]
     \<le> 2 + 1 * (1 - 0)"
  by (rule limiter_bounds_every_key) auto

text \<open>
  A refused call is charged nothing, peeking never charges, and no call touches what
  another key has, now or later.
\<close>

theorem limiter_take_isolated:
  assumes "limiter_ok rl t0" "t0 \<le> now" "0 \<le> cost" "limiter_take rl now key cost consume = (g, rl')"
  shows "(g \<longleftrightarrow> cost \<le> bucket_level rl now key)
    \<and> bucket_level rl' now key = (if g \<and> consume then bucket_level rl now key - cost
        else bucket_level rl now key)
    \<and> (\<forall>t k. now \<le> t \<longrightarrow> k \<noteq> key \<longrightarrow> bucket_level rl' t k = bucket_level rl t k)"
  using take_ok_level [OF assms] take_bucket [OF assms(1), of now key cost consume] assms(4)
  by (auto simp: Let_def)

theorem limiter_take_isolated_witness:
  "\<not> fst (limiter_take (limiter_new 0 2 1) 0 [97] 3 True)
   \<and> bucket_level (snd (limiter_take (limiter_new 0 2 1) 0 [97] 3 True)) 0 [97] = 2"
proof -
  have ok: "limiter_ok (limiter_new 0 2 1) 0" by (rule limiter_new_ok) auto
  obtain g rl' where r: "limiter_take (limiter_new 0 2 1) 0 [97] 3 True = (g, rl')" by fastforce
  have l: "bucket_level (limiter_new 0 2 1) 0 [97] = 2" by (simp add: bucket_level_def limiter_new_def)
  show ?thesis using limiter_take_isolated [OF ok _ _ r] r l by simp
qed

text \<open>Without a trusted proxy the forwarded header has no say in who is charged.\<close>

theorem untrusted_header_ignored:
  "client_key peer forwarded False = client_key peer None trust
   \<and> (client_key peer forwarded trust = [] \<longrightarrow> peer = Some [])"
  by (auto simp: client_key_def Let_def lit_def split: option.splits list.splits if_splits)

theorem untrusted_header_ignored_witness:
  "client_key None (Some [32]) True = lit ''unknown''"
  using untrusted_header_ignored [of None "Some [32]" True] by code_simp

end
