(* ===== verification/Gal_Auth.thy ===== *)
theory Gal_Auth
  imports Gal_Limit
begin

unbundle bit_operations_syntax

text \<open>
  Accounts and session cookies, \<open>crates/gal-server/src/auth.rs\<close>. Argon2, SHA-256, base64,
  the random source and Unicode case folding are library code: the functions that use them
  take them as arguments. \<open>lowercase_spec\<close> is what is relied on of \<open>str::to_lowercase\<close>.
\<close>

section \<open>Secrets\<close>

definition COOKIE_NAME :: ustring where
  "COOKIE_NAME = lit ''gal_session''"

definition hash_token :: "(nat list \<Rightarrow> nat list) \<Rightarrow> (nat list \<Rightarrow> ustring) \<Rightarrow> ustring \<Rightarrow> ustring" where
  "hash_token sha256 base64 token = base64 (sha256 (as_bytes token))"

definition generate_token :: "(nat list \<Rightarrow> ustring) \<Rightarrow> nat list \<Rightarrow> ustring" where
  "generate_token base64 random_bytes = base64 random_bytes"

text \<open>\<open>parse\<close> and \<open>argon2_verify\<close> are \<open>PasswordHash::new\<close> and \<open>Argon2::verify_password\<close>.\<close>

definition verify_password ::
  "(ustring \<Rightarrow> 'h option) \<Rightarrow> (nat list \<Rightarrow> 'h \<Rightarrow> bool) \<Rightarrow> ustring \<Rightarrow> ustring \<Rightarrow> bool" where
  "verify_password parse argon2_verify password stored_hash =
     (case parse stored_hash of
        None \<Rightarrow> False
      | Some parsed \<Rightarrow> argon2_verify (as_bytes password) parsed)"

definition constant_time_eq :: "('b \<Rightarrow> 8 word list) \<Rightarrow> 'b \<Rightarrow> 'b \<Rightarrow> bool" where
  "constant_time_eq sha256 a b =
     (foldl (\<lambda>difference (x, y). difference OR (x XOR y)) 0 (zip (sha256 a) (sha256 b)) = 0)"

section \<open>Cookies\<close>

fun show_digits :: "nat \<Rightarrow> ustring" where
  "show_digits n = (if n < 10 then [48 + n] else show_digits (n div 10) @ [48 + n mod 10])"

declare show_digits.simps [simp del]

definition show_int :: "int \<Rightarrow> ustring" where
  "show_int n = (if n < 0 then 45 # show_digits (nat (- n)) else show_digits (nat n))"

definition session_cookie :: "ustring \<Rightarrow> bool \<Rightarrow> int \<Rightarrow> ustring" where
  "session_cookie token secure max_age_secs =
     COOKIE_NAME @ lit ''='' @ token @ lit ''; Path=/; HttpOnly; SameSite=Lax; Max-Age=''
     @ show_int max_age_secs @ (if secure then lit ''; Secure'' else [])"

definition clear_cookie :: "bool \<Rightarrow> ustring" where
  "clear_cookie secure =
     COOKIE_NAME @ lit ''=; Path=/; HttpOnly; SameSite=Lax; Max-Age=0''
     @ (if secure then lit ''; Secure'' else [])"

fun find_map :: "('a \<Rightarrow> 'b option) \<Rightarrow> 'a list \<Rightarrow> 'b option" where
  "find_map f [] = None"
| "find_map f (x # xs) = (case f x of Some y \<Rightarrow> Some y | None \<Rightarrow> find_map f xs)"

definition cookie_value :: "ustring \<Rightarrow> ustring option" where
  "cookie_value pair =
     (case split_once 61 pair of
        None \<Rightarrow> None
      | Some (name, value) \<Rightarrow> if trim name = COOKIE_NAME then Some (trim value) else None)"

definition token_from_cookies :: "ustring \<Rightarrow> ustring option" where
  "token_from_cookies header = find_map cookie_value (split_char 59 header)"

section \<open>Sign-up\<close>

datatype signup_error =
    NameTooShort | NameTooLong | NameCharacters | PasswordTooShort | PasswordTooLong
  | PasswordTooCommon | PasswordContainsName | DisplayNameTooLong

definition signup_error_message :: "signup_error \<Rightarrow> ustring" where
  "signup_error_message e =
     lit (case e of
        NameTooShort \<Rightarrow> ''Username must be at least 2 characters.''
      | NameTooLong \<Rightarrow> ''Username must be at most 32 characters.''
      | NameCharacters \<Rightarrow>
          ''Username may only contain letters, numbers, dots, dashes and underscores.''
      | PasswordTooShort \<Rightarrow> ''Password must be at least 12 characters.''
      | PasswordTooLong \<Rightarrow> ''Password must be at most 1024 characters.''
      | PasswordTooCommon \<Rightarrow>
          ''That password is one of the most common ones in use. Please choose another.''
      | PasswordContainsName \<Rightarrow> ''Password must not contain your username.''
      | DisplayNameTooLong \<Rightarrow> ''Display name must be at most 64 characters.'')"

definition MIN_PASSWORD :: nat where
  "MIN_PASSWORD = 12"

definition MAX_PASSWORD :: nat where
  "MAX_PASSWORD = 1024"

definition COMMON_PASSWORDS :: "ustring list" where
  "COMMON_PASSWORDS = map lit
     [''123456789012'', ''1234567890123'', ''12345678901234'', ''111111111111'', ''aaaaaaaaaaaa'',
      ''password1234'', ''passw0rd1234'', ''passwordpassword'', ''qwertyuiop123'',
      ''qwertyuiopasdfghjkl'', ''administrator'', ''iloveyou1234'', ''letmein123456'',
      ''welcome123456'', ''abcdefghijklmnop'', ''thisisapassword'', ''correcthorsebatterystaple'']"

definition validate_password ::
  "(ustring \<Rightarrow> ustring) \<Rightarrow> ustring \<Rightarrow> ustring option \<Rightarrow> (signup_error, unit) result" where
  "validate_password to_lowercase password name =
     (if length password < MIN_PASSWORD then Err PasswordTooShort
      else if length password > MAX_PASSWORD then Err PasswordTooLong
      else
        let folded = to_lowercase password
        in if folded \<in> set COMMON_PASSWORDS then Err PasswordTooCommon
           else (case name of
                   None \<Rightarrow> Ok ()
                 | Some n \<Rightarrow>
                     let n = to_lowercase (trim n)
                     in if length n \<ge> 3 \<and> contains_str folded n then Err PasswordContainsName
                        else Ok ()))"

definition name_char :: "uchar \<Rightarrow> bool" where
  "name_char c = (is_ascii_alphanumeric c \<or> c \<in> {46, 45, 95})"

definition validate_name :: "(ustring \<Rightarrow> ustring) \<Rightarrow> ustring \<Rightarrow> (signup_error, ustring) result" where
  "validate_name to_lowercase name =
     (let name = to_lowercase (trim name)
      in if length name < 2 then Err NameTooShort
         else if length name > 32 then Err NameTooLong
         else if \<not> list_all name_char name then Err NameCharacters
         else Ok name)"

definition validate_signup ::
  "(ustring \<Rightarrow> ustring) \<Rightarrow> ustring \<Rightarrow> ustring \<Rightarrow> ustring \<Rightarrow> (signup_error, ustring \<times> ustring) result" where
  "validate_signup to_lowercase name display_name password =
     bind_result (validate_name to_lowercase name) (\<lambda>name.
     bind_result (validate_password to_lowercase password (Some name)) (\<lambda>_.
       let display = trim display_name;
           display = (if display = [] then name else display)
       in if length display > 64 then Err DisplayNameTooLong else Ok (name, display)))"

datatype panic = Panic

definition name_from_external ::
  "(ustring \<Rightarrow> ustring) \<Rightarrow> ustring \<Rightarrow> (panic, ustring option) result" where
  "name_from_external to_lowercase raw =
     (let loc = (case split_char 64 raw of p # _ \<Rightarrow> p | [] \<Rightarrow> raw);
          name = filter name_char (to_lowercase (trim loc))
      in case str_truncate 32 name of
           None \<Rightarrow> Err Panic
         | Some name \<Rightarrow>
             let name = trim_matches (\<lambda>c. c \<in> {46, 45, 95}) name
             in Ok (case validate_name to_lowercase name of Ok n \<Rightarrow> Some n | Err _ \<Rightarrow> None))"

section \<open>Origins\<close>

definition origin_allowed :: "ustring option \<Rightarrow> ustring option \<Rightarrow> ustring list \<Rightarrow> bool" where
  "origin_allowed origin host allowed =
     (case origin of
        None \<Rightarrow> True
      | Some origin \<Rightarrow>
          let origin = to_ascii_lowercase (trim_end_matches (\<lambda>c. c = 47) (trim origin))
          in if origin = lit ''null'' then False
             else if origin \<in> set allowed then True
             else (case (split_once_str (lit ''://'') origin, host) of
                     (Some (_, authority), Some host) \<Rightarrow> authority = to_ascii_lowercase (trim host)
                   | _ \<Rightarrow> False))"

record identity =
  identity_user :: user
  identity_token_hash :: ustring

section \<open>Lemmas\<close>

definition is_ascii_uppercase :: "uchar \<Rightarrow> bool" where
  "is_ascii_uppercase c = (65 \<le> c \<and> c \<le> 90)"

text \<open>
  Lower-casing leaves no ASCII capital behind and does not change ASCII text without capitals.
\<close>

definition lowercase_spec :: "(ustring \<Rightarrow> ustring) \<Rightarrow> bool" where
  "lowercase_spec lower \<longleftrightarrow>
     (\<forall>s. \<forall>c\<in>set (lower s). \<not> is_ascii_uppercase c)
     \<and> (\<forall>s. (\<forall>c\<in>set s. c < 128 \<and> \<not> is_ascii_uppercase c) \<longrightarrow> lower s = s)"

lemma lowercase_spec_ascii: "lowercase_spec to_ascii_lowercase"
proof -
  have "map char_to_ascii_lowercase s = s" if "\<forall>c\<in>set s. c < 128 \<and> \<not> is_ascii_uppercase c" for s
    using that by (intro map_idI) (auto simp: char_to_ascii_lowercase_def is_ascii_uppercase_def)
  then show ?thesis
    by (auto simp: lowercase_spec_def to_ascii_lowercase_def char_to_ascii_lowercase_def
        is_ascii_uppercase_def)
qed

lemma name_char_plain: "name_char c \<Longrightarrow> c < 128 \<and> \<not> is_whitespace c \<and> len_utf8 c = 1"
  by (auto simp: name_char_def is_ascii_alphanumeric_def is_ascii_digit_def is_whitespace_def len_utf8_def)

lemma validate_name_Ok_iff:
  "validate_name lower s = Ok n \<longleftrightarrow>
     n = lower (trim s) \<and> 2 \<le> length n \<and> length n \<le> 32 \<and> list_all name_char n"
  by (auto simp: validate_name_def Let_def)

lemma name_canonical:
  assumes "lowercase_spec lower" "validate_name lower s = Ok n"
  shows "validate_name lower n = Ok n"
proof -
  from assms(2) have n: "n = lower (trim s)" "list_all name_char n" "2 \<le> length n" "length n \<le> 32"
    by (auto simp: validate_name_Ok_iff)
  have "trim n = n" using n(2) by (intro trim_id) (auto simp: list_all_iff dest: name_char_plain)
  moreover have "lower n = n"
    using assms(1) n(1,2) name_char_plain by (auto simp: lowercase_spec_def list_all_iff)
  ultimately show ?thesis using n by (simp add: validate_name_Ok_iff)
qed

lemma ascii_boundary:
  "list_all name_char s \<Longrightarrow> n \<le> length s \<Longrightarrow> is_char_boundary s n \<and> str_to s n = take n s"
proof (induction s arbitrary: n)
  case (Cons c s)
  have len: "len_utf8 c = 1" using Cons.prems(1) name_char_plain by auto
  show ?case
  proof (cases n)
    case (Suc m)
    with Cons.IH [of m] Cons.prems len show ?thesis by simp
  qed simp
qed simp

lemma ascii_str_len: "list_all name_char s \<Longrightarrow> str_len s = length s"
  by (induction s) (auto dest: name_char_plain)

lemma truncate_ascii: "list_all name_char s \<Longrightarrow> str_truncate n s = Some (take n s)"
  using ascii_boundary [of s n] by (auto simp: str_truncate_def ascii_str_len)

section \<open>Properties\<close>

text \<open>
  Account names are canonical: an accepted name is 2 to 32 characters of the allowed
  alphabet without capitals, and is accepted again as itself.
\<close>

theorem validate_name_canonical:
  assumes "lowercase_spec lower" "validate_name lower s = Ok n"
  shows "validate_name lower n = Ok n \<and> 2 \<le> length n \<and> length n \<le> 32
    \<and> list_all (\<lambda>c. name_char c \<and> \<not> is_ascii_uppercase c) n"
  using name_canonical [OF assms] assms
  by (auto simp: validate_name_Ok_iff lowercase_spec_def list_all_iff)

theorem validate_name_canonical_witness:
  "validate_name to_ascii_lowercase (lit '' Ada.L '') = Ok (lit ''ada.l'')
   \<and> validate_name to_ascii_lowercase (lit ''ada.l'') = Ok (lit ''ada.l'')"
proof -
  have "validate_name to_ascii_lowercase (lit '' Ada.L '') = Ok (lit ''ada.l'')" by code_simp
  then show ?thesis using validate_name_canonical [OF lowercase_spec_ascii] by blast
qed

text \<open>
  Deriving a name from an identity provider's never panics, and what it yields is an
  acceptable account name that neither starts nor ends with punctuation.
\<close>

theorem name_from_external_safe:
  assumes "lowercase_spec lower"
  shows "\<exists>r. name_from_external lower raw = Ok r
    \<and> (case r of None \<Rightarrow> True
       | Some n \<Rightarrow> validate_name lower n = Ok n \<and> hd n \<notin> {46, 45, 95} \<and> last n \<notin> {46, 45, 95})"
proof -
  define name where "name = filter name_char (lower (trim (case split_char 64 raw of p # _ \<Rightarrow> p | [] \<Rightarrow> raw)))"
  define short where "short = trim_matches (\<lambda>c. c \<in> {46, 45, 95}) (take 32 name)"
  have "list_all name_char name" by (auto simp: name_def list_all_iff)
  then have eq: "name_from_external lower raw =
      Ok (case validate_name lower short of Ok n \<Rightarrow> Some n | Err _ \<Rightarrow> None)"
    using truncate_ascii [of name 32]
    by (simp add: name_from_external_def Let_def short_def flip: name_def)
  have chars: "set short \<subseteq> set name"
    using trim_matches_set [of "\<lambda>c. c \<in> {46, 45, 95}" "take 32 name"]
    by (auto simp: short_def dest: in_set_takeD)
  have plain: "trim short = short" "lower short = short"
  proof -
    have nc: "\<forall>c\<in>set short. name_char c \<and> c \<in> set (lower (trim (case split_char 64 raw of p # _ \<Rightarrow> p | [] \<Rightarrow> raw)))"
      using chars by (auto simp: name_def)
    then show "trim short = short" by (intro trim_id) (auto simp: list_all_iff dest: name_char_plain)
    show "lower short = short"
      using nc assms name_char_plain unfolding lowercase_spec_def by blast
  qed
  show ?thesis
  proof (cases "validate_name lower short")
    case (Inr n)
    then have "n = short" "2 \<le> length short" using plain by (auto simp: validate_name_Ok_iff)
    then have "short \<noteq> []" by auto
    then have "hd short \<notin> {46, 45, 95} \<and> last short \<notin> {46, 45, 95}"
      using trim_matches_ends [of "\<lambda>c. c \<in> {46, 45, 95}" "take 32 name", folded short_def] by blast
    with eq Inr \<open>n = short\<close> show ?thesis by auto
  qed (use eq in simp)
qed

theorem name_from_external_safe_witness:
  "\<exists>r. name_from_external to_ascii_lowercase (lit ''Ada-@x.org'') = Ok r
    \<and> (case r of None \<Rightarrow> True
       | Some n \<Rightarrow> validate_name to_ascii_lowercase n = Ok n \<and> hd n \<notin> {46, 45, 95} \<and> last n \<notin> {46, 45, 95})"
  by (rule name_from_external_safe [OF lowercase_spec_ascii])

text \<open>
  Sign-up accepts exactly the input that keeps every rule, and returns the canonical
  name and a display name that is never empty.
\<close>

lemma validate_signup_exact:
  "validate_signup lower name display password = Ok (n, d) \<longleftrightarrow>
     validate_name lower name = Ok n
     \<and> MIN_PASSWORD \<le> length password \<and> length password \<le> MAX_PASSWORD
     \<and> lower password \<notin> set COMMON_PASSWORDS
     \<and> \<not> (3 \<le> length (lower (trim n)) \<and> contains_str (lower password) (lower (trim n)))
     \<and> d = (if trim display = [] then n else trim display) \<and> length d \<le> 64"
  by (auto simp: validate_signup_def validate_password_def bind_result_Ok_iff Let_def)

lemma split_char_once: "c \<notin> set p \<Longrightarrow> split_once c (p @ c # s) = Some (p, s)"
  by (induction p) auto

lemma split_char_join:
  "c \<notin> set p \<Longrightarrow> split_char c (p @ c # s) = p # split_char c s"
  by (induction p) auto

lemma split_char_single: "c \<notin> set p \<Longrightarrow> split_char c p = [p]"
  by (induction p) auto

lemma trim_space [simp]: "trim (32 # s) = trim s"
  by (simp add: trim_def trim_matches_def trim_start_matches_def is_whitespace_def)

text \<open>
  The session cookie a browser returns, alone or behind other cookies, yields the
  token it was set with.
\<close>

theorem session_cookie_roundtrip:
  assumes "59 \<notin> set token" "trim token = token"
    and "59 \<notin> set other" "cookie_value other = None"
  shows "token_from_cookies (COOKIE_NAME @ 61 # token) = Some token
    \<and> token_from_cookies (other @ 59 # 32 # COOKIE_NAME @ 61 # token) = Some token"
proof -
  have name: "61 \<notin> set COOKIE_NAME" "59 \<notin> set COOKIE_NAME" "trim COOKIE_NAME = COOKIE_NAME"
    by (simp_all add: COOKIE_NAME_def lit_def trim_id is_whitespace_def)
  have v: "cookie_value (COOKIE_NAME @ 61 # token) = Some token"
    "cookie_value (32 # COOKIE_NAME @ 61 # token) = Some token"
    using split_char_once [OF name(1), of token] name assms(2) by (simp_all add: cookie_value_def)
  have "split_char 59 (COOKIE_NAME @ 61 # token) = [COOKIE_NAME @ 61 # token]"
    "split_char 59 (32 # COOKIE_NAME @ 61 # token) = [32 # COOKIE_NAME @ 61 # token]"
    using name(2) assms(1) by (intro split_char_single; simp)+
  with v assms(3,4) split_char_join [OF assms(3), of "32 # COOKIE_NAME @ 61 # token"] show ?thesis
    by (simp add: token_from_cookies_def)
qed

theorem session_cookie_roundtrip_witness:
  "token_from_cookies (lit ''theme=dark; gal_session=abc'') = Some (lit ''abc'')"
proof -
  have "59 \<notin> set (lit ''abc'')" "trim (lit ''abc'') = lit ''abc''" "59 \<notin> set (lit ''theme=dark'')"
    "cookie_value (lit ''theme=dark'') = None" by code_simp+
  from session_cookie_roundtrip [OF this] show ?thesis by (simp add: COOKIE_NAME_def lit_def)
qed

text \<open>
  A cross-origin page cannot open a socket: a present origin is accepted only when it
  is on the allow list or its authority is the host the request was made to; \<open>null\<close> never is.
\<close>

theorem origin_allowed_exact:
  "origin_allowed (Some origin) host allowed \<longleftrightarrow>
     (let n = to_ascii_lowercase (trim_end_matches (\<lambda>c. c = 47) (trim origin))
      in n \<noteq> lit ''null''
         \<and> (n \<in> set allowed
            \<or> (\<exists>scheme authority h. split_once_str (lit ''://'') n = Some (scheme, authority)
                 \<and> host = Some h \<and> authority = to_ascii_lowercase (trim h))))"
  by (auto simp: origin_allowed_def Let_def split: option.splits)

text \<open>The constant-time comparison is the equality of the digests.\<close>

theorem constant_time_eq_correct:
  assumes "length (sha256 a) = length (sha256 b)"
  shows "constant_time_eq sha256 a b \<longleftrightarrow> sha256 a = sha256 b"
proof -
  have or0: "x OR y = 0 \<longleftrightarrow> x = 0 \<and> y = 0" for x y :: "8 word"
    by (auto simp: bit_eq_iff bit_simps)
  have xor0: "x XOR y = 0 \<longleftrightarrow> x = y" for x y :: "8 word"
    by (auto simp: bit_eq_iff bit_simps)
  have "foldl (\<lambda>d (x, y). d OR (x XOR y)) d (zip xs ys) = 0 \<longleftrightarrow> d = 0 \<and> xs = ys"
    if "length xs = length ys" for d :: "8 word" and xs ys
    using that by (induction xs ys arbitrary: d rule: list_induct2) (auto simp: or0 xor0)
  with assms show ?thesis by (simp add: constant_time_eq_def)
qed

theorem constant_time_eq_correct_witness: "\<not> constant_time_eq (\<lambda>x. [x]) 1 2"
  using constant_time_eq_correct [of "\<lambda>x. [x]" 1 2] by simp

end
