(* ===== verification/Gal_Store.thy ===== *)
theory Gal_Store
  imports Gal_Auth
begin

text \<open>
  The storage layer, \<open>crates/gal-server/src/db.rs\<close> over \<open>schema.sql\<close>: the tables a wave lives
  in and the statements that read and write them. A table is the list of its rows; a
  statement that violates a primary key or a unique index fails and leaves the tables as
  they were, as does a transaction around it. Columns holding JSON are the values they
  encode. Failures of the disk or of the pool (\<open>Unavailable\<close>) are an input of the callers in
  the theories above. Foreign keys to accounts and full-text ranking are not modelled.
\<close>

section \<open>Tables\<close>

record wave_row =
  wr_id :: wave_id
  wr_creator :: user_id
  wr_created_at :: timestamp
  wr_mode :: ustring

record op_row =
  or_blip_id :: blip_id
  or_revision :: nat
  or_wave_id :: wave_id
  or_author :: user_id
  or_timestamp :: timestamp
  or_delta :: delta
  or_op_id :: "ustring option"

record session_row =
  se_token_hash :: ustring
  se_user_id :: user_id
  se_created_at :: timestamp
  se_expires_at :: timestamp

record identity_row =
  oi_issuer :: ustring
  oi_subject :: ustring
  oi_user_id :: user_id
  oi_created_at :: timestamp

datatype agent_scope = ScopeRead | ScopeReply

record agent_token_row =
  tr_id :: ustring
  tr_token_hash :: ustring
  tr_user_id :: user_id
  tr_wavelet_id :: wavelet_id
  tr_label :: ustring
  tr_scope :: agent_scope
  tr_created_at :: timestamp
  tr_expires_at :: timestamp

record agent_reply_row =
  rr_token_id :: ustring
  rr_request_id :: ustring
  rr_request_hash :: ustring
  rr_blip_id :: blip_id
  rr_revision :: nat

text \<open>The rows of \<open>wavelets\<close> are wavelets without participants, which have their own table.\<close>

record store =
  st_users :: "user list"
  st_waves :: "wave_row list"
  st_wavelets :: "wavelet list"
  st_participants :: "(wavelet_id \<times> user_id \<times> timestamp) list"
  st_blips :: "blip list"
  st_ops :: "op_row list"
  st_comments :: "(wave_id \<times> comment_thread) list"
  st_read_marks :: "((user_id \<times> blip_id) \<times> nat) list"
  st_flags :: "((user_id \<times> wave_id) \<times> wave_flags) list"
  st_search :: "(blip_id \<times> wave_id \<times> ustring) list"
  st_sessions :: "session_row list"
  st_identities :: "identity_row list"
  st_agent_tokens :: "agent_token_row list"
  st_agent_replies :: "agent_reply_row list"
  st_attachments :: "(attachment \<times> nat list) list"

datatype db_error = UniqueViolation | UnknownMode | NoFreeName | Unavailable

type_synonym 'a db_result = "(db_error, 'a) result"

section \<open>Text for reading\<close>

fun json_get :: "ustring \<Rightarrow> json \<Rightarrow> json option" where
  "json_get k (JObject fs) = map_of fs k"
| "json_get k _ = None"

fun json_as_str :: "json \<Rightarrow> ustring option" where
  "json_as_str (JString s) = Some s"
| "json_as_str _ = None"

definition embed_name :: "json \<Rightarrow> ustring" where
  "embed_name v =
     (case Option.bind (Option.bind (json_get (lit ''attachment'') v) (json_get (lit ''name''))) json_as_str of
        Some n \<Rightarrow> n | None \<Rightarrow> [])"

definition display_text :: "delta \<Rightarrow> ustring" where
  "display_text d =
     foldl (\<lambda>out p. case kind p of
              Insert (Text s) \<Rightarrow> out @ s
            | Insert (Embed v) \<Rightarrow> if embed_name v = [] then out @ [0xfffc] else out @ embed_name v
            | _ \<Rightarrow> out) [] (ops d)"

definition snippet_of :: "delta \<Rightarrow> nat \<Rightarrow> ustring" where
  "snippet_of d max_chars =
     (let txt = display_text d;
          line = trim (case find (\<lambda>l. trim l \<noteq> []) (lines txt) of Some l \<Rightarrow> l | None \<Rightarrow> [])
      in if length line \<le> max_chars then line
         else trim_end (take max_chars line) @ [0x2026])"

text \<open>Match markers become tags; everything else that means something in HTML is escaped.\<close>

definition highlight_char :: "uchar \<Rightarrow> ustring" where
  "highlight_char ch =
     (if ch = 2 then lit ''<mark>''
      else if ch = 3 then lit ''</mark>''
      else if ch = 38 then lit ''&amp;''
      else if ch = 60 then lit ''&lt;''
      else if ch = 62 then lit ''&gt;''
      else if ch = 34 then lit ''&quot;''
      else if ch = 39 then lit ''&#39;''
      else [ch])"

definition highlight_snippet :: "ustring \<Rightarrow> ustring" where
  "highlight_snippet raw = foldl (\<lambda>out ch. out @ highlight_char ch) [] raw"

fun split_pred :: "(uchar \<Rightarrow> bool) \<Rightarrow> ustring \<Rightarrow> ustring list" where
  "split_pred f [] = [[]]"
| "split_pred f (x # s) =
     (if f x then [] # split_pred f s
      else (case split_pred f s of [] \<Rightarrow> [[x]] | p # ps \<Rightarrow> (x # p) # ps))"

fun join_with :: "ustring \<Rightarrow> ustring list \<Rightarrow> ustring" where
  "join_with sep [] = []"
| "join_with sep [s] = s"
| "join_with sep (s # ss) = s @ sep @ join_with sep ss"

text \<open>\<open>is_alphanumeric\<close> follows the Unicode tables and is an argument.\<close>

definition to_fts_query :: "(uchar \<Rightarrow> bool) \<Rightarrow> ustring \<Rightarrow> ustring" where
  "to_fts_query is_alphanumeric input =
     (let words = map (\<lambda>w. [34] @ filter (\<lambda>c. c \<noteq> 34) w @ [34])
                    (filter (\<lambda>w. w \<noteq> []) (split_pred (\<lambda>c. \<not> is_alphanumeric c) input))
      in if words = [] then []
         else join_with (lit '' AND '') (butlast words @ [last words @ [42]]))"

section \<open>Names for external accounts\<close>

definition numbered_name :: "ustring \<Rightarrow> nat \<Rightarrow> ustring" where
  "numbered_name base n =
     (if n = 0 then base
      else
        let suffix = show_digits (n + 1);
            room = 32 - str_len suffix;
            stem = trim_end_matches (\<lambda>c. c \<in> {46, 45, 95}) (str_to base (min (str_len base) room))
        in stem @ suffix)"

definition MAX_NAME_ATTEMPTS :: nat where
  "MAX_NAME_ATTEMPTS = 1000"

definition free_name :: "store \<Rightarrow> ustring \<Rightarrow> ustring option" where
  "free_name st base =
     find (\<lambda>candidate. \<not> list_ex (\<lambda>u. user_name u = candidate) (st_users st))
       (map (numbered_name base) [0..<MAX_NAME_ATTEMPTS])"

section \<open>Reading\<close>

definition db_user_by_name :: "(ustring \<Rightarrow> ustring) \<Rightarrow> store \<Rightarrow> ustring \<Rightarrow> user option" where
  "db_user_by_name to_lowercase st name =
     find (\<lambda>u. user_name u = to_lowercase name) (st_users st)"

definition db_resolve_names ::
  "(ustring \<Rightarrow> ustring) \<Rightarrow> store \<Rightarrow> ustring list \<Rightarrow> user_id list \<times> ustring list" where
  "db_resolve_names to_lowercase st names =
     (if names = [] then ([], [])
      else
        let lowered = map (\<lambda>n. to_lowercase (trim n)) names;
            found = filter (\<lambda>u. user_name u \<in> set lowered) (st_users st)
        in (map user_id found, filter (\<lambda>n. n \<notin> set (map user_name found)) lowered))"

definition db_wave :: "store \<Rightarrow> wave_id \<Rightarrow> wave option db_result" where
  "db_wave st wid =
     (case find (\<lambda>r. wr_id r = wid) (st_waves st) of
        None \<Rightarrow> Ok None
      | Some r \<Rightarrow>
          (case mode_parse (wr_mode r) of
             None \<Rightarrow> Err UnknownMode
           | Some m \<Rightarrow>
               Ok (Some \<lparr>w_id = wr_id r, w_creator = wr_creator r,
                         w_created_at = wr_created_at r, w_mode = m\<rparr>)))"

definition participants_of :: "store \<Rightarrow> wavelet_id \<Rightarrow> user_id list" where
  "participants_of st wl =
     map (fst \<circ> snd) (sort_key (snd \<circ> snd) (filter (\<lambda>p. fst p = wl) (st_participants st)))"

definition db_wavelets_of_wave :: "store \<Rightarrow> wave_id \<Rightarrow> wavelet list" where
  "db_wavelets_of_wave st wid =
     map (\<lambda>w. w\<lparr>wl_participants := participants_of st (wl_id w)\<rparr>)
       (sort_key wl_created_at (filter (\<lambda>w. wl_wave_id w = wid) (st_wavelets st)))"

definition db_blips_of_wave :: "store \<Rightarrow> wave_id \<Rightarrow> blip list" where
  "db_blips_of_wave st wid =
     sort_key b_seq (filter (\<lambda>b. b_wave_id b = wid \<and> \<not> b_deleted b) (st_blips st))"

definition db_comments_of_wave :: "store \<Rightarrow> wave_id \<Rightarrow> comment_thread list" where
  "db_comments_of_wave st wid =
     sort_key ct_created_at (map snd (filter (\<lambda>c. fst c = wid) (st_comments st)))"

definition wave_participant_rows :: "store \<Rightarrow> wave_id \<Rightarrow> (wavelet_id \<times> user_id \<times> timestamp) list" where
  "wave_participant_rows st wid =
     filter (\<lambda>p. list_ex (\<lambda>w. wl_id w = fst p \<and> wl_wave_id w = wid) (st_wavelets st))
       (st_participants st)"

definition db_wave_participants :: "store \<Rightarrow> wave_id \<Rightarrow> user_id list" where
  "db_wave_participants st wid = remdups (map (fst \<circ> snd) (wave_participant_rows st wid))"

definition db_users_of_wave :: "store \<Rightarrow> wave_id \<Rightarrow> public_user list" where
  "db_users_of_wave st wid =
     map user_public (filter (\<lambda>u. user_id u \<in> set (db_wave_participants st wid)) (st_users st))"

definition db_is_participant :: "store \<Rightarrow> user_id \<Rightarrow> wave_id \<Rightarrow> bool" where
  "db_is_participant st u wid = list_ex (\<lambda>p. fst (snd p) = u) (wave_participant_rows st wid)"

definition db_revision_for_op :: "store \<Rightarrow> blip_id \<Rightarrow> ustring \<Rightarrow> nat option" where
  "db_revision_for_op st b o_id =
     map_option or_revision
       (find (\<lambda>r. or_blip_id r = b \<and> or_op_id r = Some o_id) (st_ops st))"

definition db_read_marks :: "store \<Rightarrow> user_id \<Rightarrow> wave_id \<Rightarrow> (blip_id \<times> nat) list" where
  "db_read_marks st u wid =
     map (\<lambda>((_, b), r). (b, r))
       (filter (\<lambda>((u', b), _). u' = u \<and> list_ex (\<lambda>x. b_id x = b \<and> b_wave_id x = wid) (st_blips st))
         (st_read_marks st))"

definition db_flags :: "store \<Rightarrow> user_id \<Rightarrow> wave_id \<Rightarrow> wave_flags" where
  "db_flags st u wid =
     (case map_of (st_flags st) (u, wid) of
        Some f \<Rightarrow> f | None \<Rightarrow> \<lparr>wf_archived = False, wf_muted = False\<rparr>)"

text \<open>Frames the viewer may see, by time and revision, at most 20000 of them.\<close>

definition db_playback :: "store \<Rightarrow> user_id \<Rightarrow> wave_id \<Rightarrow> playback_frame list" where
  "db_playback st u wid =
     map (\<lambda>r. \<lparr>pf_blip_id = or_blip_id r, pf_revision = or_revision r, pf_author = or_author r,
               pf_timestamp = or_timestamp r, pf_delta = or_delta r,
               pf_created = (or_revision r = 1)\<rparr>)
       (take 20000
         (sort_key or_timestamp (sort_key or_revision
           (filter (\<lambda>r. or_wave_id r = wid
              \<and> list_ex (\<lambda>b. b_id b = or_blip_id r \<and> \<not> b_deleted b
                    \<and> list_ex (\<lambda>p. fst p = b_wavelet_id b \<and> fst (snd p) = u) (st_participants st))
                  (st_blips st))
             (st_ops st)))))"

section \<open>Writing\<close>

definition index_blip :: "store \<Rightarrow> blip \<Rightarrow> store" where
  "index_blip st b =
     st\<lparr>st_search := filter (\<lambda>s. fst s \<noteq> b_id b) (st_search st)
          @ [(b_id b, b_wave_id b, display_text (b_content b))]\<rparr>"

definition touch_wavelet :: "store \<Rightarrow> wavelet_id \<Rightarrow> timestamp \<Rightarrow> store" where
  "touch_wavelet st wl ts =
     st\<lparr>st_wavelets := map (\<lambda>w. if wl_id w = wl then w\<lparr>wl_last_modified := ts\<rparr> else w) (st_wavelets st)\<rparr>"

text \<open>\<open>INSERT INTO ops\<close>: the primary key is \<open>(blip_id, revision)\<close>, and a client's op id is unique per blip.\<close>

definition insert_op :: "store \<Rightarrow> op_row \<Rightarrow> store db_result" where
  "insert_op st r =
     (if list_ex (\<lambda>x. or_blip_id x = or_blip_id r \<and> or_revision x = or_revision r) (st_ops st)
         \<or> (or_op_id r \<noteq> None \<and>
             list_ex (\<lambda>x. or_blip_id x = or_blip_id r \<and> or_op_id x = or_op_id r) (st_ops st))
      then Err UniqueViolation
      else Ok (st\<lparr>st_ops := st_ops st @ [r]\<rparr>))"

definition insert_wavelet :: "store \<Rightarrow> wavelet \<Rightarrow> store db_result" where
  "insert_wavelet st w =
     (if list_ex (\<lambda>x. wl_id x = wl_id w) (st_wavelets st) then Err UniqueViolation
      else
        let st = st\<lparr>st_wavelets := st_wavelets st @ [w\<lparr>wl_participants := []\<rparr>]\<rparr>
        in Ok (foldl (\<lambda>st u.
                 if list_ex (\<lambda>p. fst p = wl_id w \<and> fst (snd p) = u) (st_participants st) then st
                 else st\<lparr>st_participants := st_participants st @ [(wl_id w, u, wl_created_at w)]\<rparr>)
               st (wl_participants w)))"

definition insert_blip_row :: "store \<Rightarrow> blip \<Rightarrow> store db_result" where
  "insert_blip_row st b =
     (if list_ex (\<lambda>x. b_id x = b_id b) (st_blips st) then Err UniqueViolation
      else Ok (st\<lparr>st_blips := st_blips st @ [b\<lparr>b_deleted := False\<rparr>]\<rparr>))"

definition insert_seeded_blip :: "store \<Rightarrow> blip \<Rightarrow> store db_result" where
  "insert_seeded_blip st b =
     bind_result (insert_blip_row st b) (\<lambda>st.
     bind_result
       (if b_revision b > 0
        then insert_op st \<lparr>or_blip_id = b_id b, or_revision = b_revision b, or_wave_id = b_wave_id b,
               or_author = b_author b, or_timestamp = b_created_at b, or_delta = b_content b,
               or_op_id = None\<rparr>
        else Ok st) (\<lambda>st.
     Ok (index_blip (touch_wavelet st (b_wavelet_id b) (b_last_modified b)) b)))"

definition db_create_blip :: "store \<Rightarrow> blip \<Rightarrow> store db_result" where
  "db_create_blip st b = insert_seeded_blip st b"

definition db_create_private_reply :: "store \<Rightarrow> wavelet \<Rightarrow> blip \<Rightarrow> store db_result" where
  "db_create_private_reply st w b =
     bind_result (insert_wavelet st w) (\<lambda>st. insert_seeded_blip st b)"

definition db_create_wave_with_blip ::
  "timestamp \<Rightarrow> timestamp \<Rightarrow> ustring \<Rightarrow> ustring \<Rightarrow> ustring \<Rightarrow> store \<Rightarrow> user_id \<Rightarrow> ustring \<Rightarrow> user_id list \<Rightarrow>
   wave_mode \<Rightarrow> delta \<Rightarrow> ((wave \<times> wavelet) \<times> store) db_result" where
  "db_create_wave_with_blip ts blip_ts wave_uuid wavelet_uuid blip_uuid st creator title parts mode cont =
     (let w = \<lparr>w_id = wave_id_new wave_uuid, w_creator = creator, w_created_at = ts, w_mode = mode\<rparr>;
          s = \<lparr>wl_id = wavelet_id_new wavelet_uuid, wl_wave_id = w_id w, wl_kind = Conversation,
               wl_title = title, wl_participants = parts, wl_anchor_blip = None,
               wl_created_at = ts, wl_last_modified = ts\<rparr>;
          b = blip_new blip_ts blip_uuid (w_id w) (wl_id s) creator None 0;
          b = (if \<not> delta_is_empty cont then b\<lparr>b_content := cont, b_revision := 1\<rparr> else b)
      in if list_ex (\<lambda>r. wr_id r = w_id w) (st_waves st) then Err UniqueViolation
         else
           bind_result
             (insert_wavelet (st\<lparr>st_waves := st_waves st @
                [\<lparr>wr_id = w_id w, wr_creator = creator, wr_created_at = ts,
                  wr_mode = mode_as_str mode\<rparr>]\<rparr>) s) (\<lambda>st.
           bind_result (insert_seeded_blip st b) (\<lambda>st. Ok ((w, s), st))))"

definition db_set_mode :: "store \<Rightarrow> wave_id \<Rightarrow> wave_mode \<Rightarrow> store" where
  "db_set_mode st wid mode =
     st\<lparr>st_waves := map (\<lambda>r. if wr_id r = wid then r\<lparr>wr_mode := mode_as_str mode\<rparr> else r) (st_waves st)\<rparr>"

definition db_set_title :: "timestamp \<Rightarrow> store \<Rightarrow> wavelet_id \<Rightarrow> ustring \<Rightarrow> store" where
  "db_set_title now st wl title =
     st\<lparr>st_wavelets := map (\<lambda>w. if wl_id w = wl then w\<lparr>wl_title := title, wl_last_modified := now\<rparr>
                             else w) (st_wavelets st)\<rparr>"

definition db_add_participant :: "timestamp \<Rightarrow> store \<Rightarrow> wavelet_id \<Rightarrow> user_id \<Rightarrow> store" where
  "db_add_participant now st wl u =
     (if list_ex (\<lambda>p. fst p = wl \<and> fst (snd p) = u) (st_participants st) then st
      else st\<lparr>st_participants := st_participants st @ [(wl, u, now)]\<rparr>)"

text \<open>The private replies of the wave, when \<open>wl\<close> is its conversation.\<close>

definition private_replies_under :: "store \<Rightarrow> wavelet_id \<Rightarrow> wavelet_id list" where
  "private_replies_under st wl =
     map wl_id (filter (\<lambda>child. wl_kind child = PrivateReplyKind
         \<and> list_ex (\<lambda>parent. wl_id parent = wl \<and> wl_kind parent = Conversation
                \<and> wl_wave_id parent = wl_wave_id child) (st_wavelets st)) (st_wavelets st))"

definition db_remove_participant :: "store \<Rightarrow> wavelet_id \<Rightarrow> user_id \<Rightarrow> store" where
  "db_remove_participant st wl u =
     st\<lparr>st_participants :=
          filter (\<lambda>p. \<not> (fst p = wl \<and> fst (snd p) = u))
            (filter (\<lambda>p. \<not> (fst (snd p) = u \<and> fst p \<in> set (private_replies_under st wl)))
              (st_participants st))\<rparr>"

definition db_create_comment :: "store \<Rightarrow> comment_thread \<Rightarrow> blip \<Rightarrow> store db_result" where
  "db_create_comment st t b =
     (if list_ex (\<lambda>c. ct_id (snd c) = ct_id t) (st_comments st) then Err UniqueViolation
      else insert_seeded_blip
             (st\<lparr>st_comments := st_comments st @
                 [(b_wave_id b, t\<lparr>ct_resolved_by := None, ct_resolved_at := None\<rparr>)]\<rparr>) b)"

definition db_set_comment_resolved ::
  "store \<Rightarrow> comment_id \<Rightarrow> user_id option \<Rightarrow> timestamp option \<Rightarrow> store" where
  "db_set_comment_resolved st c by_user at_time =
     st\<lparr>st_comments := map (\<lambda>(w, t). if ct_id t = c
            then (w, t\<lparr>ct_resolved_by := by_user, ct_resolved_at := at_time\<rparr>) else (w, t)) (st_comments st)\<rparr>"

definition db_commit_op ::
  "store \<Rightarrow> blip \<Rightarrow> delta \<Rightarrow> user_id \<Rightarrow> timestamp \<Rightarrow> ustring option \<Rightarrow> store db_result" where
  "db_commit_op st b d author ts op_id =
     bind_result
       (insert_op st \<lparr>or_blip_id = b_id b, or_revision = b_revision b, or_wave_id = b_wave_id b,
          or_author = author, or_timestamp = ts, or_delta = d, or_op_id = op_id\<rparr>) (\<lambda>st.
     let st = st\<lparr>st_blips := map (\<lambda>x. if b_id x = b_id b
                  then x\<lparr>b_content := b_content b, b_revision := b_revision b,
                         b_last_modified := b_last_modified b, b_contributors := b_contributors b\<rparr>
                  else x) (st_blips st)\<rparr>
     in Ok (index_blip (touch_wavelet st (b_wavelet_id b) (b_last_modified b)) b))"

definition threads_on :: "store \<Rightarrow> blip_id \<Rightarrow> comment_id list" where
  "threads_on st b = map (ct_id \<circ> snd) (filter (\<lambda>c. ct_blip_id (snd c) = b) (st_comments st))"

definition db_delete_blip :: "store \<Rightarrow> blip_id \<Rightarrow> store" where
  "db_delete_blip st b =
     (let ts = threads_on st b;
          remark = (\<lambda>x. case b_comment x of Some c \<Rightarrow> c \<in> set ts | None \<Rightarrow> False)
      in st\<lparr>st_search := filter (\<lambda>s. fst s \<noteq> b \<and> \<not> list_ex (\<lambda>x. b_id x = fst s \<and> remark x) (st_blips st))
                (st_search st),
            st_blips := map (\<lambda>x. if remark x \<or> b_id x = b then x\<lparr>b_deleted := True\<rparr> else x) (st_blips st),
            st_comments := filter (\<lambda>c. ct_blip_id (snd c) \<noteq> b) (st_comments st)\<rparr>)"

definition upsert :: "'k \<Rightarrow> 'v \<Rightarrow> ('k \<times> 'v) list \<Rightarrow> ('k \<times> 'v) list" where
  "upsert k v kvs =
     (if k \<in> fst ` set kvs then map (\<lambda>(k', v'). if k' = k then (k, v) else (k', v')) kvs
      else kvs @ [(k, v)])"

definition db_mark_wave_read :: "store \<Rightarrow> user_id \<Rightarrow> wave_id \<Rightarrow> store" where
  "db_mark_wave_read st u wid =
     st\<lparr>st_read_marks := foldl (\<lambda>marks b. upsert (u, b_id b) (b_revision b) marks) (st_read_marks st)
          (filter (\<lambda>b. b_wave_id b = wid
              \<and> list_ex (\<lambda>p. fst p = b_wavelet_id b \<and> fst (snd p) = u) (st_participants st)) (st_blips st))\<rparr>"

definition db_set_flags :: "store \<Rightarrow> user_id \<Rightarrow> wave_id \<Rightarrow> wave_flags \<Rightarrow> store" where
  "db_set_flags st u wid f = st\<lparr>st_flags := upsert (u, wid) f (st_flags st)\<rparr>"

end
