(* ===== verification/Gal_Content.thy ===== *)
theory Gal_Content
  imports Gal_Store "HOL-Library.List_Lexorder"
begin

text \<open>
  What the server accepts into a document, from the helpers of \<open>crates/gal-server/src/ws.rs\<close>:
  seed content, embeds, attributes and titles. \<open>json_len\<close> is the length of a value printed by
  \<open>serde_json\<close>, which is library code; \<open>None\<close> is its failure.
\<close>

definition MAX_BLIP_UNITS :: nat where
  "MAX_BLIP_UNITS = 256 * 1024"

definition MAX_BLIP_RUNS :: nat where
  "MAX_BLIP_RUNS = 16 * 1024"

definition MAX_EMBED_BYTES :: nat where
  "MAX_EMBED_BYTES = 1024"

definition MAX_LINK_BYTES :: nat where
  "MAX_LINK_BYTES = 1024"

definition FLAG_ATTRIBUTES :: "ustring list" where
  "FLAG_ATTRIBUTES = map lit [''bold'', ''italic'', ''underline'', ''strike'', ''code'']"

definition not_found :: server_message where
  "not_found = error_message NotFound (lit ''That wave is not available.'')"

definition internal_error :: server_message where
  "internal_error = error_message Internal (lit ''Something went wrong on the server.'')"

definition name_blip :: "server_message \<Rightarrow> blip_id \<Rightarrow> server_message" where
  "name_blip message b =
     (case message of ErrorMsg code t _ \<Rightarrow> ErrorMsg code t (Some b) | m \<Rightarrow> m)"

definition attribute_ok :: "ustring \<Rightarrow> json \<Rightarrow> bool" where
  "attribute_ok key value =
     (if key \<in> set FLAG_ATTRIBUTES then (case value of JBool _ \<Rightarrow> True | _ \<Rightarrow> False)
      else if key = lit ''link''
      then (case json_as_str value of Some url \<Rightarrow> str_len url \<le> MAX_LINK_BYTES | None \<Rightarrow> False)
      else if key = COMMENT_ATTRIBUTE
      then (case json_as_str value of Some i \<Rightarrow> comment_id_is_well_formed (CommentId i) | None \<Rightarrow> False)
      else if key = MENTION_ATTRIBUTE
      then (case json_as_str value of Some i \<Rightarrow> user_id_is_well_formed (UserId i) | None \<Rightarrow> False)
      else False)"

definition refuse_attribute :: "ustring \<Rightarrow> server_message" where
  "refuse_attribute key =
     error_message BadRequest
       (lit ''That formatting is not something this server accepts: '' @ key @ lit ''.'')"

text \<open>
  The entries of an attribute map are visited in the order of its keys (a \<open>BTreeMap\<close> of
  strings), ops in the order of the delta. The refusal names the first offending key.
\<close>

definition bad_attribute :: "attributes \<Rightarrow> ustring \<Rightarrow> bool" where
  "bad_attribute attrs key =
     (case fmlookup attrs key of
        None \<Rightarrow> False | Some value \<Rightarrow> \<not> is_null value \<and> \<not> attribute_ok key value)"

definition check_op_attributes :: "op \<Rightarrow> (server_message, unit) result" where
  "check_op_attributes p =
     (case sorted_list_of_fset (ffilter (bad_attribute (attributes p)) (fmdom (attributes p))) of
        [] \<Rightarrow> Ok ()
      | key # _ \<Rightarrow> Err (refuse_attribute key))"

fun each_ok :: "('a \<Rightarrow> ('e, unit) result) \<Rightarrow> 'a list \<Rightarrow> ('e, unit) result" where
  "each_ok f [] = Ok ()"
| "each_ok f (x # xs) = bind_result (f x) (\<lambda>_. each_ok f xs)"

definition check_attributes :: "delta \<Rightarrow> (server_message, unit) result" where
  "check_attributes d = each_ok check_op_attributes (ops d)"

definition embed_accepted :: "(json \<Rightarrow> nat option) \<Rightarrow> json \<Rightarrow> bool" where
  "embed_accepted json_len value =
     ((case value of JObject _ \<Rightarrow> True | _ \<Rightarrow> False)
      \<and> (case json_len value of Some n \<Rightarrow> n | None \<Rightarrow> usize_max) \<le> MAX_EMBED_BYTES)"

definition check_embeds :: "(json \<Rightarrow> nat option) \<Rightarrow> delta \<Rightarrow> (server_message, unit) result" where
  "check_embeds json_len d =
     each_ok (\<lambda>p. case kind p of
                Insert (Embed value) \<Rightarrow>
                  (if embed_accepted json_len value then Ok ()
                   else Err (error_message BadRequest
                          (lit ''That embedded object is not something this server accepts.'')))
              | _ \<Rightarrow> Ok ()) (ops d)"

definition seed_content ::
  "(json \<Rightarrow> nat option) \<Rightarrow> delta option \<Rightarrow> (server_message, delta option) result" where
  "seed_content json_len cont =
     (case cont of
        None \<Rightarrow> Ok None
      | Some c \<Rightarrow>
          if delta_is_empty c then Ok None
          else if \<not> is_document c
          then Err (error_message BadRequest (lit ''Initial content must consist only of insertions.''))
          else if delta_len c > MAX_BLIP_UNITS \<or> length (ops c) > MAX_BLIP_RUNS
          then Err (error_message BadRequest (lit ''That message is too large.''))
          else
            bind_result (check_embeds json_len c) (\<lambda>_.
            bind_result (check_attributes c) (\<lambda>_. Ok (Some c))))"

definition normalise_title :: "ustring \<Rightarrow> ustring" where
  "normalise_title title =
     (let cleaned = filter (\<lambda>c. \<not> is_control c) (trim title);
          cleaned = (if cleaned = [] then lit ''Untitled wave'' else cleaned)
      in take 200 cleaned)"

section \<open>Properties\<close>

lemma each_ok_iff [simp]: "each_ok f xs = Ok () \<longleftrightarrow> (\<forall>x \<in> set xs. f x = Ok ())"
  by (induction xs) (auto simp: bind_result_def split: sum.splits)

lemma each_ok_cases: "(each_ok f xs = Ok ()) \<or> (\<exists>x \<in> set xs. \<exists>e. f x = Err e \<and> each_ok f xs = Err e)"
  by (induction xs) (auto simp: bind_result_def split: sum.splits)

lemma sorted_list_of_fset_empty: "sorted_list_of_fset A = [] \<longleftrightarrow> A = {||}"
  by (metis sorted_list_of_fset_simps fset_of_list_simps(1) set_empty2 bot_fset.rep_eq)

lemma bad_attribute_in_dom: "bad_attribute attrs k \<Longrightarrow> k |\<in>| fmdom attrs"
  by (auto simp: bad_attribute_def intro: fmdomI split: option.splits)

lemma check_op_attributes_ok:
  "check_op_attributes p = Ok () \<longleftrightarrow> (\<forall>k. \<not> bad_attribute (attributes p) k)"
proof -
  have "check_op_attributes p = Ok ()
    \<longleftrightarrow> ffilter (bad_attribute (attributes p)) (fmdom (attributes p)) = {||}"
    by (cases "sorted_list_of_fset (ffilter (bad_attribute (attributes p)) (fmdom (attributes p)))")
       (simp_all add: check_op_attributes_def flip: sorted_list_of_fset_empty)
  also have "\<dots> \<longleftrightarrow> (\<forall>k. \<not> bad_attribute (attributes p) k)"
    using bad_attribute_in_dom [of "attributes p"] by (auto simp: fset_eq_iff)
  finally show ?thesis .
qed

text \<open>The document model: the attributes and embeds a document of this server may hold.\<close>

inductive document_attribute :: "ustring \<Rightarrow> json \<Rightarrow> bool" where
  cleared: "document_attribute k JNull"
| flag: "k \<in> set FLAG_ATTRIBUTES \<Longrightarrow> document_attribute k (JBool b)"
| link: "str_len url \<le> 1024 \<Longrightarrow> document_attribute (lit ''link'') (JString url)"
| comment: "comment_id_is_well_formed (CommentId i) \<Longrightarrow> document_attribute COMMENT_ATTRIBUTE (JString i)"
| mention: "user_id_is_well_formed (UserId i) \<Longrightarrow> document_attribute MENTION_ATTRIBUTE (JString i)"

lemmas attribute_key_defs =
  FLAG_ATTRIBUTES_def COMMENT_ATTRIBUTE_def MENTION_ATTRIBUTE_def lit_def

lemma json_as_str_Some [simp]: "json_as_str v = Some s \<longleftrightarrow> v = JString s"
  by (cases v) auto

lemma attribute_ok_iff:
  "document_attribute k v \<longleftrightarrow> is_null v \<or> attribute_ok k v"
proof
  assume "document_attribute k v"
  then show "is_null v \<or> attribute_ok k v"
    by cases (auto simp: attribute_ok_def attribute_key_defs MAX_LINK_BYTES_def)
next
  assume "is_null v \<or> attribute_ok k v"
  then show "document_attribute k v"
    by (auto simp: attribute_ok_def MAX_LINK_BYTES_def split: if_splits json.splits option.splits
        intro: document_attribute.intros)
qed

lemma check_attributes_ok:
  "check_attributes d = Ok ()
   \<longleftrightarrow> (\<forall>p \<in> set (ops d). \<forall>k v. fmlookup (attributes p) k = Some v \<longrightarrow> document_attribute k v)"
  by (auto simp: check_attributes_def check_op_attributes_ok bad_attribute_def attribute_ok_iff
      split: option.splits)

lemma embed_accepted_iff:
  "embed_accepted json_len v \<longleftrightarrow> (\<exists>fs n. v = JObject fs \<and> json_len v = Some n \<and> n \<le> 1024)"
  by (cases v) (auto simp: embed_accepted_def MAX_EMBED_BYTES_def usize_max_def split: option.splits)

lemma check_embeds_ok:
  "check_embeds json_len d = Ok ()
   \<longleftrightarrow> (\<forall>p \<in> set (ops d). \<forall>v. kind p = Insert (Embed v) \<longrightarrow> embed_accepted json_len v)"
  unfolding check_embeds_def each_ok_iff
  by (intro ball_cong refl) (auto split: op_kind.splits insert_payload.splits)

lemma bind_unit_Ok [simp]:
  "bind_result r (\<lambda>_. k) = Ok x \<longleftrightarrow> r = Ok () \<and> k = Ok x" for r :: "('e, unit) result"
  by (cases r) (auto simp: bind_result_def)

text \<open>
  What may become a new message: exactly the non-empty deltas that only insert, stay
  within both size limits, and hold nothing but the formatting of the document model and
  embedded objects of at most a kilobyte. Content is stored as submitted.
\<close>

theorem seed_content_exact:
  "seed_content json_len (Some c) = Ok (Some c') \<longleftrightarrow>
     c' = c \<and> ops c \<noteq> [] \<and> is_document c \<and> delta_len c \<le> 256 * 1024 \<and> length (ops c) \<le> 16 * 1024
     \<and> (\<forall>p \<in> set (ops c).
          (\<forall>k v. fmlookup (attributes p) k = Some v \<longrightarrow> document_attribute k v)
        \<and> (\<forall>v. kind p = Insert (Embed v) \<longrightarrow>
              (\<exists>fs n. v = JObject fs \<and> json_len v = Some n \<and> n \<le> 1024)))"
  unfolding embed_accepted_iff [symmetric]
  by (auto simp: seed_content_def delta_is_empty_def check_attributes_ok check_embeds_ok
      MAX_BLIP_UNITS_def MAX_BLIP_RUNS_def)

theorem seed_content_exact_witness:
  "seed_content (\<lambda>_. Some 2) (Some \<lparr>ops = [op_insert [104, 105]]\<rparr>)
     = Ok (Some \<lparr>ops = [op_insert [104, 105]]\<rparr>)"
  by (subst seed_content_exact)
     (simp add: is_document_def op_insert_def delta_len_def kind_of_def
      sum_saturating_def saturating_add_def len_utf16_def)

text \<open>A stored title is never empty, at most 200 characters, and free of control characters.\<close>

theorem normalise_title_bounds:
  "normalise_title title \<noteq> [] \<and> length (normalise_title title) \<le> 200
   \<and> list_all (\<lambda>c. \<not> is_control c) (normalise_title title)"
  by (auto simp: normalise_title_def Let_def list_all_iff lit_def is_control_def
      dest: in_set_takeD split: if_splits)

end
