(* ===== verification/Gal_Live.thy ===== *)
theory Gal_Live
  imports Gal_Content "HOL-Library.AList" "HOL-Library.Product_Lexorder"
begin

text \<open>
  A resident wave, from \<open>crates/gal-server/src/state.rs\<close>: its documents, its watchers and what
  each of them may see and do. Hash maps are association lists, whose order no theorem
  relies on. The outbound queue of a connection and the signal that closes it live in a
  store of channels, because the connection and every wave it watches share them: a
  subscriber names its channel by address. Counters and log lines are not modelled.
\<close>

section \<open>Outbound queues\<close>

record channel =
  ch_queue :: "server_message list"
  ch_closed :: bool
  ch_killed :: bool

type_synonym channels = "nat \<Rightarrow> channel"

definition OUTBOUND_CAPACITY :: nat where
  "OUTBOUND_CAPACITY = 512"

text \<open>\<open>try_send\<close> of a bounded queue: refused when it is full or its reader is gone.\<close>

definition try_send :: "channels \<Rightarrow> nat \<Rightarrow> server_message \<Rightarrow> bool \<times> channels" where
  "try_send ch a m =
     (if ch_closed (ch a) \<or> length (ch_queue (ch a)) \<ge> OUTBOUND_CAPACITY then (False, ch)
      else (True, ch(a := (ch a)\<lparr>ch_queue := ch_queue (ch a) @ [m]\<rparr>)))"

definition notify_one :: "channels \<Rightarrow> nat \<Rightarrow> channels" where
  "notify_one ch a = ch(a := (ch a)\<lparr>ch_killed := True\<rparr>)"

section \<open>Order of identifiers\<close>

instantiation blip_id :: linorder
begin

definition less_eq_blip_id :: "blip_id \<Rightarrow> blip_id \<Rightarrow> bool" where
  "less_eq_blip_id a b = (case (a, b) of (BlipId x, BlipId y) \<Rightarrow> x \<le> y)"

definition less_blip_id :: "blip_id \<Rightarrow> blip_id \<Rightarrow> bool" where
  "less_blip_id a b = (case (a, b) of (BlipId x, BlipId y) \<Rightarrow> x < y)"

instance
  by standard (auto simp: less_eq_blip_id_def less_blip_id_def split: blip_id.splits)

end

instantiation comment_id :: linorder
begin

definition less_eq_comment_id :: "comment_id \<Rightarrow> comment_id \<Rightarrow> bool" where
  "less_eq_comment_id a b = (case (a, b) of (CommentId x, CommentId y) \<Rightarrow> x \<le> y)"

definition less_comment_id :: "comment_id \<Rightarrow> comment_id \<Rightarrow> bool" where
  "less_comment_id a b = (case (a, b) of (CommentId x, CommentId y) \<Rightarrow> x < y)"

instance
  by standard (auto simp: less_eq_comment_id_def less_comment_id_def split: comment_id.splits)

end

section \<open>State\<close>

record live_blip =
  lb_meta :: blip
  lb_doc :: server_doc

definition live_blip_new :: "blip \<Rightarrow> live_blip" where
  "live_blip_new b =
     \<lparr>lb_meta = b,
      lb_doc = (case from_snapshot (b_content b) (b_revision b) of
                  Ok d \<Rightarrow> d | Err _ \<Rightarrow> server_doc_new)\<rparr>"

definition live_blip_sync :: "live_blip \<Rightarrow> live_blip" where
  "live_blip_sync lb =
     lb\<lparr>lb_meta := (lb_meta lb)\<lparr>b_content := content (lb_doc lb), b_revision := sd_revision (lb_doc lb)\<rparr>\<rparr>"

record subscriber =
  sub_user :: user_id
  sub_chan :: nat
  sub_editing :: "blip_id option"

record live_wave =
  lw_wave :: wave
  lw_wavelets :: "wavelet list"
  lw_blips :: "(blip_id \<times> live_blip) list"
  lw_comments :: "(comment_id \<times> comment_thread) list"
  lw_subscribers :: "(nat \<times> subscriber) list"
  lw_user_cache :: "(user_id \<times> public_user) list"
  lw_evicted :: bool

datatype action =
    ActNewMessage
  | ActReply
  | ActEdit bool
  | ActDelete
  | ActRetitle
  | ActPrivateReply
  | ActComment
  | ActResolveComment
  | ActSetMode

definition find_live_wavelet :: "live_wave \<Rightarrow> wavelet_id \<Rightarrow> wavelet option" where
  "find_live_wavelet live i = find (\<lambda>w. wl_id w = i) (lw_wavelets live)"

text \<open>An update through \<open>wavelet_mut\<close>: the first wavelet with the id, if there is one.\<close>

fun update_first :: "('a \<Rightarrow> bool) \<Rightarrow> ('a \<Rightarrow> 'a) \<Rightarrow> 'a list \<Rightarrow> 'a list" where
  "update_first P f [] = []"
| "update_first P f (x # xs) = (if P x then f x # xs else x # update_first P f xs)"

definition wavelet_mut :: "wavelet_id \<Rightarrow> (wavelet \<Rightarrow> wavelet) \<Rightarrow> live_wave \<Rightarrow> live_wave" where
  "wavelet_mut i f live =
     live\<lparr>lw_wavelets := update_first (\<lambda>w. wl_id w = i) f (lw_wavelets live)\<rparr>"

definition live_root :: "live_wave \<Rightarrow> wavelet option" where
  "live_root live = find (\<lambda>w. wl_kind w = Conversation) (lw_wavelets live)"

definition live_title :: "live_wave \<Rightarrow> ustring" where
  "live_title live = (case live_root live of Some w \<Rightarrow> wl_title w | None \<Rightarrow> [])"

section \<open>Permissions\<close>

definition action_allowed :: "wave_mode \<Rightarrow> bool \<Rightarrow> action \<Rightarrow> bool" where
  "action_allowed mode is_creator a =
     (case a of
        ActNewMessage \<Rightarrow> allows_new_message mode is_creator
      | ActReply \<Rightarrow> allows_replies mode
      | ActEdit is_author \<Rightarrow> allows_edit mode is_author
      | ActDelete \<Rightarrow> allows_delete mode
      | ActRetitle \<Rightarrow> allows_retitle mode is_creator
      | ActPrivateReply \<Rightarrow> allows_private_reply mode
      | ActComment \<Rightarrow> allows_comments mode
      | ActResolveComment \<Rightarrow> allows_resolve mode
      | ActSetMode \<Rightarrow> is_creator)"

definition permit_refusal :: "wave_mode \<Rightarrow> action \<Rightarrow> ustring" where
  "permit_refusal mode a =
     (if a = ActSetMode then lit ''Only the person who started this wave can change its mode.''
      else if is_frozen mode then lit ''This wave is frozen. Unfreeze it to make changes.''
      else case (mode, a) of
        (_, ActComment) \<Rightarrow> lit ''Comments belong to a notepad. Here you can reply instead.''
      | (Chat, ActEdit _) \<Rightarrow> lit ''In a chat you can only edit your own messages.''
      | (Announcement, ActEdit _) \<Rightarrow> lit ''Only the author can edit this.''
      | (Announcement, ActNewMessage) \<Rightarrow>
          lit ''Only the person who started this wave can post here. You can reply.''
      | (Chat, ActReply) \<Rightarrow> lit ''This wave is a chat, so messages are not threaded.''
      | (Notepad, _) \<Rightarrow>
          lit ''This wave is a single shared page '' @ [0x2014] @ lit '' edit it directly.''
      | _ \<Rightarrow> lit ''That is not allowed in '' @ mode_label mode @ lit '' mode.'')"

definition permit :: "live_wave \<Rightarrow> user_id \<Rightarrow> action \<Rightarrow> (server_message, unit) result" where
  "permit live u a =
     (let mode = w_mode (lw_wave live);
          is_creator = (w_creator (lw_wave live) = u)
      in if action_allowed mode is_creator a then Ok ()
         else Err (error_message Forbidden (permit_refusal mode a)))"

section \<open>Access\<close>

definition may_access :: "live_wave \<Rightarrow> user_id \<Rightarrow> wavelet_id \<Rightarrow> bool" where
  "may_access live u i =
     (case find_live_wavelet live i of Some w \<Rightarrow> has_participant w u | None \<Rightarrow> False)"

definition visible_wavelets :: "live_wave \<Rightarrow> user_id \<Rightarrow> wavelet list" where
  "visible_wavelets live u = filter (\<lambda>w. has_participant w u) (lw_wavelets live)"

definition may_view :: "live_wave \<Rightarrow> user_id \<Rightarrow> bool" where
  "may_view live u = list_ex (\<lambda>w. has_participant w u) (lw_wavelets live)"

text \<open>The ordering position is an \<open>i64\<close>; the successor of the largest one wraps.\<close>

definition wrap_i64 :: "int \<Rightarrow> int" where
  "wrap_i64 x = (x + 2 ^ 63) mod 2 ^ 64 - 2 ^ 63"

definition next_seq :: "live_wave \<Rightarrow> wavelet_id \<Rightarrow> int" where
  "next_seq live i =
     (case map (b_seq \<circ> lb_meta) (filter (\<lambda>b. b_wavelet_id (lb_meta b) = i) (map snd (lw_blips live))) of
        [] \<Rightarrow> 0
      | x # xs \<Rightarrow> wrap_i64 (foldl max x xs + 1))"

section \<open>Delivery\<close>

text \<open>One attempt per target; the connections whose queue refused it are returned.\<close>

fun send_all :: "channels \<Rightarrow> (nat \<times> subscriber \<times> server_message) list \<Rightarrow> channels \<times> nat list" where
  "send_all ch [] = (ch, [])"
| "send_all ch ((c, s, m) # ts) =
     (let (sent, ch) = try_send ch (sub_chan s) m;
          (ch, failed) = send_all ch ts
      in (ch, if sent then failed else c # failed))"

fun disconnect :: "live_wave \<Rightarrow> channels \<Rightarrow> nat list \<Rightarrow> live_wave \<times> channels" where
  "disconnect live ch [] = (live, ch)"
| "disconnect live ch (c # cs) =
     (case map_of (lw_subscribers live) c of
        None \<Rightarrow> disconnect live ch cs
      | Some sub \<Rightarrow>
          disconnect (live\<lparr>lw_subscribers := AList.delete c (lw_subscribers live)\<rparr>)
            (notify_one ch (sub_chan sub)) cs)"

definition broadcast ::
  "live_wave \<Rightarrow> channels \<Rightarrow> wavelet_id \<Rightarrow> nat option \<Rightarrow> server_message \<Rightarrow> live_wave \<times> channels" where
  "broadcast live ch i skip m =
     (let allowed = (case find_live_wavelet live i of Some w \<Rightarrow> wl_participants w | None \<Rightarrow> []);
          targets = filter (\<lambda>(c, s). Some c \<noteq> skip \<and> sub_user s \<in> set allowed) (lw_subscribers live);
          (ch, failed) = send_all ch (map (\<lambda>(c, s). (c, s, m)) targets)
      in disconnect live ch failed)"

definition send_to ::
  "live_wave \<Rightarrow> channels \<Rightarrow> nat \<Rightarrow> server_message \<Rightarrow> live_wave \<times> channels" where
  "send_to live ch c m =
     (case map_of (lw_subscribers live) c of
        None \<Rightarrow> (live, ch)
      | Some sub \<Rightarrow>
          (let (sent, ch) = try_send ch (sub_chan sub) m
           in if sent then (live, ch) else disconnect live ch [c]))"

section \<open>Views\<close>

text \<open>The function \<open>blip_view\<close> of the source; the record of that name is its result.\<close>

definition render_blip :: "blip \<Rightarrow> (blip_id \<times> nat) list \<Rightarrow> blip_view" where
  "render_blip b read_marks =
     \<lparr>bv_id = b_id b, bv_wavelet_id = b_wavelet_id b, bv_parent = b_parent b,
      bv_comment = b_comment b, bv_seq = b_seq b, bv_author = b_author b,
      bv_contributors = b_contributors b, bv_created_at = b_created_at b,
      bv_last_modified = b_last_modified b, bv_content = b_content b,
      bv_revision = b_revision b,
      bv_unread = ((case map_of read_marks (b_id b) of Some r \<Rightarrow> r | None \<Rightarrow> 0) < b_revision b)\<rparr>"

definition blip_order :: "live_blip \<Rightarrow> int \<times> timestamp \<times> blip_id" where
  "blip_order b = (b_seq (lb_meta b), b_created_at (lb_meta b), b_id (lb_meta b))"

definition view_wavelet :: "live_wave \<Rightarrow> (blip_id \<times> nat) list \<Rightarrow> wavelet \<Rightarrow> wavelet_view" where
  "view_wavelet live read_marks w =
     \<lparr>wv_id = wl_id w, wv_wave_id = wl_wave_id w, wv_kind = wl_kind w, wv_title = wl_title w,
      wv_participants = List.map_filter (map_of (lw_user_cache live)) (wl_participants w),
      wv_anchor_blip = wl_anchor_blip w, wv_created_at = wl_created_at w,
      wv_last_modified = wl_last_modified w,
      wv_blips = map (\<lambda>b. render_blip (lb_meta b) read_marks)
        (sort_key blip_order
          (filter (\<lambda>b. b_wavelet_id (lb_meta b) = wl_id w) (map snd (lw_blips live)))),
      wv_comments = sort_key (\<lambda>c. (ct_created_at c, ct_id c))
        (filter (\<lambda>c. ct_wavelet_id c = wl_id w) (map snd (lw_comments live)))\<rparr>"

definition view :: "live_wave \<Rightarrow> user_id \<Rightarrow> (blip_id \<times> nat) list \<Rightarrow> wave_flags \<Rightarrow> wave_view" where
  "view live u read_marks flags =
     \<lparr>v_id = w_id (lw_wave live), v_creator = w_creator (lw_wave live),
      v_created_at = w_created_at (lw_wave live),
      v_wavelets = map (view_wavelet live read_marks) (visible_wavelets live u),
      v_flags = flags, v_mode = w_mode (lw_wave live)\<rparr>"

fun presence_loop ::
  "live_wave \<Rightarrow> wavelet_id list \<Rightarrow> user_id list \<Rightarrow> user_id list \<Rightarrow> subscriber list \<Rightarrow> presence_entry list" where
  "presence_loop live visible co seen [] = []"
| "presence_loop live visible co seen (sub # subs) =
     (if sub_user sub \<notin> set co \<or> sub_user sub \<in> set seen then presence_loop live visible co seen subs
      else
        (case map_of (lw_user_cache live) (sub_user sub) of
           None \<Rightarrow> presence_loop live visible co (sub_user sub # seen) subs
         | Some u \<Rightarrow>
             \<lparr>pe_user = u,
              pe_editing =
                (case sub_editing sub of
                   None \<Rightarrow> None
                 | Some b \<Rightarrow>
                     (case map_of (lw_blips live) b of
                        Some lb \<Rightarrow> if b_wavelet_id (lb_meta lb) \<in> set visible then Some b else None
                      | None \<Rightarrow> None))\<rparr>
             # presence_loop live visible co (sub_user sub # seen) subs))"

definition presence_for :: "live_wave \<Rightarrow> user_id \<Rightarrow> presence_entry list" where
  "presence_for live viewer =
     (let visible = map wl_id (visible_wavelets live viewer);
          co_participants = concat (map wl_participants (visible_wavelets live viewer))
      in sort_key (pu_display_name \<circ> pe_user)
           (presence_loop live visible co_participants [] (map snd (lw_subscribers live))))"

text \<open>Each watcher gets the list scoped to what they may see (\<open>broadcast_presence\<close> of \<open>ws.rs\<close>).\<close>

definition broadcast_presence :: "live_wave \<Rightarrow> channels \<Rightarrow> wave_id \<Rightarrow> live_wave \<times> channels" where
  "broadcast_presence live ch wid =
     (let (ch, failed) = send_all ch
            (map (\<lambda>(c, s). (c, s, PresenceMsg wid (presence_for live (sub_user s)))) (lw_subscribers live))
      in disconnect live ch failed)"

section \<open>New messages\<close>

definition prepare_blip ::
  "(json \<Rightarrow> nat option) \<Rightarrow> timestamp \<Rightarrow> ustring \<Rightarrow> live_wave \<Rightarrow> user_id \<Rightarrow> wavelet_id \<Rightarrow>
   blip_id option \<Rightarrow> delta option \<Rightarrow> (server_message, blip) result" where
  "prepare_blip json_len now uuid live u i parent cont =
     (if \<not> may_access live u i
      then Err (error_message NotFound (lit ''That wavelet is not available.''))
      else
        bind_result (permit live u (if parent \<noteq> None then ActReply else ActNewMessage)) (\<lambda>_.
        if (case parent of
              None \<Rightarrow> False
            | Some pid \<Rightarrow>
                \<not> (case map_of (lw_blips live) pid of
                     Some lb \<Rightarrow> b_wavelet_id (lb_meta lb) = i | None \<Rightarrow> False))
        then Err (error_message BadRequest (lit ''Cannot reply to that blip.''))
        else
          bind_result (seed_content json_len cont) (\<lambda>seed.
          let b = blip_new now uuid (w_id (lw_wave live)) i u parent (next_seq live i)
          in Ok (case seed of Some c \<Rightarrow> b\<lparr>b_content := c, b_revision := 1\<rparr> | None \<Rightarrow> b))))"

definition publish_blip :: "live_wave \<Rightarrow> channels \<Rightarrow> blip \<Rightarrow> live_wave \<times> channels" where
  "publish_blip live ch b =
     broadcast
       (wavelet_mut (b_wavelet_id b) (\<lambda>w. w\<lparr>wl_last_modified := b_last_modified b\<rparr>)
         (live\<lparr>lw_blips := AList.update (b_id b) (live_blip_new b) (lw_blips live)\<rparr>))
       ch (b_wavelet_id b) None (BlipAddedMsg (b_wave_id b) (render_blip b []))"

section \<open>Lemmas\<close>

definition accepts :: "channels \<Rightarrow> nat \<Rightarrow> bool" where
  "accepts ch a \<longleftrightarrow> \<not> ch_closed (ch a) \<and> length (ch_queue (ch a)) < OUTBOUND_CAPACITY"

abbreviation target_chan :: "nat \<times> subscriber \<times> server_message \<Rightarrow> nat" where
  "target_chan t \<equiv> sub_chan (fst (snd t))"

definition enqueue :: "channel \<Rightarrow> server_message \<Rightarrow> channel" where
  "enqueue c m = c\<lparr>ch_queue := ch_queue c @ [m]\<rparr>"

lemma try_send_eq:
  "try_send ch a m = (accepts ch a, if accepts ch a then ch(a := enqueue (ch a) m) else ch)"
  by (auto simp: try_send_def accepts_def enqueue_def)

lemma accepts_cong: "ch a = ch' a \<Longrightarrow> accepts ch a = accepts ch' a"
  by (simp add: accepts_def)

lemma send_all_other: "a \<notin> target_chan ` set ts \<Longrightarrow> fst (send_all ch ts) a = ch a"
  by (induction ch ts rule: send_all.induct)
     (auto simp: Let_def try_send_eq split: prod.splits)

lemma send_all_failed:
  "distinct (map target_chan ts) \<Longrightarrow>
   snd (send_all ch ts) = map fst (filter (\<lambda>t. \<not> accepts ch (target_chan t)) ts)"
proof (induction ch ts rule: send_all.induct)
  case (2 ch c s m ts)
  let ?ch = "snd (try_send ch (sub_chan s) m)"
  have same: "accepts ?ch (target_chan t) = accepts ch (target_chan t)" if "t \<in> set ts" for t
    using 2(2) that by (intro accepts_cong) (force simp: try_send_eq)
  have "snd (send_all ?ch ts) = map fst (filter (\<lambda>t. \<not> accepts ch (target_chan t)) ts)"
    using 2 same by (auto simp: try_send_eq cong: filter_cong)
  then show ?case by (auto simp: Let_def try_send_eq split: prod.splits)
qed simp

lemma send_all_target:
  assumes "distinct (map target_chan ts)" "(c, s, m) \<in> set ts"
  shows "fst (send_all ch ts) (sub_chan s) =
    (if accepts ch (sub_chan s) then enqueue (ch (sub_chan s)) m else ch (sub_chan s))"
  using assms
proof (induction ch ts rule: send_all.induct)
  case (2 ch c' s' m' ts)
  let ?ch = "snd (try_send ch (sub_chan s') m')"
  have step: "fst (send_all ch ((c', s', m') # ts)) = fst (send_all ?ch ts)"
    by (auto simp: Let_def split: prod.splits)
  show ?case
  proof (cases "(c, s, m) = (c', s', m')")
    case True
    with 2(2) have "sub_chan s \<notin> target_chan ` set ts" by (auto simp: image_iff)
    with True step show ?thesis by (simp add: send_all_other try_send_eq)
  next
    case False
    with 2(2,3) have mem: "(c, s, m) \<in> set ts" and ne: "sub_chan s \<noteq> sub_chan s'"
      by (auto simp: image_iff)
    then have same: "?ch (sub_chan s) = ch (sub_chan s)" by (simp add: try_send_eq)
    from 2(1) [OF refl surjective_pairing [symmetric] _ mem] 2(2) show ?thesis
      unfolding step by (simp add: same accepts_cong [of ?ch _ ch])
  qed
qed simp

lemma disconnect_live:
  "fst (disconnect live ch cs)
     = live\<lparr>lw_subscribers := filter (\<lambda>(c, _). c \<notin> set cs) (lw_subscribers live)\<rparr>"
proof (induction live ch cs rule: disconnect.induct)
  case (2 live ch c cs)
  have "map_of (lw_subscribers live) c = None \<Longrightarrow>
    filter (\<lambda>(k, _). k \<notin> set (c # cs)) (lw_subscribers live)
      = filter (\<lambda>(k, _). k \<notin> set cs) (lw_subscribers live)"
    by (intro filter_cong refl) (auto simp: map_of_eq_None_iff image_iff)
  moreover have "filter (\<lambda>(k, _). k \<notin> set cs) (filter (\<lambda>(k, _). c \<noteq> k) (lw_subscribers live))
      = filter (\<lambda>(k, _). k \<notin> set (c # cs)) (lw_subscribers live)"
    unfolding filter_filter by (intro filter_cong refl) auto
  ultimately show ?case using 2 by (simp add: AList.delete_eq del: filter_filter split: option.split)
qed simp

lemma disconnect_chan:
  assumes "distinct (map fst (lw_subscribers live))" "distinct cs"
  shows "snd (disconnect live ch cs) a =
    (if \<exists>c \<in> set cs. \<exists>s. (c, s) \<in> set (lw_subscribers live) \<and> sub_chan s = a
     then (ch a)\<lparr>ch_killed := True\<rparr> else ch a)"
  using assms
proof (induction live ch cs rule: disconnect.induct)
  case (2 live ch c cs)
  show ?case
  proof (cases "map_of (lw_subscribers live) c")
    case None
    then have "\<nexists>s. (c, s) \<in> set (lw_subscribers live)" by (force simp: map_of_eq_None_iff)
    with None 2(1) [OF None] 2(3,4) show ?thesis by simp
  next
    case (Some sub)
    have only: "(c, s) \<in> set (lw_subscribers live) \<longleftrightarrow> s = sub" for s
      using Some 2(3) by (metis map_of_is_SomeI map_of_SomeD option.inject)
    have rest: "(k, s) \<in> set (AList.delete c (lw_subscribers live)) \<longleftrightarrow>
        (k, s) \<in> set (lw_subscribers live)" if "k \<in> set cs" for k s
      using 2(4) that by (auto simp: AList.delete_eq)
    have "distinct (map fst (AList.delete c (lw_subscribers live)))"
      using 2(3) by (simp add: AList.delete_eq distinct_map inj_on_def)
    from 2(2) [OF Some] this 2(4) rest have
      "snd (disconnect live ch (c # cs)) a =
        (if \<exists>k \<in> set cs. \<exists>s. (k, s) \<in> set (lw_subscribers live) \<and> sub_chan s = a
         then (notify_one ch (sub_chan sub) a)\<lparr>ch_killed := True\<rparr> else notify_one ch (sub_chan sub) a)"
      using Some by simp
    then show ?thesis using only by (auto simp: notify_one_def)
  qed
qed simp

text \<open>Connections watch a wave at most once, each through its own queue.\<close>

definition watchers_ok :: "live_wave \<Rightarrow> bool" where
  "watchers_ok live \<longleftrightarrow>
     distinct (map fst (lw_subscribers live)) \<and> distinct (map (sub_chan \<circ> snd) (lw_subscribers live))"

definition targets :: "live_wave \<Rightarrow> (nat \<times> subscriber \<Rightarrow> bool) \<Rightarrow> (nat \<times> subscriber \<Rightarrow> server_message) \<Rightarrow>
  (nat \<times> subscriber \<times> server_message) list" where
  "targets live P f = map (\<lambda>t. (fst t, snd t, f t)) (filter P (lw_subscribers live))"

definition deliver ::
  "live_wave \<Rightarrow> channels \<Rightarrow> (nat \<times> subscriber \<Rightarrow> bool) \<Rightarrow> (nat \<times> subscriber \<Rightarrow> server_message) \<Rightarrow>
   live_wave \<times> channels" where
  "deliver live ch P f =
     (let (ch, failed) = send_all ch (targets live P f) in disconnect live ch failed)"

lemma broadcast_deliver:
  "broadcast live ch i skip m =
     deliver live ch (\<lambda>(c, s). Some c \<noteq> skip \<and> may_access live (sub_user s) i) (\<lambda>_. m)"
proof -
  have "(case find_live_wavelet live i of Some w \<Rightarrow> wl_participants w | None \<Rightarrow> []) = xs \<Longrightarrow>
    may_access live u i = (u \<in> set xs)" for u xs
    by (auto simp: may_access_def split: option.splits)
  then show ?thesis by (simp add: broadcast_def deliver_def targets_def Let_def case_prod_beta')
qed

lemma broadcast_presence_deliver:
  "broadcast_presence live ch wid =
     deliver live ch (\<lambda>_. True) (\<lambda>t. PresenceMsg wid (presence_for live (sub_user (snd t))))"
  by (simp add: broadcast_presence_def deliver_def targets_def Let_def case_prod_beta')

lemma targets_distinct: "watchers_ok live \<Longrightarrow> distinct (map target_chan (targets live P f))"
  by (simp add: targets_def watchers_ok_def comp_def distinct_map_filter)

lemma targets_failed:
  assumes "watchers_ok live"
  shows "snd (send_all ch (targets live P f)) =
      map fst (filter (\<lambda>t. P t \<and> \<not> accepts ch (sub_chan (snd t))) (lw_subscribers live))"
    and "distinct (snd (send_all ch (targets live P f)))"
proof -
  show eq: "snd (send_all ch (targets live P f)) =
      map fst (filter (\<lambda>t. P t \<and> \<not> accepts ch (sub_chan (snd t))) (lw_subscribers live))"
    by (simp add: send_all_failed [OF targets_distinct [OF assms]])
       (simp add: targets_def filter_map comp_def conj_commute)
  show "distinct (snd (send_all ch (targets live P f)))"
    using assms unfolding eq watchers_ok_def by (simp add: distinct_map_filter)
qed

lemma deliver_live:
  assumes "watchers_ok live"
  shows "fst (deliver live ch P f) =
    live\<lparr>lw_subscribers := filter (\<lambda>t. P t \<longrightarrow> accepts ch (sub_chan (snd t))) (lw_subscribers live)\<rparr>"
proof -
  have "c \<in> set (snd (send_all ch (targets live P f))) \<longleftrightarrow> P (c, s) \<and> \<not> accepts ch (sub_chan s)"
    if "(c, s) \<in> set (lw_subscribers live)" for c s
    using that assms unfolding targets_failed(1) [OF assms] watchers_ok_def
    by (force simp: image_iff dest: eq_key_imp_eq_value)
  then show ?thesis
    by (auto simp: deliver_def Let_def disconnect_live case_prod_beta' intro!: filter_cong arg_cong2
        [where f = "\<lambda>x y. lw_subscribers_update x y"])
qed

lemma deliver_chan:
  assumes "watchers_ok live" "(c, s) \<in> set (lw_subscribers live)"
  shows "snd (deliver live ch P f) (sub_chan s) =
    (if \<not> P (c, s) then ch (sub_chan s)
     else if accepts ch (sub_chan s) then enqueue (ch (sub_chan s)) (f (c, s))
     else (ch (sub_chan s))\<lparr>ch_killed := True\<rparr>)"
proof -
  let ?ts = "targets live P f"
  let ?ch = "fst (send_all ch ?ts)" and ?failed = "snd (send_all ch ?ts)"
  have keys: "distinct (map fst (lw_subscribers live))"
    and chans: "inj_on (sub_chan \<circ> snd) (set (lw_subscribers live))"
    using assms(1) by (auto simp: watchers_ok_def distinct_map)
  note d = targets_distinct [OF assms(1), of P f]
  have fl: "set ?failed = {k. \<exists>s. (k, s) \<in> set (lw_subscribers live) \<and> P (k, s) \<and> \<not> accepts ch (sub_chan s)}"
    unfolding targets_failed(1) [OF assms(1)] by force
  have only: "(k, t) \<in> set (lw_subscribers live) \<Longrightarrow> sub_chan t = sub_chan s \<Longrightarrow> k = c \<and> t = s" for k t
    using inj_onD [OF chans, of "(k, t)" "(c, s)"] assms(2) by simp
  note kill = disconnect_chan [OF keys targets_failed(2) [OF assms(1)], of ?ch ch P f "sub_chan s"]
  have sent: "?ch (sub_chan s) = (if P (c, s) \<and> accepts ch (sub_chan s)
      then enqueue (ch (sub_chan s)) (f (c, s)) else ch (sub_chan s))"
  proof (cases "P (c, s)")
    case True
    with assms(2) have "(c, s, f (c, s)) \<in> set ?ts" by (force simp: targets_def)
    with send_all_target [OF d this] True show ?thesis by simp
  next
    case False
    with only have "sub_chan s \<notin> target_chan ` set ?ts" by (auto simp: targets_def)
    with False show ?thesis by (simp add: send_all_other)
  qed
  have "(\<exists>k \<in> set ?failed. \<exists>t. (k, t) \<in> set (lw_subscribers live) \<and> sub_chan t = sub_chan s)
      \<longleftrightarrow> P (c, s) \<and> \<not> accepts ch (sub_chan s)"
  proof
    assume "\<exists>k \<in> set ?failed. \<exists>t. (k, t) \<in> set (lw_subscribers live) \<and> sub_chan t = sub_chan s"
    then obtain k t where k: "k \<in> set ?failed" "(k, t) \<in> set (lw_subscribers live)" "sub_chan t = sub_chan s"
      by blast
    with only have "k = c" by blast
    with k(1) obtain s' where "(c, s') \<in> set (lw_subscribers live)" "P (c, s')" "\<not> accepts ch (sub_chan s')"
      unfolding fl by blast
    with eq_key_imp_eq_value [OF keys _ assms(2)] show "P (c, s) \<and> \<not> accepts ch (sub_chan s)" by blast
  qed (use assms(2) in \<open>unfold fl, blast\<close>)
  with kill sent show ?thesis
    by (auto simp: deliver_def Let_def case_prod_beta')
qed

lemma deliver_other:
  assumes "watchers_ok live" "a \<notin> (sub_chan \<circ> snd) ` set (lw_subscribers live)"
  shows "snd (deliver live ch P f) a = ch a"
proof -
  let ?ts = "targets live P f"
  have "a \<notin> target_chan ` set ?ts" using assms(2) by (force simp: targets_def)
  moreover have "snd (disconnect live c (snd (send_all ch ?ts))) a = c a" for c
    using assms targets_failed(2) [OF assms(1), of ch P f]
    by (subst disconnect_chan) (force simp: watchers_ok_def)+
  ultimately show ?thesis by (simp add: deliver_def Let_def case_prod_beta' send_all_other)
qed

lemmas deliver_simps = deliver_live deliver_chan deliver_other

section \<open>A sample wave\<close>

text \<open>
  Three people in a conversation with one message; two of them also share a private reply
  with one message. All watch the wave, the second one editing in the private reply.
\<close>

definition alice :: user_id where "alice = UserId (lit ''u-1'')"
definition bob :: user_id where "bob = UserId (lit ''u-2'')"
definition carol :: user_id where "carol = UserId (lit ''u-3'')"

definition profile :: "user_id \<Rightarrow> ustring \<Rightarrow> public_user" where
  "profile u n = \<lparr>pu_id = u, pu_name = n, pu_display_name = n, pu_color = 0\<rparr>"

definition sample_wavelet :: wavelet where
  "sample_wavelet = \<lparr>wl_id = WaveletId (lit ''s-1''), wl_wave_id = WaveId (lit ''w-1''),
     wl_kind = Conversation, wl_title = lit ''Hi'', wl_participants = [alice, bob, carol],
     wl_anchor_blip = None, wl_created_at = 0, wl_last_modified = 0\<rparr>"

definition sample_private :: wavelet where
  "sample_private = \<lparr>wl_id = WaveletId (lit ''s-2''), wl_wave_id = WaveId (lit ''w-1''),
     wl_kind = PrivateReplyKind, wl_title = lit ''Hi'', wl_participants = [alice, bob],
     wl_anchor_blip = Some (BlipId (lit ''b-1'')), wl_created_at = 1, wl_last_modified = 1\<rparr>"

definition sample_blip :: blip where
  "sample_blip = blip_new 0 (lit ''1'') (WaveId (lit ''w-1'')) (WaveletId (lit ''s-1'')) alice None 0"

definition sample_secret :: blip where
  "sample_secret = blip_new 1 (lit ''2'') (WaveId (lit ''w-1'')) (WaveletId (lit ''s-2'')) alice None 0"

definition sample_live :: live_wave where
  "sample_live =
     \<lparr>lw_wave = \<lparr>w_id = WaveId (lit ''w-1''), w_creator = alice, w_created_at = 0, w_mode = Document\<rparr>,
      lw_wavelets = [sample_wavelet, sample_private],
      lw_blips = [(b_id sample_secret, live_blip_new sample_secret),
                  (b_id sample_blip, live_blip_new sample_blip)],
      lw_comments = [],
      lw_subscribers = [(1, \<lparr>sub_user = alice, sub_chan = 1, sub_editing = None\<rparr>),
                        (2, \<lparr>sub_user = bob, sub_chan = 2, sub_editing = Some (b_id sample_secret)\<rparr>),
                        (3, \<lparr>sub_user = carol, sub_chan = 3, sub_editing = None\<rparr>)],
      lw_user_cache = [(alice, profile alice (lit ''alice'')), (bob, profile bob (lit ''bob'')),
                       (carol, profile carol (lit ''carol''))],
      lw_evicted = False\<rparr>"

definition empty_channel :: channel where
  "empty_channel = \<lparr>ch_queue = [], ch_closed = False, ch_killed = False\<rparr>"

section \<open>Properties\<close>

text \<open>
  (C34) Delivery. A broadcast to a wavelet leaves a watcher who is not in it, and the skipped
  connection, exactly as they were. Every other watcher has the message at the end of the
  queue, or, when the queue does not take it, is unsubscribed with the connection marked
  for closing: nobody goes on watching after missing a message. Nothing else changes.
\<close>

theorem broadcast_delivery:
  assumes "watchers_ok live" "broadcast live ch i skip m = (live', ch')"
  shows "(\<forall>(c, s) \<in> set (lw_subscribers live).
      if Some c = skip \<or> \<not> may_access live (sub_user s) i
      then (c, s) \<in> set (lw_subscribers live') \<and> ch' (sub_chan s) = ch (sub_chan s)
      else if accepts ch (sub_chan s)
      then (c, s) \<in> set (lw_subscribers live') \<and> ch' (sub_chan s) = enqueue (ch (sub_chan s)) m
      else (c, s) \<notin> set (lw_subscribers live') \<and> ch_killed (ch' (sub_chan s))
        \<and> ch_queue (ch' (sub_chan s)) = ch_queue (ch (sub_chan s)))
    \<and> (\<forall>a. a \<notin> (sub_chan \<circ> snd) ` set (lw_subscribers live) \<longrightarrow> ch' a = ch a)
    \<and> live' = live\<lparr>lw_subscribers := lw_subscribers live'\<rparr>"
proof -
  let ?P = "\<lambda>(c, s). Some c \<noteq> skip \<and> may_access live (sub_user s) i"
  have eq: "live' = fst (deliver live ch ?P (\<lambda>_. m))" "ch' = snd (deliver live ch ?P (\<lambda>_. m))"
    using assms(2) by (simp_all add: broadcast_deliver)
  have "live' = live\<lparr>lw_subscribers :=
      filter (\<lambda>t. ?P t \<longrightarrow> accepts ch (sub_chan (snd t))) (lw_subscribers live)\<rparr>"
    using eq(1) deliver_live [OF assms(1)] by simp
  then show ?thesis
    using deliver_chan [OF assms(1), of _ _ ch ?P] deliver_other [OF assms(1), of _ ch ?P]
    by (auto simp: eq(2))
qed

theorem broadcast_delivery_witness:
  "let live' = fst (broadcast sample_live (\<lambda>_. empty_channel) (WaveletId (lit ''s-2'')) None PongMsg);
       ch' = snd (broadcast sample_live (\<lambda>_. empty_channel) (WaveletId (lit ''s-2'')) None PongMsg)
   in ch_queue (ch' 2) = [PongMsg] \<and> ch_queue (ch' 3) = [] \<and> length (lw_subscribers live') = 3"
proof -
  have ok: "watchers_ok sample_live" by code_simp
  have acc: "may_access sample_live bob (WaveletId (lit ''s-2''))"
    "\<not> may_access sample_live carol (WaveletId (lit ''s-2''))"
    "accepts (\<lambda>_. empty_channel) 2" by code_simp+
  have subs: "(2, \<lparr>sub_user = bob, sub_chan = 2, sub_editing = Some (b_id sample_secret)\<rparr>)
      \<in> set (lw_subscribers sample_live)"
    "(3, \<lparr>sub_user = carol, sub_chan = 3, sub_editing = None\<rparr>) \<in> set (lw_subscribers sample_live)"
    by code_simp+
  have "length (lw_subscribers (fst (broadcast sample_live (\<lambda>_. empty_channel)
      (WaveletId (lit ''s-2'')) None PongMsg))) = 3" by code_simp
  moreover note all = broadcast_delivery [OF ok surjective_pairing,
      where ch = "\<lambda>_. empty_channel" and i = "WaveletId (lit ''s-2'')" and skip = None and m = PongMsg,
      THEN conjunct1]
  note bspec [OF all subs(1)] bspec [OF all subs(2)]
  ultimately show ?thesis using acc by (simp add: Let_def enqueue_def empty_channel_def)
qed

end
