(* ===== verification/Gal_View.thy ===== *)
theory Gal_View
  imports Gal_Live
begin

text \<open>
  What a participant is shown of a resident wave: the view of \<open>LiveWave::view\<close> depends only on
  the wavelets they are in, whatever order the hash maps iterate in; presence names only
  people and messages they share a wavelet with; and a new message takes a place of its own.
\<close>

section \<open>Sorting by a key that tells elements apart\<close>

lemma sort_key_unique:
  fixes f :: "'a \<Rightarrow> 'k::linorder"
  assumes "distinct xs" "distinct ys" "set xs = set ys" "inj_on f (set xs)"
  shows "sort_key f xs = sort_key f ys"
proof -
  have "map f (sort_key f xs) = map f (sort_key f ys)"
    using assms by (intro sorted_distinct_set_unique) (auto simp: distinct_map)
  then show ?thesis
    using assms(3,4) by (auto intro: map_inj_on)
qed

lemma filter_same_set:
  assumes "distinct xs" "distinct ys" "\<forall>x. P x \<longrightarrow> (x \<in> set xs \<longleftrightarrow> x \<in> set ys)" "inj_on f (set xs)"
  shows "sort_key (f :: 'a \<Rightarrow> 'k::linorder) (filter P xs) = sort_key f (filter P ys)"
  using assms by (intro sort_key_unique) (auto intro: inj_on_subset)

lemma map_filter_same: "(\<And>x. x \<in> set xs \<Longrightarrow> f x = g x) \<Longrightarrow> List.map_filter f xs = List.map_filter g xs"
  by (induction xs) (auto simp: map_filter_simps split: option.splits)

section \<open>Well-formed waves\<close>

text \<open>Messages and threads are filed under their own ids, and every id once.\<close>

definition maps_ok :: "live_wave \<Rightarrow> bool" where
  "maps_ok live \<longleftrightarrow>
     distinct (map fst (lw_blips live)) \<and> distinct (map fst (lw_comments live))
     \<and> list_all (\<lambda>(i, b). b_id (lb_meta b) = i) (lw_blips live)
     \<and> list_all (\<lambda>(i, c). ct_id c = i) (lw_comments live)"

lemma keyed_values:
  assumes "distinct (map fst kvs)" "list_all (\<lambda>(k, v). key v = k) kvs"
  shows "distinct (map snd kvs)" "inj_on key (snd ` set kvs)"
proof -
  have "map fst kvs = map (key \<circ> snd) kvs"
    using assms(2) by (auto simp: list_all_iff)
  with assms(1) have "distinct (map key (map snd kvs))" by simp
  then show "distinct (map snd kvs)" "inj_on key (snd ` set kvs)"
    by (auto simp: distinct_map comp_def intro: inj_on_imageI inj_on_imageI2 [of key snd])
qed

lemma maps_ok_values:
  assumes "maps_ok live"
  shows "distinct (map snd (lw_blips live))" "inj_on blip_order (set (map snd (lw_blips live)))"
    "distinct (map snd (lw_comments live))"
    "inj_on (\<lambda>c. (ct_created_at c, ct_id c)) (set (map snd (lw_comments live)))"
proof -
  note b = keyed_values [of "lw_blips live" "\<lambda>b. b_id (lb_meta b)"]
  note c = keyed_values [of "lw_comments live" ct_id]
  show "distinct (map snd (lw_blips live))" "distinct (map snd (lw_comments live))"
    using assms b(1) c(1) by (auto simp: maps_ok_def)
  have "inj_on (\<lambda>b. b_id (lb_meta b)) (snd ` set (lw_blips live))"
    "inj_on ct_id (snd ` set (lw_comments live))"
    using assms b(2) c(2) by (auto simp: maps_ok_def)
  then show "inj_on blip_order (set (map snd (lw_blips live)))"
    "inj_on (\<lambda>c. (ct_created_at c, ct_id c)) (set (map snd (lw_comments live)))"
    unfolding inj_on_def blip_order_def by auto
qed

section \<open>Indistinguishable waves\<close>

text \<open>
  Two states of a wave that are the same to one user: the wave itself, the wavelets they are
  in, the messages and threads of those, and the profiles of the people in them.
\<close>

definition same_to :: "user_id \<Rightarrow> live_wave \<Rightarrow> live_wave \<Rightarrow> bool" where
  "same_to u a b \<longleftrightarrow>
     lw_wave a = lw_wave b \<and> visible_wavelets a u = visible_wavelets b u
     \<and> (\<forall>w \<in> set (visible_wavelets a u).
          (\<forall>x. b_wavelet_id (lb_meta x) = wl_id w \<longrightarrow>
             (x \<in> snd ` set (lw_blips a) \<longleftrightarrow> x \<in> snd ` set (lw_blips b)))
        \<and> (\<forall>c. ct_wavelet_id c = wl_id w \<longrightarrow>
             (c \<in> snd ` set (lw_comments a) \<longleftrightarrow> c \<in> snd ` set (lw_comments b)))
        \<and> (\<forall>p \<in> set (wl_participants w). map_of (lw_user_cache a) p = map_of (lw_user_cache b) p))"

lemma view_wavelet_same:
  assumes "maps_ok a" "maps_ok b" "same_to u a b" "w \<in> set (visible_wavelets a u)"
  shows "view_wavelet a marks w = view_wavelet b marks w"
proof -
  note va = maps_ok_values [OF assms(1)] and vb = maps_ok_values [OF assms(2)]
  have "sort_key blip_order (filter (\<lambda>x. b_wavelet_id (lb_meta x) = wl_id w) (map snd (lw_blips a)))
      = sort_key blip_order (filter (\<lambda>x. b_wavelet_id (lb_meta x) = wl_id w) (map snd (lw_blips b)))"
    using assms(3,4) va vb by (intro filter_same_set) (auto simp: same_to_def)
  moreover have
    "sort_key (\<lambda>c. (ct_created_at c, ct_id c)) (filter (\<lambda>c. ct_wavelet_id c = wl_id w) (map snd (lw_comments a)))
      = sort_key (\<lambda>c. (ct_created_at c, ct_id c)) (filter (\<lambda>c. ct_wavelet_id c = wl_id w) (map snd (lw_comments b)))"
    using assms(3,4) va vb by (intro filter_same_set) (auto simp: same_to_def)
  moreover have "List.map_filter (map_of (lw_user_cache a)) (wl_participants w)
      = List.map_filter (map_of (lw_user_cache b)) (wl_participants w)"
    using assms(3,4) by (intro map_filter_same) (auto simp: same_to_def)
  ultimately show ?thesis by (simp add: view_wavelet_def)
qed

section \<open>Presence\<close>

lemma presence_loop_sound:
  "e \<in> set (presence_loop live visible co seen subs) \<Longrightarrow>
   \<exists>s \<in> set subs. sub_user s \<in> set co - set seen \<and> map_of (lw_user_cache live) (sub_user s) = Some (pe_user e)
     \<and> (\<forall>b. pe_editing e = Some b \<longrightarrow> sub_editing s = Some b
          \<and> (\<exists>lb. map_of (lw_blips live) b = Some lb \<and> b_wavelet_id (lb_meta lb) \<in> set visible))"
  by (induction subs arbitrary: seen) (fastforce split: if_splits option.splits)+

lemma presence_loop_complete:
  "s \<in> set subs \<Longrightarrow> sub_user s \<in> set co - set seen \<Longrightarrow> map_of (lw_user_cache live) (sub_user s) = Some p \<Longrightarrow>
   p \<in> pe_user ` set (presence_loop live visible co seen subs)"
proof (induction subs arbitrary: seen)
  case (Cons t subs)
  show ?case
  proof (cases "sub_user t = sub_user s")
    case True
    with Cons.prems show ?thesis by simp
  next
    case False
    with Cons.prems have "s \<in> set subs" by auto
    with Cons.IH [of seen] Cons.IH [of "sub_user t # seen"] Cons.prems False show ?thesis
      by (auto split: option.splits)
  qed
qed simp

definition cache_ok :: "live_wave \<Rightarrow> bool" where
  "cache_ok live \<longleftrightarrow> (\<forall>u p. map_of (lw_user_cache live) u = Some p \<longrightarrow> pu_id p = u)"

lemma presence_loop_distinct:
  "cache_ok live \<Longrightarrow> distinct (map (pu_id \<circ> pe_user) (presence_loop live visible co seen subs))"
proof (induction subs arbitrary: seen)
  case (Cons s subs)
  have "sub_user s \<notin> (pu_id \<circ> pe_user) ` set (presence_loop live visible co (sub_user s # seen) subs)"
  proof
    assume "sub_user s \<in> (pu_id \<circ> pe_user) ` set (presence_loop live visible co (sub_user s # seen) subs)"
    then obtain e where e: "e \<in> set (presence_loop live visible co (sub_user s # seen) subs)"
      "pu_id (pe_user e) = sub_user s" by auto
    from presence_loop_sound [OF e(1)] obtain t :: subscriber where
      "sub_user t \<noteq> sub_user s" "map_of (lw_user_cache live) (sub_user t) = Some (pe_user e)" by auto
    with Cons.prems e(2) show False by (simp add: cache_ok_def)
  qed
  with Cons show ?case by (auto simp: cache_ok_def split: option.splits)
qed simp

section \<open>Positions\<close>

lemma foldl_max: "foldl max x xs = Max (insert x (set xs))" for x :: "'a::linorder"
proof -
  have "(\<lambda>y s. max s y) = (max :: 'a \<Rightarrow> _)" by (intro ext) (rule max.commute)
  then show ?thesis by (simp add: foldl_conv_fold Max.set_eq_fold [symmetric])
qed

lemma wrap_i64_exact: "- (2 ^ 63) \<le> x \<Longrightarrow> x < 2 ^ 63 \<Longrightarrow> wrap_i64 x = x"
  unfolding wrap_i64_def by (subst mod_pos_pos_trivial) auto

lemma next_seq_above:
  assumes "lb \<in> snd ` set (lw_blips live)" "b_wavelet_id (lb_meta lb) = i"
    and "\<forall>lb \<in> snd ` set (lw_blips live). 0 \<le> b_seq (lb_meta lb) \<and> b_seq (lb_meta lb) < 2 ^ 63 - 1"
  shows "b_seq (lb_meta lb) < next_seq live i"
proof -
  let ?ss = "map (b_seq \<circ> lb_meta) (filter (\<lambda>b. b_wavelet_id (lb_meta b) = i) (map snd (lw_blips live)))"
  have mem: "b_seq (lb_meta lb) \<in> set ?ss" using assms(1,2) by auto
  then obtain x xs where ss: "?ss = x # xs" by (cases ?ss) auto
  have "foldl max x xs \<in> set ?ss" using Max_in [of "insert x (set xs)"] unfolding ss foldl_max by simp
  then have "0 \<le> foldl max x xs \<and> foldl max x xs < 2 ^ 63 - 1" using assms(3) by auto
  then have "next_seq live i = foldl max x xs + 1"
    unfolding next_seq_def ss by (simp add: wrap_i64_exact)
  moreover have "b_seq (lb_meta lb) \<le> foldl max x xs"
    using mem unfolding ss foldl_max by (intro Max_ge) auto
  ultimately show ?thesis by simp
qed

section \<open>Properties\<close>

text \<open>
  (C32) Confidentiality of the view: two states of a wave that agree on the wavelets a user is
  in are shown to that user identically, so nothing of a private reply they are not in, and
  no iteration order of a hash map, reaches them.
\<close>

theorem view_confidential:
  assumes "maps_ok a" "maps_ok b" "same_to u a b"
  shows "view a u marks flags = view b u marks flags"
  using assms view_wavelet_same [OF assms]
  by (auto simp: view_def same_to_def intro!: map_cong)

theorem view_confidential_witness:
  "view sample_live carol [] \<lparr>wf_archived = False, wf_muted = False\<rparr>
   = view (sample_live\<lparr>lw_wavelets := [sample_wavelet], lw_blips := [(b_id sample_blip, live_blip_new sample_blip)]\<rparr>)
       carol [] \<lparr>wf_archived = False, wf_muted = False\<rparr>"
proof (rule view_confidential)
  have "visible_wavelets sample_live carol = [sample_wavelet]"
    "visible_wavelets (sample_live\<lparr>lw_wavelets := [sample_wavelet],
        lw_blips := [(b_id sample_blip, live_blip_new sample_blip)]\<rparr>) carol = [sample_wavelet]"
    "b_wavelet_id (lb_meta (live_blip_new sample_secret)) \<noteq> wl_id sample_wavelet" by code_simp+
  then show "same_to carol sample_live (sample_live\<lparr>lw_wavelets := [sample_wavelet],
      lw_blips := [(b_id sample_blip, live_blip_new sample_blip)]\<rparr>)"
    by (auto simp: same_to_def sample_live_def)
qed code_simp+

text \<open>
  (C33) Presence shows a viewer exactly the watchers they share a wavelet with, each once, and
  tells which message somebody is editing only when the viewer may read that message.
\<close>

theorem presence_scoped:
  assumes "cache_ok live"
  shows "distinct (map (pu_id \<circ> pe_user) (presence_for live v))
    \<and> pe_user ` set (presence_for live v) =
        {p. \<exists>s \<in> snd ` set (lw_subscribers live). map_of (lw_user_cache live) (sub_user s) = Some p
              \<and> (\<exists>w \<in> set (lw_wavelets live). v \<in> set (wl_participants w) \<and> sub_user s \<in> set (wl_participants w))}
    \<and> (\<forall>e \<in> set (presence_for live v). \<forall>b. pe_editing e = Some b \<longrightarrow>
        (\<exists>lb w. map_of (lw_blips live) b = Some lb \<and> w \<in> set (lw_wavelets live)
            \<and> b_wavelet_id (lb_meta lb) = wl_id w \<and> v \<in> set (wl_participants w)))"
proof -
  let ?vis = "visible_wavelets live v"
  let ?loop = "presence_loop live (map wl_id ?vis) (concat (map wl_participants ?vis)) [] (map snd (lw_subscribers live))"
  have vis: "w \<in> set ?vis \<longleftrightarrow> w \<in> set (lw_wavelets live) \<and> v \<in> set (wl_participants w)" for w
    by (auto simp: visible_wavelets_def)
  have set_eq: "set (presence_for live v) = set ?loop" by (simp add: presence_for_def Let_def)
  have d: "distinct (map (pu_id \<circ> pe_user) ?loop)" by (rule presence_loop_distinct [OF assms])
  then have "distinct (map (pu_id \<circ> pe_user) (presence_for live v))"
    by (simp add: presence_for_def Let_def distinct_map)
  moreover have "pe_user ` set ?loop = {p. \<exists>s \<in> snd ` set (lw_subscribers live).
      map_of (lw_user_cache live) (sub_user s) = Some p
      \<and> (\<exists>w \<in> set (lw_wavelets live). v \<in> set (wl_participants w) \<and> sub_user s \<in> set (wl_participants w))}"
    (is "_ = ?R")
  proof
    show "pe_user ` set ?loop \<subseteq> ?R" using vis by (fastforce dest: presence_loop_sound)
    show "?R \<subseteq> pe_user ` set ?loop" using vis by (fastforce intro!: presence_loop_complete)
  qed
  moreover have "\<forall>e \<in> set ?loop. \<forall>b. pe_editing e = Some b \<longrightarrow>
      (\<exists>lb w. map_of (lw_blips live) b = Some lb \<and> w \<in> set (lw_wavelets live)
          \<and> b_wavelet_id (lb_meta lb) = wl_id w \<and> v \<in> set (wl_participants w))"
    using vis by (fastforce dest: presence_loop_sound)
  ultimately show ?thesis unfolding set_eq by blast
qed

theorem presence_scoped_witness:
  "pe_user ` set (presence_for sample_live carol) =
     {p. \<exists>s \<in> snd ` set (lw_subscribers sample_live). map_of (lw_user_cache sample_live) (sub_user s) = Some p
           \<and> (\<exists>w \<in> set (lw_wavelets sample_live). carol \<in> set (wl_participants w) \<and> sub_user s \<in> set (wl_participants w))}
   \<and> map pe_editing (presence_for sample_live carol) = [None, None, None]
   \<and> map pe_editing (presence_for sample_live alice) = [None, Some (b_id sample_secret), None]"
proof -
  have "cache_ok sample_live"
    by (auto simp: cache_ok_def sample_live_def profile_def split: if_splits)
  moreover have "map pe_editing (presence_for sample_live carol) = [None, None, None]"
    "map pe_editing (presence_for sample_live alice) = [None, Some (b_id sample_secret), None]"
    by code_simp+
  ultimately show ?thesis using presence_scoped [of sample_live carol] by blast
qed

text \<open>
  A message the server prepares is in a wavelet its author is in, comes after everything
  in that wavelet, replies only within it, and loads as the document it was given: a seed
  that could not be loaded back is never accepted.
\<close>

theorem prepared_blip_placed:
  assumes "prepare_blip json_len now uuid live u i parent cont = Ok b"
    and "\<forall>lb \<in> snd ` set (lw_blips live). 0 \<le> b_seq (lb_meta lb) \<and> b_seq (lb_meta lb) < 2 ^ 63 - 1"
  shows "may_access live u i \<and> b_wavelet_id b = i \<and> b_author b = u
    \<and> (\<forall>lb \<in> snd ` set (lw_blips live). b_wavelet_id (lb_meta lb) = i \<longrightarrow> b_seq (lb_meta lb) < b_seq b)
    \<and> (\<forall>p. b_parent b = Some p \<longrightarrow> (\<exists>lb. map_of (lw_blips live) p = Some lb \<and> b_wavelet_id (lb_meta lb) = i))
    \<and> content (lb_doc (live_blip_new b)) = b_content b
    \<and> sd_revision (lb_doc (live_blip_new b)) = b_revision b"
proof -
  from assms(1) obtain seed where
    acc: "may_access live u i" and seed: "seed_content json_len cont = Ok seed"
    and parent: "\<And>p. parent = Some p \<Longrightarrow> \<exists>lb. map_of (lw_blips live) p = Some lb \<and> b_wavelet_id (lb_meta lb) = i"
    and b: "b = (let b = blip_new now uuid (w_id (lw_wave live)) i u parent (next_seq live i)
       in case seed of Some c \<Rightarrow> b\<lparr>b_content := c, b_revision := 1\<rparr> | None \<Rightarrow> b)"
    by (auto simp: prepare_blip_def bind_result_Ok_iff Let_def split: if_splits option.splits)
  have doc: "is_document d" if "seed = Some d" for d
    using seed that seed_content_exact [of json_len _ d] by (cases cont) (auto simp: seed_content_def)
  have proj: "b_wavelet_id b = i" "b_author b = u" "b_parent b = parent" "b_seq b = next_seq live i"
    by (simp_all add: b Let_def blip_new_def split: option.split)
  have "is_document (b_content b)"
    using doc by (simp add: b Let_def blip_new_def is_document_def delta_new_def split: option.split)
  then have "content (lb_doc (live_blip_new b)) = b_content b"
    "sd_revision (lb_doc (live_blip_new b)) = b_revision b"
    by (simp_all add: live_blip_new_def from_snapshot_def)
  with acc parent proj next_seq_above [OF _ _ assms(2), of _ i] show ?thesis by simp
qed

theorem prepared_blip_placed_witness:
  "\<exists>b. prepare_blip (\<lambda>_. None) 5 (lit ''9'') sample_live carol (WaveletId (lit ''s-1''))
        (Some (b_id sample_blip)) (Some (delta_document [104, 105])) = Ok b
     \<and> b_seq (lb_meta (live_blip_new sample_blip)) < b_seq b"
proof -
  let ?r = "prepare_blip (\<lambda>_. None) 5 (lit ''9'') sample_live carol (WaveletId (lit ''s-1''))
        (Some (b_id sample_blip)) (Some (delta_document [104, 105]))"
  have "is_ok ?r" "\<forall>lb \<in> snd ` set (lw_blips sample_live). 0 \<le> b_seq (lb_meta lb) \<and> b_seq (lb_meta lb) < 2 ^ 63 - 1"
    "live_blip_new sample_blip \<in> snd ` set (lw_blips sample_live)"
    "b_wavelet_id (lb_meta (live_blip_new sample_blip)) = WaveletId (lit ''s-1'')"
    by code_simp+
  moreover from this(1) obtain b where b: "?r = Ok b" by (cases ?r) (auto simp: is_ok_def)
  ultimately have "b_seq (lb_meta (live_blip_new sample_blip)) < b_seq b"
    using prepared_blip_placed [OF b] by blast
  with b show ?thesis by blast
qed

end
