(* ===== verification/Gal_Inbox.thy ===== *)
theory Gal_Inbox
  imports Gal_Store "HOL-Library.List_Lexorder"
begin

text \<open>
  The inbox, search and directory queries of \<open>crates/gal-server/src/db.rs\<close>. The whole inbox is
  five bulk queries merged by wave; a single row is the same for one wave. SQLite fills the
  bare columns of the aggregate from one row with the largest \<open>last_modified\<close>: which one, when
  several tie, is the argument \<open>pick\<close>. Full-text matching and ranking are the argument \<open>fts\<close>,
  the matching blips with their snippets, best first.
\<close>

section \<open>One row\<close>

definition member :: "store \<Rightarrow> user_id \<Rightarrow> wavelet_id \<Rightarrow> bool" where
  "member st u i = list_ex (\<lambda>p. fst p = i \<and> fst (snd p) = u) (st_participants st)"

definition conversations :: "store \<Rightarrow> wave_id \<Rightarrow> wavelet list" where
  "conversations st wid = filter (\<lambda>w. wl_wave_id w = wid \<and> wl_kind w = Conversation) (st_wavelets st)"

text \<open>The roster of the conversation, joined with the accounts, by the time people were added.\<close>

definition roster :: "store \<Rightarrow> wave_id \<Rightarrow> public_user list" where
  "roster st wid =
     concat (map (\<lambda>p. map user_public (filter (\<lambda>u. user_id u = fst (snd p)) (st_users st)))
       (sort_key (snd \<circ> snd)
         (filter (\<lambda>p. fst p \<in> set (map wl_id (conversations st wid))) (st_participants st))))"

text \<open>Messages of the wave the user may read; remarks are not counted and not previewed.\<close>

definition readable :: "store \<Rightarrow> user_id \<Rightarrow> wave_id \<Rightarrow> blip list" where
  "readable st u wid =
     filter (\<lambda>b. b_wave_id b = wid \<and> \<not> b_deleted b \<and> member st u (b_wavelet_id b)) (st_blips st)"

definition messages :: "store \<Rightarrow> user_id \<Rightarrow> wave_id \<Rightarrow> blip list" where
  "messages st u wid = filter (\<lambda>b. b_comment b = None) (readable st u wid)"

definition unread :: "store \<Rightarrow> user_id \<Rightarrow> blip \<Rightarrow> bool" where
  "unread st u b =
     (case map_of (st_read_marks st) (u, b_id b) of None \<Rightarrow> True | Some r \<Rightarrow> r < b_revision b)"

definition db_wave_summary ::
  "(blip list \<Rightarrow> blip) \<Rightarrow> store \<Rightarrow> user_id \<Rightarrow> wave_id \<Rightarrow> wave_summary option" where
  "db_wave_summary pick st u wid =
     (case (if db_is_participant st u wid then conversations st wid else []) of
        [] \<Rightarrow> None
      | w # _ \<Rightarrow>
          let s = \<lparr>ws_id = wid, ws_title = wl_title w, ws_participants = roster st wid,
                   ws_last_modified = wl_last_modified w, ws_snippet = [], ws_snippet_author = None,
                   ws_blip_count = 0, ws_unread_count = 0,
                   ws_flags = \<lparr>wf_archived = False, wf_muted = False\<rparr>\<rparr>;
              bs = messages st u wid;
              s = (if bs = [] then s
                   else s\<lparr>ws_blip_count := length bs, ws_snippet_author := Some (b_author (pick bs)),
                          ws_last_modified := max (ws_last_modified s) (b_last_modified (pick bs)),
                          ws_snippet := snippet_of (b_content (pick bs)) 140\<rparr>);
              s = s\<lparr>ws_unread_count := length (filter (unread st u) (readable st u wid))\<rparr>
          in Some (case map_of (st_flags st) (u, wid) of Some f \<Rightarrow> s\<lparr>ws_flags := f\<rparr> | None \<Rightarrow> s))"

section \<open>The whole inbox\<close>

text \<open>
  The five queries: root wavelets of the user's waves, rosters, counts with the latest
  message, unread counts, flags. The rows of each of the later four are added to the
  summary of their wave, found through an index.
\<close>

definition inbox_roots :: "store \<Rightarrow> user_id \<Rightarrow> wave_summary list" where
  "inbox_roots st u =
     map (\<lambda>w. \<lparr>ws_id = wl_wave_id w, ws_title = wl_title w, ws_participants = [],
              ws_last_modified = wl_last_modified w, ws_snippet = [], ws_snippet_author = None,
              ws_blip_count = 0, ws_unread_count = 0,
              ws_flags = \<lparr>wf_archived = False, wf_muted = False\<rparr>\<rparr>)
       (filter (\<lambda>w. wl_kind w = Conversation \<and> db_is_participant st u (wl_wave_id w)) (st_wavelets st))"

text \<open>The index maps a wave to the position of its last summary; rows of other waves are ignored.\<close>

definition index_of :: "wave_summary list \<Rightarrow> wave_id \<Rightarrow> nat option" where
  "index_of ss wid = map_of (rev (zip (map ws_id ss) [0..<length ss])) wid"

definition merge_row ::
  "(wave_id \<Rightarrow> nat option) \<Rightarrow> (wave_id \<times> 'r) \<Rightarrow> ('r \<Rightarrow> wave_summary \<Rightarrow> wave_summary) \<Rightarrow>
   wave_summary list \<Rightarrow> wave_summary list" where
  "merge_row index row f ss =
     (case index (fst row) of Some i \<Rightarrow> ss[i := f (snd row) (ss ! i)] | None \<Rightarrow> ss)"

definition merge_rows ::
  "(wave_id \<Rightarrow> nat option) \<Rightarrow> (wave_id \<times> 'r) list \<Rightarrow> ('r \<Rightarrow> wave_summary \<Rightarrow> wave_summary) \<Rightarrow>
   wave_summary list \<Rightarrow> wave_summary list" where
  "merge_rows index rows f ss = foldl (\<lambda>ss row. merge_row index row f ss) ss rows"

definition roster_rows :: "store \<Rightarrow> user_id \<Rightarrow> (wave_id \<times> public_user) list" where
  "roster_rows st u =
     concat (map (\<lambda>p. concat (map (\<lambda>w.
         map (\<lambda>v. (wl_wave_id w, user_public v)) (filter (\<lambda>v. user_id v = fst (snd p)) (st_users st)))
         (filter (\<lambda>w. wl_id w = fst p \<and> wl_kind w = Conversation \<and> db_is_participant st u (wl_wave_id w))
           (st_wavelets st))))
       (sort_key (snd \<circ> snd) (st_participants st)))"

text \<open>\<open>GROUP BY wave_id\<close> over the readable messages.\<close>

definition group_waves :: "blip list \<Rightarrow> wave_id list" where
  "group_waves bs = remdups (map b_wave_id bs)"

definition readable_anywhere :: "store \<Rightarrow> user_id \<Rightarrow> blip list" where
  "readable_anywhere st u = filter (\<lambda>b. \<not> b_deleted b \<and> member st u (b_wavelet_id b)) (st_blips st)"

definition latest_rows ::
  "(blip list \<Rightarrow> blip) \<Rightarrow> store \<Rightarrow> user_id \<Rightarrow> (wave_id \<times> nat \<times> blip) list" where
  "latest_rows pick st u =
     (let bs = filter (\<lambda>b. b_comment b = None) (readable_anywhere st u)
      in map (\<lambda>w. let g = filter (\<lambda>b. b_wave_id b = w) bs in (w, length g, pick g)) (group_waves bs))"

definition unread_rows :: "store \<Rightarrow> user_id \<Rightarrow> (wave_id \<times> nat) list" where
  "unread_rows st u =
     (let bs = filter (unread st u) (readable_anywhere st u)
      in map (\<lambda>w. (w, length (filter (\<lambda>b. b_wave_id b = w) bs))) (group_waves bs))"

definition flag_rows :: "store \<Rightarrow> user_id \<Rightarrow> (wave_id \<times> wave_flags) list" where
  "flag_rows st u = map (\<lambda>((_, w), f). (w, f)) (filter (\<lambda>((v, _), _). v = u) (st_flags st))"

definition db_inbox :: "(blip list \<Rightarrow> blip) \<Rightarrow> store \<Rightarrow> user_id \<Rightarrow> wave_summary list" where
  "db_inbox pick st u =
     (let ss = inbox_roots st u;
          index = index_of ss;
          ss = merge_rows index (roster_rows st u) (\<lambda>v s. s\<lparr>ws_participants := ws_participants s @ [v]\<rparr>) ss;
          ss = merge_rows index (latest_rows pick st u)
                 (\<lambda>(n, b) s. s\<lparr>ws_blip_count := n, ws_snippet_author := Some (b_author b),
                               ws_last_modified := max (ws_last_modified s) (b_last_modified b),
                               ws_snippet := snippet_of (b_content b) 140\<rparr>) ss;
          ss = merge_rows index (unread_rows st u) (\<lambda>n s. s\<lparr>ws_unread_count := n\<rparr>) ss;
          ss = merge_rows index (flag_rows st u) (\<lambda>f s. s\<lparr>ws_flags := f\<rparr>) ss
      in sort_key (\<lambda>s. - ws_last_modified s) ss)"

section \<open>Search and directory\<close>

definition db_search ::
  "(uchar \<Rightarrow> bool) \<Rightarrow> (ustring \<Rightarrow> (blip_id \<times> wave_id \<times> ustring) list \<Rightarrow> (blip_id \<times> wave_id \<times> ustring) list) \<Rightarrow>
   store \<Rightarrow> user_id \<Rightarrow> ustring \<Rightarrow> search_hit list" where
  "db_search is_alphanumeric fts st u query =
     (let q = to_fts_query is_alphanumeric query
      in if q = [] then []
         else take 60 (concat (map (\<lambda>(i, wid, snip).
                concat (map (\<lambda>b.
                  map (\<lambda>w. \<lparr>sh_wave_id = wid, sh_blip_id = i, sh_title = wl_title w,
                            sh_snippet = highlight_snippet snip, sh_author = b_author b,
                            sh_timestamp = b_last_modified b\<rparr>) (conversations st wid))
                  (filter (\<lambda>b. b_id b = i \<and> \<not> b_deleted b \<and> member st u (b_wavelet_id b)) (st_blips st))))
                (fts q (st_search st)))))"

definition db_known_users :: "store \<Rightarrow> user_id \<Rightarrow> public_user list" where
  "db_known_users st u =
     sort_key pu_display_name (remdups (map user_public (filter (\<lambda>v.
       list_ex (\<lambda>p. fst (snd p) = user_id v \<and> member st u (fst p)) (st_participants st)) (st_users st))))"

definition db_user_count :: "store \<Rightarrow> nat" where
  "db_user_count st = length (st_users st)"

definition db_wave_for_participant :: "store \<Rightarrow> user_id \<Rightarrow> wavelet_id \<Rightarrow> wave_id option" where
  "db_wave_for_participant st u i =
     map_option wl_wave_id (find (\<lambda>w. wl_id w = i \<and> member st u i) (st_wavelets st))"

definition db_is_wavelet_participant :: "store \<Rightarrow> user_id \<Rightarrow> wavelet_id \<Rightarrow> bool" where
  "db_is_wavelet_participant st u i = member st u i"

section \<open>Merging rows into summaries\<close>

definition rows_for :: "wave_id \<Rightarrow> (wave_id \<times> 'r) list \<Rightarrow> 'r list" where
  "rows_for w rows = map snd (filter (\<lambda>r. fst r = w) rows)"

lemma index_of_distinct:
  assumes "distinct (map ws_id ss)"
  shows "index_of ss w = Some i \<longleftrightarrow> i < length ss \<and> ws_id (ss ! i) = w"
proof -
  have "distinct (map fst (rev (zip (map ws_id ss) [0..<length ss])))"
    using assms by (simp flip: rev_map)
  then have "index_of ss w = Some i \<longleftrightarrow> (w, i) \<in> set (zip (map ws_id ss) [0..<length ss])"
    unfolding index_of_def by (subst map_of_eq_Some_iff) (simp_all only: set_rev)
  also have "\<dots> \<longleftrightarrow> (\<exists>j. (w, i) = (map ws_id ss ! j, [0..<length ss] ! j) \<and> j < length ss)"
    by (simp add: set_zip)
  also have "\<dots> \<longleftrightarrow> i < length ss \<and> ws_id (ss ! i) = w"
  proof
    assume "i < length ss \<and> ws_id (ss ! i) = w"
    then show "\<exists>j. (w, i) = (map ws_id ss ! j, [0..<length ss] ! j) \<and> j < length ss"
      by (intro exI [of _ i]) simp
  qed auto
  finally show ?thesis .
qed

lemma length_merge_row [simp]: "length (merge_row index row f ss) = length ss"
  by (simp add: merge_row_def split: option.split)

lemma merge_rows_nth:
  assumes "distinct (map ws_id roots)" "length ss = length roots" "i < length roots"
  shows "length (merge_rows (index_of roots) rows f ss) = length roots
    \<and> merge_rows (index_of roots) rows f ss ! i
      = foldl (\<lambda>s r. f r s) (ss ! i) (rows_for (ws_id (roots ! i)) rows)"
  using assms(2,3)
proof (induction rows arbitrary: ss)
  case Nil
  then show ?case by (simp add: merge_rows_def rows_for_def)
next
  case (Cons row rows)
  let ?ss = "merge_row (index_of roots) row f ss"
  have "?ss ! i = (if fst row = ws_id (roots ! i) then f (snd row) (ss ! i) else ss ! i)"
  proof (cases "fst row = ws_id (roots ! i)")
    case True
    then have "index_of roots (fst row) = Some i"
      using Cons.prems(2) by (simp add: index_of_distinct [OF assms(1)])
    with True Cons.prems show ?thesis by (simp add: merge_row_def)
  next
    case False
    then have "index_of roots (fst row) \<noteq> Some i" by (simp add: index_of_distinct [OF assms(1)])
    with False show ?thesis by (cases "index_of roots (fst row)") (simp_all add: merge_row_def)
  qed
  with Cons.IH [of ?ss] Cons.prems show ?case
    by (simp add: merge_rows_def rows_for_def)
qed

text \<open>The bulk merge computes each summary from its own rows.\<close>

lemma merge_rows_map:
  assumes "distinct (map ws_id roots)"
  shows "merge_rows (index_of roots) rows f (map g roots)
    = map (\<lambda>s. foldl (\<lambda>s r. f r s) (g s) (rows_for (ws_id s) rows)) roots"
proof (cases "roots = []")
  case True
  then show ?thesis
    by (induction rows) (auto simp: merge_rows_def merge_row_def index_of_def)
next
  case False
  then have "length (merge_rows (index_of roots) rows f (map g roots)) = length roots"
    using merge_rows_nth [OF assms, of "map g roots" 0 rows f] by simp
  then show ?thesis
    using merge_rows_nth [OF assms, of "map g roots"] by (intro nth_equalityI) auto
qed

lemmas merge_rows_roots = merge_rows_map [where g = "\<lambda>s. s", unfolded list.map_ident]

lemma find_unique:
  assumes "distinct (map key xs)" "set xs = set ys"
  shows "find (\<lambda>x. key x = k) xs = find (\<lambda>x. key x = k) ys"
proof (cases "find (\<lambda>x. key x = k) xs")
  case None
  then have "find (\<lambda>x. key x = k) ys = None" unfolding find_None_iff using assms(2) by simp
  with None show ?thesis by simp
next
  case (Some x)
  then have x: "x \<in> set xs" "key x = k" by (auto simp: find_Some_iff)
  with assms(2) have "find (\<lambda>x. key x = k) ys \<noteq> None" unfolding find_None_iff by auto
  then obtain y where y: "find (\<lambda>x. key x = k) ys = Some y" by blast
  then have "y \<in> set ys" "key y = k" by (auto simp: find_Some_iff)
  then have "y = x" using x assms inj_onD [of key "set xs" y x] by (simp add: distinct_map)
  with Some y show ?thesis by simp
qed

section \<open>The rows of one wave\<close>

lemma rows_for_append [simp]: "rows_for w (xs @ ys) = rows_for w xs @ rows_for w ys"
  by (simp add: rows_for_def)

lemma rows_for_concat: "rows_for w (concat xss) = concat (map (rows_for w) xss)"
  by (induction xss) (auto simp: rows_for_def)

lemma rows_for_grouped:
  assumes "distinct ws"
  shows "rows_for w (map (\<lambda>v. (v, h v)) ws) = (if w \<in> set ws then [h w] else [])"
  using assms by (induction ws) (auto simp: rows_for_def filter_empty_conv)

lemma rows_for_flags:
  assumes "distinct (map fst (st_flags st))"
  shows "rows_for w (flag_rows st u) = (case map_of (st_flags st) (u, w) of Some f \<Rightarrow> [f] | None \<Rightarrow> [])"
proof -
  have "rows_for w (map (\<lambda>((_, w), f). (w, f)) (filter (\<lambda>((v, _), _). v = u) fs)) =
      (case map_of fs (u, w) of Some f \<Rightarrow> [f] | None \<Rightarrow> [])" if "distinct (map fst fs)" for fs :: "((user_id \<times> wave_id) \<times> wave_flags) list"
    using that
  proof (induction fs)
    case (Cons x fs)
    obtain v w' f where x: "x = ((v, w'), f)" by (metis prod.exhaust)
    show ?case
    proof (cases "(v, w') = (u, w)")
      case True
      then have "map_of fs (u, w) = None" using Cons.prems x by (auto simp: map_of_eq_None_iff)
      with Cons True x show ?thesis by (simp add: rows_for_def)
    next
      case False
      with Cons x show ?thesis by (auto simp: rows_for_def)
    qed
  qed (simp add: rows_for_def)
  with assms show ?thesis by (simp add: flag_rows_def)
qed

lemma rows_for_latest:
  "rows_for w (latest_rows pick st u) =
     (if messages st u w = [] then [] else [(length (messages st u w), pick (messages st u w))])"
proof -
  let ?bs = "filter (\<lambda>b. b_comment b = None) (readable_anywhere st u)"
  have g: "filter (\<lambda>b. b_wave_id b = w) ?bs = messages st u w"
    by (simp add: messages_def readable_def readable_anywhere_def conj_ac)
  have "w \<in> set (group_waves ?bs) \<longleftrightarrow> messages st u w \<noteq> []"
    unfolding g [symmetric] by (auto simp: group_waves_def filter_empty_conv)
  then show ?thesis
    using rows_for_grouped [of "group_waves ?bs" w "\<lambda>w. (length (filter (\<lambda>b. b_wave_id b = w) ?bs), pick (filter (\<lambda>b. b_wave_id b = w) ?bs))"]
    by (simp add: latest_rows_def Let_def g group_waves_def del: filter_filter)
qed

lemma rows_for_unread:
  "foldl (\<lambda>s n. s\<lparr>ws_unread_count := n\<rparr>) (s\<lparr>ws_unread_count := 0\<rparr>) (rows_for w (unread_rows st u))
     = s\<lparr>ws_unread_count := length (filter (unread st u) (readable st u w))\<rparr>"
proof -
  let ?bs = "filter (unread st u) (readable_anywhere st u)"
  have g: "filter (\<lambda>b. b_wave_id b = w) ?bs = filter (unread st u) (readable st u w)"
    by (simp add: readable_def readable_anywhere_def conj_ac)
  have "w \<in> set (group_waves ?bs) \<longleftrightarrow> filter (unread st u) (readable st u w) \<noteq> []"
    unfolding g [symmetric] by (auto simp: group_waves_def filter_empty_conv)
  then show ?thesis
    using rows_for_grouped [of "group_waves ?bs" w "\<lambda>w. length (filter (\<lambda>b. b_wave_id b = w) ?bs)"]
    by (auto simp: unread_rows_def Let_def g group_waves_def simp del: filter_filter)
qed

lemma concat_by_key:
  assumes "distinct (map key xs)"
  shows "concat (map (\<lambda>_. z) (filter (\<lambda>x. key x = k \<and> P x) xs)) = (if k \<in> key ` set (filter P xs) then z else [])"
  using assms by (induction xs) (auto simp: image_iff)

lemma concat_if: "concat (map (\<lambda>p. if c p then g p else []) ps) = concat (map g (filter c ps))"
  by (induction ps) auto

lemma rows_for_roster:
  assumes "distinct (map wl_id (st_wavelets st))" "db_is_participant st u w"
  shows "rows_for w (roster_rows st u) = roster st w"
proof -
  let ?us = "\<lambda>p. map user_public (filter (\<lambda>v. user_id v = fst (snd p)) (st_users st))"
  have row: "rows_for w (map (\<lambda>v. (wl_wave_id x, user_public v)) vs) = (if wl_wave_id x = w then map user_public vs else [])"
    for x :: wavelet and vs
    by (auto simp: rows_for_def filter_map comp_def)
  have "rows_for w (concat (map (\<lambda>x. map (\<lambda>v. (wl_wave_id x, user_public v)) (filter (\<lambda>v. user_id v = fst (snd p)) (st_users st)))
      (filter (\<lambda>x. wl_id x = fst p \<and> wl_kind x = Conversation \<and> db_is_participant st u (wl_wave_id x)) (st_wavelets st))))
    = (if fst p \<in> set (map wl_id (conversations st w)) then ?us p else [])" for p :: "wavelet_id \<times> user_id \<times> timestamp"
  proof -
    let ?xs = "filter (\<lambda>x. wl_id x = fst p \<and> wl_kind x = Conversation \<and> db_is_participant st u (wl_wave_id x)) (st_wavelets st)"
    have "rows_for w (concat (map (\<lambda>x. map (\<lambda>v. (wl_wave_id x, user_public v)) (filter (\<lambda>v. user_id v = fst (snd p)) (st_users st))) ?xs))
        = concat (map (\<lambda>_. ?us p) (filter (\<lambda>x. wl_wave_id x = w) ?xs))"
      by (simp add: rows_for_concat comp_def row concat_if)
    also have "filter (\<lambda>x. wl_wave_id x = w) ?xs
        = filter (\<lambda>x. wl_id x = fst p \<and> (wl_wave_id x = w \<and> wl_kind x = Conversation)) (st_wavelets st)"
      using assms(2) unfolding filter_filter by (intro filter_cong) auto
    finally show ?thesis
      by (simp add: concat_by_key [OF assms(1)] conversations_def)
  qed
  then show ?thesis
    by (simp add: roster_rows_def roster_def rows_for_concat comp_def concat_if flip: filter_sort)
qed

definition inbox_keys :: "store \<Rightarrow> bool" where
  "inbox_keys st \<longleftrightarrow> distinct (map wl_id (st_wavelets st)) \<and> distinct (map fst (st_flags st))
     \<and> distinct (map wl_wave_id (filter (\<lambda>w. wl_kind w = Conversation) (st_wavelets st)))"

lemma foldl_participants:
  "foldl (\<lambda>s v. s\<lparr>ws_participants := ws_participants s @ [v]\<rparr>) s vs = s\<lparr>ws_participants := ws_participants s @ vs\<rparr>"
  by (induction vs arbitrary: s) auto

text \<open>The summary the merged queries build for one root.\<close>

definition summary_of :: "(blip list \<Rightarrow> blip) \<Rightarrow> store \<Rightarrow> user_id \<Rightarrow> wave_summary \<Rightarrow> wave_summary" where
  "summary_of pick st u s =
     (let w = ws_id s;
          s = foldl (\<lambda>s v. s\<lparr>ws_participants := ws_participants s @ [v]\<rparr>) s (rows_for w (roster_rows st u));
          s = foldl (\<lambda>s (n, b). s\<lparr>ws_blip_count := n, ws_snippet_author := Some (b_author b),
                ws_last_modified := max (ws_last_modified s) (b_last_modified b),
                ws_snippet := snippet_of (b_content b) 140\<rparr>) s (rows_for w (latest_rows pick st u));
          s = foldl (\<lambda>s n. s\<lparr>ws_unread_count := n\<rparr>) s (rows_for w (unread_rows st u))
      in foldl (\<lambda>s f. s\<lparr>ws_flags := f\<rparr>) s (rows_for w (flag_rows st u)))"

lemma inbox_roots_distinct:
  assumes "inbox_keys st"
  shows "distinct (map ws_id (inbox_roots st u))"
proof -
  have "map ws_id (inbox_roots st u) = map wl_wave_id
      (filter (\<lambda>w. db_is_participant st u (wl_wave_id w)) (filter (\<lambda>w. wl_kind w = Conversation) (st_wavelets st)))"
    by (simp add: inbox_roots_def conj_commute)
  with assms show ?thesis by (simp add: inbox_keys_def distinct_map_filter del: filter_filter)
qed

lemma db_inbox_map:
  assumes "inbox_keys st"
  shows "db_inbox pick st u = sort_key (\<lambda>s. - ws_last_modified s) (map (summary_of pick st u) (inbox_roots st u))"
  by (simp add: db_inbox_def Let_def summary_of_def [abs_def] case_prod_beta'
      merge_rows_roots [OF inbox_roots_distinct [OF assms]] merge_rows_map [OF inbox_roots_distinct [OF assms]])

lemma ws_id_summary_of [simp]: "ws_id (summary_of pick st u s) = ws_id s"
proof -
  have "ws_id (foldl (\<lambda>s r. g r s) s rs) = ws_id s" if "\<And>r s. ws_id (g r s) = ws_id s" for g and rs :: "'r list" and s
    using that by (induction rs arbitrary: s) auto
  note fold = this
  show ?thesis unfolding summary_of_def Let_def by (subst fold, simp add: case_prod_beta')+ simp
qed

lemma find_map_key:
  "(\<And>x. key (f x) = key' x) \<Longrightarrow> find (\<lambda>y. key y = k) (map f xs) = map_option f (find (\<lambda>x. key' x = k) xs)"
  by (induction xs) auto

lemma find_root:
  "find (\<lambda>s. ws_id s = wid) (inbox_roots st u) =
     (case (if db_is_participant st u wid then conversations st wid else []) of
        [] \<Rightarrow> None
      | w # _ \<Rightarrow> Some \<lparr>ws_id = wid, ws_title = wl_title w, ws_participants = [],
          ws_last_modified = wl_last_modified w, ws_snippet = [], ws_snippet_author = None,
          ws_blip_count = 0, ws_unread_count = 0, ws_flags = \<lparr>wf_archived = False, wf_muted = False\<rparr>\<rparr>)"
proof -
  have "find (\<lambda>s. ws_id s = wid) (map g (filter (\<lambda>w. wl_kind w = Conversation \<and> db_is_participant st u (wl_wave_id w)) ws)) =
      (case (if db_is_participant st u wid then filter (\<lambda>w. wl_wave_id w = wid \<and> wl_kind w = Conversation) ws else []) of
         [] \<Rightarrow> None | w # _ \<Rightarrow> Some (g w))"
    if "\<And>w. ws_id (g w) = wl_wave_id w" for g :: "wavelet \<Rightarrow> wave_summary" and ws
    using that by (induction ws) (auto split: list.splits)
  from this [of "\<lambda>w. \<lparr>ws_id = wl_wave_id w, ws_title = wl_title w, ws_participants = [],
      ws_last_modified = wl_last_modified w, ws_snippet = [], ws_snippet_author = None,
      ws_blip_count = 0, ws_unread_count = 0, ws_flags = \<lparr>wf_archived = False, wf_muted = False\<rparr>\<rparr>" "st_wavelets st"]
  have root: "find (\<lambda>s. ws_id s = wid) (inbox_roots st u) =
      (case (if db_is_participant st u wid then conversations st wid else []) of
         [] \<Rightarrow> None
       | w # _ \<Rightarrow> Some \<lparr>ws_id = wl_wave_id w, ws_title = wl_title w, ws_participants = [],
           ws_last_modified = wl_last_modified w, ws_snippet = [], ws_snippet_author = None,
           ws_blip_count = 0, ws_unread_count = 0, ws_flags = \<lparr>wf_archived = False, wf_muted = False\<rparr>\<rparr>)"
    by (simp add: inbox_roots_def conversations_def)
  have "wl_wave_id w = wid" if "conversations st wid = w # ws" for w ws
    using that by (auto simp: conversations_def filter_eq_Cons_iff)
  with root show ?thesis by (simp split: list.split)
qed

section \<open>Snippets\<close>

definition tag_at :: "nat \<Rightarrow> ustring \<Rightarrow> bool" where
  "tag_at i s \<longleftrightarrow> take 6 (drop i s) = lit ''<mark>'' \<or> take 7 (drop i s) = lit ''</mark>''"

definition tags_only :: "ustring \<Rightarrow> bool" where
  "tags_only s \<longleftrightarrow> (\<forall>i < length s. s ! i = 60 \<longrightarrow> tag_at i s)"

lemma tag_at_append: "tag_at i s \<Longrightarrow> tag_at i (s @ t)"
proof -
  have aux: "take n (drop i s) = w \<Longrightarrow> length w = n \<Longrightarrow> take n (drop i (s @ t)) = w" for n and w :: ustring
    by (auto simp: min_def split: if_splits)
  assume "tag_at i s"
  then show ?thesis
    unfolding tag_at_def using aux [of 6 "lit ''<mark>''"] aux [of 7 "lit ''</mark>''"] by (auto simp: lit_def)
qed

lemma tags_only_append: "tags_only s \<Longrightarrow> tags_only t \<Longrightarrow> tags_only (s @ t)"
proof -
  assume st: "tags_only s" "tags_only t"
  show ?thesis unfolding tags_only_def
  proof (intro allI impI)
    fix i assume i: "i < length (s @ t)" "(s @ t) ! i = 60"
    show "tag_at i (s @ t)"
    proof (cases "i < length s")
      case True
      with i st(1) show ?thesis by (simp add: tags_only_def nth_append tag_at_append)
    next
      case False
      with i st(2) have "tag_at (i - length s) t" by (simp add: tags_only_def nth_append)
      with False show ?thesis by (simp add: tag_at_def)
    qed
  qed
qed

lemma tags_only_char: "tags_only (highlight_char c)"
proof -
  have "tags_only (lit ''<mark>'')" "tags_only (lit ''</mark>'')" "tags_only (lit ''&amp;'')" "tags_only (lit ''&lt;'')"
    "tags_only (lit ''&gt;'')" "tags_only (lit ''&quot;'')" "tags_only (lit ''&#39;'')"
    by code_simp+
  moreover have "tags_only [c]" if "c \<noteq> 60" using that by (simp add: tags_only_def)
  ultimately show ?thesis by (simp add: highlight_char_def)
qed

lemma highlight_snippet_tags: "tags_only (highlight_snippet raw)"
proof -
  have "tags_only out \<Longrightarrow> tags_only (foldl (\<lambda>out ch. out @ highlight_char ch) out raw)" for out
    by (induction raw arbitrary: out) (auto intro: tags_only_append tags_only_char)
  then show ?thesis by (simp add: highlight_snippet_def tags_only_def)
qed

section \<open>A sample database\<close>

definition inbox_user :: "ustring \<Rightarrow> user" where
  "inbox_user n = \<lparr>user_id = UserId n, user_name = n, user_display_name = n, user_email = [],
     user_password_hash = [], user_color = 0, user_created_at = 0\<rparr>"

definition inbox_wavelet :: "ustring \<Rightarrow> wavelet_kind \<Rightarrow> wavelet" where
  "inbox_wavelet i k = \<lparr>wl_id = WaveletId i, wl_wave_id = WaveId [49], wl_kind = k, wl_title = lit ''Hi'',
     wl_participants = [], wl_anchor_blip = None, wl_created_at = 0, wl_last_modified = 3\<rparr>"

definition inbox_blip :: "ustring \<Rightarrow> ustring \<Rightarrow> timestamp \<Rightarrow> blip" where
  "inbox_blip i wl t = (blip_new t i (WaveId [49]) (WaveletId wl) (UserId [97]) None 0)
     \<lparr>b_content := delta_document i, b_revision := 1\<rparr>"

definition inbox_store :: store where
  "inbox_store = \<lparr>st_users = [inbox_user [97], inbox_user [98]], st_waves = [],
     st_wavelets = [inbox_wavelet [49] Conversation, inbox_wavelet [50] PrivateReplyKind],
     st_participants = [(WaveletId [49], UserId [97], 0), (WaveletId [49], UserId [98], 1), (WaveletId [50], UserId [97], 2)],
     st_blips = [inbox_blip [120] [49] 5, inbox_blip [121] [50] 7], st_ops = [], st_comments = [],
     st_read_marks = [], st_flags = [((UserId [98], WaveId [49]), \<lparr>wf_archived = True, wf_muted = False\<rparr>)],
     st_search = [(BlipId (lit ''b-x''), WaveId [49], [120]), (BlipId (lit ''b-y''), WaveId [49], [121])],
     st_sessions = [], st_identities = [], st_agent_tokens = [], st_agent_replies = [], st_attachments = []\<rparr>"

section \<open>Properties\<close>

text \<open>
  (C35) The inbox row pushed for one wave is the row that wave has in the full inbox, which
  reaches it through five bulk queries and an index, and there is a row for exactly the
  waves the user is in.
\<close>

theorem wave_summary_is_inbox_row:
  assumes "inbox_keys st"
  shows "db_wave_summary pick st u wid = find (\<lambda>s. ws_id s = wid) (db_inbox pick st u)"
proof -
  have "distinct (map ws_id (map (summary_of pick st u) (inbox_roots st u)))"
    using inbox_roots_distinct [OF assms] by (simp add: comp_def)
  then have "find (\<lambda>s. ws_id s = wid) (db_inbox pick st u)
      = find (\<lambda>s. ws_id s = wid) (map (summary_of pick st u) (inbox_roots st u))"
    unfolding db_inbox_map [OF assms] by (intro find_unique [symmetric]) simp_all
  also have "\<dots> = map_option (summary_of pick st u) (find (\<lambda>s. ws_id s = wid) (inbox_roots st u))"
    by (rule find_map_key) simp
  also have "\<dots> = db_wave_summary pick st u wid"
  proof (cases "if db_is_participant st u wid then conversations st wid else []")
    case Nil
    then show ?thesis by (simp add: find_root db_wave_summary_def)
  next
    case (Cons w ws)
    then have part: "db_is_participant st u wid" by (simp split: if_splits)
    let ?s = "\<lparr>ws_id = wid, ws_title = wl_title w, ws_participants = [],
          ws_last_modified = wl_last_modified w, ws_snippet = [], ws_snippet_author = None,
          ws_blip_count = 0, ws_unread_count = 0, ws_flags = \<lparr>wf_archived = False, wf_muted = False\<rparr>\<rparr>"
    have flags: "rows_for wid (flag_rows st u) = (case map_of (st_flags st) (u, wid) of Some f \<Rightarrow> [f] | None \<Rightarrow> [])"
      and roster: "rows_for wid (roster_rows st u) = roster st wid"
      using assms part by (simp_all add: inbox_keys_def rows_for_flags rows_for_roster)
    have unread: "foldl (\<lambda>s n. s\<lparr>ws_unread_count := n\<rparr>) s (rows_for wid (unread_rows st u))
        = s\<lparr>ws_unread_count := length (filter (unread st u) (readable st u wid))\<rparr>" if "ws_unread_count s = 0" for s :: wave_summary
      using rows_for_unread [of s wid st u] that by (cases s) simp
    have "summary_of pick st u ?s = the (db_wave_summary pick st u wid)"
      by (simp add: summary_of_def db_wave_summary_def Let_def roster flags rows_for_latest unread
          foldl_participants Cons split: option.split)
    with Cons show ?thesis by (simp add: find_root db_wave_summary_def Let_def)
  qed
  finally show ?thesis by simp
qed

theorem wave_summary_is_inbox_row_witness:
  "\<exists>s. db_wave_summary last inbox_store (UserId [98]) (WaveId [49]) = Some s \<and> ws_blip_count s = 1
     \<and> find (\<lambda>s. ws_id s = WaveId [49]) (db_inbox last inbox_store (UserId [98])) = Some s"
proof -
  have "inbox_keys inbox_store" by code_simp
  from wave_summary_is_inbox_row [OF this, of last "UserId [98]" "WaveId [49]"]
  have "find (\<lambda>s. ws_id s = WaveId [49]) (db_inbox last inbox_store (UserId [98]))
      = db_wave_summary last inbox_store (UserId [98]) (WaveId [49])" by simp
  moreover have "map_option ws_blip_count (db_wave_summary last inbox_store (UserId [98]) (WaveId [49])) = Some 1"
    by code_simp
  ultimately show ?thesis by auto
qed

text \<open>
  (C36) Search shows nothing the searcher may not read, whatever the full-text engine matches,
  and its snippets are safe to insert into a page: a tag in one is a highlight tag.
\<close>

theorem search_scoped_and_escaped:
  assumes "h \<in> set (db_search is_alnum fts st u query)"
  shows "(\<exists>b \<in> set (st_blips st). b_id b = sh_blip_id h \<and> \<not> b_deleted b \<and> member st u (b_wavelet_id b))
    \<and> tags_only (sh_snippet h)"
  using assms
  by (auto simp: db_search_def Let_def highlight_snippet_tags split: if_splits dest!: in_set_takeD) blast

theorem search_scoped_and_escaped_witness:
  "\<exists>h. db_search (\<lambda>c. c \<noteq> 32) (\<lambda>_ ix. map (\<lambda>(i, w, t). (i, w, 2 # 60 # t @ [3])) ix) inbox_store (UserId [98]) [120] = [h]
     \<and> tags_only (sh_snippet h) \<and> sh_blip_id h = BlipId (lit ''b-x'')"
proof -
  let ?hits = "db_search (\<lambda>c. c \<noteq> 32) (\<lambda>_ ix. map (\<lambda>(i, w, t). (i, w, 2 # 60 # t @ [3])) ix) inbox_store (UserId [98]) [120]"
  have "length ?hits = 1" "sh_blip_id (hd ?hits) = BlipId (lit ''b-x'')" by code_simp+
  moreover from this(1) obtain h where h: "?hits = [h]" by (cases ?hits) auto
  then have "h \<in> set ?hits" by simp
  from search_scoped_and_escaped [OF this] have "tags_only (sh_snippet h)" by simp
  ultimately show ?thesis using h by simp
qed

end
