(* ===== verification/Gal_Server.thy ===== *)
theory Gal_Server
  imports Gal_View Gal_Inbox
begin

text \<open>
  The state of the server, \<open>AppState\<close> of \<open>crates/gal-server/src/state.rs\<close>: storage, the resident
  waves, the registered connections, pending inbox notices and the rate limiters; and the
  application of an edit. A resident wave is an \<open>Arc\<close>: the residency map holds its address,
  and the wave itself is in a heap, because a task may still hold the address of a copy that
  has left the map. Clock readings, random ids, the outcome of disk accesses and the library
  functions the code calls are inputs, collected in the record \<open>env\<close>.
\<close>

section \<open>State\<close>

record env =
  env_now :: "nat \<Rightarrow> timestamp"        \<comment> \<open>successive readings of the clock\<close>
  env_uuid :: "nat \<Rightarrow> ustring"         \<comment> \<open>successive random ids\<close>
  env_load :: "wave_id \<Rightarrow> bool"        \<comment> \<open>can the tables of this wave be read?\<close>
  env_read :: bool                     \<comment> \<open>do the other reads succeed?\<close>
  env_write :: bool                    \<comment> \<open>does the transaction reach the disk?\<close>
  env_lowercase :: "ustring \<Rightarrow> ustring"
  env_json_len :: "json \<Rightarrow> nat option"
  env_alnum :: "uchar \<Rightarrow> bool"
  env_pick :: "blip list \<Rightarrow> blip"
  env_fts :: "ustring \<Rightarrow> (blip_id \<times> wave_id \<times> ustring) list \<Rightarrow> (blip_id \<times> wave_id \<times> ustring) list"

record conn_handle =
  cn_user :: user_id
  cn_chan :: nat
  cn_token_hash :: ustring

record server =
  sv_store :: store
  sv_heap :: "nat \<Rightarrow> live_wave"
  sv_next_addr :: nat
  sv_waves :: "(wave_id \<times> nat) list"
  sv_chans :: channels
  sv_conns :: "(nat \<times> conn_handle) list"
  sv_user_conns :: "(user_id \<times> nat list) list"
  sv_inbox_pending :: "wave_id list"
  sv_next_conn_id :: nat
  sv_auth_limiter :: rate_limiter
  sv_lookup_limiter :: rate_limiter
  sv_account_limiter :: rate_limiter
  sv_command_limiter :: rate_limiter
  sv_shutdown :: bool

definition MAX_PASSWORD_JOBS :: nat where
  "MAX_PASSWORD_JOBS = 4"

text \<open>A fresh server over \<open>st\<close>, started at \<open>t\<close>; the heap and the channels are yet unused.\<close>

definition app_new :: "rat \<Rightarrow> store \<Rightarrow> (nat \<Rightarrow> live_wave) \<Rightarrow> channels \<Rightarrow> server" where
  "app_new t st heap ch =
     \<lparr>sv_store = st, sv_heap = heap, sv_next_addr = 0, sv_waves = [], sv_chans = ch, sv_conns = [],
      sv_user_conns = [], sv_inbox_pending = [], sv_next_conn_id = 1,
      sv_auth_limiter = limiter_new t 10 (1 / 2),
      sv_lookup_limiter = limiter_new t 30 2,
      sv_account_limiter = limiter_new t 10 (1 / 120),
      sv_command_limiter = limiter_new t 1200 200,
      sv_shutdown = False\<rparr>"

section \<open>Rate limits\<close>

definition account_key :: "(ustring \<Rightarrow> ustring) \<Rightarrow> ustring \<Rightarrow> ustring" where
  "account_key to_lowercase name = lit ''account:'' @ to_lowercase (trim name)"

text \<open>The \<open>bool\<close> is true when the caller is within its allowance.\<close>

definition check_auth_rate ::
  "server \<Rightarrow> rat \<Rightarrow> ustring option \<Rightarrow> ustring option \<Rightarrow> bool \<Rightarrow> bool \<times> server" where
  "check_auth_rate sv t peer forwarded trust =
     (let (allowed, rl) = limiter_check (sv_auth_limiter sv) t (client_key peer forwarded trust)
      in (allowed, sv\<lparr>sv_auth_limiter := rl\<rparr>))"

definition check_lookup_rate ::
  "server \<Rightarrow> rat \<Rightarrow> ustring option \<Rightarrow> ustring option \<Rightarrow> bool \<Rightarrow> bool \<times> server" where
  "check_lookup_rate sv t peer forwarded trust =
     (let (allowed, rl) = limiter_check (sv_lookup_limiter sv) t (client_key peer forwarded trust)
      in (allowed, sv\<lparr>sv_lookup_limiter := rl\<rparr>))"

definition account_is_throttled :: "(ustring \<Rightarrow> ustring) \<Rightarrow> server \<Rightarrow> rat \<Rightarrow> ustring \<Rightarrow> bool \<times> server" where
  "account_is_throttled to_lowercase sv t name =
     (let (allowed, rl) = would_allow (sv_account_limiter sv) t (account_key to_lowercase name)
      in (\<not> allowed, sv\<lparr>sv_account_limiter := rl\<rparr>))"

definition note_failed_signin :: "(ustring \<Rightarrow> ustring) \<Rightarrow> server \<Rightarrow> rat \<Rightarrow> ustring \<Rightarrow> server" where
  "note_failed_signin to_lowercase sv t name =
     sv\<lparr>sv_account_limiter :=
          snd (limiter_check (sv_account_limiter sv) t (account_key to_lowercase name))\<rparr>"

definition user_id_str :: "user_id \<Rightarrow> ustring" where
  "user_id_str u = (case u of UserId s \<Rightarrow> s)"

definition check_command_rate :: "server \<Rightarrow> rat \<Rightarrow> user_id \<Rightarrow> client_message \<Rightarrow> bool \<times> server" where
  "check_command_rate sv t u command =
     (let (allowed, rl) = check_cost (sv_command_limiter sv) t (user_id_str u) (message_cost command)
      in (allowed, sv\<lparr>sv_command_limiter := rl\<rparr>))"

definition begin_shutdown :: "server \<Rightarrow> server" where
  "begin_shutdown sv = sv\<lparr>sv_shutdown := True\<rparr>"

section \<open>Connections\<close>

definition conns_of :: "server \<Rightarrow> user_id \<Rightarrow> nat list" where
  "conns_of sv u = (case map_of (sv_user_conns sv) u of Some cs \<Rightarrow> cs | None \<Rightarrow> [])"

definition connections_for :: "server \<Rightarrow> user_id \<Rightarrow> nat" where
  "connections_for sv u = length (conns_of sv u)"

text \<open>
  The entry for the user is created before the limit is looked at, and stays when the
  connection is refused. The counter is an \<open>AtomicU64\<close>.
\<close>

definition register_conn ::
  "server \<Rightarrow> user_id \<Rightarrow> nat \<Rightarrow> nat \<Rightarrow> ustring \<Rightarrow> nat option \<times> server" where
  "register_conn sv u chan limit token_hash =
     (let connections = conns_of sv u;
          sv = sv\<lparr>sv_user_conns := AList.update u connections (sv_user_conns sv)\<rparr>
      in if length connections \<ge> limit then (None, sv)
         else
           let i = sv_next_conn_id sv
           in (Some i,
               sv\<lparr>sv_next_conn_id := wrapping_add i 1,
                  sv_conns := AList.update i \<lparr>cn_user = u, cn_chan = chan, cn_token_hash = token_hash\<rparr> (sv_conns sv),
                  sv_user_conns := AList.update u (List.insert i connections) (sv_user_conns sv)\<rparr>))"

definition unregister_conn :: "server \<Rightarrow> nat \<Rightarrow> server" where
  "unregister_conn sv i =
     (case map_of (sv_conns sv) i of
        None \<Rightarrow> sv
      | Some h \<Rightarrow>
          let sv = sv\<lparr>sv_conns := AList.delete i (sv_conns sv)\<rparr>;
              rest = filter (\<lambda>c. c \<noteq> i) (conns_of sv (cn_user h))
          in sv\<lparr>sv_user_conns :=
                 (if rest = [] then AList.delete (cn_user h) (sv_user_conns sv)
                  else AList.update (cn_user h) rest (sv_user_conns sv))\<rparr>)"

definition conn_send :: "channels \<Rightarrow> nat \<Rightarrow> server_message \<Rightarrow> channels" where
  "conn_send ch a m = (let (sent, ch) = try_send ch a m in if sent then ch else notify_one ch a)"

definition kill_conns :: "server \<Rightarrow> user_id \<Rightarrow> (conn_handle \<Rightarrow> bool) \<Rightarrow> server" where
  "kill_conns sv u P =
     sv\<lparr>sv_chans := foldl (\<lambda>ch i. case map_of (sv_conns sv) i of
            Some h \<Rightarrow> if P h then notify_one ch (cn_chan h) else ch
          | None \<Rightarrow> ch) (sv_chans sv) (conns_of sv u)\<rparr>"

definition disconnect_session :: "server \<Rightarrow> user_id \<Rightarrow> ustring \<Rightarrow> server" where
  "disconnect_session sv u token_hash = kill_conns sv u (\<lambda>h. cn_token_hash h = token_hash)"

definition disconnect_other_sessions :: "server \<Rightarrow> user_id \<Rightarrow> ustring \<Rightarrow> server" where
  "disconnect_other_sessions sv u keep = kill_conns sv u (\<lambda>h. cn_token_hash h \<noteq> keep)"

definition send_to_user :: "server \<Rightarrow> user_id \<Rightarrow> server_message \<Rightarrow> server" where
  "send_to_user sv u m =
     sv\<lparr>sv_chans := foldl (\<lambda>ch i. case map_of (sv_conns sv) i of
            Some h \<Rightarrow> conn_send ch (cn_chan h) m
          | None \<Rightarrow> ch) (sv_chans sv) (conns_of sv u)\<rparr>"

section \<open>Residency\<close>

text \<open>Loading reads the five tables of the wave; the documents start with an empty history.\<close>

definition load_wave :: "store \<Rightarrow> wave_id \<Rightarrow> wave \<Rightarrow> live_wave" where
  "load_wave st wid w =
     \<lparr>lw_wave = w,
      lw_wavelets = db_wavelets_of_wave st wid,
      lw_blips = foldl (\<lambda>m b. AList.update (b_id b) (live_blip_new b) m) [] (db_blips_of_wave st wid),
      lw_comments = foldl (\<lambda>m c. AList.update (ct_id c) c m) [] (db_comments_of_wave st wid),
      lw_subscribers = [],
      lw_user_cache = foldl (\<lambda>m u. AList.update (pu_id u) u m) [] (db_users_of_wave st wid),
      lw_evicted = False\<rparr>"

definition open_resident :: "env \<Rightarrow> server \<Rightarrow> wave_id \<Rightarrow> (db_error, nat option) result \<times> server" where
  "open_resident e sv wid =
     (case map_of (sv_waves sv) wid of
        Some a \<Rightarrow> (Ok (Some a), sv)
      | None \<Rightarrow>
          if \<not> env_load e wid then (Err Unavailable, sv)
          else
            case db_wave (sv_store sv) wid of
              Err err \<Rightarrow> (Err err, sv)
            | Ok None \<Rightarrow> (Ok None, sv)
            | Ok (Some w) \<Rightarrow>
                let a = sv_next_addr sv
                in (Ok (Some a),
                    sv\<lparr>sv_heap := (sv_heap sv)(a := load_wave (sv_store sv) wid w),
                       sv_next_addr := Suc a,
                       sv_waves := AList.update wid a (sv_waves sv)\<rparr>))"

definition maybe_evict :: "server \<Rightarrow> wave_id \<Rightarrow> server" where
  "maybe_evict sv wid =
     (case map_of (sv_waves sv) wid of
        None \<Rightarrow> sv
      | Some a \<Rightarrow>
          if lw_subscribers (sv_heap sv a) = []
          then sv\<lparr>sv_heap := (sv_heap sv)(a := (sv_heap sv a)\<lparr>lw_evicted := True\<rparr>),
                  sv_waves := AList.delete wid (sv_waves sv)\<rparr>
          else sv)"

definition evict_after_panic :: "server \<Rightarrow> wave_id \<Rightarrow> server" where
  "evict_after_panic sv wid =
     (case map_of (sv_waves sv) wid of
        None \<Rightarrow> sv
      | Some a \<Rightarrow>
          let (live, ch) = disconnect (sv_heap sv a) (sv_chans sv) (map fst (lw_subscribers (sv_heap sv a)))
          in sv\<lparr>sv_heap := (sv_heap sv)(a := live\<lparr>lw_evicted := True\<rparr>), sv_chans := ch,
                sv_waves := AList.delete wid (sv_waves sv)\<rparr>)"

definition schedule_inbox_update :: "server \<Rightarrow> wave_id \<Rightarrow> server" where
  "schedule_inbox_update sv wid =
     sv\<lparr>sv_inbox_pending := List.insert wid (sv_inbox_pending sv)\<rparr>"

text \<open>When the timer of a pending wave fires: a fresh row for every participant who is connected.\<close>

definition push_inbox_update :: "env \<Rightarrow> server \<Rightarrow> wave_id \<Rightarrow> server" where
  "push_inbox_update e sv wid =
     (if \<not> env_read e then sv
      else foldl (\<lambda>sv u.
             if map_of (sv_user_conns sv) u = None then sv
             else (case db_wave_summary (env_pick e) (sv_store sv) u wid of
                     Some summary \<Rightarrow> send_to_user sv u (InboxUpdatedMsg summary)
                   | None \<Rightarrow> send_to_user sv u (WaveRemovedMsg wid)))
             sv (db_wave_participants (sv_store sv) wid))"

definition inbox_timer :: "env \<Rightarrow> server \<Rightarrow> wave_id \<Rightarrow> server" where
  "inbox_timer e sv wid =
     push_inbox_update e (sv\<lparr>sv_inbox_pending := filter (\<lambda>w. w \<noteq> wid) (sv_inbox_pending sv)\<rparr>) wid"

definition read_marks_of :: "env \<Rightarrow> server \<Rightarrow> user_id \<Rightarrow> wave_id \<Rightarrow> (blip_id \<times> nat) list" where
  "read_marks_of e sv u wid = (if env_read e then db_read_marks (sv_store sv) u wid else [])"

section \<open>Applying an edit\<close>

record op_submission =
  os_blip_id :: blip_id
  os_revision :: nat
  os_delta :: delta
  os_op_id :: "ustring option"

definition ot_error_to_string :: "ot_error \<Rightarrow> ustring" where
  "ot_error_to_string err =
     (case err of
        RevisionInFuture requested current \<Rightarrow>
          lit ''revision '' @ show_digits requested @ lit '' is newer than the server'' @ [39]
            @ lit ''s revision '' @ show_digits current
      | RevisionTooOld requested oldest \<Rightarrow>
          lit ''revision '' @ show_digits requested
            @ lit '' is too old to transform against (oldest retained is '' @ show_digits oldest
            @ lit ''); resynchronise''
      | LengthMismatch op_base doc_len \<Rightarrow>
          lit ''operation spans '' @ show_digits op_base @ lit '' units but the document is ''
            @ show_digits doc_len @ lit '' units long''
      | OtSplitCharacter offset \<Rightarrow>
          lit ''operation boundary at offset '' @ show_digits offset @ lit '' falls inside a character''
      | NotADocument \<Rightarrow> lit ''a document delta must contain only insert operations'')"

definition no_such_blip :: server_message where
  "no_such_blip = error_message NotFound (lit ''No such blip.'')"

definition update_blip :: "live_wave \<Rightarrow> blip_id \<Rightarrow> live_blip \<Rightarrow> live_wave" where
  "update_blip live i lb = live\<lparr>lw_blips := AList.update i lb (lw_blips live)\<rparr>"

text \<open>The edit in the resident document: rebased, validated, and held to the size limits.\<close>

definition edit_resident ::
  "live_blip \<Rightarrow> user_id \<Rightarrow> op_submission \<Rightarrow> (server_message \<times> live_blip, revision \<times> live_blip) result" where
  "edit_resident lb author sub =
     (case server_apply (lb_doc lb) (os_revision sub) (os_delta sub) (user_id_str author) of
        Err err \<Rightarrow>
          Err (resync_message (os_blip_id sub)
                 (case err of
                    RevisionTooOld _ _ \<Rightarrow> lit ''Your edit was too far out of date; reloading this wave.''
                  | RevisionInFuture _ _ \<Rightarrow> lit ''Your edit was too far out of date; reloading this wave.''
                  | _ \<Rightarrow> ot_error_to_string err), lb)
      | Ok (committed, doc) \<Rightarrow>
          if delta_len (content doc) > MAX_BLIP_UNITS \<or> length (ops (content doc)) > MAX_BLIP_RUNS
          then Err (resync_message (os_blip_id sub) (lit ''This message has reached its maximum size.''),
                    live_blip_sync (lb\<lparr>lb_doc := snd (rollback_last doc)\<rparr>))
          else Ok (committed, lb\<lparr>lb_doc := doc\<rparr>))"

definition commit_edit ::
  "env \<Rightarrow> server \<Rightarrow> live_wave \<Rightarrow> nat \<Rightarrow> user_id \<Rightarrow> op_submission \<Rightarrow> revision \<Rightarrow> live_blip \<Rightarrow>
   (server_message, unit) result \<times> server \<times> live_wave" where
  "commit_edit e sv live conn author sub committed lb =
     (let i = os_blip_id sub;
          previous_contributors = b_contributors (lb_meta lb);
          previous_modified = b_last_modified (lb_meta lb);
          lb = live_blip_sync lb;
          lb = lb\<lparr>lb_meta := record_contributor (env_now e 0) (lb_meta lb) author\<rparr>;
          meta = lb_meta lb
      in case (if env_write e
               then db_commit_op (sv_store sv) meta (rev_delta committed) author (b_last_modified meta) (os_op_id sub)
               else Err Unavailable) of
           Err _ \<Rightarrow>
             let lb = live_blip_sync (lb\<lparr>lb_doc := snd (rollback_last (lb_doc lb))\<rparr>);
                 lb = lb\<lparr>lb_meta := (lb_meta lb)\<lparr>b_contributors := previous_contributors,
                                               b_last_modified := previous_modified\<rparr>\<rparr>
             in (Err (resync_message i (lit ''The server could not save your edit; reloading this wave.'')),
                 sv, update_blip live i lb)
         | Ok st \<Rightarrow>
             let live = update_blip live i lb;
                 live = wavelet_mut (b_wavelet_id meta) (\<lambda>w. w\<lparr>wl_last_modified := b_last_modified meta\<rparr>) live;
                 (live, ch) = broadcast live (sv_chans sv) (b_wavelet_id meta) (Some conn)
                   (OpMsg (b_wave_id meta) i (rev_number committed) author (rev_delta committed));
                 (live, ch) = send_to live ch conn
                   (AckMsg (b_wave_id meta) i (rev_number committed) (rev_delta committed) (os_op_id sub))
             in (Ok (), schedule_inbox_update (sv\<lparr>sv_store := st, sv_chans := ch\<rparr>) (b_wave_id meta), live))"

text \<open>
  \<open>apply_op\<close>: an op id already in the log is acknowledged again and nothing else happens, also
  when the wave was frozen in between; when the lookup fails the edit is applied anyway.
\<close>

definition apply_op ::
  "env \<Rightarrow> server \<Rightarrow> live_wave \<Rightarrow> nat \<Rightarrow> user_id \<Rightarrow> op_submission \<Rightarrow>
   (server_message, unit) result \<times> server \<times> live_wave" where
  "apply_op e sv live conn author sub =
     (case map_of (lw_blips live) (os_blip_id sub) of
        None \<Rightarrow> (Err no_such_blip, sv, live)
      | Some lb \<Rightarrow>
          if \<not> may_access live author (b_wavelet_id (lb_meta lb)) then (Err no_such_blip, sv, live)
          else
            case (case os_op_id sub of
                    Some o_id \<Rightarrow> if env_read e then db_revision_for_op (sv_store sv) (os_blip_id sub) o_id else None
                  | None \<Rightarrow> None) of
              Some revn \<Rightarrow>
                let (live, ch) = send_to live (sv_chans sv) conn
                      (AckMsg (w_id (lw_wave live)) (os_blip_id sub) revn delta_new (os_op_id sub))
                in (Ok (), sv\<lparr>sv_chans := ch\<rparr>, live)
            | None \<Rightarrow>
                case permit live author (ActEdit (b_author (lb_meta lb) = author)) of
                  Err m \<Rightarrow> (Err (name_blip m (os_blip_id sub)), sv, live)
                | Ok _ \<Rightarrow>
                    case edit_resident lb author sub of
                      Err (m, lb) \<Rightarrow> (Err m, sv, update_blip live (os_blip_id sub) lb)
                    | Ok (committed, lb) \<Rightarrow> commit_edit e sv live conn author sub committed lb)"

end
