(* ===== verification/Gal_Durable.thy ===== *)
theory Gal_Durable
  imports Gal_Server
begin

text \<open>
  Durable before acknowledged: the resident documents, their stored snapshots and the op log
  agree after every application of an edit, whatever its outcome, including a failed write.
  Documents are compared as the cells they hold, because content a client seeded may be
  stored in a non-canonical form that a rollback normalises.
\<close>

section \<open>Rolling back an edit\<close>

text \<open>The edit, once rebased, keeps the document below the length the algebra is proved for.\<close>

definition within_limit :: "server_doc \<Rightarrow> nat \<Rightarrow> delta \<Rightarrow> bool" where
  "within_limit sd c ch \<longleftrightarrow>
     (\<forall>e. apply_cells (ops (rebase (history_since sd c) ch)) (cells (content sd)) = Some e \<longrightarrow>
        width e \<le> doc_limit)"

definition plain_edit :: "server_doc \<Rightarrow> nat \<Rightarrow> delta \<Rightarrow> bool" where
  "plain_edit sd c ch \<longleftrightarrow> pos_ops (ops ch) \<and> null_free_inserts ch \<and> within_limit sd c ch"

lemma apply_step:
  assumes "server_ok True sd" "server_apply sd c ch author = Ok (entry, sd')" "plain_edit sd c ch"
    "sd_revision sd < usize_max"
  shows "takes (rev_delta entry) (cells (content sd)) (cells (content sd'))"
    "server_ok True sd'" "sd_revision sd' = Suc (sd_revision sd)"
    "rev_number entry = Suc (sd_revision sd)" "history sd' \<noteq> []"
    "last (history sd') = entry" "takes (rev_undo entry) (cells (content sd')) (cells (content sd))"
proof -
  have eq: "rev_delta entry = rebase (history_since sd c) ch"
    "validate (rev_delta entry) (content sd) = Ok ()"
    "history sd' = trim_history (history sd @ [entry])"
    "sd_revision sd' = Suc (sd_revision sd)" "rev_number entry = Suc (sd_revision sd)"
    using assms(2,4) by (auto simp: server_apply_Ok_iff wrapping_add_exact)
  have pd: "proper_doc (content sd)" using assms(1) by (simp add: server_ok_def)
  then obtain e where e: "apply_cells (ops (rev_delta entry)) (cells (content sd)) = Some e"
    using eq(2) by (auto simp: validate_iff_apply proper_doc_def)
  with assms(3) eq(1) have w: "width e \<le> doc_limit" "pos_ops (ops ch)" "null_free_inserts ch"
    by (auto simp: plain_edit_def within_limit_def)
  note t = apply_takes [OF assms(1,2) w(2) e w(1)]
  show "takes (rev_delta entry) (cells (content sd)) (cells (content sd'))" using t by simp
  show "server_ok True sd'" using apply_preserves [OF assms(1,2) w(2) _ assms(4) e w(1)] w(3) by simp
  show "takes (rev_undo entry) (cells (content sd')) (cells (content sd))"
    using apply_entry_exact(1) [OF assms(1,2) w(2,3) e w(1)] t(3) by simp
  show "sd_revision sd' = Suc (sd_revision sd)" "rev_number entry = Suc (sd_revision sd)" by (fact eq)+
  show "history sd' \<noteq> []" "last (history sd') = entry"
    by (simp_all add: eq(3) trim_history_drop MAX_HISTORY_def)
qed

lemma rollback_step:
  assumes "server_ok True sd" "server_apply sd c ch author = Ok (entry, sd')" "plain_edit sd c ch"
    "sd_revision sd < usize_max"
  shows "server_ok True (snd (rollback_last sd'))"
    "sd_revision (snd (rollback_last sd')) = sd_revision sd"
    "cells (content (snd (rollback_last sd'))) = cells (content sd)"
proof -
  note a = apply_step [OF assms]
  note rb = rollback_ok [OF a(2,5)]
  show "server_ok True (snd (rollback_last sd'))" by (rule rb(1))
  show "sd_revision (snd (rollback_last sd')) = sd_revision sd" using rb(3) a(3) by simp
  have "proper_doc (content sd')" using a(2) by (simp add: server_ok_def)
  from compose_doc(2) [OF this a(7)] show "cells (content (snd (rollback_last sd'))) = cells (content sd)"
    using a(5,6) by (simp add: rollback_last_def)
qed

section \<open>Memory, snapshot and log\<close>

definition log_of :: "store \<Rightarrow> blip_id \<Rightarrow> op_row list" where
  "log_of st i = filter (\<lambda>r. or_blip_id r = i) (st_ops st)"

text \<open>The log has every revision once, in order, and leads from nothing to the document.\<close>

definition logged :: "store \<Rightarrow> blip_id \<Rightarrow> nat \<Rightarrow> cell list \<Rightarrow> bool" where
  "logged st i n d \<longleftrightarrow>
     map or_revision (log_of st i) = [1..<Suc n] \<and> path takes (map or_delta (log_of st i)) [] d"

definition same_blip :: "blip \<Rightarrow> blip \<Rightarrow> bool" where
  "same_blip a b \<longleftrightarrow> a\<lparr>b_content := delta_new\<rparr> = b\<lparr>b_content := delta_new\<rparr>
     \<and> cells (b_content a) = cells (b_content b)"

definition synced :: "live_blip \<Rightarrow> bool" where
  "synced lb \<longleftrightarrow> server_ok True (lb_doc lb) \<and> b_revision (lb_meta lb) = sd_revision (lb_doc lb)
     \<and> cells (b_content (lb_meta lb)) = cells (content (lb_doc lb))"

definition blip_agrees :: "store \<Rightarrow> live_blip \<Rightarrow> bool" where
  "blip_agrees st lb \<longleftrightarrow> synced lb
     \<and> (\<exists>row \<in> set (st_blips st). same_blip row (lb_meta lb))
     \<and> logged st (b_id (lb_meta lb)) (sd_revision (lb_doc lb)) (cells (content (lb_doc lb)))"

definition wave_agrees :: "store \<Rightarrow> live_wave \<Rightarrow> bool" where
  "wave_agrees st live \<longleftrightarrow> maps_ok live \<and> distinct (map b_id (st_blips st))
     \<and> (\<forall>lb \<in> snd ` set (lw_blips live). blip_agrees st lb)"

lemma same_blip_refl [simp]: "same_blip b b"
  by (simp add: same_blip_def)

lemma same_blip_trans: "same_blip a b \<Longrightarrow> same_blip b c \<Longrightarrow> same_blip a c"
  by (simp add: same_blip_def)

lemma same_blip_fields:
  "same_blip a b \<Longrightarrow> b_id a = b_id b \<and> b_wavelet_id a = b_wavelet_id b \<and> b_wave_id a = b_wave_id b
     \<and> b_revision a = b_revision b \<and> b_author a = b_author b"
  by (cases a; cases b) (simp add: same_blip_def)

text \<open>A document put back as it was, with metadata that differ at most in how the content is written.\<close>

lemma blip_agrees_restored:
  assumes "blip_agrees st lb" "synced lb'" "same_blip (lb_meta lb) (lb_meta lb')"
  shows "blip_agrees st lb'"
proof -
  have "b_id (lb_meta lb') = b_id (lb_meta lb)" "sd_revision (lb_doc lb') = sd_revision (lb_doc lb)"
    "cells (content (lb_doc lb')) = cells (content (lb_doc lb))"
    using assms same_blip_fields [OF assms(3)] by (auto simp: blip_agrees_def synced_def same_blip_def)
  with assms show ?thesis by (auto simp: blip_agrees_def dest: same_blip_trans)
qed

lemma lb_doc_update: "lb\<lparr>lb_doc := d\<rparr> = \<lparr>lb_meta = lb_meta lb, lb_doc = d\<rparr>" for lb :: live_blip
  by (cases lb) simp

lemma lb_meta_update: "lb\<lparr>lb_meta := m\<rparr> = \<lparr>lb_meta = m, lb_doc = lb_doc lb\<rparr>" for lb :: live_blip
  by (cases lb) simp

lemma restore_synced:
  assumes "synced lb" "server_ok True sd" "sd_revision sd = sd_revision (lb_doc lb)"
    "cells (content sd) = cells (content (lb_doc lb))"
    "meta\<lparr>b_content := delta_new, b_revision := 0\<rparr> = (lb_meta lb)\<lparr>b_content := delta_new, b_revision := 0\<rparr>"
  shows "synced (live_blip_sync \<lparr>lb_meta = meta, lb_doc = sd\<rparr>)"
    "same_blip (lb_meta lb) (lb_meta (live_blip_sync \<lparr>lb_meta = meta, lb_doc = sd\<rparr>))"
  using assms by (cases "lb_meta lb"; cases meta; simp add: synced_def live_blip_sync_def same_blip_def)+

section \<open>The steps of an edit\<close>

text \<open>An edit that is turned down leaves the document as it was.\<close>

lemma edit_resident_refused:
  assumes "edit_resident lb author sub = Err (m, lb')" "synced lb"
    "plain_edit (lb_doc lb) (os_revision sub) (os_delta sub)" "sd_revision (lb_doc lb) < usize_max"
  shows "synced lb'" "same_blip (lb_meta lb) (lb_meta lb')"
proof -
  have ok: "server_ok True (lb_doc lb)" using assms(2) by (simp add: synced_def)
  consider (unchanged) "lb' = lb"
    | (undone) entry sd where
        "server_apply (lb_doc lb) (os_revision sub) (os_delta sub) (user_id_str author) = Ok (entry, sd)"
        "lb' = live_blip_sync \<lparr>lb_meta = lb_meta lb, lb_doc = snd (rollback_last sd)\<rparr>"
    using assms(1) by (auto simp: edit_resident_def lb_doc_update split: sum.splits if_splits)
  then have "synced lb' \<and> same_blip (lb_meta lb) (lb_meta lb')"
  proof cases
    case unchanged
    with assms(2) show ?thesis by simp
  next
    case undone
    note rb = rollback_step [OF ok undone(1) assms(3,4)]
    with undone(2) restore_synced [OF assms(2) rb] show ?thesis by simp
  qed
  then show "synced lb'" "same_blip (lb_meta lb) (lb_meta lb')" by auto
qed

lemma edit_resident_done:
  assumes "edit_resident lb author sub = Ok (committed, lb')"
  shows "server_apply (lb_doc lb) (os_revision sub) (os_delta sub) (user_id_str author)
      = Ok (committed, lb_doc lb')" "lb' = lb\<lparr>lb_doc := lb_doc lb'\<rparr>"
    "delta_len (content (lb_doc lb')) \<le> MAX_BLIP_UNITS" "length (ops (content (lb_doc lb'))) \<le> MAX_BLIP_RUNS"
  using assms by (auto simp: edit_resident_def split: sum.splits if_splits)

lemma db_commit_op_tables:
  assumes "db_commit_op st b d author ts o_id = Ok st'"
  shows "st_ops st' = st_ops st @ [\<lparr>or_blip_id = b_id b, or_revision = b_revision b, or_wave_id = b_wave_id b,
        or_author = author, or_timestamp = ts, or_delta = d, or_op_id = o_id\<rparr>]"
    "st_blips st' = map (\<lambda>x. if b_id x = b_id b
        then x\<lparr>b_content := b_content b, b_revision := b_revision b,
               b_last_modified := b_last_modified b, b_contributors := b_contributors b\<rparr>
        else x) (st_blips st)"
    "st_comments st' = st_comments st" "st_participants st' = st_participants st" "st_waves st' = st_waves st"
  using assms
  by (auto simp: db_commit_op_def insert_op_def index_blip_def touch_wavelet_def bind_result_Ok_iff Let_def
      split: if_splits)

lemma log_of_commit:
  assumes "db_commit_op st b d author ts o_id = Ok st'"
  shows "log_of st' i = log_of st i @ (if i = b_id b
    then [\<lparr>or_blip_id = b_id b, or_revision = b_revision b, or_wave_id = b_wave_id b,
        or_author = author, or_timestamp = ts, or_delta = d, or_op_id = o_id\<rparr>] else [])"
  by (simp add: log_of_def db_commit_op_tables(1) [OF assms])

lemma path_snoc: "path takes (cs @ [c]) d e \<longleftrightarrow> (\<exists>m. path takes cs d m \<and> takes c m e)"
  by (simp add: delta_ot.path_append)

lemma logged_commit:
  assumes "db_commit_op st b d author ts o_id = Ok st'" "logged st (b_id b) n c"
    "b_revision b = Suc n" "takes d c c'"
  shows "logged st' (b_id b) (Suc n) c'"
  using assms(2-4) by (auto simp: logged_def log_of_commit [OF assms(1)] path_snoc)

lemma logged_other:
  assumes "db_commit_op st b d author ts o_id = Ok st'" "i \<noteq> b_id b"
  shows "logged st' i n c = logged st i n c"
  using assms(2) by (simp add: logged_def log_of_commit [OF assms(1)])

lemma synced_sync: "server_ok True (lb_doc lb) \<Longrightarrow> synced (live_blip_sync lb)"
  by (simp add: synced_def live_blip_sync_def)

lemma record_contributor_fields [simp]:
  "b_id (record_contributor now b u) = b_id b" "b_content (record_contributor now b u) = b_content b"
  "b_revision (record_contributor now b u) = b_revision b" "b_wave_id (record_contributor now b u) = b_wave_id b"
  "b_wavelet_id (record_contributor now b u) = b_wavelet_id b"
  by (simp_all add: record_contributor_def Let_def)

lemma live_blip_sync_fields [simp]:
  "lb_doc (live_blip_sync lb) = lb_doc lb" "b_id (lb_meta (live_blip_sync lb)) = b_id (lb_meta lb)"
  "b_content (lb_meta (live_blip_sync lb)) = content (lb_doc lb)"
  "b_revision (lb_meta (live_blip_sync lb)) = sd_revision (lb_doc lb)"
  "b_wave_id (lb_meta (live_blip_sync lb)) = b_wave_id (lb_meta lb)"
  "b_wavelet_id (lb_meta (live_blip_sync lb)) = b_wavelet_id (lb_meta lb)"
  by (simp_all add: live_blip_sync_def)

text \<open>A wave with one document replaced by another of the same message.\<close>

lemma set_alist_update:
  "distinct (map fst al) \<Longrightarrow> set (AList.update k v al) = insert (k, v) {x \<in> set al. fst x \<noteq> k}"
  by (induction al) force+

lemma update_blip_values:
  assumes "maps_ok live"
  shows "snd ` set (lw_blips (update_blip live i lb)) =
    insert lb (snd ` {x \<in> set (lw_blips live). fst x \<noteq> i})"
  using assms by (simp add: update_blip_def maps_ok_def set_alist_update)

lemma update_blip_maps_ok:
  assumes "maps_ok live" "b_id (lb_meta lb) = i"
  shows "maps_ok (update_blip live i lb)"
  using assms by (auto simp: maps_ok_def update_blip_def list_all_iff set_alist_update distinct_update)

lemma maps_ok_keys:
  assumes "maps_ok live"
  shows "map_of (lw_blips live) i = Some lb \<Longrightarrow> b_id (lb_meta lb) = i"
    "x \<in> set (lw_blips live) \<Longrightarrow> b_id (lb_meta (snd x)) = fst x"
    "lb \<in> snd ` set (lw_blips live) \<Longrightarrow> map_of (lw_blips live) (b_id (lb_meta lb)) = Some lb"
  using assms by (auto simp: maps_ok_def list_all_iff dest: map_of_SomeD intro: map_of_is_SomeI)

lemma wave_agrees_restored:
  assumes "wave_agrees st live" "map_of (lw_blips live) i = Some lb" "synced lb'"
    "same_blip (lb_meta lb) (lb_meta lb')"
  shows "wave_agrees st (update_blip live i lb')"
proof -
  have ok: "maps_ok live" and ag: "blip_agrees st lb"
    using assms(1,2) by (force simp: wave_agrees_def dest: map_of_SomeD)+
  have "b_id (lb_meta lb') = i"
    using maps_ok_keys(1) [OF ok assms(2)] same_blip_fields [OF assms(4)] by simp
  with ok assms(1) blip_agrees_restored [OF ag assms(3,4)] show ?thesis
    by (auto simp: wave_agrees_def update_blip_values update_blip_maps_ok)
qed

text \<open>What delivery does to a wave does not touch its documents.\<close>

lemma wave_agrees_cong:
  "lw_blips live' = lw_blips live \<Longrightarrow> lw_comments live' = lw_comments live \<Longrightarrow>
   wave_agrees st live' = wave_agrees st live"
  by (simp add: wave_agrees_def maps_ok_def)

lemma disconnect_frame:
  "fst (disconnect live ch cs) = live\<lparr>lw_subscribers := lw_subscribers (fst (disconnect live ch cs))\<rparr>"
  by (simp add: disconnect_live)

lemma broadcast_frame:
  "fst (broadcast live ch i skip m) = live\<lparr>lw_subscribers := lw_subscribers (fst (broadcast live ch i skip m))\<rparr>"
  unfolding broadcast_def Let_def by (simp add: disconnect_live split: prod.split)

lemma send_to_frame:
  "fst (send_to live ch c m) = live\<lparr>lw_subscribers := lw_subscribers (fst (send_to live ch c m))\<rparr>"
  unfolding send_to_def Let_def by (simp add: disconnect_live split: prod.split option.split)

lemma delivery_fields [simp]:
  "lw_blips (fst (broadcast live ch i skip m)) = lw_blips live"
  "lw_comments (fst (broadcast live ch i skip m)) = lw_comments live"
  "lw_wavelets (fst (broadcast live ch i skip m)) = lw_wavelets live"
  "lw_wave (fst (broadcast live ch i skip m)) = lw_wave live"
  "lw_blips (fst (send_to live ch c m)) = lw_blips live"
  "lw_comments (fst (send_to live ch c m)) = lw_comments live"
  "lw_wavelets (fst (send_to live ch c m)) = lw_wavelets live"
  "lw_wave (fst (send_to live ch c m)) = lw_wave live"
  by (subst broadcast_frame send_to_frame, simp)+

lemma wavelet_mut_fields [simp]:
  "lw_blips (wavelet_mut i f live) = lw_blips live" "lw_comments (wavelet_mut i f live) = lw_comments live"
  "lw_wave (wavelet_mut i f live) = lw_wave live"
  "lw_subscribers (wavelet_mut i f live) = lw_subscribers live"
  by (simp_all add: wavelet_mut_def)

text \<open>Storing the edit moves the snapshot, the log and the resident document together.\<close>

lemma wave_agrees_committed:
  assumes "wave_agrees st live" "map_of (lw_blips live) i = Some lb"
    "db_commit_op st meta d author ts o_id = Ok st'"
    "same_blip (meta\<lparr>b_content := delta_new, b_revision := 0, b_last_modified := 0, b_contributors := []\<rparr>)
       ((lb_meta lb)\<lparr>b_content := delta_new, b_revision := 0, b_last_modified := 0, b_contributors := []\<rparr>)"
    "synced \<lparr>lb_meta = meta, lb_doc = sd\<rparr>" "sd_revision sd = Suc (sd_revision (lb_doc lb))"
    "takes d (cells (content (lb_doc lb))) (cells (content sd))"
  shows "wave_agrees st' (update_blip live i \<lparr>lb_meta = meta, lb_doc = sd\<rparr>)"
proof -
  have ok: "maps_ok live" and dist: "distinct (map b_id (st_blips st))" and ag: "blip_agrees st lb"
    using assms(1,2) by (force simp: wave_agrees_def dest: map_of_SomeD)+
  have fields: "b_id meta = b_id (lb_meta lb)" using same_blip_fields [OF assms(4)] by simp
  have i: "b_id (lb_meta lb) = i" by (rule maps_ok_keys(1) [OF ok assms(2)])
  note tables = db_commit_op_tables [OF assms(3)]
  from ag obtain row where row: "row \<in> set (st_blips st)" "same_blip row (lb_meta lb)"
    by (auto simp: blip_agrees_def)
  have revn: "b_revision meta = Suc (sd_revision (lb_doc lb))"
    using assms(5,6) by (simp add: synced_def)
  have "logged st' i (sd_revision sd) (cells (content sd))"
    using ag logged_commit [OF assms(3) _ revn assms(7)] fields i assms(6) by (simp add: blip_agrees_def)
  moreover have "\<exists>row \<in> set (st_blips st'). same_blip row meta"
  proof -
    let ?row = "row\<lparr>b_content := b_content meta, b_revision := b_revision meta,
      b_last_modified := b_last_modified meta, b_contributors := b_contributors meta\<rparr>"
    have "same_blip ?row meta"
      using row(2) assms(4) by (cases row; cases "lb_meta lb"; cases meta) (simp add: same_blip_def)
    moreover have "?row \<in> set (st_blips st')"
      using row same_blip_fields [OF row(2)] fields unfolding tables(2) set_map by (intro image_eqI) auto
    ultimately show ?thesis by blast
  qed
  ultimately have "blip_agrees st' \<lparr>lb_meta = meta, lb_doc = sd\<rparr>"
    using assms(5) fields i by (simp add: blip_agrees_def)
  moreover have "blip_agrees st' x" if x: "x \<in> snd ` {x \<in> set (lw_blips live). fst x \<noteq> i}" for x
  proof -
    have "b_id (lb_meta x) \<noteq> b_id meta" "blip_agrees st x"
      using x maps_ok_keys(2) [OF ok] assms(1) fields i by (auto simp: wave_agrees_def)
    note x = this
    then obtain r where r: "r \<in> set (st_blips st)" "same_blip r (lb_meta x)" by (auto simp: blip_agrees_def)
    with x(1) same_blip_fields [OF r(2)] have "r \<in> set (st_blips st')"
      unfolding tables(2) set_map by (intro image_eqI [of _ _ r]) auto
    with x r logged_other [OF assms(3) x(1)] show ?thesis by (auto simp: blip_agrees_def)
  qed
  moreover have "map b_id (st_blips st') = map b_id (st_blips st)" unfolding tables(2) by simp
  ultimately show ?thesis
    using dist fields i by (simp add: wave_agrees_def update_blip_maps_ok [OF ok] update_blip_values [OF ok])
qed

lemma stored_meta:
  "same_blip ((record_contributor now b u)\<lparr>b_content := delta_new, b_revision := 0, b_last_modified := 0, b_contributors := []\<rparr>)
     (b\<lparr>b_content := delta_new, b_revision := 0, b_last_modified := 0, b_contributors := []\<rparr>)"
  by (cases b) (simp add: record_contributor_def same_blip_def Let_def)

lemma commit_edit_agrees:
  assumes "wave_agrees (sv_store sv) live" "map_of (lw_blips live) (os_blip_id sub) = Some lb"
    "edit_resident lb author sub = Ok (committed, lb')"
    "plain_edit (lb_doc lb) (os_revision sub) (os_delta sub)" "sd_revision (lb_doc lb) < usize_max"
    "commit_edit e sv live conn author sub committed lb' = (r, sv', live')"
  shows "wave_agrees (sv_store sv') live'"
proof -
  have sync: "synced lb"
    using assms(1,2) by (force simp: wave_agrees_def blip_agrees_def dest: map_of_SomeD)
  then have ok: "server_ok True (lb_doc lb)" by (simp add: synced_def)
  note ed = edit_resident_done [OF assms(3)]
  note a = apply_step [OF ok ed(1) assms(4,5)] and rb = rollback_step [OF ok ed(1) assms(4,5)]
  have meta': "lb_meta lb' = lb_meta lb" by (subst ed(2)) simp
  define meta where meta: "meta = record_contributor (env_now e 0) (lb_meta (live_blip_sync lb')) author"
  note ce = assms(6) [unfolded commit_edit_def Let_def lb_meta_update live_blip.simps meta [symmetric] lb_doc_update
      live_blip_sync_fields]
  let ?committed = "if env_write e then db_commit_op (sv_store sv) meta (rev_delta committed) author
      (b_last_modified meta) (os_op_id sub) else Err Unavailable"
  show ?thesis
  proof (cases ?committed)
    case (Inl err)
    define lb2 where "lb2 = (live_blip_sync \<lparr>lb_meta = meta, lb_doc = snd (rollback_last (lb_doc lb'))\<rparr>)"
    define lb3 where "lb3 = lb2\<lparr>lb_meta := (lb_meta lb2)\<lparr>b_contributors := b_contributors (lb_meta lb'),
        b_last_modified := b_last_modified (lb_meta lb')\<rparr>\<rparr>"
    have "sv_store sv' = sv_store sv" "live' = update_blip live (os_blip_id sub) lb3"
      using ce Inl by (auto simp: lb3_def lb2_def lb_meta_update)
    moreover have "synced lb3" "same_blip (lb_meta lb) (lb_meta lb3)"
      using sync rb meta'
      by (cases "lb_meta lb"; simp add: lb3_def lb2_def meta synced_def same_blip_def
          live_blip_sync_def record_contributor_def Let_def)+
    ultimately show ?thesis using wave_agrees_restored [OF assms(1,2)] by simp
  next
    case (Inr st)
    then have stored: "db_commit_op (sv_store sv) meta (rev_delta committed) author
        (b_last_modified meta) (os_op_id sub) = Ok st" by (auto split: if_splits)
    have "sv_store sv' = st" "lw_blips live' = lw_blips (update_blip live (os_blip_id sub) \<lparr>lb_meta = meta, lb_doc = lb_doc lb'\<rparr>)"
      "lw_comments live' = lw_comments (update_blip live (os_blip_id sub) \<lparr>lb_meta = meta, lb_doc = lb_doc lb'\<rparr>)"
      using ce Inr by (auto simp: schedule_inbox_update_def case_prod_beta')
    moreover have "wave_agrees st (update_blip live (os_blip_id sub) \<lparr>lb_meta = meta, lb_doc = lb_doc lb'\<rparr>)"
    proof (rule wave_agrees_committed [OF assms(1,2) stored])
      show "synced \<lparr>lb_meta = meta, lb_doc = lb_doc lb'\<rparr>"
        using a(2) by (simp add: synced_def meta)
      show "same_blip (meta\<lparr>b_content := delta_new, b_revision := 0, b_last_modified := 0, b_contributors := []\<rparr>)
          ((lb_meta lb)\<lparr>b_content := delta_new, b_revision := 0, b_last_modified := 0, b_contributors := []\<rparr>)"
        using stored_meta [of "env_now e 0" "lb_meta (live_blip_sync lb')" author] meta'
        by (simp add: meta live_blip_sync_def)
    qed (use a in simp_all)
    ultimately show ?thesis using wave_agrees_cong by metis
  qed
qed

lemma commit_edit_result:
  "commit_edit e sv live conn author sub committed lb = (Err m, sv', live') \<Longrightarrow> sv' = sv"
  by (auto simp: commit_edit_def Let_def split: sum.splits if_splits prod.splits)

section \<open>What the queues receive\<close>

lemma try_send_queue: "set (ch_queue (snd (try_send ch b m) a)) \<subseteq> insert m (set (ch_queue (ch a)))"
  by (auto simp: try_send_def)

lemma notify_one_queue [simp]: "ch_queue (notify_one ch b a) = ch_queue (ch a)"
  by (simp add: notify_one_def)

lemma disconnect_queue [simp]: "ch_queue (snd (disconnect live ch cs) a) = ch_queue (ch a)"
  by (induction live ch cs rule: disconnect.induct) (auto split: option.splits)

lemma send_all_queue:
  "set (ch_queue (fst (send_all ch ts) a)) \<subseteq> (snd \<circ> snd) ` set ts \<union> set (ch_queue (ch a))"
proof (induction ch ts rule: send_all.induct)
  case (2 ch c s m ts)
  have "fst (send_all ch ((c, s, m) # ts)) = fst (send_all (snd (try_send ch (sub_chan s) m)) ts)"
    by (auto simp: Let_def split: prod.splits)
  with 2 [OF refl surjective_pairing [symmetric]] try_send_queue [of ch "sub_chan s" m a] show ?case
    by fastforce
qed simp

lemma deliver_queue:
  "set (ch_queue (snd (deliver live ch P f) a))
     \<subseteq> f ` {t \<in> set (lw_subscribers live). P t} \<union> set (ch_queue (ch a))"
proof -
  have "(snd \<circ> snd) ` set (targets live P f) = f ` {t \<in> set (lw_subscribers live). P t}"
    by (force simp: targets_def)
  with send_all_queue [of ch "targets live P f" a] show ?thesis
    by (simp add: deliver_def Let_def case_prod_beta')
qed

lemma broadcast_queue:
  "set (ch_queue (snd (broadcast live ch i skip m) a)) \<subseteq> insert m (set (ch_queue (ch a)))"
  unfolding broadcast_deliver using deliver_queue by fastforce

lemma send_to_queue:
  "set (ch_queue (snd (send_to live ch c m) a)) \<subseteq> insert m (set (ch_queue (ch a)))"
  using try_send_queue [of ch _ m a] unfolding send_to_def Let_def
  by (auto split: prod.splits option.splits) (metis insertE snd_conv subsetD)+

text \<open>The ways an application ends when the message exists.\<close>

lemma apply_op_cases:
  assumes "apply_op e sv live conn author sub = (r, sv', live')"
    "map_of (lw_blips live) (os_blip_id sub) = Some lb"
  obtains (denied) m where "r = Err m" "sv' = sv" "live' = live"
  | (replay) revn o_id where "os_op_id sub = Some o_id"
      "db_revision_for_op (sv_store sv) (os_blip_id sub) o_id = Some revn" "r = Ok ()"
      "sv' = sv\<lparr>sv_chans := snd (send_to live (sv_chans sv) conn
         (AckMsg (w_id (lw_wave live)) (os_blip_id sub) revn delta_new (os_op_id sub)))\<rparr>"
      "live' = fst (send_to live (sv_chans sv) conn
         (AckMsg (w_id (lw_wave live)) (os_blip_id sub) revn delta_new (os_op_id sub)))"
  | (refused) m lb' where "edit_resident lb author sub = Err (m, lb')" "r = Err m" "sv' = sv"
      "live' = update_blip live (os_blip_id sub) lb'"
  | (commit) committed lb' where "may_access live author (b_wavelet_id (lb_meta lb))"
      "edit_resident lb author sub = Ok (committed, lb')"
      "commit_edit e sv live conn author sub committed lb' = (r, sv', live')"
proof -
  let ?look = "case os_op_id sub of
      Some o_id \<Rightarrow> if env_read e then db_revision_for_op (sv_store sv) (os_blip_id sub) o_id else None
    | None \<Rightarrow> None"
  note eq = assms(1) [unfolded apply_op_def assms(2) option.case]
  show thesis
  proof (cases "may_access live author (b_wavelet_id (lb_meta lb))")
    case False
    with eq show thesis by (intro denied) auto
  next
    case acc: True
    show thesis
    proof (cases ?look)
      case (Some revn)
      then obtain o_id where "os_op_id sub = Some o_id"
        "db_revision_for_op (sv_store sv) (os_blip_id sub) o_id = Some revn"
        by (auto split: option.splits if_splits)
      with eq acc Some show thesis by (intro replay [of o_id revn]) (auto simp: Let_def case_prod_beta')
    next
      case None
      show thesis
      proof (cases "permit live author (ActEdit (b_author (lb_meta lb) = author))")
        case (Inl m)
        with eq acc None show thesis by (intro denied) auto
      next
        case (Inr u)
        show thesis
        proof (cases "edit_resident lb author sub")
          case (Inl p)
          with eq acc None Inr show thesis by (intro refused [of "fst p" "snd p"]) (auto split: prod.splits)
        next
          case ok: (Inr p)
          with eq acc None Inr show thesis by (intro commit [of "fst p" "snd p"]) (auto split: prod.splits)
        qed
      qed
    qed
  qed
qed

lemma commit_edit_stored:
  assumes "commit_edit e sv live conn author sub committed lb = (r, sv', live')" "sv' \<noteq> sv"
  defines "meta \<equiv> record_contributor (env_now e 0) (lb_meta (live_blip_sync lb)) author"
  shows "r = Ok ()"
    "db_commit_op (sv_store sv) meta (rev_delta committed) author (b_last_modified meta) (os_op_id sub) = Ok (sv_store sv')"
    "set (ch_queue (sv_chans sv' a)) \<subseteq>
       {OpMsg (b_wave_id meta) (os_blip_id sub) (rev_number committed) author (rev_delta committed),
        AckMsg (b_wave_id meta) (os_blip_id sub) (rev_number committed) (rev_delta committed) (os_op_id sub)}
       \<union> set (ch_queue (sv_chans sv a))"
proof -
  note ce = assms(1) [unfolded commit_edit_def Let_def lb_meta_update live_blip.simps meta_def [symmetric] lb_doc_update
      live_blip_sync_fields]
  let ?committed = "if env_write e then db_commit_op (sv_store sv) meta (rev_delta committed) author
      (b_last_modified meta) (os_op_id sub) else Err Unavailable"
  obtain st where st: "?committed = Ok st" using ce assms(2) by (cases ?committed) auto
  let ?live = "wavelet_mut (b_wavelet_id meta) (\<lambda>w. w\<lparr>wl_last_modified := b_last_modified meta\<rparr>)
      (update_blip live (os_blip_id sub) \<lparr>lb_meta = meta, lb_doc = lb_doc lb\<rparr>)"
  let ?b = "broadcast ?live (sv_chans sv) (b_wavelet_id meta) (Some conn)
      (OpMsg (b_wave_id meta) (os_blip_id sub) (rev_number committed) author (rev_delta committed))"
  let ?s = "send_to (fst ?b) (snd ?b) conn
      (AckMsg (b_wave_id meta) (os_blip_id sub) (rev_number committed) (rev_delta committed) (os_op_id sub))"
  have eqs: "r = Ok ()" "sv_store sv' = st" "sv_chans sv' = snd ?s"
    using ce st by (auto simp: schedule_inbox_update_def case_prod_beta')
  show "r = Ok ()" by (fact eqs(1))
  show "db_commit_op (sv_store sv) meta (rev_delta committed) author (b_last_modified meta) (os_op_id sub)
      = Ok (sv_store sv')" using st eqs(2) by (auto split: if_splits)
  show "set (ch_queue (sv_chans sv' a)) \<subseteq>
       {OpMsg (b_wave_id meta) (os_blip_id sub) (rev_number committed) author (rev_delta committed),
        AckMsg (b_wave_id meta) (os_blip_id sub) (rev_number committed) (rev_delta committed) (os_op_id sub)}
       \<union> set (ch_queue (sv_chans sv a))"
    unfolding eqs(3) using send_to_queue [of "fst ?b" "snd ?b" conn _ a] broadcast_queue [of ?live "sv_chans sv" _ _ _ a]
    by blast
qed

lemma apply_op_logs:
  assumes "apply_op e sv live conn author sub = (Ok (), sv', live')" "os_op_id sub = Some o_id" "maps_ok live"
  shows "\<exists>row \<in> set (st_ops (sv_store sv')). or_blip_id row = os_blip_id sub \<and> or_op_id row = Some o_id"
proof -
  obtain lb where lb: "map_of (lw_blips live) (os_blip_id sub) = Some lb"
    using assms(1) by (cases "map_of (lw_blips live) (os_blip_id sub)") (auto simp: apply_op_def)
  from assms(1) lb show ?thesis
  proof (cases rule: apply_op_cases)
    case replay
    with assms(2) show ?thesis by (auto simp: db_revision_for_op_def find_Some_iff)
  next
    case (commit committed lb')
    let ?meta = "record_contributor (env_now e 0) (lb_meta (live_blip_sync lb')) author"
    have "lb_meta lb' = lb_meta lb" by (subst edit_resident_done(2) [OF commit(2)]) simp
    then have "b_id ?meta = os_blip_id sub" using maps_ok_keys(1) [OF assms(3) lb] by simp
    moreover obtain st where "db_commit_op (sv_store sv) ?meta (rev_delta committed) author (b_last_modified ?meta) (os_op_id sub) = Ok st"
      "sv_store sv' = st"
      using commit(3)
      by (auto simp: commit_edit_def Let_def lb_meta_update schedule_inbox_update_def case_prod_beta' split: sum.splits if_splits)
    note st = this
    ultimately show ?thesis using db_commit_op_tables(1) [OF st(1)] st(2) assms(2) by auto
  qed auto
qed

section \<open>A sample server\<close>

text \<open>The sample wave resident over the tables that hold it, and an edit of its first message.\<close>

definition sample_store :: store where
  "sample_store = \<lparr>st_users = [],
     st_waves = [\<lparr>wr_id = WaveId (lit ''w-1''), wr_creator = alice, wr_created_at = 0, wr_mode = lit ''document''\<rparr>],
     st_wavelets = map (wl_participants_update (\<lambda>_. [])) [sample_wavelet, sample_private],
     st_participants = [(wl_id sample_wavelet, alice, 0), (wl_id sample_wavelet, bob, 0), (wl_id sample_wavelet, carol, 0),
       (wl_id sample_private, alice, 1), (wl_id sample_private, bob, 1)],
     st_blips = [sample_blip, sample_secret], st_ops = [], st_comments = [], st_read_marks = [],
     st_flags = [], st_search = [], st_sessions = [], st_identities = [], st_agent_tokens = [],
     st_agent_replies = [], st_attachments = []\<rparr>"

definition sample_server :: server where
  "sample_server = (app_new 0 sample_store (\<lambda>_. sample_live) (\<lambda>_. empty_channel))
     \<lparr>sv_next_addr := 1, sv_waves := [(WaveId (lit ''w-1''), 0)],
      sv_conns := map (\<lambda>(c, s). (c, \<lparr>cn_user = sub_user s, cn_chan = sub_chan s, cn_token_hash = []\<rparr>)) (lw_subscribers sample_live),
      sv_user_conns := [(alice, [1]), (bob, [2]), (carol, [3])], sv_next_conn_id := 4\<rparr>"

definition sample_env :: env where
  "sample_env = \<lparr>env_now = (\<lambda>n. 100 + int n), env_uuid = (\<lambda>n. [57, 97 + n]), env_load = (\<lambda>_. True), env_read = True,
     env_write = True, env_lowercase = id, env_json_len = (\<lambda>_. None),
     env_alnum = (\<lambda>c. c \<noteq> 32), env_pick = last, env_fts = (\<lambda>_ ix. ix)\<rparr>"

definition sample_edit :: op_submission where
  "sample_edit = \<lparr>os_blip_id = b_id sample_blip, os_revision = 0, os_delta = \<lparr>ops = [op_insert [97]]\<rparr>,
     os_op_id = Some (lit ''x'')\<rparr>"

lemma sample_docs:
  "lb_doc (live_blip_new sample_blip) = server_doc_new" "lb_doc (live_blip_new sample_secret) = server_doc_new"
  "lb_meta (live_blip_new sample_blip) = sample_blip" "lb_meta (live_blip_new sample_secret) = sample_secret"
  "b_content sample_blip = delta_new" "b_content sample_secret = delta_new"
  "b_revision sample_blip = 0" "b_revision sample_secret = 0"
  by (simp_all add: live_blip_new_def sample_blip_def sample_secret_def blip_new_def from_snapshot_def
      is_document_def delta_new_def server_doc_new_def)

lemma sample_agrees: "wave_agrees sample_store sample_live"
proof -
  have "maps_ok sample_live" "distinct (map b_id (st_blips sample_store))" by code_simp+
  moreover have "sd_revision server_doc_new = 0" "cells (content server_doc_new) = []" "cells delta_new = []"
    by code_simp+
  ultimately show ?thesis
    using server_ok_new
    by (auto simp: wave_agrees_def sample_live_def blip_agrees_def synced_def sample_docs logged_def log_of_def
        sample_store_def intro: bexI [of _ sample_blip] bexI [of _ sample_secret])
qed

lemma sample_plain:
  assumes "map_of (lw_blips sample_live) (os_blip_id sample_edit) = Some lb"
  shows "plain_edit (lb_doc lb) (os_revision sample_edit) (os_delta sample_edit) \<and> sd_revision (lb_doc lb) < usize_max"
proof -
  have "map_of (lw_blips sample_live) (os_blip_id sample_edit) = Some (live_blip_new sample_blip)" by code_simp
  with assms have "lb = live_blip_new sample_blip" by simp
  then have lb: "lb_doc lb = server_doc_new" by (simp add: sample_docs)
  have "pos_ops (ops (os_delta sample_edit))" "null_free_inserts (os_delta sample_edit)"
    "apply_cells (ops (rebase (history_since server_doc_new (os_revision sample_edit)) (os_delta sample_edit)))
       (cells (content server_doc_new)) = Some (insert_cells (Text [97]) fmempty)"
    "width (insert_cells (Text [97]) fmempty) \<le> doc_limit" "sd_revision server_doc_new < usize_max" by code_simp+
  then show ?thesis by (simp add: lb plain_edit_def within_limit_def)
qed

section \<open>Properties\<close>



text \<open>
  (C7) Nobody hears of an edit that is not in the log: every acknowledgement and every op an
  application queues, for anybody, names a revision of that message in the stored log, and
  an op carries exactly the change and the author logged for it.
\<close>

theorem apply_op_tells_stored:
  assumes "maps_ok live" "apply_op e sv live conn author sub = (r, sv', live')"
    "m \<in> set (ch_queue (sv_chans sv' a))" "m \<notin> set (ch_queue (sv_chans sv a))"
  shows "\<exists>row \<in> set (st_ops (sv_store sv')). or_blip_id row = os_blip_id sub \<and>
    (case m of
       AckMsg w b n d o_id \<Rightarrow> b = os_blip_id sub \<and> or_revision row = n \<and> o_id = os_op_id sub
     | OpMsg w b n u d \<Rightarrow> b = os_blip_id sub \<and> or_revision row = n \<and> or_author row = u \<and> or_delta row = d
     | _ \<Rightarrow> False)"
proof -
  have changed: "sv_chans sv' \<noteq> sv_chans sv" using assms(3,4) by auto
  then obtain lb where lb: "map_of (lw_blips live) (os_blip_id sub) = Some lb"
    using assms(2) by (cases "map_of (lw_blips live) (os_blip_id sub)") (auto simp: apply_op_def)
  have key: "b_id (lb_meta lb) = os_blip_id sub" by (rule maps_ok_keys(1) [OF assms(1) lb])
  from assms(2) lb show ?thesis
  proof (cases rule: apply_op_cases)
    case (replay revn o_id)
    let ?ack = "AckMsg (w_id (lw_wave live)) (os_blip_id sub) revn delta_new (os_op_id sub)"
    have "m \<in> insert ?ack (set (ch_queue (sv_chans sv a)))"
      using assms(3) send_to_queue [of live "sv_chans sv" conn ?ack a] replay(4) by auto
    then have "m = ?ack" using assms(4) by simp
    moreover obtain row :: op_row where "row \<in> set (st_ops (sv_store sv))" "or_blip_id row = os_blip_id sub" "or_revision row = revn"
      using replay(2) by (auto simp: db_revision_for_op_def find_Some_iff intro: nth_mem)
    ultimately show ?thesis using replay(4) by auto
  next
    case (commit committed lb')
    let ?meta = "record_contributor (env_now e 0) (lb_meta (live_blip_sync lb')) author"
    have ne: "sv' \<noteq> sv" using changed by auto
    note st = commit_edit_stored [OF commit(3) ne]
    note ed = edit_resident_done [OF commit(2)]
    have meta: "lb_meta lb' = lb_meta lb" by (subst ed(2)) simp
    have num: "rev_number committed = b_revision ?meta"
      using ed(1) by (simp add: server_apply_Ok_iff)
    have "\<exists>row \<in> set (st_ops (sv_store sv')). or_blip_id row = os_blip_id sub \<and> or_revision row = rev_number committed
        \<and> or_author row = author \<and> or_delta row = rev_delta committed"
      using db_commit_op_tables(1) [OF st(2)] key meta num by simp
    moreover from st(3) [of a] assms(3,4) have
      "m = OpMsg (b_wave_id ?meta) (os_blip_id sub) (rev_number committed) author (rev_delta committed)
       \<or> m = AckMsg (b_wave_id ?meta) (os_blip_id sub) (rev_number committed) (rev_delta committed) (os_op_id sub)"
      by blast
    ultimately show ?thesis by auto
  qed (use changed in auto)
qed

theorem apply_op_tells_stored_witness:
  "\<exists>m. m \<in> set (ch_queue (sv_chans (fst (snd (apply_op sample_env sample_server sample_live 3 carol sample_edit))) 1))
     \<and> (\<exists>row \<in> set (st_ops (sv_store (fst (snd (apply_op sample_env sample_server sample_live 3 carol sample_edit))))).
          or_blip_id row = os_blip_id sample_edit)"
proof -
  let ?a = "apply_op sample_env sample_server sample_live 3 carol sample_edit"
  have "maps_ok sample_live" "ch_queue (sv_chans (fst (snd ?a)) 1) \<noteq> []" "ch_queue (sv_chans sample_server 1) = []"
    by code_simp+
  moreover from this(2) obtain m where m: "m \<in> set (ch_queue (sv_chans (fst (snd ?a)) 1))" by (meson last_in_set)
  moreover have "?a = (fst ?a, fst (snd ?a), snd (snd ?a))" by simp
  ultimately have "\<exists>row \<in> set (st_ops (sv_store (fst (snd ?a)))). or_blip_id row = os_blip_id sample_edit"
    using apply_op_tells_stored [of sample_live sample_env sample_server 3 carol sample_edit _ _ _ m 1]
    by (metis empty_iff list.set(1))
  with m show ?thesis by blast
qed



end
