(* ===== verification/Gal_Handlers.thy ===== *)
theory Gal_Handlers
  imports Gal_Durable
begin

text \<open>
  The command handlers of \<open>crates/gal-server/src/ws.rs\<close>. A handler first finds the resident
  wave it is about, among the waves its connection has open, and then works on it under the
  wave's lock. The second part is a definition of its own, with the suffix \<open>_locked\<close>: a function
  from the server and the wave to a reply, the server and the wave, which runs without
  interruption because the lock is held throughout, the database writes included.
\<close>

section \<open>Sessions\<close>

record session =
  ss_conn_id :: nat
  ss_user :: user
  ss_subscribed :: "wave_id list"
  ss_chan :: nat
  ss_token_hash :: ustring

abbreviation ss_uid :: "session \<Rightarrow> user_id" where
  "ss_uid ss \<equiv> user_id (ss_user ss)"

definition MAX_CONNECTIONS_PER_USER :: nat where
  "MAX_CONNECTIONS_PER_USER = 24"

definition session_send :: "server \<Rightarrow> session \<Rightarrow> server_message \<Rightarrow> server" where
  "session_send sv ss m = sv\<lparr>sv_chans := conn_send (sv_chans sv) (ss_chan ss) m\<rparr>"

definition over_allowance :: "client_message \<Rightarrow> server_message" where
  "over_allowance command =
     (case command of
        Submit b _ _ _ \<Rightarrow> resync_message b
          (lit ''Edits are arriving faster than this server will take them; reloading this message.'')
      | _ \<Rightarrow> error_message TooManyRequests
          (lit ''You are doing that too fast. Wait a moment and try again.''))"

section \<open>Locating a wave\<close>

type_synonym 'a reply = "(server_message, 'a) result"

text \<open>The first open wave that satisfies a test; a wave that cannot be loaded is passed over.\<close>

fun find_in :: "env \<Rightarrow> (live_wave \<Rightarrow> bool) \<Rightarrow> server \<Rightarrow> wave_id list \<Rightarrow> (wave_id \<times> nat) reply \<times> server" where
  "find_in e P sv [] = (Err not_found, sv)"
| "find_in e P sv (w # ws) =
     (case open_resident e sv w of
        (Ok (Some a), sv) \<Rightarrow> if P (sv_heap sv a) then (Ok (w, a), sv) else find_in e P sv ws
      | (_, sv) \<Rightarrow> find_in e P sv ws)"

definition find_wavelet :: "env \<Rightarrow> server \<Rightarrow> session \<Rightarrow> wavelet_id \<Rightarrow> (wave_id \<times> nat) reply \<times> server" where
  "find_wavelet e sv ss i = find_in e (\<lambda>live. find_live_wavelet live i \<noteq> None) sv (ss_subscribed ss)"

definition find_blip :: "env \<Rightarrow> server \<Rightarrow> session \<Rightarrow> blip_id \<Rightarrow> (wave_id \<times> nat) reply \<times> server" where
  "find_blip e sv ss b = find_in e (\<lambda>live. map_of (lw_blips live) b \<noteq> None) sv (ss_subscribed ss)"

definition find_comment :: "env \<Rightarrow> server \<Rightarrow> session \<Rightarrow> comment_id \<Rightarrow> (wave_id \<times> nat) reply \<times> server" where
  "find_comment e sv ss c = find_in e (\<lambda>live. map_of (lw_comments live) c \<noteq> None) sv (ss_subscribed ss)"

text \<open>A locked body run on the wave at an address of the heap.\<close>

definition run_locked ::
  "(server \<Rightarrow> live_wave \<Rightarrow> unit reply \<times> server \<times> live_wave) \<Rightarrow> server \<Rightarrow> nat \<Rightarrow> unit reply \<times> server" where
  "run_locked body sv a =
     (let (r, sv, live) = body sv (sv_heap sv a) in (r, sv\<lparr>sv_heap := (sv_heap sv)(a := live)\<rparr>))"

definition found_then ::
  "(wave_id \<times> nat) reply \<times> server \<Rightarrow> (wave_id \<Rightarrow> server \<Rightarrow> live_wave \<Rightarrow> unit reply \<times> server \<times> live_wave) \<Rightarrow>
   unit reply \<times> server" where
  "found_then found body =
     (case found of (Err m, sv) \<Rightarrow> (Err m, sv) | (Ok (wid, a), sv) \<Rightarrow> run_locked (body wid) sv a)"

text \<open>A write to the database; every failure is reported as an internal error.\<close>

definition stored :: "env \<Rightarrow> store db_result \<Rightarrow> store reply" where
  "stored e r =
     (if env_write e then (case r of Ok st \<Rightarrow> Ok st | Err _ \<Rightarrow> Err internal_error) else Err internal_error)"

definition require_participant :: "env \<Rightarrow> server \<Rightarrow> session \<Rightarrow> wave_id \<Rightarrow> unit reply" where
  "require_participant e sv ss wid =
     (if \<not> env_read e then Err internal_error
      else if db_is_participant (sv_store sv) (ss_uid ss) wid then Ok () else Err not_found)"

definition send_inbox_row :: "env \<Rightarrow> server \<Rightarrow> session \<Rightarrow> wave_id \<Rightarrow> server" where
  "send_inbox_row e sv ss wid =
     (case (if env_read e then db_wave_summary (env_pick e) (sv_store sv) (ss_uid ss) wid else None) of
        Some summary \<Rightarrow> session_send sv ss (InboxUpdatedMsg summary)
      | None \<Rightarrow> sv)"

section \<open>Opening and leaving\<close>

definition attach_locked ::
  "session \<Rightarrow> wave_id \<Rightarrow> (blip_id \<times> nat) list \<Rightarrow> wave_flags \<Rightarrow> server \<Rightarrow> live_wave \<Rightarrow> unit reply \<times> server \<times> live_wave" where
  "attach_locked ss wid marks flags sv live =
     (if \<not> may_view live (ss_uid ss) then (Err not_found, sv, live)
      else
        let live = live\<lparr>lw_subscribers := AList.update (ss_conn_id ss)
              \<lparr>sub_user = ss_uid ss, sub_chan = ss_chan ss, sub_editing = None\<rparr> (lw_subscribers live)\<rparr>;
            (live, ch) = send_to live (sv_chans sv) (ss_conn_id ss) (WaveStateMsg (view live (ss_uid ss) marks flags));
            (live, ch) = broadcast_presence live ch wid
        in (Ok (), sv\<lparr>sv_chans := ch\<rparr>, live))"

definition lookup_wave :: "env \<Rightarrow> server \<Rightarrow> wave_id \<Rightarrow> nat reply \<times> server" where
  "lookup_wave e sv wid =
     (case open_resident e sv wid of
        (Err _, sv) \<Rightarrow> (Err internal_error, sv)
      | (Ok None, sv) \<Rightarrow> (Err not_found, sv)
      | (Ok (Some a), sv) \<Rightarrow> (Ok a, sv))"

text \<open>A wave that was evicted before its lock was taken is looked up once more.\<close>

definition open_wave :: "env \<Rightarrow> server \<Rightarrow> session \<Rightarrow> wave_id \<Rightarrow> unit reply \<times> server \<times> session" where
  "open_wave e sv ss wid =
     (let marks = read_marks_of e sv (ss_uid ss) wid;
          flags = (if env_read e then db_flags (sv_store sv) (ss_uid ss) wid
                   else \<lparr>wf_archived = False, wf_muted = False\<rparr>);
          found = (case lookup_wave e sv wid of
                     (Ok a, sv) \<Rightarrow> if lw_evicted (sv_heap sv a) then lookup_wave e sv wid else (Ok a, sv)
                   | (Err m, sv) \<Rightarrow> (Err m, sv))
      in case found of
           (Err m, sv) \<Rightarrow> (Err m, sv, ss)
         | (Ok a, sv) \<Rightarrow>
             (case run_locked (attach_locked ss wid marks flags) sv a of
                (Err m, sv) \<Rightarrow> (Err m, sv, ss)
              | (Ok _, sv) \<Rightarrow> (Ok (), sv, ss\<lparr>ss_subscribed := List.insert wid (ss_subscribed ss)\<rparr>)))"

definition detach_locked :: "session \<Rightarrow> wave_id \<Rightarrow> server \<Rightarrow> live_wave \<Rightarrow> unit reply \<times> server \<times> live_wave" where
  "detach_locked ss wid sv live =
     (let (live, ch) = broadcast_presence
            (live\<lparr>lw_subscribers := AList.delete (ss_conn_id ss) (lw_subscribers live)\<rparr>) (sv_chans sv) wid
      in (Ok (), sv\<lparr>sv_chans := ch\<rparr>, live))"

definition leave_wave :: "env \<Rightarrow> server \<Rightarrow> session \<Rightarrow> wave_id \<Rightarrow> server \<times> session" where
  "leave_wave e sv ss wid =
     (if wid \<notin> set (ss_subscribed ss) then (sv, ss)
      else
        let ss = ss\<lparr>ss_subscribed := filter (\<lambda>w. w \<noteq> wid) (ss_subscribed ss)\<rparr>;
            sv = (case open_resident e sv wid of
                    (Ok (Some a), sv) \<Rightarrow> snd (run_locked (detach_locked ss wid) sv a)
                  | (_, sv) \<Rightarrow> sv)
        in (maybe_evict sv wid, ss))"

definition no_such_user :: "ustring list \<Rightarrow> server_message" where
  "no_such_user missing =
     error_message BadRequest (lit ''No such user: '' @ join_with (lit '', '') missing)"

definition create_wave ::
  "env \<Rightarrow> server \<Rightarrow> session \<Rightarrow> ustring \<Rightarrow> ustring list \<Rightarrow> delta option \<Rightarrow> wave_mode option \<Rightarrow>
   unit reply \<times> server \<times> session" where
  "create_wave e sv ss title names cont mode =
     (if \<not> env_read e then (Err internal_error, sv, ss)
      else
        let (ids, missing) = db_resolve_names (env_lowercase e) (sv_store sv) names
        in if missing \<noteq> [] then (Err (no_such_user missing), sv, ss)
           else
             let ids = ss_uid ss # filter (\<lambda>i. i \<noteq> ss_uid ss) ids
             in case seed_content (env_json_len e) cont of
                  Err m \<Rightarrow> (Err m, sv, ss)
                | Ok seed \<Rightarrow>
                    (case (if env_write e
                           then db_create_wave_with_blip (env_now e 0) (env_now e 1) (env_uuid e 0) (env_uuid e 1)
                                  (env_uuid e 2) (sv_store sv) (ss_uid ss) (normalise_title title) ids
                                  (case mode of Some m \<Rightarrow> m | None \<Rightarrow> Document)
                                  (case seed of Some c \<Rightarrow> c | None \<Rightarrow> delta_new)
                           else Err Unavailable) of
                       Err _ \<Rightarrow> (Err internal_error, sv, ss)
                     | Ok ((w, _), st) \<Rightarrow>
                         (case open_wave e (sv\<lparr>sv_store := st\<rparr>) ss (w_id w) of
                            (Err m, sv, ss) \<Rightarrow> (Err m, sv, ss)
                          | (Ok _, sv, ss) \<Rightarrow> (Ok (), schedule_inbox_update sv (w_id w), ss))))"

section \<open>Messages\<close>

definition create_blip_locked ::
  "env \<Rightarrow> session \<Rightarrow> wavelet_id \<Rightarrow> blip_id option \<Rightarrow> delta option \<Rightarrow> wave_id \<Rightarrow> server \<Rightarrow> live_wave \<Rightarrow>
   unit reply \<times> server \<times> live_wave" where
  "create_blip_locked e ss i parent cont wid sv live =
     (case prepare_blip (env_json_len e) (env_now e 0) (env_uuid e 0) live (ss_uid ss) i parent cont of
        Err m \<Rightarrow> (Err m, sv, live)
      | Ok b \<Rightarrow>
          (case stored e (db_create_blip (sv_store sv) b) of
             Err m \<Rightarrow> (Err m, sv, live)
           | Ok st \<Rightarrow>
               let (live, ch) = publish_blip live (sv_chans sv) b
               in (Ok (), schedule_inbox_update (sv\<lparr>sv_store := st, sv_chans := ch\<rparr>) wid, live)))"

definition create_blip ::
  "env \<Rightarrow> server \<Rightarrow> session \<Rightarrow> wavelet_id \<Rightarrow> blip_id option \<Rightarrow> delta option \<Rightarrow> unit reply \<times> server" where
  "create_blip e sv ss i parent cont =
     found_then (find_wavelet e sv ss i) (create_blip_locked e ss i parent cont)"

definition submit ::
  "env \<Rightarrow> server \<Rightarrow> session \<Rightarrow> op_submission \<Rightarrow> unit reply \<times> server" where
  "submit e sv ss sub =
     (case bind_result (check_embeds (env_json_len e) (os_delta sub)) (\<lambda>_. check_attributes (os_delta sub)) of
        Err m \<Rightarrow> (Err (name_blip m (os_blip_id sub)), sv)
      | Ok _ \<Rightarrow>
          found_then (find_blip e sv ss (os_blip_id sub))
            (\<lambda>_ sv live. apply_op e sv live (ss_conn_id ss) (ss_uid ss) sub))"

definition remark_blip ::
  "timestamp \<Rightarrow> ustring \<Rightarrow> wave_id \<Rightarrow> wavelet_id \<Rightarrow> user_id \<Rightarrow> blip_id \<Rightarrow> int \<Rightarrow> comment_id \<Rightarrow> delta option \<Rightarrow> blip" where
  "remark_blip now uuid wid i u target seq c seed =
     (let b = (blip_new now uuid wid i u (Some target) seq)\<lparr>b_comment := Some c\<rparr>
      in case seed of Some d \<Rightarrow> b\<lparr>b_content := d, b_revision := 1\<rparr> | None \<Rightarrow> b)"

definition insert_live_blip :: "blip \<Rightarrow> live_wave \<Rightarrow> live_wave" where
  "insert_live_blip b live = live\<lparr>lw_blips := AList.update (b_id b) (live_blip_new b) (lw_blips live)\<rparr>"

definition create_comment_locked ::
  "env \<Rightarrow> session \<Rightarrow> wavelet_id \<Rightarrow> blip_id \<Rightarrow> comment_id \<Rightarrow> delta option \<Rightarrow> wave_id \<Rightarrow> server \<Rightarrow> live_wave \<Rightarrow>
   unit reply \<times> server \<times> live_wave" where
  "create_comment_locked e ss i target c seed wid sv live =
     (if \<not> may_access live (ss_uid ss) i then (Err not_found, sv, live)
      else case permit live (ss_uid ss) ActComment of
        Err m \<Rightarrow> (Err m, sv, live)
      | Ok _ \<Rightarrow>
          if map_of (lw_comments live) c \<noteq> None
          then (Err (error_message BadRequest (lit ''That comment already exists.'')), sv, live)
          else case map_of (lw_blips live) target of
            None \<Rightarrow> (Err not_found, sv, live)
          | Some lb \<Rightarrow>
              if b_wavelet_id (lb_meta lb) \<noteq> i then (Err not_found, sv, live)
              else if b_comment (lb_meta lb) \<noteq> None
              then (Err (error_message BadRequest (lit ''You cannot comment on a comment.'')), sv, live)
              else
                let t = \<lparr>ct_id = c, ct_wavelet_id = i, ct_blip_id = target, ct_author = ss_uid ss,
                         ct_created_at = env_now e 0, ct_resolved_by = None, ct_resolved_at = None\<rparr>;
                    b = remark_blip (env_now e 1) (env_uuid e 0) wid i (ss_uid ss) target (next_seq live i) c seed
                in case stored e (db_create_comment (sv_store sv) t b) of
                     Err m \<Rightarrow> (Err m, sv, live)
                   | Ok st \<Rightarrow>
                       let live = live\<lparr>lw_comments := AList.update c t (lw_comments live)\<rparr>;
                           live = wavelet_mut i (\<lambda>w. w\<lparr>wl_last_modified := b_last_modified b\<rparr>) (insert_live_blip b live);
                           (live, ch) = broadcast live (sv_chans sv) i None
                             (CommentAddedMsg wid t (render_blip b []))
                       in (Ok (), schedule_inbox_update (sv\<lparr>sv_store := st, sv_chans := ch\<rparr>) wid, live))"

definition create_comment ::
  "env \<Rightarrow> server \<Rightarrow> session \<Rightarrow> wavelet_id \<Rightarrow> blip_id \<Rightarrow> comment_id \<Rightarrow> delta option \<Rightarrow> unit reply \<times> server" where
  "create_comment e sv ss i target c cont =
     (if \<not> comment_id_is_well_formed c
      then (Err (error_message BadRequest (lit ''That is not a usable comment id.'')), sv)
      else case find_wavelet e sv ss i of
        (Err m, sv) \<Rightarrow> (Err m, sv)
      | (Ok found, sv) \<Rightarrow>
          (case seed_content (env_json_len e) cont of
             Err m \<Rightarrow> (Err m, sv)
           | Ok seed \<Rightarrow> found_then (Ok found, sv) (create_comment_locked e ss i target c seed)))"

definition reply_to_comment_locked ::
  "env \<Rightarrow> session \<Rightarrow> comment_id \<Rightarrow> delta option \<Rightarrow> wave_id \<Rightarrow> server \<Rightarrow> live_wave \<Rightarrow> unit reply \<times> server \<times> live_wave" where
  "reply_to_comment_locked e ss c seed wid sv live =
     (case map_of (lw_comments live) c of
        None \<Rightarrow> (Err not_found, sv, live)
      | Some t \<Rightarrow>
          if \<not> may_access live (ss_uid ss) (ct_wavelet_id t) then (Err not_found, sv, live)
          else case permit live (ss_uid ss) ActComment of
            Err m \<Rightarrow> (Err m, sv, live)
          | Ok _ \<Rightarrow>
              if resolved t
              then (Err (error_message BadRequest (lit ''This comment is resolved. Reopen it to reply.'')), sv, live)
              else
                let i = ct_wavelet_id t;
                    b = remark_blip (env_now e 0) (env_uuid e 0) wid i (ss_uid ss) (ct_blip_id t) (next_seq live i) c seed
                in case stored e (db_create_blip (sv_store sv) b) of
                     Err m \<Rightarrow> (Err m, sv, live)
                   | Ok st \<Rightarrow>
                       let live = wavelet_mut i (\<lambda>w. w\<lparr>wl_last_modified := b_last_modified b\<rparr>) (insert_live_blip b live);
                           (live, ch) = broadcast live (sv_chans sv) i None (BlipAddedMsg wid (render_blip b []))
                       in (Ok (), schedule_inbox_update (sv\<lparr>sv_store := st, sv_chans := ch\<rparr>) wid, live))"

definition reply_to_comment ::
  "env \<Rightarrow> server \<Rightarrow> session \<Rightarrow> comment_id \<Rightarrow> delta option \<Rightarrow> unit reply \<times> server" where
  "reply_to_comment e sv ss c cont =
     (case find_comment e sv ss c of
        (Err m, sv) \<Rightarrow> (Err m, sv)
      | (Ok found, sv) \<Rightarrow>
          (case seed_content (env_json_len e) cont of
             Err m \<Rightarrow> (Err m, sv)
           | Ok seed \<Rightarrow> found_then (Ok found, sv) (reply_to_comment_locked e ss c seed)))"

definition resolve_comment_locked ::
  "env \<Rightarrow> session \<Rightarrow> comment_id \<Rightarrow> bool \<Rightarrow> wave_id \<Rightarrow> server \<Rightarrow> live_wave \<Rightarrow> unit reply \<times> server \<times> live_wave" where
  "resolve_comment_locked e ss c want wid sv live =
     (case map_of (lw_comments live) c of
        None \<Rightarrow> (Err not_found, sv, live)
      | Some t \<Rightarrow>
          if \<not> may_access live (ss_uid ss) (ct_wavelet_id t) then (Err not_found, sv, live)
          else case permit live (ss_uid ss) ActResolveComment of
            Err m \<Rightarrow> (Err m, sv, live)
          | Ok _ \<Rightarrow>
              if resolved t = want then (Ok (), sv, live)
              else
                let (by_user, at_time) = (if want then (Some (ss_uid ss), Some (env_now e 0)) else (None, None))
                in case stored e (Ok (db_set_comment_resolved (sv_store sv) c by_user at_time)) of
                     Err m \<Rightarrow> (Err m, sv, live)
                   | Ok st \<Rightarrow>
                       let live = live\<lparr>lw_comments := AList.update c
                             (t\<lparr>ct_resolved_by := by_user, ct_resolved_at := at_time\<rparr>) (lw_comments live)\<rparr>;
                           (live, ch) = broadcast live (sv_chans sv) (ct_wavelet_id t) None
                             (CommentResolvedMsg wid c by_user at_time)
                       in (Ok (), sv\<lparr>sv_store := st, sv_chans := ch\<rparr>, live))"

definition resolve_comment :: "env \<Rightarrow> server \<Rightarrow> session \<Rightarrow> comment_id \<Rightarrow> bool \<Rightarrow> unit reply \<times> server" where
  "resolve_comment e sv ss c want = found_then (find_comment e sv ss c) (resolve_comment_locked e ss c want)"

end
