(* ===== verification/Gal_Dispatch.thy ===== *)
theory Gal_Dispatch
  imports Gal_Handlers
begin

text \<open>
  The rest of the handlers of \<open>crates/gal-server/src/ws.rs\<close>: deletion, titles, modes, membership,
  private replies and carets, and the dispatch of a command; then the life of a connection
  as far as it is not I/O: greeting, metered commands, the containment of a panic, and the
  clean-up when the socket closes.
\<close>

section \<open>Deletion, title and mode\<close>

text \<open>The same message broadcast to several wavelets, or several messages to one.\<close>

definition broadcast_each ::
  "live_wave \<Rightarrow> channels \<Rightarrow> (wavelet_id \<times> server_message) list \<Rightarrow> live_wave \<times> channels" where
  "broadcast_each live ch ms = foldl (\<lambda>(live, ch) (i, m). broadcast live ch i None m) (live, ch) ms"

definition delete_blip_locked ::
  "env \<Rightarrow> session \<Rightarrow> blip_id \<Rightarrow> wave_id \<Rightarrow> server \<Rightarrow> live_wave \<Rightarrow> unit reply \<times> server \<times> live_wave" where
  "delete_blip_locked e ss i wid sv live =
     (case map_of (lw_blips live) i of
        None \<Rightarrow> (Err not_found, sv, live)
      | Some lb \<Rightarrow>
          let wl = b_wavelet_id (lb_meta lb)
          in if \<not> may_access live (ss_uid ss) wl then (Err not_found, sv, live)
             else if b_comment (lb_meta lb) \<noteq> None
             then (Err (error_message Forbidden
                    (lit ''A comment is not deleted on its own. Resolve the thread instead.'')), sv, live)
             else if b_author (lb_meta lb) \<noteq> ss_uid ss
             then (Err (error_message Forbidden (lit ''Only the author can delete a message.'')), sv, live)
             else case permit live (ss_uid ss) ActDelete of
               Err m \<Rightarrow> (Err m, sv, live)
             | Ok _ \<Rightarrow>
                 if list_ex (\<lambda>b. b_parent (lb_meta b) = Some i \<and> b_comment (lb_meta b) = None) (map snd (lw_blips live))
                 then (Err (error_message BadRequest (lit ''Delete the replies to this message first.'')), sv, live)
                 else
                   let threads = map ct_id (filter (\<lambda>c. ct_blip_id c = i) (map snd (lw_comments live)));
                       remarks = map (b_id \<circ> lb_meta) (filter (\<lambda>b. case b_comment (lb_meta b) of
                                   Some c \<Rightarrow> c \<in> set threads | None \<Rightarrow> False) (map snd (lw_blips live)))
                   in case stored e (Ok (db_delete_blip (sv_store sv) i)) of
                        Err m \<Rightarrow> (Err m, sv, live)
                      | Ok st \<Rightarrow>
                          let live = live\<lparr>lw_blips := foldl (\<lambda>bs r. AList.delete r bs) (AList.delete i (lw_blips live)) remarks,
                                          lw_comments := foldl (\<lambda>cs t. AList.delete t cs) (lw_comments live) threads\<rparr>;
                              (live, ch) = broadcast_each live (sv_chans sv)
                                (map (\<lambda>b. (wl, BlipRemovedMsg wid b)) (remarks @ [i]))
                          in (Ok (), schedule_inbox_update (sv\<lparr>sv_store := st, sv_chans := ch\<rparr>) wid, live))"

definition delete_blip :: "env \<Rightarrow> server \<Rightarrow> session \<Rightarrow> blip_id \<Rightarrow> unit reply \<times> server" where
  "delete_blip e sv ss i = found_then (find_blip e sv ss i) (delete_blip_locked e ss i)"

definition set_title_locked ::
  "env \<Rightarrow> session \<Rightarrow> wavelet_id \<Rightarrow> ustring \<Rightarrow> wave_id \<Rightarrow> server \<Rightarrow> live_wave \<Rightarrow> unit reply \<times> server \<times> live_wave" where
  "set_title_locked e ss i title wid sv live =
     (if \<not> may_access live (ss_uid ss) i then (Err not_found, sv, live)
      else case permit live (ss_uid ss) ActRetitle of
        Err m \<Rightarrow> (Err m, sv, live)
      | Ok _ \<Rightarrow>
          (case stored e (Ok (db_set_title (env_now e 0) (sv_store sv) i title)) of
             Err m \<Rightarrow> (Err m, sv, live)
           | Ok st \<Rightarrow>
               let live = wavelet_mut i (\<lambda>w. w\<lparr>wl_title := title\<rparr>) live;
                   (live, ch) = broadcast live (sv_chans sv) i None (TitleChangedMsg wid i title)
               in (Ok (), schedule_inbox_update (sv\<lparr>sv_store := st, sv_chans := ch\<rparr>) wid, live)))"

definition set_title :: "env \<Rightarrow> server \<Rightarrow> session \<Rightarrow> wavelet_id \<Rightarrow> ustring \<Rightarrow> unit reply \<times> server" where
  "set_title e sv ss i title =
     found_then (find_wavelet e sv ss i) (set_title_locked e ss i (normalise_title title))"

definition set_mode_locked ::
  "env \<Rightarrow> session \<Rightarrow> wave_mode \<Rightarrow> wave_id \<Rightarrow> server \<Rightarrow> live_wave \<Rightarrow> unit reply \<times> server \<times> live_wave" where
  "set_mode_locked e ss mode wid sv live =
     (if \<not> may_view live (ss_uid ss) then (Err not_found, sv, live)
      else case permit live (ss_uid ss) ActSetMode of
        Err m \<Rightarrow> (Err m, sv, live)
      | Ok _ \<Rightarrow>
          if w_mode (lw_wave live) = mode then (Ok (), sv, live)
          else
            (case stored e (Ok (db_set_mode (sv_store sv) wid mode)) of
               Err m \<Rightarrow> (Err m, sv, live)
             | Ok st \<Rightarrow>
                 let live = live\<lparr>lw_wave := (lw_wave live)\<lparr>w_mode := mode\<rparr>\<rparr>;
                     (live, ch) = broadcast_each live (sv_chans sv)
                       (map (\<lambda>w. (wl_id w, ModeChangedMsg wid mode)) (lw_wavelets live))
                 in (Ok (), schedule_inbox_update (sv\<lparr>sv_store := st, sv_chans := ch\<rparr>) wid, live)))"

definition set_mode :: "env \<Rightarrow> server \<Rightarrow> session \<Rightarrow> wave_id \<Rightarrow> wave_mode \<Rightarrow> unit reply \<times> server" where
  "set_mode e sv ss wid mode =
     (if wid \<notin> set (ss_subscribed ss) then (Err not_found, sv)
      else case lookup_wave e sv wid of
        (Err m, sv) \<Rightarrow> (Err m, sv)
      | (Ok a, sv) \<Rightarrow> run_locked (set_mode_locked e ss mode wid) sv a)"

section \<open>Membership\<close>

definition not_in_wave_yet :: "ustring \<Rightarrow> server_message" where
  "not_in_wave_yet name =
     error_message Forbidden
       (name @ lit '' is not in this wave yet '' @ [0x2014] @ lit '' add them to the wave first.'')"

definition add_participant_locked ::
  "env \<Rightarrow> session \<Rightarrow> wavelet_id \<Rightarrow> user \<Rightarrow> wave_id \<Rightarrow> server \<Rightarrow> live_wave \<Rightarrow> unit reply \<times> server \<times> live_wave" where
  "add_participant_locked e ss i u wid sv live =
     (if \<not> may_access live (ss_uid ss) i then (Err not_found, sv, live)
      else
        let is_private = (case find_live_wavelet live i of
                            Some w \<Rightarrow> wl_kind w = PrivateReplyKind | None \<Rightarrow> False);
            in_wave = list_ex (\<lambda>w. wl_kind w = Conversation \<and> has_participant w (user_id u)) (lw_wavelets live)
        in if is_private \<and> \<not> in_wave then (Err (not_in_wave_yet (user_display_name u)), sv, live)
           else case find_live_wavelet live i of
             None \<Rightarrow> (Err not_found, sv, live)
           | Some w \<Rightarrow>
               if has_participant w (user_id u) then (Ok (), sv, live)
               else case stored e (Ok (db_add_participant (env_now e 0) (sv_store sv) i (user_id u))) of
                 Err m \<Rightarrow> (Err m, sv, live)
               | Ok st \<Rightarrow>
                   let live = wavelet_mut i (\<lambda>w. w\<lparr>wl_participants := wl_participants w @ [user_id u]\<rparr>) live;
                       live = live\<lparr>lw_user_cache := AList.update (user_id u) (user_public u) (lw_user_cache live)\<rparr>;
                       (live, ch) = broadcast live (sv_chans sv) i None (ParticipantAddedMsg wid i (user_public u))
                   in (Ok (), schedule_inbox_update (sv\<lparr>sv_store := st, sv_chans := ch\<rparr>) wid, live))"

definition add_participant :: "env \<Rightarrow> server \<Rightarrow> session \<Rightarrow> wavelet_id \<Rightarrow> ustring \<Rightarrow> unit reply \<times> server" where
  "add_participant e sv ss i name =
     (case find_wavelet e sv ss i of
        (Err m, sv) \<Rightarrow> (Err m, sv)
      | (Ok found, sv) \<Rightarrow>
          if \<not> env_read e then (Err internal_error, sv)
          else case db_user_by_name (env_lowercase e) (sv_store sv) name of
            None \<Rightarrow> (Err (error_message BadRequest (lit ''No user called '' @ name @ lit ''.'')), sv)
          | Some u \<Rightarrow> found_then (Ok found, sv) (add_participant_locked e ss i u))"

definition without_participant :: "user_id \<Rightarrow> wavelet \<Rightarrow> wavelet" where
  "without_participant u w = w\<lparr>wl_participants := filter (\<lambda>p. p \<noteq> u) (wl_participants w)\<rparr>"

text \<open>The private replies the removed user was in, when they leave the conversation.\<close>

definition cascaded :: "user_id \<Rightarrow> live_wave \<Rightarrow> wavelet_id list" where
  "cascaded u live =
     map wl_id (filter (\<lambda>w. wl_kind w = PrivateReplyKind \<and> has_participant w u) (lw_wavelets live))"

definition leave_private_replies :: "user_id \<Rightarrow> live_wave \<Rightarrow> live_wave" where
  "leave_private_replies u live =
     live\<lparr>lw_wavelets := map (\<lambda>w. if wl_kind w = PrivateReplyKind \<and> has_participant w u
            then without_participant u w else w) (lw_wavelets live)\<rparr>"

definition remove_participant_locked ::
  "env \<Rightarrow> session \<Rightarrow> wavelet_id \<Rightarrow> user_id \<Rightarrow> wave_id \<Rightarrow> server \<Rightarrow> live_wave \<Rightarrow> unit reply \<times> server \<times> live_wave" where
  "remove_participant_locked e ss i u wid sv live =
     (if \<not> may_access live (ss_uid ss) i then (Err not_found, sv, live)
      else if u \<noteq> ss_uid ss \<and> w_creator (lw_wave live) \<noteq> ss_uid ss
      then (Err (error_message Forbidden
             (lit ''Only the person who started this wave can remove someone else.              You can always remove yourself.'')), sv, live)
      else case find_live_wavelet live i of
        None \<Rightarrow> (Err not_found, sv, live)
      | Some w \<Rightarrow>
          if \<not> list_ex (\<lambda>p. p = u) (wl_participants w) then (Ok (), sv, live)
          else if length (wl_participants w) \<le> 1
          then (Err (error_message BadRequest (lit ''A wave needs at least one participant.'')), sv, live)
          else case stored e (Ok (db_remove_participant (sv_store sv) i u)) of
            Err m \<Rightarrow> (Err m, sv, live)
          | Ok st \<Rightarrow>
              let live = wavelet_mut i (without_participant u) live;
                  (live, ch) = broadcast live (sv_chans sv) i None (ParticipantRemovedMsg wid i u);
                  (live, ch) = (if wl_kind w = Conversation
                    then broadcast_each (leave_private_replies u live) ch
                           (map (\<lambda>c. (c, ParticipantRemovedMsg wid c u)) (cascaded u live))
                    else (live, ch));
                  sv = sv\<lparr>sv_store := st, sv_chans := ch\<rparr>;
                  (live, sv) = (if \<not> may_view live u
                    then (live\<lparr>lw_subscribers := filter (\<lambda>(_, s). sub_user s \<noteq> u) (lw_subscribers live)\<rparr>,
                          send_to_user sv u (WaveRemovedMsg wid))
                    else (live, sv))
              in (Ok (), schedule_inbox_update sv wid, live))"

definition remove_participant :: "env \<Rightarrow> server \<Rightarrow> session \<Rightarrow> wavelet_id \<Rightarrow> user_id \<Rightarrow> unit reply \<times> server" where
  "remove_participant e sv ss i u = found_then (find_wavelet e sv ss i) (remove_participant_locked e ss i u)"

definition private_reply_locked ::
  "env \<Rightarrow> session \<Rightarrow> wavelet_id \<Rightarrow> blip_id \<Rightarrow> user_id list \<Rightarrow> wave_id \<Rightarrow> server \<Rightarrow> live_wave \<Rightarrow>
   unit reply \<times> server \<times> live_wave" where
  "private_reply_locked e ss i anchor ids wid sv live =
     (if \<not> may_access live (ss_uid ss) i then (Err not_found, sv, live)
      else case permit live (ss_uid ss) ActPrivateReply of
        Err m \<Rightarrow> (Err m, sv, live)
      | Ok _ \<Rightarrow>
          if \<not> (case map_of (lw_blips live) anchor of Some lb \<Rightarrow> b_wavelet_id (lb_meta lb) = i | None \<Rightarrow> False)
          then (Err not_found, sv, live)
          else
            let parent_members = (case find_live_wavelet live i of Some w \<Rightarrow> wl_participants w | None \<Rightarrow> [])
            in case find (\<lambda>u. u \<notin> set parent_members) ids of
                 Some outsider \<Rightarrow>
                   (Err (not_in_wave_yet (case map_of (lw_user_cache live) outsider of
                       Some p \<Rightarrow> pu_display_name p | None \<Rightarrow> user_id_str outsider)), sv, live)
               | None \<Rightarrow>
                   let ids = ss_uid ss # filter (\<lambda>u. u \<noteq> ss_uid ss) ids;
                       w = \<lparr>wl_id = wavelet_id_new (env_uuid e 0), wl_wave_id = wid, wl_kind = PrivateReplyKind,
                            wl_title = live_title live, wl_participants = ids, wl_anchor_blip = Some anchor,
                            wl_created_at = env_now e 0, wl_last_modified = env_now e 1\<rparr>;
                       b = blip_new (env_now e 2) (env_uuid e 1) wid (wl_id w) (ss_uid ss) None 0
                   in case stored e (db_create_private_reply (sv_store sv) w b) of
                        Err m \<Rightarrow> (Err m, sv, live)
                      | Ok st \<Rightarrow>
                          let live = insert_live_blip b (live\<lparr>lw_wavelets := lw_wavelets live @ [w]\<rparr>);
                              v = \<lparr>wv_id = wl_id w, wv_wave_id = wid, wv_kind = wl_kind w, wv_title = wl_title w,
                                   wv_participants = List.map_filter (map_of (lw_user_cache live)) ids,
                                   wv_anchor_blip = wl_anchor_blip w, wv_created_at = wl_created_at w,
                                   wv_last_modified = wl_last_modified w, wv_blips = [render_blip b []],
                                   wv_comments = []\<rparr>;
                              (live, ch) = broadcast live (sv_chans sv) (wl_id w) None (WaveletAddedMsg wid v)
                          in (Ok (), schedule_inbox_update (sv\<lparr>sv_store := st, sv_chans := ch\<rparr>) wid, live))"

definition private_reply ::
  "env \<Rightarrow> server \<Rightarrow> session \<Rightarrow> wavelet_id \<Rightarrow> blip_id \<Rightarrow> ustring list \<Rightarrow> unit reply \<times> server" where
  "private_reply e sv ss i anchor names =
     (case find_wavelet e sv ss i of
        (Err m, sv) \<Rightarrow> (Err m, sv)
      | (Ok found, sv) \<Rightarrow>
          if \<not> env_read e then (Err internal_error, sv)
          else
            let (ids, missing) = db_resolve_names (env_lowercase e) (sv_store sv) names
            in if missing \<noteq> [] then (Err (no_such_user missing), sv)
               else found_then (Ok found, sv) (private_reply_locked e ss i anchor ids))"

section \<open>Carets\<close>

definition cursor_locked ::
  "session \<Rightarrow> blip_id \<Rightarrow> nat \<Rightarrow> nat \<Rightarrow> wave_id \<Rightarrow> server \<Rightarrow> live_wave \<Rightarrow> unit reply \<times> server \<times> live_wave" where
  "cursor_locked ss b index len wid sv live =
     (case map_of (lw_blips live) b of
        None \<Rightarrow> (Ok (), sv, live)
      | Some lb \<Rightarrow>
          let i = b_wavelet_id (lb_meta lb)
          in if \<not> may_access live (ss_uid ss) i then (Ok (), sv, live)
             else
               let live = live\<lparr>lw_subscribers := map (\<lambda>(c, s). if c = ss_conn_id ss
                     then (c, s\<lparr>sub_editing := Some b\<rparr>) else (c, s)) (lw_subscribers live)\<rparr>;
                   (live, ch) = broadcast live (sv_chans sv) i (Some (ss_conn_id ss))
                     (CursorMsg wid b (ss_uid ss) index len);
                   (live, ch) = broadcast_presence live ch wid
               in (Ok (), sv\<lparr>sv_chans := ch\<rparr>, live))"

definition cursor :: "env \<Rightarrow> server \<Rightarrow> session \<Rightarrow> wave_id \<Rightarrow> blip_id \<Rightarrow> nat \<Rightarrow> nat \<Rightarrow> unit reply \<times> server" where
  "cursor e sv ss wid b index len =
     (if wid \<notin> set (ss_subscribed ss) then (Ok (), sv)
      else case open_resident e sv wid of
        (Ok (Some a), sv) \<Rightarrow> run_locked (cursor_locked ss b index len wid) sv a
      | (_, sv) \<Rightarrow> (Ok (), sv))"

section \<open>Dispatch\<close>

definition keep_session :: "session \<Rightarrow> unit reply \<times> server \<Rightarrow> unit reply \<times> server \<times> session" where
  "keep_session ss r = (fst r, snd r, ss)"

definition mark_read :: "env \<Rightarrow> server \<Rightarrow> session \<Rightarrow> wave_id \<Rightarrow> unit reply \<times> server" where
  "mark_read e sv ss wid =
     (case bind_result (require_participant e sv ss wid)
             (\<lambda>_. stored e (Ok (db_mark_wave_read (sv_store sv) (ss_uid ss) wid))) of
        Err m \<Rightarrow> (Err m, sv)
      | Ok st \<Rightarrow> (Ok (), send_inbox_row e (sv\<lparr>sv_store := st\<rparr>) ss wid))"

definition change_flags :: "env \<Rightarrow> server \<Rightarrow> session \<Rightarrow> wave_id \<Rightarrow> wave_flags \<Rightarrow> unit reply \<times> server" where
  "change_flags e sv ss wid flags =
     (case bind_result (require_participant e sv ss wid)
             (\<lambda>_. stored e (Ok (db_set_flags (sv_store sv) (ss_uid ss) wid flags))) of
        Err m \<Rightarrow> (Err m, sv)
      | Ok st \<Rightarrow> (Ok (), send_inbox_row e (sv\<lparr>sv_store := st\<rparr>) ss wid))"

definition request_playback :: "env \<Rightarrow> server \<Rightarrow> session \<Rightarrow> wave_id \<Rightarrow> unit reply \<times> server" where
  "request_playback e sv ss wid =
     (case require_participant e sv ss wid of
        Err m \<Rightarrow> (Err m, sv)
      | Ok _ \<Rightarrow> (Ok (), session_send sv ss (PlaybackMsg wid (db_playback (sv_store sv) (ss_uid ss) wid))))"

definition search :: "env \<Rightarrow> server \<Rightarrow> session \<Rightarrow> ustring \<Rightarrow> unit reply \<times> server" where
  "search e sv ss query =
     (if \<not> env_read e then (Err internal_error, sv)
      else (Ok (), session_send sv ss (SearchResultsMsg query
              (db_search (env_alnum e) (env_fts e) (sv_store sv) (ss_uid ss) query))))"

definition dispatch :: "env \<Rightarrow> server \<Rightarrow> session \<Rightarrow> client_message \<Rightarrow> unit reply \<times> server \<times> session" where
  "dispatch e sv ss command =
     (case command of
        Ping \<Rightarrow> (Ok (), session_send sv ss PongMsg, ss)
      | Open wid \<Rightarrow> open_wave e sv ss wid
      | Close wid \<Rightarrow> (let (sv, ss) = leave_wave e sv ss wid in (Ok (), sv, ss))
      | CreateWave title names cont mode \<Rightarrow> create_wave e sv ss title names cont mode
      | Submit b revn d o_id \<Rightarrow> keep_session ss
          (submit e sv ss \<lparr>os_blip_id = b, os_revision = revn, os_delta = d, os_op_id = o_id\<rparr>)
      | CreateBlip i parent cont \<Rightarrow> keep_session ss (create_blip e sv ss i parent cont)
      | DeleteBlip b \<Rightarrow> keep_session ss (delete_blip e sv ss b)
      | SetTitle i title \<Rightarrow> keep_session ss (set_title e sv ss i title)
      | SetMode wid mode \<Rightarrow> keep_session ss (set_mode e sv ss wid mode)
      | AddParticipant i name \<Rightarrow> keep_session ss (add_participant e sv ss i name)
      | RemoveParticipant i u \<Rightarrow> keep_session ss (remove_participant e sv ss i u)
      | PrivateReply i anchor names \<Rightarrow> keep_session ss (private_reply e sv ss i anchor names)
      | CreateComment i b c cont \<Rightarrow> keep_session ss (create_comment e sv ss i b c cont)
      | ReplyToComment c cont \<Rightarrow> keep_session ss (reply_to_comment e sv ss c cont)
      | ResolveComment c want \<Rightarrow> keep_session ss (resolve_comment e sv ss c want)
      | Cursor wid b index len \<Rightarrow> keep_session ss (cursor e sv ss wid b index len)
      | MarkRead wid \<Rightarrow> keep_session ss (mark_read e sv ss wid)
      | SetFlags wid flags \<Rightarrow> keep_session ss (change_flags e sv ss wid flags)
      | RequestPlayback wid \<Rightarrow> keep_session ss (request_playback e sv ss wid)
      | Search query \<Rightarrow> keep_session ss (search e sv ss query))"

section \<open>The life of a connection\<close>

text \<open>One parsed command of the read loop: metered, dispatched, and the refusal sent back.\<close>

definition handle_command :: "env \<Rightarrow> rat \<Rightarrow> server \<Rightarrow> session \<Rightarrow> client_message \<Rightarrow> server \<times> session" where
  "handle_command e t sv ss command =
     (let (allowed, sv) = check_command_rate sv t (ss_uid ss) command
      in if \<not> allowed then (session_send sv ss (over_allowance command), ss)
         else (case dispatch e sv ss command of
                 (Ok _, sv, ss) \<Rightarrow> (sv, ss)
               | (Err m, sv, ss) \<Rightarrow> (session_send sv ss m, ss)))"

text \<open>A command that panicked: the waves the connection watches are thrown away.\<close>

definition contain_panic :: "server \<Rightarrow> session \<Rightarrow> server" where
  "contain_panic sv ss =
     session_send (foldl evict_after_panic sv (ss_subscribed ss)) ss
       (error_message Internal (lit ''Something went wrong handling that. Reconnecting.''))"

text \<open>A socket that closed: leave every wave, then drop the registration.\<close>

definition close_connection :: "env \<Rightarrow> server \<Rightarrow> session \<Rightarrow> server" where
  "close_connection e sv ss =
     unregister_conn
       (fst (foldl (\<lambda>(sv, ss) w. leave_wave e sv ss w) (sv, ss) (ss_subscribed ss))) (ss_conn_id ss)"

end
