(* ===== verification/Gal_Membership.thy ===== *)
theory Gal_Membership
  imports Gal_Dispatch
begin

text \<open>
  Who is in a wave: an abstract specification of membership, and the storage operations and
  the resident wave as two implementations of it. The abstract state of a wave is the set of
  its circles, one per wavelet: its kind, its title and the people in it. The private replies
  of a wave are confined to the people of its conversation, which the specification's rules
  keep and everything else relies on.
\<close>

section \<open>The specification\<close>

record circle =
  ci_id :: wavelet_id
  ci_kind :: wavelet_kind
  ci_title :: ustring
  ci_members :: "user_id set"

definition change_circle :: "wavelet_id \<Rightarrow> (circle \<Rightarrow> circle) \<Rightarrow> circle \<Rightarrow> circle" where
  "change_circle i f c = (if ci_id c = i then f c else c)"

definition join :: "user_id \<Rightarrow> circle \<Rightarrow> circle" where
  "join u c = c\<lparr>ci_members := insert u (ci_members c)\<rparr>"

definition part :: "user_id \<Rightarrow> circle \<Rightarrow> circle" where
  "part u c = c\<lparr>ci_members := ci_members c - {u}\<rparr>"

text \<open>Leaving the conversation takes every private reply along.\<close>

definition depart :: "wavelet_id \<Rightarrow> user_id \<Rightarrow> circle \<Rightarrow> circle" where
  "depart i u c = (if ci_id c = i \<or> ci_kind c = PrivateReplyKind then part u c else c)"

text \<open>What \<open>actor\<close> may do in a wave started by \<open>creator\<close>.\<close>

inductive circle_step :: "user_id \<Rightarrow> user_id \<Rightarrow> circle set \<Rightarrow> circle set \<Rightarrow> bool"
  for creator actor where
  invite: "c \<in> R \<Longrightarrow> actor \<in> ci_members c \<Longrightarrow>
    ci_kind c = Conversation \<or> (\<exists>d \<in> R. ci_kind d = Conversation \<and> u \<in> ci_members d) \<Longrightarrow>
    circle_step creator actor R (change_circle (ci_id c) (join u) ` R)"
| leave: "c \<in> R \<Longrightarrow> actor \<in> ci_members c \<Longrightarrow> actor = u \<or> actor = creator \<Longrightarrow>
    ci_kind c = Conversation \<Longrightarrow> \<not> ci_members c \<subseteq> {u} \<Longrightarrow>
    circle_step creator actor R (depart (ci_id c) u ` R)"
| leave_private: "c \<in> R \<Longrightarrow> actor \<in> ci_members c \<Longrightarrow> actor = u \<or> actor = creator \<Longrightarrow>
    ci_kind c = PrivateReplyKind \<Longrightarrow> \<not> ci_members c \<subseteq> {u} \<Longrightarrow>
    circle_step creator actor R (change_circle (ci_id c) (part u) ` R)"
| retitle: "c \<in> R \<Longrightarrow> actor \<in> ci_members c \<Longrightarrow>
    circle_step creator actor R (change_circle (ci_id c) (ci_title_update (\<lambda>_. t)) ` R)"
| whisper: "c \<in> R \<Longrightarrow> actor \<in> M \<Longrightarrow> M \<subseteq> ci_members c \<Longrightarrow> i \<notin> ci_id ` R \<Longrightarrow>
    circle_step creator actor R
      (insert \<lparr>ci_id = i, ci_kind = PrivateReplyKind, ci_title = t, ci_members = M\<rparr> R)"

text \<open>A wave that comes into being is one conversation with its creator in it.\<close>

definition founded :: "user_id \<Rightarrow> circle set \<Rightarrow> bool" where
  "founded creator R \<longleftrightarrow> (\<exists>c. R = {c} \<and> ci_kind c = Conversation \<and> creator \<in> ci_members c)"

definition confined :: "circle set \<Rightarrow> bool" where
  "confined R \<longleftrightarrow> (\<forall>c \<in> R. ci_kind c = PrivateReplyKind \<longrightarrow>
     (\<forall>u \<in> ci_members c. \<exists>d \<in> R. ci_kind d = Conversation \<and> u \<in> ci_members d))"

text \<open>A wave has one conversation, which is never left without anybody in it.\<close>

definition rooted :: "circle set \<Rightarrow> bool" where
  "rooted R \<longleftrightarrow> (\<forall>c \<in> R. ci_kind c = Conversation \<longrightarrow>
     ci_members c \<noteq> {} \<and> (\<forall>d \<in> R. ci_kind d = Conversation \<longrightarrow> ci_id d = ci_id c))"

lemma change_fields [simp]:
  "ci_id (join u c) = ci_id c" "ci_kind (join u c) = ci_kind c" "ci_members (join u c) = insert u (ci_members c)"
  "ci_id (part u c) = ci_id c" "ci_kind (part u c) = ci_kind c" "ci_members (part u c) = ci_members c - {u}"
  "ci_id (depart i u c) = ci_id c" "ci_kind (depart i u c) = ci_kind c"
  "ci_title (join u c) = ci_title c" "ci_title (part u c) = ci_title c" "ci_title (depart i u c) = ci_title c"
  by (simp_all add: join_def part_def depart_def)

lemma change_circle_fields [simp]:
  "(\<And>c. ci_id (f c) = ci_id c) \<Longrightarrow> ci_id (change_circle i f c) = ci_id c"
  "(\<And>c. ci_kind (f c) = ci_kind c) \<Longrightarrow> ci_kind (change_circle i f c) = ci_kind c"
  by (simp_all add: change_circle_def)

text \<open>Confinement, by the circles people are in: it is what every rule has to keep.\<close>

lemma confinedI:
  assumes "\<And>c u. c \<in> R \<Longrightarrow> ci_kind c = PrivateReplyKind \<Longrightarrow> u \<in> ci_members c \<Longrightarrow>
      \<exists>d \<in> R. ci_kind d = Conversation \<and> u \<in> ci_members d"
  shows "confined R"
  using assms by (auto simp: confined_def)

lemma confinedD:
  "confined R \<Longrightarrow> c \<in> R \<Longrightarrow> u \<in> ci_members c \<Longrightarrow> \<exists>d \<in> R. ci_kind d = Conversation \<and> u \<in> ci_members d"
  by (cases "ci_kind c") (auto simp: confined_def)

lemma depart_members: "u' \<in> ci_members (depart i u c) \<longleftrightarrow>
    u' \<in> ci_members c \<and> \<not> (u' = u \<and> (ci_id c = i \<or> ci_kind c = PrivateReplyKind))"
  by (auto simp: depart_def)

lemma change_members:
  "u' \<in> ci_members (change_circle i (join u) c) \<longleftrightarrow> u' \<in> ci_members c \<or> (ci_id c = i \<and> u' = u)"
  "u' \<in> ci_members (change_circle i (part u) c) \<longleftrightarrow> u' \<in> ci_members c \<and> \<not> (ci_id c = i \<and> u' = u)"
  "ci_members (change_circle i (ci_title_update f) c) = ci_members c"
  by (auto simp: change_circle_def)

lemma rootedD: "rooted R \<Longrightarrow> c \<in> R \<Longrightarrow> ci_kind c = Conversation \<Longrightarrow> ci_members c \<noteq> {}"
  unfolding rooted_def by blast

lemma rooted_image:
  assumes "rooted R" "\<And>c. c \<in> R \<Longrightarrow> ci_id (f c) = ci_id c \<and> ci_kind (f c) = ci_kind c"
    "\<And>c. c \<in> R \<Longrightarrow> ci_kind c = Conversation \<Longrightarrow> ci_members (f c) \<noteq> {}"
  shows "rooted (f ` R)"
  unfolding rooted_def
proof (intro ballI impI, elim imageE, intro conjI)
  fix x c assume c: "ci_kind x = Conversation" "x = f c" "c \<in> R"
  with assms(2) have k: "ci_kind c = Conversation" by metis
  with c assms(3) show "ci_members x \<noteq> {}" by blast
  show "\<forall>d \<in> f ` R. ci_kind d = Conversation \<longrightarrow> ci_id d = ci_id x"
  proof (intro ballI impI, elim imageE)
    fix y d assume d: "ci_kind y = Conversation" "y = f d" "d \<in> R"
    with assms(2) have "ci_kind d = Conversation" by metis
    with assms(1) c(3) d(3) k have "ci_id d = ci_id c" unfolding rooted_def by blast
    with assms(2) c d show "ci_id y = ci_id x" by metis
  qed
qed

lemma circle_step_rooted:
  assumes "circle_step creator actor R R'" "rooted R" "inj_on ci_id R"
  shows "rooted R'"
  using assms
proof (induction rule: circle_step.induct)
  case (invite c R u)
  show ?case by (rule rooted_image [OF invite(4)]) (use rootedD [OF invite(4)] in \<open>auto simp: change_circle_def\<close>)
next
  case (leave c R u)
  have "ci_members (depart (ci_id c) u d) \<noteq> {}" if "d \<in> R" "ci_kind d = Conversation" for d
    using that leave(1,5) rootedD [OF leave(6)] inj_onD [OF leave(7), of c d]
    by (cases "ci_id d = ci_id c") (auto simp: depart_def)
  then show ?case by (intro rooted_image [OF leave(6)]) simp_all
next
  case (leave_private c R u)
  have "ci_id d \<noteq> ci_id c" if "d \<in> R" "ci_kind d = Conversation" for d
    using that leave_private(1,4) inj_onD [OF leave_private(7), of c d] by auto
  then have "ci_members (change_circle (ci_id c) (part u) d) \<noteq> {}" if "d \<in> R" "ci_kind d = Conversation" for d
    using that rootedD [OF leave_private(6)] by (simp add: change_circle_def)
  then show ?case by (intro rooted_image [OF leave_private(6)]) simp_all
next
  case (retitle c R t)
  show ?case by (rule rooted_image [OF retitle(3)]) (use rootedD [OF retitle(3)] in \<open>auto simp: change_circle_def\<close>)
next
  case (whisper c R M i t)
  then show ?case unfolding rooted_def by (metis circle.select_convs(2) insertE wavelet_kind.distinct(1))
qed

lemma circle_step_confined:
  assumes "circle_step creator actor R R'" "confined R" "inj_on ci_id R"
  shows "confined R' \<and> inj_on ci_id R'"
  using assms
proof (induction rule: circle_step.induct)
  case (invite c R u)
  have "inj_on ci_id (change_circle (ci_id c) (join u) ` R)"
    using invite(5) by (auto simp: inj_on_def)
  moreover have "confined (change_circle (ci_id c) (join u) ` R)"
    using invite(1-4) inj_onD [OF invite(5)]
    by (intro confinedI) (fastforce simp: change_members dest: confinedD)
  ultimately show ?case by simp
next
  case (leave c R u)
  have "inj_on ci_id (depart (ci_id c) u ` R)" using leave(7) by (auto simp: inj_on_def)
  moreover have "confined (depart (ci_id c) u ` R)"
    using leave(6) by (intro confinedI) (fastforce simp: depart_members dest: confinedD)
  ultimately show ?case by simp
next
  case (leave_private c R u)
  have "inj_on ci_id (change_circle (ci_id c) (part u) ` R)" using leave_private(7) by (auto simp: inj_on_def)
  moreover have "confined (change_circle (ci_id c) (part u) ` R)"
    using leave_private(1,4,6) inj_onD [OF leave_private(7)]
    by (intro confinedI) (fastforce simp: change_members dest: confinedD)
  ultimately show ?case by simp
next
  case (retitle c R t)
  have "inj_on ci_id (change_circle (ci_id c) (ci_title_update (\<lambda>_. t)) ` R)"
    using retitle(4) by (auto simp: inj_on_def change_circle_def split: if_splits)
  moreover have "confined (change_circle (ci_id c) (ci_title_update (\<lambda>_. t)) ` R)"
    using retitle(3) by (intro confinedI) (fastforce simp: change_members dest: confinedD)
  ultimately show ?case by simp
next
  case (whisper c R M i t)
  have "confined (insert \<lparr>ci_id = i, ci_kind = PrivateReplyKind, ci_title = t, ci_members = M\<rparr> R)"
    using whisper(1,3,5) by (intro confinedI) (auto dest: confinedD)
  with whisper(4,6) show ?case by (auto simp: inj_on_def)
qed

section \<open>Storage as an implementation\<close>

definition circle_of :: "store \<Rightarrow> wavelet \<Rightarrow> circle" where
  "circle_of st w = \<lparr>ci_id = wl_id w, ci_kind = wl_kind w, ci_title = wl_title w,
     ci_members = {u. member st u (wl_id w)}\<rparr>"

definition stored_circles :: "store \<Rightarrow> wave_id \<Rightarrow> circle set" where
  "stored_circles st wid = circle_of st ` {w \<in> set (st_wavelets st). wl_wave_id w = wid}"

text \<open>The keys and foreign keys of the schema, and confinement.\<close>

definition keys_ok :: "store \<Rightarrow> bool" where
  "keys_ok st \<longleftrightarrow> distinct (map wl_id (st_wavelets st))
     \<and> (\<forall>w \<in> set (st_wavelets st). wl_wave_id w \<in> wr_id ` set (st_waves st))
     \<and> (\<forall>p \<in> set (st_participants st). fst p \<in> wl_id ` set (st_wavelets st))
     \<and> distinct (map (\<lambda>p. (fst p, fst (snd p))) (st_participants st)) \<and> distinct (map user_id (st_users st))"

definition members_ok :: "store \<Rightarrow> bool" where
  "members_ok st \<longleftrightarrow> keys_ok st \<and> (\<forall>wid. confined (stored_circles st wid) \<and> rooted (stored_circles st wid))"

lemma member_iff: "member st u i \<longleftrightarrow> (\<exists>t. (i, u, t) \<in> set (st_participants st))"
  by (force simp: member_def list_ex_iff)

lemma participants_of_members: "set (participants_of st i) = {u. member st u i}"
  by (force simp: participants_of_def member_iff image_iff)

lemma circle_of_fields [simp]:
  "ci_id (circle_of st w) = wl_id w" "ci_kind (circle_of st w) = wl_kind w" "ci_title (circle_of st w) = wl_title w"
  "ci_members (circle_of st w) = {u. member st u (wl_id w)}"
  by (simp_all add: circle_of_def)

lemma wl_id_inj: "keys_ok st \<Longrightarrow> w \<in> set (st_wavelets st) \<Longrightarrow> w' \<in> set (st_wavelets st) \<Longrightarrow> wl_id w = wl_id w' \<Longrightarrow> w = w'"
  by (auto simp: keys_ok_def distinct_map dest: inj_onD)

lemma stored_circles_inj: "keys_ok st \<Longrightarrow> inj_on ci_id (stored_circles st wid)"
  by (auto simp: stored_circles_def inj_on_def dest: wl_id_inj)

text \<open>A wavelet id belongs to one wave.\<close>

lemma stored_circles_disjoint:
  assumes "keys_ok st" "i \<in> ci_id ` stored_circles st wid" "i \<in> ci_id ` stored_circles st wid'"
  shows "wid' = wid"
  using assms by (auto simp: stored_circles_def dest: wl_id_inj)

text \<open>What does not touch membership: everything but titles, members and the set of wavelets.\<close>

definition shape :: "store \<Rightarrow> wavelet list \<times> (wavelet_id \<times> user_id \<times> timestamp) list \<times> wave_row list \<times> user list" where
  "shape st = (map (wl_last_modified_update (\<lambda>_. 0)) (st_wavelets st), st_participants st, st_waves st, st_users st)"

lemma same_shape:
  assumes "shape st' = shape st"
  shows "stored_circles st' wid = stored_circles st wid" "keys_ok st' = keys_ok st"
    "db_wave st' wid = db_wave st wid"
proof -
  have m: "map (wl_last_modified_update (\<lambda>_. 0)) (st_wavelets st') = map (wl_last_modified_update (\<lambda>_. 0)) (st_wavelets st)"
    and p: "st_participants st' = st_participants st" and w: "st_waves st' = st_waves st"
    and us: "st_users st' = st_users st"
    using assms by (simp_all add: shape_def)
  have f: "map f (st_wavelets st') = map f (st_wavelets st)"
    if "\<And>w. f (wl_last_modified_update (\<lambda>_. 0) w) = f w" for f :: "wavelet \<Rightarrow> 'b"
    using arg_cong [OF m, of "map f"] that by (simp add: comp_def)
  have ids: "map wl_id (st_wavelets st') = map wl_id (st_wavelets st)"
    "map wl_wave_id (st_wavelets st') = map wl_wave_id (st_wavelets st)" by (rule f, simp)+
  have mem: "member st' = member st" by (intro ext) (simp add: member_def p)
  have "map (\<lambda>w. (wl_wave_id w, circle_of st w)) (st_wavelets st') = map (\<lambda>w. (wl_wave_id w, circle_of st w)) (st_wavelets st)"
    by (rule f) (simp add: circle_of_def)
  then have "(\<lambda>w. (wl_wave_id w, circle_of st w)) ` set (st_wavelets st') = (\<lambda>w. (wl_wave_id w, circle_of st w)) ` set (st_wavelets st)"
    by (metis list.set_map)
  moreover have "stored_circles s wid = {c. (wid, c) \<in> (\<lambda>w. (wl_wave_id w, circle_of s w)) ` set (st_wavelets s)}" for s
    by (auto simp: stored_circles_def)
  moreover have "circle_of st' = circle_of st" by (intro ext) (simp add: circle_of_def mem)
  ultimately show "stored_circles st' wid = stored_circles st wid" by simp
  have "wl_wave_id ` set (st_wavelets st') = wl_wave_id ` set (st_wavelets st)"
    "wl_id ` set (st_wavelets st') = wl_id ` set (st_wavelets st)"
    using ids by (metis list.set_map)+
  moreover have "keys_ok s \<longleftrightarrow> distinct (map wl_id (st_wavelets s)) \<and> wl_wave_id ` set (st_wavelets s) \<subseteq> wr_id ` set (st_waves s)
      \<and> fst ` set (st_participants s) \<subseteq> wl_id ` set (st_wavelets s)
      \<and> distinct (map (\<lambda>p. (fst p, fst (snd p))) (st_participants s)) \<and> distinct (map user_id (st_users s))" for s
    by (auto simp: keys_ok_def)
  ultimately show "keys_ok st' = keys_ok st" using ids p w us by simp
  show "db_wave st' wid = db_wave st wid" by (simp add: db_wave_def w)
qed

lemma members_ok_shape: "shape st' = shape st \<Longrightarrow> members_ok st' = members_ok st"
  unfolding members_ok_def by (metis same_shape(1,2))

lemma touch_wavelet_shape [simp]: "shape (touch_wavelet st i ts) = shape st"
  by (auto simp: shape_def touch_wavelet_def)

lemma insert_seeded_blip_shape: "insert_seeded_blip st b = Ok st' \<Longrightarrow> shape st' = shape st"
  by (auto simp: insert_seeded_blip_def bind_result_Ok_iff insert_blip_row_def insert_op_def index_blip_def
      split: if_splits) (simp_all add: shape_def touch_wavelet_def comp_def)

lemma db_commit_op_shape: "db_commit_op st b d author ts op_id = Ok st' \<Longrightarrow> shape st' = shape st"
  by (auto simp: db_commit_op_def bind_result_Ok_iff insert_op_def index_blip_def Let_def split: if_splits)
     (simp_all add: shape_def touch_wavelet_def comp_def)

lemma content_shape:
  "db_create_blip st b = Ok st' \<Longrightarrow> shape st' = shape st"
  "db_create_comment st t b = Ok st' \<Longrightarrow> shape st' = shape st"
  "shape (db_set_comment_resolved st c by_user at_time) = shape st"
  "shape (db_delete_blip st i) = shape st"
  "shape (db_mark_wave_read st u wid) = shape st"
  "shape (db_set_flags st u wid f) = shape st"
proof -
  show "db_create_blip st b = Ok st' \<Longrightarrow> shape st' = shape st"
    by (simp add: db_create_blip_def insert_seeded_blip_shape)
  show "db_create_comment st t b = Ok st' \<Longrightarrow> shape st' = shape st"
    by (auto simp: db_create_comment_def split: if_splits dest!: insert_seeded_blip_shape) (simp add: shape_def)
qed (simp_all add: shape_def db_set_comment_resolved_def db_delete_blip_def db_mark_wave_read_def db_set_flags_def Let_def)

text \<open>The statements that do touch it, each as a step on circles.\<close>

lemma stored_circles_map:
  assumes "st_wavelets st' = map f (st_wavelets st)" "\<And>w. wl_wave_id (f w) = wl_wave_id w"
    "\<And>w. w \<in> set (st_wavelets st) \<Longrightarrow> wl_wave_id w = wid \<Longrightarrow> circle_of st' (f w) = g (circle_of st w)"
  shows "stored_circles st' wid = g ` stored_circles st wid"
proof -
  have "{w \<in> set (st_wavelets st'). wl_wave_id w = wid} = f ` {w \<in> set (st_wavelets st). wl_wave_id w = wid}"
    by (auto simp: assms(1,2))
  then show ?thesis using assms(3) by (auto simp: stored_circles_def image_image intro!: image_cong)
qed

lemma stored_circles_add:
  "stored_circles (db_add_participant now st i u) wid = change_circle i (join u) ` stored_circles st wid"
proof (rule stored_circles_map [where f = id])
  show "circle_of (db_add_participant now st i u) (id w) = change_circle i (join u) (circle_of st w)" for w
    by (auto simp: circle_of_def change_circle_def join_def member_def db_add_participant_def list_ex_iff)
qed (simp_all add: db_add_participant_def)

lemma stored_circles_title:
  "stored_circles (db_set_title now st i t) wid = change_circle i (ci_title_update (\<lambda>_. t)) ` stored_circles st wid"
proof (rule stored_circles_map)
  show "circle_of (db_set_title now st i t) (if wl_id w = i then w\<lparr>wl_title := t, wl_last_modified := now\<rparr> else w)
      = change_circle i (ci_title_update (\<lambda>_. t)) (circle_of st w)" for w
    by (auto simp: circle_of_def change_circle_def member_def db_set_title_def)
qed (simp_all add: db_set_title_def)

lemma private_replies_under_iff:
  assumes "keys_ok st" "w \<in> set (st_wavelets st)" "wl_id w = i" "v \<in> set (st_wavelets st)"
  shows "wl_id v \<in> set (private_replies_under st i) \<longleftrightarrow>
    wl_kind w = Conversation \<and> wl_kind v = PrivateReplyKind \<and> wl_wave_id v = wl_wave_id w"
proof -
  let ?P = "\<lambda>c. wl_kind c = PrivateReplyKind \<and>
      (\<exists>p \<in> set (st_wavelets st). wl_id p = i \<and> wl_kind p = Conversation \<and> wl_wave_id p = wl_wave_id c)"
  have "wl_id v \<in> set (private_replies_under st i) \<longleftrightarrow> wl_id v \<in> wl_id ` {c \<in> set (st_wavelets st). ?P c}"
    by (simp add: private_replies_under_def list_ex_iff)
  also have "\<dots> \<longleftrightarrow> v \<in> {c \<in> set (st_wavelets st). ?P c}"
    using assms(1,4) by (intro inj_on_image_mem_iff [of _ "set (st_wavelets st)"]) (auto simp: keys_ok_def distinct_map)
  also have "\<dots> \<longleftrightarrow> ?P v" using assms(4) by simp
  also have "(\<exists>p \<in> set (st_wavelets st). wl_id p = i \<and> wl_kind p = Conversation \<and> wl_wave_id p = wl_wave_id v) \<longleftrightarrow>
      wl_kind w = Conversation \<and> wl_wave_id w = wl_wave_id v"
    using assms(2,3) by (metis wl_id_inj [OF assms(1)])
  finally show ?thesis by (metis (no_types, lifting))
qed

lemma member_remove:
  "member (db_remove_participant st i u) v j \<longleftrightarrow>
     member st v j \<and> \<not> (v = u \<and> (j = i \<or> j \<in> set (private_replies_under st i)))"
  by (auto simp: member_iff db_remove_participant_def)

lemma stored_circles_remove:
  assumes "keys_ok st" "w \<in> set (st_wavelets st)" "wl_id w = i"
  shows "stored_circles (db_remove_participant st i u) wid =
    (if wl_wave_id w \<noteq> wid then stored_circles st wid
     else (if wl_kind w = Conversation then depart i u else change_circle i (part u)) ` stored_circles st wid)"
proof -
  let ?st = "db_remove_participant st i u"
  let ?g = "if wl_wave_id w \<noteq> wid then id
    else if wl_kind w = Conversation then depart i u else change_circle i (part u)"
  have "stored_circles ?st wid = ?g ` stored_circles st wid"
  proof (rule stored_circles_map [where f = id])
    fix v assume v: "v \<in> set (st_wavelets st)" "wl_wave_id v = wid"
    have "wl_id v = i \<Longrightarrow> v = w" using wl_id_inj [OF assms(1) v(1) assms(2)] assms(3) by simp
    then show "circle_of ?st (id v) = ?g (circle_of st v)"
      using v(2) private_replies_under_iff [OF assms v(1)]
      by (auto simp: circle_of_def member_remove depart_def change_circle_def part_def)
  qed (simp_all add: db_remove_participant_def)
  then show ?thesis by simp
qed

lemma insert_participants:
  fixes st :: store
  defines "row i t \<equiv> (\<lambda>st u. if list_ex (\<lambda>p. fst p = i \<and> fst (snd p) = u) (st_participants st) then st
     else st\<lparr>st_participants := st_participants st @ [(i, u, t)]\<rparr>)"
  shows "member (foldl (row i t) st us) v j \<longleftrightarrow> member st v j \<or> (j = i \<and> v \<in> set us)"
    "st_wavelets (foldl (row i t) st us) = st_wavelets st" "st_waves (foldl (row i t) st us) = st_waves st"
    "fst ` set (st_participants (foldl (row i t) st us)) \<subseteq> insert i (fst ` set (st_participants st))"
    "st_users (foldl (row i t) st us) = st_users st"
    "distinct (map (\<lambda>p. (fst p, fst (snd p))) (st_participants st)) \<Longrightarrow>
       distinct (map (\<lambda>p. (fst p, fst (snd p))) (st_participants (foldl (row i t) st us)))"
proof -
  have step: "member (row i t st u) v j \<longleftrightarrow> member st v j \<or> (j = i \<and> v = u)" for st u v j
    by (auto simp: row_def member_def list_ex_iff)
  show "member (foldl (row i t) st us) v j \<longleftrightarrow> member st v j \<or> (j = i \<and> v \<in> set us)"
    by (induction us arbitrary: st) (auto simp: step)
  have "st_wavelets (row i t st u) = st_wavelets st" "st_waves (row i t st u) = st_waves st"
    "fst ` set (st_participants (row i t st u)) \<subseteq> insert i (fst ` set (st_participants st))"
    "st_users (row i t st u) = st_users st"
    "distinct (map (\<lambda>p. (fst p, fst (snd p))) (st_participants st)) \<Longrightarrow>
       distinct (map (\<lambda>p. (fst p, fst (snd p))) (st_participants (row i t st u)))" for st u
    by (auto simp: row_def list_ex_iff)
  note rows = this
  show "st_wavelets (foldl (row i t) st us) = st_wavelets st" "st_waves (foldl (row i t) st us) = st_waves st"
    "fst ` set (st_participants (foldl (row i t) st us)) \<subseteq> insert i (fst ` set (st_participants st))"
    "st_users (foldl (row i t) st us) = st_users st"
    "distinct (map (\<lambda>p. (fst p, fst (snd p))) (st_participants st)) \<Longrightarrow>
       distinct (map (\<lambda>p. (fst p, fst (snd p))) (st_participants (foldl (row i t) st us)))"
  proof (induction us arbitrary: st)
    case (Cons u us)
    { case 1 show ?case using Cons(1) rows(1) by simp }
    { case 2 show ?case using Cons(2) rows(2) by simp }
    { case 3 show ?case using Cons(3) [of "row i t st u"] rows(3) [of st u] by auto }
    { case 4 show ?case using Cons(4) rows(4) by simp }
    { case 5 then show ?case using Cons(5) [of "row i t st u"] rows(5) [of st u] by simp }
  qed (simp_all add: subset_insertI)
qed

lemma insert_wavelet_effect:
  assumes "insert_wavelet st w = Ok st'" "keys_ok st"
  shows "wl_id w \<notin> wl_id ` set (st_wavelets st)"
    "st_wavelets st' = st_wavelets st @ [w\<lparr>wl_participants := []\<rparr>]" "st_waves st' = st_waves st"
    "fst ` set (st_participants st') \<subseteq> insert (wl_id w) (fst ` set (st_participants st))"
    "stored_circles st' wid = (if wl_wave_id w = wid
       then insert \<lparr>ci_id = wl_id w, ci_kind = wl_kind w, ci_title = wl_title w, ci_members = set (wl_participants w)\<rparr>
              (stored_circles st wid)
       else stored_circles st wid)"
    "st_users st' = st_users st" "distinct (map (\<lambda>p. (fst p, fst (snd p))) (st_participants st'))"
proof -
  let ?st = "st\<lparr>st_wavelets := st_wavelets st @ [w\<lparr>wl_participants := []\<rparr>]\<rparr>"
  show fresh: "wl_id w \<notin> wl_id ` set (st_wavelets st)"
    using assms(1) by (auto simp: insert_wavelet_def list_ex_iff split: if_splits)
  let ?row = "\<lambda>st u. if list_ex (\<lambda>p. fst p = wl_id w \<and> fst (snd p) = u) (st_participants st) then st
      else st\<lparr>st_participants := st_participants st @ [(wl_id w, u, wl_created_at w)]\<rparr>"
  have st': "st' = foldl ?row ?st (wl_participants w)"
    using assms(1) by (simp add: insert_wavelet_def Let_def split: if_splits)
  show w: "st_wavelets st' = st_wavelets st @ [w\<lparr>wl_participants := []\<rparr>]" "st_waves st' = st_waves st"
    and "st_users st' = st_users st"
    unfolding st' by (simp_all only: insert_participants) simp_all
  show "distinct (map (\<lambda>p. (fst p, fst (snd p))) (st_participants st'))"
    unfolding st' using assms(2) by (intro insert_participants(6)) (simp add: keys_ok_def)
  show "fst ` set (st_participants st') \<subseteq> insert (wl_id w) (fst ` set (st_participants st))"
    unfolding st' using insert_participants(4) [of "wl_id w" "wl_created_at w" ?st "wl_participants w"] by simp
  have mem: "member st' v j \<longleftrightarrow> member st v j \<or> (j = wl_id w \<and> v \<in> set (wl_participants w))" for v j
    unfolding st' by (simp only: insert_participants) (simp add: member_def)
  have none: "\<not> member st v (wl_id w)" for v
    using fresh assms(2) by (force simp: member_iff keys_ok_def)
  have "circle_of st' v = circle_of st v" if "v \<in> set (st_wavelets st)" for v
    using fresh image_eqI [OF refl that, of wl_id] by (auto simp: circle_of_def mem)
  moreover have "circle_of st' (w\<lparr>wl_participants := []\<rparr>)
      = \<lparr>ci_id = wl_id w, ci_kind = wl_kind w, ci_title = wl_title w, ci_members = set (wl_participants w)\<rparr>"
    by (auto simp: circle_of_def mem none)
  moreover have "{v \<in> set (st_wavelets st'). wl_wave_id v = wid} = {v \<in> set (st_wavelets st). wl_wave_id v = wid}
      \<union> (if wl_wave_id w = wid then {w\<lparr>wl_participants := []\<rparr>} else {})" by (auto simp: w)
  ultimately show "stored_circles st' wid = (if wl_wave_id w = wid
       then insert \<lparr>ci_id = wl_id w, ci_kind = wl_kind w, ci_title = wl_title w, ci_members = set (wl_participants w)\<rparr>
              (stored_circles st wid)
       else stored_circles st wid)"
    by (auto simp: stored_circles_def image_Un intro!: image_cong)
qed

lemma st_waves_mode: "st_waves (db_set_mode st wid mode) =
    map (\<lambda>r. if wr_id r = wid then r\<lparr>wr_mode := mode_as_str mode\<rparr> else r) (st_waves st)"
  by (simp add: db_set_mode_def)

lemma keys_ok_membership:
  assumes "keys_ok st"
  shows "i \<in> wl_id ` set (st_wavelets st) \<Longrightarrow> keys_ok (db_add_participant now st i u)"
    "keys_ok (db_remove_participant st i u)" "keys_ok (db_set_title now st i t)" "keys_ok (db_set_mode st wid mode)"
    "insert_wavelet st w = Ok st' \<Longrightarrow> wl_wave_id w \<in> wr_id ` set (st_waves st) \<Longrightarrow> keys_ok st'"
proof -
  show "i \<in> wl_id ` set (st_wavelets st) \<Longrightarrow> keys_ok (db_add_participant now st i u)"
    using assms by (auto simp: keys_ok_def db_add_participant_def list_ex_iff image_iff)
  show "keys_ok (db_remove_participant st i u)"
    using assms by (auto simp: keys_ok_def db_remove_participant_def distinct_map_filter)
  have "map wl_id (st_wavelets (db_set_title now st i t)) = map wl_id (st_wavelets st)"
    "map wl_wave_id (st_wavelets (db_set_title now st i t)) = map wl_wave_id (st_wavelets st)"
    by (simp_all add: db_set_title_def)
  moreover have "st_waves (db_set_title now st i t) = st_waves st"
    "st_participants (db_set_title now st i t) = st_participants st" by (simp_all add: db_set_title_def)
  moreover have keys_ok_eq: "keys_ok s \<longleftrightarrow> distinct (map wl_id (st_wavelets s))
      \<and> set (map wl_wave_id (st_wavelets s)) \<subseteq> wr_id ` set (st_waves s)
      \<and> fst ` set (st_participants s) \<subseteq> set (map wl_id (st_wavelets s))
      \<and> distinct (map (\<lambda>p. (fst p, fst (snd p))) (st_participants s)) \<and> distinct (map user_id (st_users s))" for s
    by (auto simp: keys_ok_def)
  moreover have "st_users (db_set_title now st i t) = st_users st" by (simp add: db_set_title_def)
  ultimately show "keys_ok (db_set_title now st i t)" using assms by (simp only: keys_ok_eq)
  have "wr_id ` set (st_waves (db_set_mode st wid mode)) = wr_id ` set (st_waves st)"
    unfolding st_waves_mode list.set_map image_image by (rule image_cong) auto
  moreover have "st_wavelets (db_set_mode st wid mode) = st_wavelets st"
    "st_participants (db_set_mode st wid mode) = st_participants st"
    "st_users (db_set_mode st wid mode) = st_users st" by (simp_all add: db_set_mode_def)
  ultimately show "keys_ok (db_set_mode st wid mode)" using assms unfolding keys_ok_eq by simp
  assume "insert_wavelet st w = Ok st'" and fk: "wl_wave_id w \<in> wr_id ` set (st_waves st)"
  note ins = insert_wavelet_effect [OF this(1) assms]
  have "fst ` set (st_participants st') \<subseteq> insert (wl_id w) (set (map wl_id (st_wavelets st)))"
    using assms ins(4) unfolding keys_ok_eq by (meson insert_mono order_trans)
  then show "keys_ok st'" using assms fk ins(1,6,7) unfolding keys_ok_eq ins(2,3) by auto
qed

section \<open>A resident wave as an implementation\<close>

definition live_circle :: "wavelet \<Rightarrow> circle" where
  "live_circle w = \<lparr>ci_id = wl_id w, ci_kind = wl_kind w, ci_title = wl_title w, ci_members = set (wl_participants w)\<rparr>"

definition live_circles :: "live_wave \<Rightarrow> circle set" where
  "live_circles live = live_circle ` set (lw_wavelets live)"

lemma live_circle_fields [simp]:
  "ci_id (live_circle w) = wl_id w" "ci_kind (live_circle w) = wl_kind w" "ci_title (live_circle w) = wl_title w"
  "ci_members (live_circle w) = set (wl_participants w)"
  by (simp_all add: live_circle_def)

lemma update_first_set:
  assumes "distinct (map key xs)"
  shows "set (update_first (\<lambda>x. key x = k) f xs) = (\<lambda>x. if key x = k then f x else x) ` set xs"
  using assms by (induction xs) (auto simp: image_iff)

lemma update_first_map: "(\<And>x. g (f x) = g x) \<Longrightarrow> map g (update_first P f xs) = map g xs"
  by (induction xs) auto

lemma lw_wavelets_mut: "lw_wavelets (wavelet_mut i f live) = update_first (\<lambda>w. wl_id w = i) f (lw_wavelets live)"
  by (simp add: wavelet_mut_def)

lemma lw_wavelets_leave: "lw_wavelets (leave_private_replies u live) = map (\<lambda>w. if wl_kind w = PrivateReplyKind \<and> has_participant w u
    then without_participant u w else w) (lw_wavelets live)"
  by (simp add: leave_private_replies_def)

lemma live_circles_mut:
  assumes "distinct (map wl_id (lw_wavelets live))" "\<And>w. wl_id w = i \<Longrightarrow> live_circle (f w) = g (live_circle w)"
  shows "live_circles (wavelet_mut i f live) = change_circle i g ` live_circles live"
proof -
  have eq: "set (lw_wavelets (wavelet_mut i f live)) = (\<lambda>w. if wl_id w = i then f w else w) ` set (lw_wavelets live)"
    by (simp only: lw_wavelets_mut update_first_set [OF assms(1)])
  show ?thesis
    unfolding live_circles_def eq image_image by (rule image_cong) (auto simp: change_circle_def assms(2))
qed

lemma live_circles_touch [simp]:
  "live_circles (wavelet_mut i (wl_last_modified_update f) live) = live_circles live"
proof -
  have "map live_circle (update_first (\<lambda>w. wl_id w = i) (wl_last_modified_update f) (lw_wavelets live))
      = map live_circle (lw_wavelets live)" by (rule update_first_map) (simp add: live_circle_def)
  then show ?thesis
    unfolding live_circles_def wavelet_mut_def by (metis list.set_map live_wave.select_convs(2) live_wave.surjective live_wave.update_convs(2))
qed

lemma live_circles_leave:
  "live_circles (leave_private_replies u live) = (\<lambda>c. if ci_kind c = PrivateReplyKind then part u c else c) ` live_circles live"
proof -
  have eq: "set (lw_wavelets (leave_private_replies u live)) = (\<lambda>w. if wl_kind w = PrivateReplyKind \<and> has_participant w u
      then without_participant u w else w) ` set (lw_wavelets live)"
    by (simp only: lw_wavelets_leave list.set_map)
  show ?thesis
    unfolding live_circles_def eq image_image
    by (rule image_cong) (auto simp: without_participant_def live_circle_def part_def)
qed

lemma find_live_wavelet_iff:
  assumes "distinct (map wl_id (lw_wavelets live))"
  shows "find_live_wavelet live i = Some w \<longleftrightarrow> w \<in> set (lw_wavelets live) \<and> wl_id w = i"
proof
  assume "find_live_wavelet live i = Some w"
  then show "w \<in> set (lw_wavelets live) \<and> wl_id w = i" by (auto simp: find_live_wavelet_def find_Some_iff)
next
  assume w: "w \<in> set (lw_wavelets live) \<and> wl_id w = i"
  then obtain v where v: "find_live_wavelet live i = Some v"
    by (cases "find_live_wavelet live i") (auto simp: find_live_wavelet_def find_None_iff)
  then have "v \<in> set (lw_wavelets live)" "wl_id v = wl_id w" using w by (auto simp: find_live_wavelet_def find_Some_iff)
  with assms w have "v = w" by (auto simp: distinct_map dest: inj_onD)
  with v show "find_live_wavelet live i = Some w" by simp
qed

lemma may_access_circle:
  assumes "distinct (map wl_id (lw_wavelets live))"
  shows "may_access live u i \<longleftrightarrow> (\<exists>c \<in> live_circles live. ci_id c = i \<and> u \<in> ci_members c)"
proof -
  have "may_access live u i \<longleftrightarrow> (\<exists>w. find_live_wavelet live i = Some w \<and> u \<in> set (wl_participants w))"
    by (auto simp: may_access_def split: option.splits)
  also have "\<dots> \<longleftrightarrow> (\<exists>c \<in> live_circles live. ci_id c = i \<and> u \<in> ci_members c)"
    unfolding find_live_wavelet_iff [OF assms] by (auto simp: live_circles_def)
  finally show ?thesis .
qed

lemma may_view_circle: "may_view live u \<longleftrightarrow> (\<exists>c \<in> live_circles live. u \<in> ci_members c)"
  by (auto simp: may_view_def live_circles_def list_ex_iff)

section \<open>Agreement\<close>

text \<open>
  A resident wave agrees with storage about the wave itself (its creator and mode) and about
  its circles; and whoever watches it is in one of them.
\<close>

definition resident_ok :: "store \<Rightarrow> wave_id \<Rightarrow> live_wave \<Rightarrow> bool" where
  "resident_ok st wid live \<longleftrightarrow> db_wave st wid = Ok (Some (lw_wave live))
     \<and> distinct (map wl_id (lw_wavelets live)) \<and> (\<forall>w \<in> set (lw_wavelets live). distinct (wl_participants w))
     \<and> live_circles live = stored_circles st wid
     \<and> (\<forall>s \<in> snd ` set (lw_subscribers live). may_view live (sub_user s))
     \<and> \<not> lw_evicted live"

lemma db_wave_id: "db_wave st wid = Ok (Some w) \<Longrightarrow> w_id w = wid"
  by (auto simp: db_wave_def find_Some_iff split: option.splits)

lemma load_resident_ok:
  assumes "keys_ok st" "db_wave st wid = Ok (Some w)"
  shows "resident_ok st wid (load_wave st wid w)"
proof -
  let ?live = "load_wave st wid w"
  have ws: "lw_wavelets ?live = db_wavelets_of_wave st wid" by (simp add: load_wave_def)
  have "distinct (map wl_id (sort_key wl_created_at (filter (\<lambda>w. wl_wave_id w = wid) (st_wavelets st))))"
    using assms(1) by (auto simp: keys_ok_def distinct_map inj_on_def)
  then have "distinct (map wl_id (lw_wavelets ?live))" by (simp add: ws db_wavelets_of_wave_def comp_def)
  moreover have "live_circles ?live = stored_circles st wid"
    unfolding live_circles_def ws stored_circles_def
    by (auto simp: db_wavelets_of_wave_def image_image live_circle_def circle_of_def participants_of_members)
  moreover have "distinct (participants_of st i)" for i
  proof -
    have "distinct (map (\<lambda>p. (fst p, fst (snd p))) (sort_key (snd \<circ> snd) (filter (\<lambda>p. fst p = i) (st_participants st))))"
      using assms(1) by (auto simp: keys_ok_def distinct_map inj_on_def)
    then show ?thesis by (auto simp: participants_of_def distinct_map inj_on_def)
  qed
  then have "\<forall>w \<in> set (lw_wavelets ?live). distinct (wl_participants w)" by (auto simp: ws db_wavelets_of_wave_def)
  ultimately show ?thesis using assms(2) by (simp add: resident_ok_def load_wave_def)
qed

text \<open>A change of the wave that leaves its circles alone and adds no watchers.\<close>

definition calm :: "live_wave \<Rightarrow> live_wave \<Rightarrow> bool" where
  "calm live live' \<longleftrightarrow> lw_wave live' = lw_wave live \<and> lw_evicted live' = lw_evicted live
     \<and> map (wl_last_modified_update (\<lambda>_. 0)) (lw_wavelets live') = map (wl_last_modified_update (\<lambda>_. 0)) (lw_wavelets live)
     \<and> sub_user ` snd ` set (lw_subscribers live') \<subseteq> sub_user ` snd ` set (lw_subscribers live)"

named_theorems calm_rules \<open>what leaves the circles of a resident wave alone\<close>

lemma calmD:
  assumes "calm live live'"
  shows "lw_wave live' = lw_wave live" "live_circles live' = live_circles live"
    "map wl_id (lw_wavelets live') = map wl_id (lw_wavelets live)"
    "map wl_participants (lw_wavelets live') = map wl_participants (lw_wavelets live)"
    "sub_user ` snd ` set (lw_subscribers live') \<subseteq> sub_user ` snd ` set (lw_subscribers live)"
    "lw_evicted live' = lw_evicted live"
proof -
  have m: "map (wl_last_modified_update (\<lambda>_. 0)) (lw_wavelets live') = map (wl_last_modified_update (\<lambda>_. 0)) (lw_wavelets live)"
    using assms by (simp add: calm_def)
  have f: "map f (lw_wavelets live') = map f (lw_wavelets live)"
    if "\<And>w. f (wl_last_modified_update (\<lambda>_. 0) w) = f w" for f :: "wavelet \<Rightarrow> 'b"
    using arg_cong [OF m, of "map f"] that by (simp add: comp_def)
  show "map wl_id (lw_wavelets live') = map wl_id (lw_wavelets live)"
    "map wl_participants (lw_wavelets live') = map wl_participants (lw_wavelets live)" by (rule f, simp)+
  have "map live_circle (lw_wavelets live') = map live_circle (lw_wavelets live)" by (rule f) (simp add: live_circle_def)
  then show "live_circles live' = live_circles live" unfolding live_circles_def by (metis list.set_map)
qed (use assms in \<open>simp_all add: calm_def\<close>)

lemma calm_refl [calm_rules]: "calm live live"
  by (simp add: calm_def)

lemma calm_extend: "calm live l \<Longrightarrow> calm l l' \<Longrightarrow> calm live l'"
  unfolding calm_def by (elim conjE) (intro conjI, simp_all)

lemma calm_records [calm_rules]:
  "calm live l \<Longrightarrow> calm live (l\<lparr>lw_blips := bs\<rparr>)" "calm live l \<Longrightarrow> calm live (l\<lparr>lw_comments := cs\<rparr>)"
  "calm live l \<Longrightarrow> calm live (l\<lparr>lw_user_cache := us\<rparr>)" "calm live l \<Longrightarrow> calm live (update_blip l b lb)"
  "calm live l \<Longrightarrow> calm live (insert_live_blip m l)"
  by (simp_all add: calm_def live_circles_def update_blip_def insert_live_blip_def)

lemma calm_touch [calm_rules]:
  "calm live l \<Longrightarrow> calm live (wavelet_mut i (\<lambda>w. w\<lparr>wl_last_modified := t\<rparr>) l)"
proof (erule calm_extend)
  have "lw_wave (wavelet_mut i f l) = lw_wave l" "lw_subscribers (wavelet_mut i f l) = lw_subscribers l"
    "lw_evicted (wavelet_mut i f l) = lw_evicted l" for f
    by (simp_all add: wavelet_mut_def)
  then show "calm l (wavelet_mut i (\<lambda>w. w\<lparr>wl_last_modified := t\<rparr>) l)"
    by (simp add: calm_def lw_wavelets_mut update_first_map)
qed

lemma calm_watchers: "set subs \<subseteq> set (lw_subscribers l) \<Longrightarrow> calm l (l\<lparr>lw_subscribers := subs\<rparr>)"
  by (auto simp: calm_def live_circles_def)

lemma calm_disconnect: "calm l (fst (disconnect l ch cs))"
  unfolding disconnect_live by (rule calm_watchers) auto

lemma calm_delivery [calm_rules]:
  "calm live l \<Longrightarrow> calm live (fst (broadcast l ch i skip m))" "calm live l \<Longrightarrow> calm live (fst (send_to l ch c m))"
  "calm live l \<Longrightarrow> calm live (fst (broadcast_presence l ch wid))"
proof -
  have "calm l (fst (broadcast l ch i skip m))" "calm l (fst (broadcast_presence l ch wid))"
    by (simp_all add: broadcast_def broadcast_presence_def Let_def case_prod_beta' calm_disconnect)
  moreover have "calm l (fst (send_to l ch c m))"
    by (simp add: send_to_def Let_def case_prod_beta' calm_disconnect calm_refl del: disconnect.simps split: option.split)
  ultimately show "calm live l \<Longrightarrow> calm live (fst (broadcast l ch i skip m))" "calm live l \<Longrightarrow> calm live (fst (send_to l ch c m))"
    "calm live l \<Longrightarrow> calm live (fst (broadcast_presence l ch wid))" by (blast intro: calm_extend)+
qed

lemma calm_broadcast_each [calm_rules]:
  assumes "calm live l"
  shows "calm live (fst (broadcast_each l ch ms))"
proof -
  have "calm (fst x) (fst (foldl (\<lambda>x m. broadcast (fst x) (snd x) (fst m) None (snd m)) x ms))" for x
  proof (induction ms arbitrary: x)
    case (Cons m ms)
    from calm_extend [OF calm_delivery(1) [OF calm_refl] Cons] show ?case by simp
  qed (simp add: calm_refl)
  from this [of "(l, ch)"] assms show ?thesis
    unfolding broadcast_each_def by (auto simp: case_prod_beta' intro: calm_extend)
qed

lemma resident_ok_calm:
  assumes "resident_ok st wid live" "calm live live'" "shape st' = shape st"
  shows "resident_ok st' wid live'"
proof -
  have "\<forall>u \<in> sub_user ` snd ` set (lw_subscribers live). may_view live u"
    using assms(1) by (auto simp: resident_ok_def)
  then have "\<forall>u \<in> sub_user ` snd ` set (lw_subscribers live'). may_view live' u"
    using calmD(2,5) [OF assms(2)] unfolding may_view_circle by (metis subsetD)
  moreover have "wl_participants ` set (lw_wavelets live') = wl_participants ` set (lw_wavelets live)"
    using calmD(4) [OF assms(2)] by (metis list.set_map)
  then have "(\<forall>w \<in> set (lw_wavelets live'). distinct (wl_participants w)) \<longleftrightarrow> (\<forall>w \<in> set (lw_wavelets live). distinct (wl_participants w))"
    by (metis (no_types, lifting) image_iff)
  ultimately show ?thesis
    using assms(1) calmD(1-3,6) [OF assms(2)] by (simp add: resident_ok_def same_shape [OF assms(3)])
qed

end
