(* ===== verification/Gal_Coherence.thy ===== *)
theory Gal_Coherence
  imports Gal_Membership
begin

text \<open>
  Coherence of the resident waves with storage, kept by every command. The part a command
  runs under the lock of a wave is a body with a contract, a locale: it keeps a property of
  storage and of its own wave, leaves the property of every other wave alone, moves storage
  by a step of a specification, and leaves the residency tables alone. That finding a wave,
  loading it, running a body on it and evicting it keep the waves coherent is proved once in
  the locale and interpreted for the body of every handler.
\<close>

section \<open>Contracts\<close>

text \<open>Every resident wave has an address of its own and, but for the suspects, is as it should be.\<close>

definition coherent :: "wave_id set \<Rightarrow> (store \<Rightarrow> wave_id \<Rightarrow> live_wave \<Rightarrow> bool) \<Rightarrow> server \<Rightarrow> bool" where
  "coherent suspects ok sv \<longleftrightarrow> (\<forall>wid a. map_of (sv_waves sv) wid = Some a \<longrightarrow>
     a < sv_next_addr sv \<and> (\<forall>wid'. map_of (sv_waves sv) wid' = Some a \<longrightarrow> wid' = wid)
     \<and> (wid \<notin> suspects \<longrightarrow> ok (sv_store sv) wid (sv_heap sv a)))"

lemma coherentD:
  assumes "coherent W ok sv" "map_of (sv_waves sv) wid = Some a"
  shows "a < sv_next_addr sv" "map_of (sv_waves sv) wid' = Some a \<Longrightarrow> wid' = wid"
    "wid \<notin> W \<Longrightarrow> ok (sv_store sv) wid (sv_heap sv a)"
  using assms by (auto simp: coherent_def)

lemma coherent_cong:
  assumes "sv_waves sv' = sv_waves sv" "sv_next_addr sv' = sv_next_addr sv"
    "\<And>wid a. map_of (sv_waves sv) wid = Some a \<Longrightarrow> wid \<notin> W \<Longrightarrow>
       ok (sv_store sv) wid (sv_heap sv a) \<Longrightarrow> ok (sv_store sv') wid (sv_heap sv' a)"
  shows "coherent W ok sv \<Longrightarrow> coherent W ok sv'"
  using assms by (auto simp: coherent_def)

text \<open>A wave that leaves the residency table is no longer held to anything.\<close>

lemma coherent_evict:
  assumes "coherent W ok sv" "map_of (sv_waves sv) wid = Some a"
  shows "coherent (W - {wid}) ok (sv\<lparr>sv_heap := (sv_heap sv)(a := live), sv_chans := ch,
    sv_waves := AList.delete wid (sv_waves sv)\<rparr>)"
  using assms coherentD(2) [OF assms] by (auto simp: coherent_def AList.delete_conv' split: if_splits)

lemma maybe_evict_coherent: "coherent W ok sv \<Longrightarrow> coherent W ok (maybe_evict sv wid)"
proof -
  assume c: "coherent W ok sv"
  show ?thesis
  proof (cases "map_of (sv_waves sv) wid")
    case (Some a)
    have "coherent W ok (sv\<lparr>sv_heap := (sv_heap sv)(a := live), sv_waves := AList.delete wid (sv_waves sv)\<rparr>)" for live
      using c Some coherentD(2) [OF c Some] by (auto simp: coherent_def AList.delete_conv' split: if_splits)
    with Some c show ?thesis by (simp add: maybe_evict_def)
  qed (simp add: maybe_evict_def c)
qed

lemma evict_after_panic_coherent:
  assumes "coherent W ok sv"
  shows "coherent (W - {wid}) ok (evict_after_panic sv wid)" "sv_store (evict_after_panic sv wid) = sv_store sv"
proof -
  show "coherent (W - {wid}) ok (evict_after_panic sv wid)"
  proof (cases "map_of (sv_waves sv) wid")
    case None
    then show ?thesis using assms by (auto simp: evict_after_panic_def coherent_def)
  next
    case (Some a)
    with coherent_evict [OF assms Some] show ?thesis by (simp add: evict_after_panic_def case_prod_beta' Let_def)
  qed
  show "sv_store (evict_after_panic sv wid) = sv_store sv"
    by (simp add: evict_after_panic_def case_prod_beta' Let_def split: option.split)
qed

locale residency =
  fixes sok :: "store \<Rightarrow> bool" and ok :: "store \<Rightarrow> wave_id \<Rightarrow> live_wave \<Rightarrow> bool"
  assumes loaded: "sok st \<Longrightarrow> db_wave st wid = Ok (Some w) \<Longrightarrow> ok st wid (load_wave st wid w)"
begin

lemma open_resident_coherent:
  assumes "open_resident e sv wid = (r, sv')" "coherent {} ok sv" "sok (sv_store sv)"
  shows "coherent {} ok sv' \<and> sv_store sv' = sv_store sv \<and> (\<forall>a. r = Ok (Some a) \<longrightarrow> map_of (sv_waves sv') wid = Some a)"
proof (cases "\<exists>w. map_of (sv_waves sv) wid = None \<and> env_load e wid \<and> db_wave (sv_store sv) wid = Ok (Some w)")
  case False
  then have "sv' = sv" "\<forall>a. r = Ok (Some a) \<longrightarrow> map_of (sv_waves sv) wid = Some a"
    using assms(1) by (auto simp: open_resident_def Let_def split: option.splits if_splits sum.splits)
  with assms(2) show ?thesis by simp
next
  case True
  then obtain w where w: "map_of (sv_waves sv) wid = None" "env_load e wid" "db_wave (sv_store sv) wid = Ok (Some w)"
    by blast
  let ?a = "sv_next_addr sv"
  have sv': "r = Ok (Some ?a)" "sv' = sv\<lparr>sv_heap := (sv_heap sv)(?a := load_wave (sv_store sv) wid w),
      sv_next_addr := Suc ?a, sv_waves := AList.update wid ?a (sv_waves sv)\<rparr>"
    using assms(1) w by (simp_all add: open_resident_def Let_def)
  have "coherent {} ok sv'"
    unfolding coherent_def
  proof (intro allI impI)
    fix wid' a assume a: "map_of (sv_waves sv') wid' = Some a"
    show "a < sv_next_addr sv' \<and> (\<forall>wid''. map_of (sv_waves sv') wid'' = Some a \<longrightarrow> wid'' = wid')
        \<and> (wid' \<notin> {} \<longrightarrow> ok (sv_store sv') wid' (sv_heap sv' a))"
    proof (cases "wid' = wid")
      case True
      with a coherentD(1) [OF assms(2)] loaded [OF assms(3) w(3)] show ?thesis
        by (force simp: sv' update_conv' split: if_splits)
    next
      case False
      with a have old: "map_of (sv_waves sv) wid' = Some a" by (simp add: sv' update_conv')
      note c = coherentD [OF assms(2) old]
      with False show ?thesis by (auto simp: sv' update_conv' split: if_splits)
    qed
  qed
  with sv' show ?thesis by (simp add: update_conv')
qed

lemma find_in_coherent:
  assumes "find_in e P sv ws = (r, sv')" "coherent {} ok sv" "sok (sv_store sv)"
  shows "coherent {} ok sv' \<and> sv_store sv' = sv_store sv
    \<and> (\<forall>w a. r = Ok (w, a) \<longrightarrow> w \<in> set ws \<and> map_of (sv_waves sv') w = Some a \<and> P (sv_heap sv' a))"
  using assms
proof (induction ws arbitrary: sv)
  case (Cons w ws)
  obtain r1 sv1 where o1: "open_resident e sv w = (r1, sv1)" by (cases "open_resident e sv w")
  note c = open_resident_coherent [OF o1 Cons(3,4)]
  show ?case
  proof (cases "\<exists>a. r1 = Ok (Some a) \<and> P (sv_heap sv1 a)")
    case True
    with Cons(2) o1 c show ?thesis by auto
  next
    case False
    then have "find_in e P sv1 ws = (r, sv')"
      using Cons(2) o1 by (auto split: sum.splits option.splits if_splits)
    from Cons(1) [OF this] c Cons(4) show ?thesis by auto
  qed
qed auto

lemma lookup_wave_coherent:
  assumes "lookup_wave e sv wid = (r, sv')" "coherent {} ok sv" "sok (sv_store sv)"
  shows "coherent {} ok sv' \<and> sv_store sv' = sv_store sv \<and> (\<forall>a. r = Ok a \<longrightarrow> map_of (sv_waves sv') wid = Some a)"
proof (cases "open_resident e sv wid")
  case (Pair r1 sv1)
  with open_resident_coherent [OF Pair assms(2,3)] assms(1) show ?thesis
    by (auto simp: lookup_wave_def split: sum.splits option.splits)
qed

end

text \<open>
  The contract of a body. The step it takes is a relation on storage, such as a step of the
  membership specification.
\<close>

locale locked_body = residency +
  fixes step :: "store \<Rightarrow> store \<Rightarrow> bool"
    and body :: "wave_id \<Rightarrow> server \<Rightarrow> live_wave \<Rightarrow> unit reply \<times> server \<times> live_wave"
  assumes step_refl: "step st st"
    and keeps: "body wid sv live = (r, sv', live') \<Longrightarrow> sok (sv_store sv) \<Longrightarrow> ok (sv_store sv) wid live \<Longrightarrow>
      sok (sv_store sv') \<and> ok (sv_store sv') wid live' \<and> step (sv_store sv) (sv_store sv')"
    and apart: "body wid sv live = (r, sv', live') \<Longrightarrow> sok (sv_store sv) \<Longrightarrow> ok (sv_store sv) wid live \<Longrightarrow>
      wid' \<noteq> wid \<Longrightarrow> ok (sv_store sv) wid' other \<Longrightarrow> ok (sv_store sv') wid' other"
    and memory: "body wid sv live = (r, sv', live') \<Longrightarrow>
      sv_heap sv' = sv_heap sv \<and> sv_waves sv' = sv_waves sv \<and> sv_next_addr sv' = sv_next_addr sv"
begin

lemma run_coherent:
  assumes "run_locked (body wid) sv a = (r, sv')" "coherent {} ok sv" "sok (sv_store sv)"
    "map_of (sv_waves sv) wid = Some a"
  shows "coherent {} ok sv' \<and> sok (sv_store sv') \<and> step (sv_store sv) (sv_store sv')"
proof -
  obtain r1 sv1 live' where b: "body wid sv (sv_heap sv a) = (r1, sv1, live')"
    by (cases "body wid sv (sv_heap sv a)") auto
  have sv': "sv' = sv1\<lparr>sv_heap := (sv_heap sv)(a := live')\<rparr>"
    using assms(1) b memory [OF b] by (simp add: run_locked_def)
  have live: "ok (sv_store sv) wid (sv_heap sv a)" using coherentD(3) [OF assms(2,4)] by simp
  note k = keeps [OF b assms(3) live]
  have "coherent {} ok sv'"
  proof (rule coherent_cong [OF _ _ _ assms(2)])
    fix wid' a' assume w: "map_of (sv_waves sv) wid' = Some a'" "ok (sv_store sv) wid' (sv_heap sv a')"
    show "ok (sv_store sv') wid' (sv_heap sv' a')"
    proof (cases "wid' = wid")
      case True
      with w(1) assms(4) k show ?thesis by (simp add: sv')
    next
      case False
      then have "a' \<noteq> a" using coherentD(2) [OF assms(2,4)] w(1) by auto
      with apart [OF b assms(3) live False w(2)] show ?thesis by (simp add: sv')
    qed
  qed (use memory [OF b] in \<open>simp_all add: sv'\<close>)
  with k show ?thesis by (simp add: sv')
qed

lemma found_coherent:
  assumes "found_then (found, sv) body = (r, sv')" "coherent {} ok sv" "sok (sv_store sv)"
    "\<And>wid a. found = Ok (wid, a) \<Longrightarrow> map_of (sv_waves sv) wid = Some a"
  shows "coherent {} ok sv' \<and> sok (sv_store sv') \<and> step (sv_store sv) (sv_store sv')"
  using assms run_coherent [of _ sv _ r sv'] step_refl
  by (auto simp: found_then_def split: sum.splits)

lemma find_then_coherent:
  assumes "found_then (find_in e P sv ws) body = (r, sv')" "coherent {} ok sv" "sok (sv_store sv)"
  shows "coherent {} ok sv' \<and> sok (sv_store sv') \<and> step (sv_store sv) (sv_store sv')"
proof (cases "find_in e P sv ws")
  case (Pair found sv1)
  note f = find_in_coherent [OF Pair assms(2,3)]
  with found_coherent [of found sv1 r sv'] assms(1,3) Pair show ?thesis by auto
qed

end

section \<open>Membership\<close>

text \<open>A wave keeps its creator for good, and only the creator changes its mode.\<close>

definition rules_step :: "user_id \<Rightarrow> store \<Rightarrow> store \<Rightarrow> bool" where
  "rules_step u st st' \<longleftrightarrow> (\<forall>wid w. db_wave st wid = Ok (Some w) \<longrightarrow>
     (\<exists>mode. db_wave st' wid = Ok (Some (w\<lparr>w_mode := mode\<rparr>)) \<and> (mode = w_mode w \<or> w_creator w = u)))"

text \<open>What a command may do to membership: in one wave a step of its sender, or a new wave.\<close>

definition member_step :: "user_id \<Rightarrow> store \<Rightarrow> store \<Rightarrow> bool" where
  "member_step u st st' \<longleftrightarrow> rules_step u st st' \<and> (\<forall>wid. stored_circles st' wid = stored_circles st wid
     \<or> (\<exists>w. db_wave st wid = Ok (Some w) \<and> circle_step (w_creator w) u (stored_circles st wid) (stored_circles st' wid))
     \<or> (stored_circles st wid = {} \<and> founded u (stored_circles st' wid)))"

lemma rules_same:
  assumes "\<And>wid w. db_wave st wid = Ok (Some w) \<Longrightarrow> db_wave st' wid = db_wave st wid"
  shows "rules_step u st st'"
  unfolding rules_step_def
proof (intro allI impI)
  fix wid w assume w: "db_wave st wid = Ok (Some w)"
  show "\<exists>mode. db_wave st' wid = Ok (Some (w\<lparr>w_mode := mode\<rparr>)) \<and> (mode = w_mode w \<or> w_creator w = u)"
    using assms [OF w] w by (intro exI [of _ "w_mode w"]) simp
qed

lemma member_step_refl: "member_step u st st"
  by (simp add: member_step_def rules_same)

lemma member_step_shape: "shape st' = shape st \<Longrightarrow> member_step u st st'"
  using same_shape(1,3) [of st' st] by (simp add: member_step_def rules_same)

interpretation members: residency members_ok resident_ok
  by unfold_locales (simp add: members_ok_def load_resident_ok)

text \<open>
  A quiet body: neither storage nor the resident wave has its circles changed, and nobody
  starts to watch.
\<close>

definition quiet :: "server \<Rightarrow> live_wave \<Rightarrow> server \<Rightarrow> live_wave \<Rightarrow> bool" where
  "quiet sv live sv' live' \<longleftrightarrow> calm live live' \<and> shape (sv_store sv') = shape (sv_store sv)
     \<and> sv_heap sv' = sv_heap sv \<and> sv_waves sv' = sv_waves sv \<and> sv_next_addr sv' = sv_next_addr sv"

lemma quiet_body:
  assumes "\<And>wid sv live r sv' live'. body wid sv live = (r, sv', live') \<Longrightarrow> quiet sv live sv' live'"
  shows "locked_body members_ok resident_ok (member_step u) body"
proof unfold_locales
  fix wid sv live r sv' live'
  assume b: "body wid sv live = (r, sv', live')"
  from assms [OF b] have q: "calm live live'" "shape (sv_store sv') = shape (sv_store sv)"
    "sv_heap sv' = sv_heap sv" "sv_waves sv' = sv_waves sv" "sv_next_addr sv' = sv_next_addr sv"
    by (simp_all add: quiet_def)
  show "sv_heap sv' = sv_heap sv \<and> sv_waves sv' = sv_waves sv \<and> sv_next_addr sv' = sv_next_addr sv" using q by simp
  assume s: "members_ok (sv_store sv)" "resident_ok (sv_store sv) wid live"
  show "members_ok (sv_store sv') \<and> resident_ok (sv_store sv') wid live' \<and> member_step u (sv_store sv) (sv_store sv')"
    using s q resident_ok_calm [OF s(2) q(1,2)] member_step_shape [OF q(2)] members_ok_shape [OF q(2)] by simp
  show "resident_ok (sv_store sv') wid' other" if "wid' \<noteq> wid" "resident_ok (sv_store sv) wid' other" for wid' other
    using resident_ok_calm [OF that(2) calm_refl q(2)] .
qed (rule member_step_refl)

lemmas quiet_defs = quiet_def stored_def Let_def case_prod_beta' schedule_inbox_update_def

lemma create_blip_quiet:
  "create_blip_locked e ss i parent cont wid sv live = (r, sv', live') \<Longrightarrow> quiet sv live sv' live'"
  by (auto simp: create_blip_locked_def publish_blip_def quiet_defs split: sum.splits if_splits
      intro!: calm_rules dest: content_shape(1))

lemma create_comment_quiet:
  "create_comment_locked e ss i target c seed wid sv live = (r, sv', live') \<Longrightarrow> quiet sv live sv' live'"
  by (auto simp: create_comment_locked_def quiet_defs split: sum.splits if_splits option.splits
      intro!: calm_rules dest: content_shape(2))

lemma reply_to_comment_quiet:
  "reply_to_comment_locked e ss c seed wid sv live = (r, sv', live') \<Longrightarrow> quiet sv live sv' live'"
  by (auto simp: reply_to_comment_locked_def quiet_defs split: sum.splits if_splits option.splits
      intro!: calm_rules dest: content_shape(1))

lemma resolve_comment_quiet:
  "resolve_comment_locked e ss c want wid sv live = (r, sv', live') \<Longrightarrow> quiet sv live sv' live'"
  by (auto simp: resolve_comment_locked_def quiet_defs content_shape split: sum.splits if_splits option.splits
      intro!: calm_rules)

lemma delete_blip_quiet:
  "delete_blip_locked e ss i wid sv live = (r, sv', live') \<Longrightarrow> quiet sv live sv' live'"
proof (cases "map_of (lw_blips live) i")
  case (Some lb)
  assume "delete_blip_locked e ss i wid sv live = (r, sv', live')"
  from this [unfolded delete_blip_locked_def Some option.case] show ?thesis
    by (auto simp: quiet_defs content_shape split: sum.splits if_split_asm intro!: calm_rules)
qed (simp add: delete_blip_locked_def quiet_def calm_refl)

lemma detach_quiet: "detach_locked ss wid sv live = (r, sv', live') \<Longrightarrow> quiet sv live sv' live'"
  by (auto simp: detach_locked_def quiet_defs AList.delete_eq intro!: calm_rules calm_watchers)

lemma cursor_quiet: "cursor_locked ss b index len wid sv live = (r, sv', live') \<Longrightarrow> quiet sv live sv' live'"
proof -
  have "calm live (live\<lparr>lw_subscribers := map (\<lambda>(c, s). if c = k then (c, s\<lparr>sub_editing := Some b\<rparr>) else (c, s)) (lw_subscribers live)\<rparr>)" for k
    by (force simp: calm_def live_circles_def)
  then show "cursor_locked ss b index len wid sv live = (r, sv', live') \<Longrightarrow> quiet sv live sv' live'"
    by (auto simp: cursor_locked_def quiet_defs split: if_splits option.splits intro!: calm_rules)
qed

lemma commit_edit_quiet:
  "commit_edit e sv live conn author sub committed lb = (r, sv', live') \<Longrightarrow> quiet sv live sv' live'"
  by (auto simp: commit_edit_def quiet_defs split: sum.splits if_splits intro!: calm_rules dest: db_commit_op_shape)

lemma apply_op_quiet: "apply_op e sv live conn author sub = (r, sv', live') \<Longrightarrow> quiet sv live sv' live'"
proof -
  assume a: "apply_op e sv live conn author sub = (r, sv', live')"
  show ?thesis
  proof (cases "map_of (lw_blips live) (os_blip_id sub)")
    case None
    with a show ?thesis by (simp add: apply_op_def quiet_def calm_refl)
  next
    case (Some lb)
    from a Some show ?thesis
    proof (cases rule: apply_op_cases)
      case (commit committed lb')
      from commit_edit_quiet [OF commit(3)] show ?thesis by simp
    qed (auto simp: quiet_def intro!: calm_rules)
  qed
qed

interpretation create_blip: locked_body members_ok resident_ok "member_step u" "create_blip_locked e ss i parent cont"
  for u e ss i parent cont by (rule quiet_body) (rule create_blip_quiet)

interpretation create_comment: locked_body members_ok resident_ok "member_step u" "create_comment_locked e ss i target c seed"
  for u e ss i target c seed by (rule quiet_body) (rule create_comment_quiet)

interpretation reply_to_comment: locked_body members_ok resident_ok "member_step u" "reply_to_comment_locked e ss c seed"
  for u e ss c seed by (rule quiet_body) (rule reply_to_comment_quiet)

interpretation resolve_comment: locked_body members_ok resident_ok "member_step u" "resolve_comment_locked e ss c want"
  for u e ss c want by (rule quiet_body) (rule resolve_comment_quiet)

interpretation delete_blip: locked_body members_ok resident_ok "member_step u" "delete_blip_locked e ss i"
  for u e ss i by (rule quiet_body) (rule delete_blip_quiet)

interpretation detach: locked_body members_ok resident_ok "member_step u" "detach_locked ss"
  for u ss by (rule quiet_body) (rule detach_quiet)

interpretation cursor: locked_body members_ok resident_ok "member_step u" "cursor_locked ss b index len"
  for u ss b index len by (rule quiet_body) (rule cursor_quiet)

interpretation apply_op: locked_body members_ok resident_ok "member_step u" "\<lambda>_ sv live. apply_op e sv live conn author sub"
  for u e conn author sub by (rule quiet_body) (rule apply_op_quiet)

end
