(* ===== verification/Gal_Roster.thy ===== *)
theory Gal_Roster
  imports Gal_Coherence
begin

text \<open>
  The bodies that change membership, titles, modes or watchers meet the contract: what each
  does to storage and to the resident wave is one and the same step of the membership
  specification, taken by the sender of the command.
\<close>

section \<open>Bodies that change who is where\<close>

text \<open>Watching a wave takes the right to see it.\<close>

lemma attach_watchers:
  assumes "resident_ok st wid live" "may_view live u"
  shows "resident_ok st wid (live\<lparr>lw_subscribers := AList.update c
    \<lparr>sub_user = u, sub_chan = a, sub_editing = None\<rparr> (lw_subscribers live)\<rparr>)"
proof -
  have "set (AList.update c s subs) \<subseteq> insert (c, s) (set subs)" for s and subs :: "(nat \<times> subscriber) list"
    by (induction subs) auto
  then have "snd ` set (AList.update c s subs) \<subseteq> insert s (snd ` set subs)" for s and subs :: "(nat \<times> subscriber) list"
    by fastforce
  then have "\<forall>s \<in> snd ` set (AList.update c \<lparr>sub_user = u, sub_chan = a, sub_editing = None\<rparr> (lw_subscribers live)).
      may_view live (sub_user s)" using assms by (fastforce simp: resident_ok_def)
  with assms show ?thesis by (simp add: resident_ok_def live_circles_def may_view_def)
qed

lemma attach_frame:
  assumes "attach_locked ss wid marks flags sv live = (r, sv', live')"
  shows "sv_store sv' = sv_store sv" "sv_heap sv' = sv_heap sv" "sv_waves sv' = sv_waves sv"
    "sv_next_addr sv' = sv_next_addr sv"
  using assms by (auto simp: attach_locked_def Let_def case_prod_beta' split: if_splits)

lemma attach_keeps:
  assumes "attach_locked ss wid marks flags sv live = (r, sv', live')" "resident_ok (sv_store sv) wid live"
  shows "resident_ok (sv_store sv) wid live'"
proof (cases "may_view live (ss_uid ss)")
  case True
  let ?l = "live\<lparr>lw_subscribers := AList.update (ss_conn_id ss)
    \<lparr>sub_user = ss_uid ss, sub_chan = ss_chan ss, sub_editing = None\<rparr> (lw_subscribers live)\<rparr>"
  have "calm ?l live'"
    using assms(1) True by (auto simp: attach_locked_def Let_def case_prod_beta' intro!: calm_rules)
  with resident_ok_calm [OF attach_watchers [OF assms(2) True]] show ?thesis by simp
qed (use assms in \<open>simp add: attach_locked_def\<close>)

interpretation attach: locked_body members_ok resident_ok "member_step u" "\<lambda>wid. attach_locked ss wid marks flags"
  for u ss marks flags
  by unfold_locales (simp_all add: member_step_refl attach_frame attach_keeps)

text \<open>A body that changes the circles of its own wave by a step of its sender.\<close>

definition moved :: "user_id \<Rightarrow> wave_id \<Rightarrow> store \<Rightarrow> store \<Rightarrow> live_wave \<Rightarrow> bool" where
  "moved u wid st st' live' \<longleftrightarrow> members_ok st' \<and> resident_ok st' wid live' \<and> member_step u st st'
     \<and> (\<forall>wid'. wid' \<noteq> wid \<longrightarrow> stored_circles st' wid' = stored_circles st wid' \<and> db_wave st' wid' = db_wave st wid')"

lemma moved_same: "members_ok st \<Longrightarrow> resident_ok st wid live \<Longrightarrow> moved u wid st st live"
  by (simp add: moved_def member_step_refl)

lemma moved_body:
  assumes "\<And>wid sv live r sv' live'. body wid sv live = (r, sv', live') \<Longrightarrow>
      sv_heap sv' = sv_heap sv \<and> sv_waves sv' = sv_waves sv \<and> sv_next_addr sv' = sv_next_addr sv"
    and "\<And>wid sv live r sv' live'. body wid sv live = (r, sv', live') \<Longrightarrow> members_ok (sv_store sv) \<Longrightarrow>
      resident_ok (sv_store sv) wid live \<Longrightarrow> moved u wid (sv_store sv) (sv_store sv') live'"
  shows "locked_body members_ok resident_ok (member_step u) body"
proof unfold_locales
  fix wid sv live r sv' live'
  assume b: "body wid sv live = (r, sv', live')"
  show "sv_heap sv' = sv_heap sv \<and> sv_waves sv' = sv_waves sv \<and> sv_next_addr sv' = sv_next_addr sv"
    by (rule assms(1) [OF b])
  assume "members_ok (sv_store sv)" "resident_ok (sv_store sv) wid live"
  note m = assms(2) [OF b this]
  then show "members_ok (sv_store sv') \<and> resident_ok (sv_store sv') wid live' \<and> member_step u (sv_store sv) (sv_store sv')"
    by (simp add: moved_def)
  show "resident_ok (sv_store sv') wid' other" if "wid' \<noteq> wid" "resident_ok (sv_store sv) wid' other" for wid' other
    using m that by (simp add: moved_def resident_ok_def)
qed (rule member_step_refl)

lemma movedI:
  assumes "members_ok st" "resident_ok st wid live" "keys_ok st'"
    and "circle_step (w_creator (lw_wave live)) u (stored_circles st wid) (stored_circles st' wid)"
    and "\<And>wid'. wid' \<noteq> wid \<Longrightarrow> stored_circles st' wid' = stored_circles st wid'" "\<And>wid'. db_wave st' wid' = db_wave st wid'"
    and "lw_wave live' = lw_wave live" "lw_evicted live' = lw_evicted live" "distinct (map wl_id (lw_wavelets live'))"
    and "\<And>w. w \<in> set (lw_wavelets live') \<Longrightarrow> distinct (wl_participants w)"
    and "live_circles live' = stored_circles st' wid"
    and "\<And>v. v \<in> sub_user ` snd ` set (lw_subscribers live') \<Longrightarrow> may_view live' v"
  shows "moved u wid st st' live'"
proof -
  have keys: "keys_ok st" and conf: "confined (stored_circles st i)" "rooted (stored_circles st i)" for i
    using assms(1) by (auto simp: members_ok_def)
  have "confined (stored_circles st' i) \<and> rooted (stored_circles st' i)" for i
    using circle_step_confined [OF assms(4) conf(1) stored_circles_inj [OF keys]]
      circle_step_rooted [OF assms(4) conf(2) stored_circles_inj [OF keys]] assms(5) conf
    by (cases "i = wid") simp_all
  then have "members_ok st'" using assms(3) by (simp add: members_ok_def)
  moreover have w: "db_wave st wid = Ok (Some (lw_wave live))" using assms(2) by (simp add: resident_ok_def)
  moreover have "member_step u st st'"
    unfolding member_step_def using w assms(4,5) rules_same [of st st'] assms(6) by metis
  moreover have "resident_ok st' wid live'"
    using w assms(2,6-12) by (simp add: resident_ok_def)
  ultimately show ?thesis using assms(5,6) by (simp add: moved_def)
qed

lemma change_circle_other: "i \<notin> ci_id ` R \<Longrightarrow> change_circle i f ` R = R"
  by (force simp: change_circle_def image_iff)

lemma found_circle:
  assumes "resident_ok st wid live" "find_live_wavelet live i = Some w"
  shows "live_circle w \<in> stored_circles st wid" "wl_id w = i"
    "wid' \<noteq> wid \<Longrightarrow> keys_ok st \<Longrightarrow> i \<notin> ci_id ` stored_circles st wid'"
    "i \<in> wl_id ` set (st_wavelets st)"
proof -
  have "w \<in> set (lw_wavelets live)" and i: "wl_id w = i"
    using assms find_live_wavelet_iff by (auto simp: resident_ok_def)
  then have "live_circle w \<in> live_circles live" by (simp add: live_circles_def)
  then show c: "live_circle w \<in> stored_circles st wid" using assms(1) by (simp add: resident_ok_def)
  show "wl_id w = i" by (rule i)
  have mem: "i \<in> ci_id ` stored_circles st wid" using c i by (metis image_eqI live_circle_fields(1))
  then show "wid' \<noteq> wid \<Longrightarrow> keys_ok st \<Longrightarrow> i \<notin> ci_id ` stored_circles st wid'"
    using stored_circles_disjoint by blast
  from mem show "i \<in> wl_id ` set (st_wavelets st)" by (auto simp: stored_circles_def)
qed

lemma accessible:
  assumes "may_access live u i"
  obtains w where "find_live_wavelet live i = Some w" "u \<in> set (wl_participants w)"
  using assms by (auto simp: may_access_def split: option.splits)

lemma wavelet_mut_frame [simp]:
  "lw_wave (wavelet_mut i f live) = lw_wave live" "lw_subscribers (wavelet_mut i f live) = lw_subscribers live"
  by (simp_all add: wavelet_mut_def)

text \<open>A change of one wavelet, made in storage and in memory.\<close>

lemma moved_mut:
  assumes "members_ok st" "resident_ok st wid live" "find_live_wavelet live i = Some w" "keys_ok st'"
    and stored: "\<And>wid'. stored_circles st' wid' = change_circle i g ` stored_circles st wid'"
    and "\<And>wid'. db_wave st' wid' = db_wave st wid'"
    and "circle_step (w_creator (lw_wave live)) u (stored_circles st wid) (change_circle i g ` stored_circles st wid)"
    and f: "\<And>v. live_circle (f v) = g (live_circle v)" "\<And>v. wl_id (f v) = wl_id v"
    and kept: "distinct (wl_participants w) \<Longrightarrow> distinct (wl_participants (f w))"
    and calm: "calm (wavelet_mut i f live) live'"
    and watch: "\<And>v. v \<in> sub_user ` snd ` set (lw_subscribers live') \<Longrightarrow> may_view live' v"
  shows "moved u wid st st' live'"
proof (rule movedI [OF assms(1,2,4)])
  have keys: "keys_ok st" using assms(1) by (simp add: members_ok_def)
  have ids: "distinct (map wl_id (lw_wavelets live))" using assms(2) by (simp add: resident_ok_def)
  show "circle_step (w_creator (lw_wave live)) u (stored_circles st wid) (stored_circles st' wid)"
    unfolding stored by (fact assms(7))
  show "stored_circles st' wid' = stored_circles st wid'" if "wid' \<noteq> wid" for wid'
    unfolding stored using found_circle(3) [OF assms(2,3) that keys] by (rule change_circle_other)
  show "lw_wave live' = lw_wave live" "lw_evicted live' = lw_evicted live"
    using calmD(1,6) [OF calm] by (simp_all add: wavelet_mut_def)
  have "map wl_id (lw_wavelets live') = map wl_id (lw_wavelets live)"
    using calmD(3) [OF calm] by (simp add: lw_wavelets_mut update_first_map f(2))
  with ids show "distinct (map wl_id (lw_wavelets live'))" by (simp only:)
  show "live_circles live' = stored_circles st' wid"
    using calmD(2) [OF calm] assms(2) live_circles_mut [OF ids, of i f g] f(1) by (simp add: resident_ok_def stored)
  show "distinct (wl_participants v)" if v: "v \<in> set (lw_wavelets live')" for v
  proof -
    have "wl_participants v \<in> wl_participants ` set (lw_wavelets (wavelet_mut i f live))"
      using v calmD(4) [OF calm] by (metis image_eqI list.set_map)
    moreover have "v = w" if "v \<in> set (lw_wavelets live)" "wl_id v = i" for v
      using that assms(3) find_live_wavelet_iff [OF ids, of i v] by simp
    ultimately show ?thesis
      using assms(2) kept by (auto simp: lw_wavelets_mut update_first_set [OF ids] resident_ok_def split: if_splits)
  qed
qed (fact assms(6), fact watch)

lemma watchers_kept:
  assumes "resident_ok st wid live" "calm l live'" "lw_subscribers l = lw_subscribers live"
    "\<And>v. may_view live v \<Longrightarrow> may_view l v" "v \<in> sub_user ` snd ` set (lw_subscribers live')"
  shows "may_view live' v"
proof -
  have "v \<in> sub_user ` snd ` set (lw_subscribers live)" by (rule subsetD [OF calmD(5) [OF assms(2), unfolded assms(3)] assms(5)])
  then have "may_view l v" using assms(1,4) by (auto simp: resident_ok_def)
  then show ?thesis using calmD(2) [OF assms(2)] by (simp add: may_view_circle)
qed

lemma set_title_moved:
  assumes "set_title_locked e ss i title wid sv live = (r, sv', live')" "members_ok (sv_store sv)"
    "resident_ok (sv_store sv) wid live"
  shows "moved (ss_uid ss) wid (sv_store sv) (sv_store sv') live'"
proof (cases "sv_store sv' = sv_store sv \<and> live' = live")
  case True
  with assms(2,3) show ?thesis by (simp add: moved_same)
next
  case False
  let ?f = "\<lambda>w. w\<lparr>wl_title := title\<rparr>" and ?g = "ci_title_update (\<lambda>_. title)"
  have acc: "may_access live (ss_uid ss) i" and st': "sv_store sv' = db_set_title (env_now e 0) (sv_store sv) i title"
    and calm: "calm (wavelet_mut i ?f live) live'"
    using assms(1) False
    by (auto simp: set_title_locked_def stored_def Let_def case_prod_beta' schedule_inbox_update_def
        split: if_splits sum.splits intro!: calm_rules)
  from accessible [OF acc] obtain w where w: "find_live_wavelet live i = Some w" "ss_uid ss \<in> set (wl_participants w)" .
  note c = found_circle [OF assms(3) w(1)]
  show ?thesis
  proof (rule moved_mut [OF assms(2,3) w(1), where f = ?f and g = ?g])
    show "keys_ok (sv_store sv')"
      unfolding st' using assms(2) by (intro keys_ok_membership(3)) (simp add: members_ok_def)
    show "circle_step (w_creator (lw_wave live)) (ss_uid ss) (stored_circles (sv_store sv) wid)
        (change_circle i ?g ` stored_circles (sv_store sv) wid)"
      using retitle [OF c(1), of "ss_uid ss"] w(2) c(2) by simp
    show "may_view live' v" if "v \<in> sub_user ` snd ` set (lw_subscribers live')" for v
    proof (rule watchers_kept [OF assms(3) calm _ _ that])
      have "distinct (map wl_id (lw_wavelets live))" using assms(3) by (simp add: resident_ok_def)
      from live_circles_mut [OF this, of i ?f ?g]
      show "may_view (wavelet_mut i ?f live) v" if "may_view live v" for v
        using that by (auto simp: may_view_circle live_circle_def change_members)
    qed simp
    show "calm (wavelet_mut i ?f live) live'" by (fact calm)
    show "stored_circles (sv_store sv') wid' = change_circle i ?g ` stored_circles (sv_store sv) wid'" for wid'
      unfolding st' by (rule stored_circles_title)
  qed (simp_all add: st' db_wave_def db_set_title_def live_circle_def)
qed

lemma add_participant_moved:
  assumes "add_participant_locked e ss i u wid sv live = (r, sv', live')" "members_ok (sv_store sv)"
    "resident_ok (sv_store sv) wid live"
  shows "moved (ss_uid ss) wid (sv_store sv) (sv_store sv') live'"
proof (cases "sv_store sv' = sv_store sv \<and> live' = live")
  case True
  with assms(2,3) show ?thesis by (simp add: moved_same)
next
  case False
  let ?f = "\<lambda>w. w\<lparr>wl_participants := wl_participants w @ [user_id u]\<rparr>" and ?g = "join (user_id u)"
  obtain w where w: "find_live_wavelet live i = Some w"
    using assms(1) False by (cases "find_live_wavelet live i") (auto simp: add_participant_locked_def Let_def split: if_splits)
  have ids: "distinct (map wl_id (lw_wavelets live))" using assms(3) by (simp add: resident_ok_def)
  have acc: "ss_uid ss \<in> set (wl_participants w)" and new: "user_id u \<notin> set (wl_participants w)"
    and inside: "wl_kind w = PrivateReplyKind \<longrightarrow> (\<exists>v \<in> set (lw_wavelets live). wl_kind v = Conversation \<and> user_id u \<in> set (wl_participants v))"
    and st': "sv_store sv' = db_add_participant (env_now e 0) (sv_store sv) i (user_id u)"
    and calm: "calm (wavelet_mut i ?f live) live'"
    using assms(1) False w
    by (auto simp: add_participant_locked_def may_access_def stored_def Let_def case_prod_beta' schedule_inbox_update_def
        list_ex_iff split: if_splits sum.splits intro!: calm_rules)
  note c = found_circle [OF assms(3) w]
  have conv: "wl_kind w = Conversation \<or> (\<exists>d \<in> stored_circles (sv_store sv) wid. ci_kind d = Conversation \<and> user_id u \<in> ci_members d)"
  proof (cases "wl_kind w")
    case PrivateReplyKind
    with inside obtain v where "v \<in> set (lw_wavelets live)" "wl_kind v = Conversation" "user_id u \<in> set (wl_participants v)"
      by blast
    then have "\<exists>d \<in> live_circles live. ci_kind d = Conversation \<and> user_id u \<in> ci_members d"
      by (auto simp: live_circles_def)
    with assms(3) show ?thesis by (simp add: resident_ok_def)
  qed simp
  show ?thesis
  proof (rule moved_mut [OF assms(2,3) w, where f = ?f and g = ?g])
    show "keys_ok (sv_store sv')"
      unfolding st' using assms(2) by (intro keys_ok_membership(1) c(4)) (simp add: members_ok_def)
    show "circle_step (w_creator (lw_wave live)) (ss_uid ss) (stored_circles (sv_store sv) wid)
        (change_circle i ?g ` stored_circles (sv_store sv) wid)"
      using invite [OF c(1), of "ss_uid ss" "user_id u"] acc conv c(2) by simp
    show "may_view live' v" if "v \<in> sub_user ` snd ` set (lw_subscribers live')" for v
    proof (rule watchers_kept [OF assms(3) calm _ _ that])
      from live_circles_mut [OF ids, of i ?f ?g]
      show "may_view (wavelet_mut i ?f live) v" if "may_view live v" for v
        using that by (auto simp: may_view_circle live_circle_def change_members join_def)
    qed simp
    show "calm (wavelet_mut i ?f live) live'" by (fact calm)
    show "distinct (wl_participants (?f w))" if "distinct (wl_participants w)" using that new by simp
    show "stored_circles (sv_store sv') wid' = change_circle i ?g ` stored_circles (sv_store sv) wid'" for wid'
      unfolding st' by (rule stored_circles_add)
  qed (auto simp: st' db_wave_def db_add_participant_def live_circle_def join_def)
qed

text \<open>
  Removal, in the order of the code: the wavelet loses the member, then, if it is the
  conversation, every private reply does, and a user who can see nothing any more stops
  watching.
\<close>

definition removed :: "user_id \<Rightarrow> wavelet \<Rightarrow> live_wave \<Rightarrow> live_wave" where
  "removed u w live = (let l = wavelet_mut (wl_id w) (without_participant u) live
     in if wl_kind w = Conversation then leave_private_replies u l else l)"

lemma live_circle_without: "live_circle (without_participant u w) = part u (live_circle w)"
  by (auto simp: live_circle_def without_participant_def part_def)

lemma calm_leave:
  assumes "calm l l'"
  shows "calm (leave_private_replies u l) (leave_private_replies u l')"
proof -
  let ?blank = "wl_last_modified_update (\<lambda>_. 0)"
    and ?h = "\<lambda>w. if wl_kind w = PrivateReplyKind \<and> has_participant w u then without_participant u w else w"
  have "?blank (?h w) = ?h (?blank w)" for w by (simp add: without_participant_def)
  then have "map ?blank (map ?h ws) = map ?h (map ?blank ws)" for ws by (simp only: map_map comp_def)
  moreover have "lw_wave (leave_private_replies u l) = lw_wave l" "lw_subscribers (leave_private_replies u l) = lw_subscribers l"
    "lw_evicted (leave_private_replies u l) = lw_evicted l" for l
    by (simp_all add: leave_private_replies_def)
  ultimately show ?thesis using assms by (simp only: calm_def lw_wavelets_leave)
qed

lemma removed_frame:
  "lw_wave (removed u w live) = lw_wave live" "lw_subscribers (removed u w live) = lw_subscribers live"
  "map wl_id (lw_wavelets (removed u w live)) = map wl_id (lw_wavelets live)"
  by (simp_all add: removed_def Let_def leave_private_replies_def lw_wavelets_mut update_first_map without_participant_def)

lemma removed_circles:
  assumes "distinct (map wl_id (lw_wavelets live))"
  shows "live_circles (removed u w live) =
    (if wl_kind w = Conversation then depart (wl_id w) u else change_circle (wl_id w) (part u)) ` live_circles live"
proof -
  have l: "live_circles (wavelet_mut (wl_id w) (without_participant u) live) = change_circle (wl_id w) (part u) ` live_circles live"
    by (rule live_circles_mut [OF assms]) (simp add: live_circle_without)
  have "(if ci_kind (change_circle i (part u) c) = PrivateReplyKind then part u (change_circle i (part u) c)
      else change_circle i (part u) c) = depart i u c" for i c
    by (auto simp: change_circle_def depart_def part_def)
  then show ?thesis
    by (cases "wl_kind w") (simp_all only: removed_def Let_def live_circles_leave l image_image if_True wavelet_kind.simps if_False refl)
qed

lemma remove_participant_cases:
  assumes "remove_participant_locked e ss i u wid sv live = (r, sv', live')" "resident_ok (sv_store sv) wid live"
  obtains (same) "sv_store sv' = sv_store sv" "live' = live"
  | (gone) w where "find_live_wavelet live i = Some w" "ss_uid ss \<in> set (wl_participants w)"
      "ss_uid ss = u \<or> ss_uid ss = w_creator (lw_wave live)" "\<not> set (wl_participants w) \<subseteq> {u}"
      "sv_store sv' = db_remove_participant (sv_store sv) i u"
      "calm (removed u w live) live'" "may_view live' u \<or> u \<notin> sub_user ` snd ` set (lw_subscribers live')"
proof (cases "find_live_wavelet live i")
  case None
  with assms(1) same show thesis by (auto simp: remove_participant_locked_def may_access_def)
next
  case (Some w)
  define l1 where "l1 = wavelet_mut i (without_participant u) live"
  define b where "b = broadcast l1 (sv_chans sv) i None (ParticipantRemovedMsg wid i u)"
  define c where "c = (if wl_kind w = Conversation
    then broadcast_each (leave_private_replies u (fst b)) (snd b) (map (\<lambda>c. (c, ParticipantRemovedMsg wid c u)) (cascaded u (fst b)))
    else b)"
  define live2 where "live2 = (if \<not> may_view (fst c) u
    then (fst c)\<lparr>lw_subscribers := filter (\<lambda>(_, s). sub_user s \<noteq> u) (lw_subscribers (fst c))\<rparr> else fst c)"
  have i: "wl_id w = i" and dist: "distinct (wl_participants w)"
    using Some assms(2) by (auto simp: find_live_wavelet_def find_Some_iff resident_ok_def)
  have two: "\<not> set (wl_participants w) \<subseteq> {u}" if "\<not> length (wl_participants w) \<le> 1"
    using that distinct_card [OF dist] card_mono [of "{u}" "set (wl_participants w)"] by auto
  have "calm l1 (fst b)" by (simp add: b_def calm_rules)
  then have "calm (removed u w live) (fst c)"
    using i by (simp add: removed_def c_def l1_def calm_leave calm_rules Let_def)
  moreover have shrink: "calm (fst c) live2"
    by (auto simp: live2_def intro: calm_refl calm_watchers)
  ultimately have calm: "calm (removed u w live) live2" by (rule calm_extend)
  have watch: "may_view live2 u \<or> u \<notin> sub_user ` snd ` set (lw_subscribers live2)"
    using calmD(2) [OF shrink] by (auto simp: live2_def may_view_circle)
  let ?go = "ss_uid ss \<in> set (wl_participants w) \<and> (ss_uid ss = u \<or> ss_uid ss = w_creator (lw_wave live))
    \<and> u \<in> set (wl_participants w) \<and> \<not> length (wl_participants w) \<le> 1 \<and> env_write e"
  show thesis
  proof (cases ?go)
    case False
    with assms(1) Some have "sv' = sv \<and> live' = live"
      by (auto simp: remove_participant_locked_def may_access_def stored_def list_ex_iff split: if_splits)
    with same show thesis by simp
  next
    case True
    have g: "may_access live (ss_uid ss) i = True" "(u \<noteq> ss_uid ss \<and> w_creator (lw_wave live) \<noteq> ss_uid ss) = False"
      "list_ex (\<lambda>p. p = u) (wl_participants w) = True" "(length (wl_participants w) \<le> 1) = False"
      "stored e (Ok st) = Ok st" for st
      using Some True by (auto simp: may_access_def list_ex_iff stored_def)
    have run: "remove_participant_locked e ss i u wid sv live =
      (let sv2 = sv\<lparr>sv_store := db_remove_participant (sv_store sv) i u, sv_chans := snd c\<rparr>;
           z = (if \<not> may_view (fst c) u
                then ((fst c)\<lparr>lw_subscribers := filter (\<lambda>(_, s). sub_user s \<noteq> u) (lw_subscribers (fst c))\<rparr>,
                      send_to_user sv2 u (WaveRemovedMsg wid))
                else (fst c, sv2))
       in (Ok (), schedule_inbox_update (snd z) wid, fst z))"
      unfolding remove_participant_locked_def g Some option.case sum.case if_True if_False not_True_eq_False Let_def
        l1_def [symmetric] case_prod_beta' b_def [symmetric] prod.collapse c_def [symmetric] by (rule refl)
    have "sv_store sv' = db_remove_participant (sv_store sv) i u \<and> live' = live2"
      using assms(1) unfolding run by (auto simp: Let_def live2_def schedule_inbox_update_def send_to_user_def split: if_splits)
    then show thesis using gone [OF Some] True calm watch two by auto
  qed
qed

lemma remove_participant_moved:
  assumes "remove_participant_locked e ss i u wid sv live = (r, sv', live')" "members_ok (sv_store sv)"
    "resident_ok (sv_store sv) wid live"
  shows "moved (ss_uid ss) wid (sv_store sv) (sv_store sv') live'"
  using assms(1,3)
proof (cases rule: remove_participant_cases)
  case same
  with assms(2,3) show ?thesis by (simp add: moved_same)
next
  case (gone w)
  let ?st = "sv_store sv" and ?g = "if wl_kind w = Conversation then depart i u else change_circle i (part u)"
  note c = found_circle [OF assms(3) gone(1)]
  have keys: "keys_ok ?st" using assms(2) by (simp add: members_ok_def)
  have ids: "distinct (map wl_id (lw_wavelets live))" using assms(3) by (simp add: resident_ok_def)
  obtain v where v: "v \<in> set (st_wavelets ?st)" "wl_id v = i" "wl_wave_id v = wid" "wl_kind v = wl_kind w"
    using c(1,2) by (auto simp: stored_circles_def circle_of_def live_circle_def)
  have stored: "stored_circles (sv_store sv') wid' = (if wid' = wid then ?g ` stored_circles ?st wid' else stored_circles ?st wid')" for wid'
    unfolding gone(5) using stored_circles_remove [OF keys v(1,2), of u wid'] v(3,4) by auto
  have circ: "live_circles live' = ?g ` live_circles live"
    using calmD(2) [OF gone(6)] removed_circles [OF ids, of u w] c(2) by simp
  show ?thesis
  proof (rule movedI [OF assms(2,3)])
    show "keys_ok (sv_store sv')" unfolding gone(5) by (rule keys_ok_membership(2) [OF keys])
    have "circle_step (w_creator (lw_wave live)) (ss_uid ss) (stored_circles ?st wid) (?g ` stored_circles ?st wid)"
      using leave [OF c(1), of "ss_uid ss" u "w_creator (lw_wave live)"] gone(2-4) c(2)
        leave_private [OF c(1), of "ss_uid ss" u "w_creator (lw_wave live)"]
      by (cases "wl_kind w") auto
    then show "circle_step (w_creator (lw_wave live)) (ss_uid ss) (stored_circles ?st wid) (stored_circles (sv_store sv') wid)"
      by (simp only: stored simp_thms if_True)
    show "stored_circles (sv_store sv') wid' = stored_circles ?st wid'" if "wid' \<noteq> wid" for wid'
      using that by (simp only: stored if_False)
    show "db_wave (sv_store sv') wid' = db_wave ?st wid'" for wid' by (simp add: gone(5) db_wave_def db_remove_participant_def)
    show "lw_wave live' = lw_wave live" using calmD(1) [OF gone(6)] by (simp add: removed_frame)
    show "lw_evicted live' = lw_evicted live"
      using calmD(6) [OF gone(6)] by (simp add: removed_def leave_private_replies_def wavelet_mut_def Let_def)
    show "distinct (map wl_id (lw_wavelets live'))" using calmD(3) [OF gone(6)] ids by (simp add: removed_frame)
    show "live_circles live' = stored_circles (sv_store sv') wid"
      using circ assms(3) by (simp only: stored simp_thms if_True resident_ok_def)
    have "\<forall>w \<in> set (lw_wavelets (removed u w live)). distinct (wl_participants w)"
      using assms(3) by (auto simp: removed_def Let_def lw_wavelets_leave lw_wavelets_mut update_first_set [OF ids]
          without_participant_def resident_ok_def)
    then show "distinct (wl_participants w')" if "w' \<in> set (lw_wavelets live')" for w'
      using that calmD(4) [OF gone(6)] by (metis (no_types, lifting) image_iff list.set_map)
    fix x assume x: "x \<in> sub_user ` snd ` set (lw_subscribers live')"
    show "may_view live' x"
    proof (cases "x = u")
      case True
      with gone(7) x show ?thesis by simp
    next
      case False
      have "x \<in> sub_user ` snd ` set (lw_subscribers live)"
        using subsetD [OF calmD(5) [OF gone(6)] x] by (simp add: removed_frame)
      then have "may_view live x" using assms(3) by (auto simp: resident_ok_def)
      then show ?thesis
        using False unfolding may_view_circle circ by (auto simp: depart_def change_circle_def)
    qed
  qed
qed

lemma private_reply_stored:
  assumes "db_create_private_reply st w b = Ok st'" "keys_ok st" "wl_wave_id w \<in> wr_id ` set (st_waves st)"
  shows "keys_ok st'" "wl_id w \<notin> wl_id ` set (st_wavelets st)" "db_wave st' wid = db_wave st wid"
    "stored_circles st' wid = (if wl_wave_id w = wid then insert (live_circle w) (stored_circles st wid) else stored_circles st wid)"
proof -
  obtain st1 where st1: "insert_wavelet st w = Ok st1" "insert_seeded_blip st1 b = Ok st'"
    using assms(1) by (auto simp: db_create_private_reply_def bind_result_Ok_iff)
  note ins = insert_wavelet_effect [OF st1(1) assms(2)] and sh = same_shape [OF insert_seeded_blip_shape [OF st1(2)]]
  show "keys_ok st'" using keys_ok_membership(5) [OF assms(2) st1(1) assms(3)] sh(2) by simp
  show "wl_id w \<notin> wl_id ` set (st_wavelets st)" by (rule ins(1))
  show "db_wave st' wid = db_wave st wid" using sh(3) ins(3) by (simp add: db_wave_def)
  show "stored_circles st' wid = (if wl_wave_id w = wid then insert (live_circle w) (stored_circles st wid) else stored_circles st wid)"
    using sh(1) ins(5) by (simp add: live_circle_def)
qed

lemma private_reply_cases:
  assumes "private_reply_locked e ss i anchor ids wid sv live = (r, sv', live')"
  obtains (same) "sv_store sv' = sv_store sv" "live' = live"
  | (added) p w b where "find_live_wavelet live i = Some p" "ss_uid ss \<in> set (wl_participants p)"
      "set ids \<subseteq> set (wl_participants p)" "wl_wave_id w = wid" "wl_kind w = PrivateReplyKind"
      "wl_participants w = ss_uid ss # filter (\<lambda>u. u \<noteq> ss_uid ss) ids"
      "db_create_private_reply (sv_store sv) w b = Ok (sv_store sv')"
      "calm (live\<lparr>lw_wavelets := lw_wavelets live @ [w]\<rparr>) live'"
proof (cases "sv_store sv' = sv_store sv \<and> live' = live")
  case False
  define w where "w = \<lparr>wl_id = wavelet_id_new (env_uuid e 0), wl_wave_id = wid, wl_kind = PrivateReplyKind,
    wl_title = live_title live, wl_participants = ss_uid ss # filter (\<lambda>u. u \<noteq> ss_uid ss) ids,
    wl_anchor_blip = Some anchor, wl_created_at = env_now e 0, wl_last_modified = env_now e 1\<rparr>"
  define b where "b = blip_new (env_now e 2) (env_uuid e 1) wid (wl_id w) (ss_uid ss) None 0"
  have acc: "may_access live (ss_uid ss) i"
    using assms False by (auto simp: private_reply_locked_def split: if_splits)
  from accessible [OF this] obtain p where p: "find_live_wavelet live i = Some p" "ss_uid ss \<in> set (wl_participants p)" .
  have inside: "find (\<lambda>u. u \<notin> set (wl_participants p)) ids = None"
    using assms False acc p(1)
    by (cases "find (\<lambda>u. u \<notin> set (wl_participants p)) ids")
       (auto simp: private_reply_locked_def Let_def split: if_splits sum.splits)
  have st: "db_create_private_reply (sv_store sv) w b = Ok (sv_store sv')"
    and calm: "calm (live\<lparr>lw_wavelets := lw_wavelets live @ [w]\<rparr>) live'"
    using assms False acc p(1) inside
    by (auto simp: private_reply_locked_def Let_def stored_def case_prod_beta' schedule_inbox_update_def
        w_def b_def split: if_splits sum.splits intro!: calm_rules)
  show thesis
  proof (rule added [OF p])
    show "set ids \<subseteq> set (wl_participants p)" using inside by (auto simp: find_None_iff)
    show "wl_wave_id w = wid" "wl_kind w = PrivateReplyKind"
      "wl_participants w = ss_uid ss # filter (\<lambda>u. u \<noteq> ss_uid ss) ids" by (simp_all add: w_def)
  qed (fact st, fact calm)
qed (use same in blast)

lemma private_reply_moved:
  assumes "private_reply_locked e ss i anchor ids wid sv live = (r, sv', live')" "distinct ids"
    "members_ok (sv_store sv)" "resident_ok (sv_store sv) wid live"
  shows "moved (ss_uid ss) wid (sv_store sv) (sv_store sv') live'"
  using assms(1)
proof (cases rule: private_reply_cases)
  case same
  with assms(3,4) show ?thesis by (simp add: moved_same)
next
  case (added p w b)
  let ?st = "sv_store sv"
  note c = found_circle [OF assms(4) added(1)]
  have keys: "keys_ok ?st" using assms(3) by (simp add: members_ok_def)
  have "wid \<in> wr_id ` set (st_waves ?st)"
    using assms(4) by (auto simp: resident_ok_def db_wave_def find_Some_iff split: option.splits)
  note st = private_reply_stored [OF added(7) keys, unfolded added(4), OF this]
  have res: "distinct (map wl_id (lw_wavelets live))" "live_circles live = stored_circles ?st wid"
    "\<forall>w \<in> set (lw_wavelets live). distinct (wl_participants w)" using assms(4) by (simp_all add: resident_ok_def)
  have "wl_id w \<notin> ci_id ` stored_circles ?st wid" using st(2) by (auto simp: stored_circles_def)
  then have fresh: "wl_id w \<notin> ci_id ` live_circles live" by (simp add: res(2))
  show ?thesis
  proof (rule movedI [OF assms(3,4) st(1)])
    show "circle_step (w_creator (lw_wave live)) (ss_uid ss) (stored_circles ?st wid) (stored_circles (sv_store sv') wid)"
      using whisper [OF c(1), of "ss_uid ss" "set (wl_participants w)" "wl_id w"] fresh added(2,3,5,6) st(4) [of wid]
      by (auto simp: res(2) live_circle_def)
    show "stored_circles (sv_store sv') wid' = stored_circles ?st wid'" if "wid' \<noteq> wid" for wid'
      using st(4) that by simp
    show "db_wave (sv_store sv') wid' = db_wave ?st wid'" for wid' by (rule st(3))
    show "lw_wave live' = lw_wave live" "lw_evicted live' = lw_evicted live" using calmD(1,6) [OF added(8)] by simp_all
    have "wl_id w \<notin> wl_id ` set (lw_wavelets live)" using fresh by (auto simp: live_circles_def image_image)
    then show "distinct (map wl_id (lw_wavelets live'))" using calmD(3) [OF added(8)] res(1) by simp
    have "\<forall>xs \<in> set (map wl_participants (lw_wavelets live')). distinct xs"
      unfolding calmD(4) [OF added(8)] using res(3) added(6) assms(2) by auto
    then show "distinct (wl_participants w')" if "w' \<in> set (lw_wavelets live')" for w' using that by simp
    have circ: "live_circles live' = insert (live_circle w) (live_circles live)"
      using calmD(2) [OF added(8)] by (simp add: live_circles_def)
    then show "live_circles live' = stored_circles (sv_store sv') wid" using st(4) [of wid] res(2) by simp
    fix x assume x: "x \<in> sub_user ` snd ` set (lw_subscribers live')"
    have "may_view live x" using subsetD [OF calmD(5) [OF added(8)] x] assms(4) by (auto simp: resident_ok_def)
    then show "may_view live' x" unfolding may_view_circle circ by blast
  qed
qed

text \<open>The mode of the wave, which is no circle's.\<close>

lemma db_wave_mode:
  assumes "db_wave st wid = Ok (Some w)"
  shows "db_wave (db_set_mode st wid mode) wid = Ok (Some (w\<lparr>w_mode := mode\<rparr>))"
    "wid' \<noteq> wid \<Longrightarrow> db_wave (db_set_mode st wid mode) wid' = db_wave st wid'"
proof -
  have find_map: "find (\<lambda>r. wr_id r = k) (map (\<lambda>r. if wr_id r = wid then r\<lparr>wr_mode := m\<rparr> else r) rows)
      = map_option (\<lambda>r. if k = wid then r\<lparr>wr_mode := m\<rparr> else r) (find (\<lambda>r. wr_id r = k) rows)" for k m and rows :: "wave_row list"
    by (induction rows) auto
  show "wid' \<noteq> wid \<Longrightarrow> db_wave (db_set_mode st wid mode) wid' = db_wave st wid'"
    by (simp add: db_wave_def st_waves_mode find_map split: option.split)
  show "db_wave (db_set_mode st wid mode) wid = Ok (Some (w\<lparr>w_mode := mode\<rparr>))"
    using assms mode_parse_roundtrip [of "mode_as_str mode" mode]
    by (auto simp: db_wave_def st_waves_mode find_map split: option.splits)
qed

lemma set_mode_moved:
  assumes "set_mode_locked e ss mode wid sv live = (r, sv', live')" "members_ok (sv_store sv)"
    "resident_ok (sv_store sv) wid live"
  shows "moved (ss_uid ss) wid (sv_store sv) (sv_store sv') live'"
proof (cases "sv_store sv' = sv_store sv \<and> live' = live")
  case True
  with assms(2,3) show ?thesis by (simp add: moved_same)
next
  case False
  let ?l = "live\<lparr>lw_wave := (lw_wave live)\<lparr>w_mode := mode\<rparr>\<rparr>"
  have st': "sv_store sv' = db_set_mode (sv_store sv) wid mode" and calm: "calm ?l live'"
    using assms(1) False
    by (auto simp: set_mode_locked_def stored_def Let_def case_prod_beta' schedule_inbox_update_def
        split: if_splits sum.splits intro!: calm_rules)
  have wave: "db_wave (sv_store sv) wid = Ok (Some (lw_wave live))" using assms(3) by (simp add: resident_ok_def)
  have creator: "w_creator (lw_wave live) = ss_uid ss"
    using assms(1) False
    by (auto simp: set_mode_locked_def permit_def action_allowed_def Let_def split: if_splits)
  have rules: "rules_step (ss_uid ss) (sv_store sv) (sv_store sv')"
    unfolding rules_step_def
  proof (intro allI impI)
    fix wid' w assume w: "db_wave (sv_store sv) wid' = Ok (Some w)"
    show "\<exists>mode. db_wave (sv_store sv') wid' = Ok (Some (w\<lparr>w_mode := mode\<rparr>)) \<and> (mode = w_mode w \<or> w_creator w = ss_uid ss)"
    proof (cases "wid' = wid")
      case True
      with w wave creator db_wave_mode(1) [OF wave, of mode, folded st'] show ?thesis by auto
    next
      case False
      with w db_wave_mode(2) [OF wave False, of mode, folded st'] show ?thesis by (intro exI [of _ "w_mode w"]) simp
    qed
  qed
  have circ: "stored_circles (sv_store sv') wid' = stored_circles (sv_store sv) wid'" for wid'
    by (simp add: st' db_set_mode_def stored_circles_def circle_of_def member_def)
  have "resident_ok (sv_store sv') wid ?l"
    using assms(3) db_wave_mode(1) [OF wave, of mode] circ
    by (simp add: resident_ok_def st' live_circles_def may_view_def)
  then have "resident_ok (sv_store sv') wid live'" by (rule resident_ok_calm [OF _ calm refl])
  moreover have "members_ok (sv_store sv')"
    using assms(2) keys_ok_membership(4) by (simp add: members_ok_def circ) (simp add: st')
  ultimately show ?thesis
    using db_wave_mode(2) [OF wave, of _ mode, folded st'] circ rules by (simp add: moved_def member_step_def)
qed

text \<open>Bodies leave the residency tables alone.\<close>

lemmas frame_defs = stored_def Let_def case_prod_beta' schedule_inbox_update_def send_to_user_def

lemma set_title_memory: "set_title_locked e ss i title wid sv live = (r, sv', live') \<Longrightarrow>
    sv_heap sv' = sv_heap sv \<and> sv_waves sv' = sv_waves sv \<and> sv_next_addr sv' = sv_next_addr sv"
  by (auto simp: set_title_locked_def frame_defs split: if_splits sum.splits)

lemma set_mode_memory: "set_mode_locked e ss mode wid sv live = (r, sv', live') \<Longrightarrow>
    sv_heap sv' = sv_heap sv \<and> sv_waves sv' = sv_waves sv \<and> sv_next_addr sv' = sv_next_addr sv"
  by (auto simp: set_mode_locked_def frame_defs split: if_splits sum.splits)

lemma add_participant_memory: "add_participant_locked e ss i u wid sv live = (r, sv', live') \<Longrightarrow>
    sv_heap sv' = sv_heap sv \<and> sv_waves sv' = sv_waves sv \<and> sv_next_addr sv' = sv_next_addr sv"
  by (cases "find_live_wavelet live i")
     (auto simp: add_participant_locked_def frame_defs split: if_splits sum.splits)

lemma remove_participant_memory: "remove_participant_locked e ss i u wid sv live = (r, sv', live') \<Longrightarrow>
    sv_heap sv' = sv_heap sv \<and> sv_waves sv' = sv_waves sv \<and> sv_next_addr sv' = sv_next_addr sv"
  by (cases "find_live_wavelet live i")
     (auto simp: remove_participant_locked_def frame_defs split: if_splits sum.splits)

lemma private_reply_memory: "private_reply_locked e ss i anchor ids wid sv live = (r, sv', live') \<Longrightarrow>
    sv_heap sv' = sv_heap sv \<and> sv_waves sv' = sv_waves sv \<and> sv_next_addr sv' = sv_next_addr sv"
  by (cases "find (\<lambda>u. u \<notin> set (case find_live_wavelet live i of Some w \<Rightarrow> wl_participants w | None \<Rightarrow> [])) ids")
     (auto simp: private_reply_locked_def frame_defs split: if_splits sum.splits)

interpretation set_title: locked_body members_ok resident_ok "member_step (ss_uid ss)" "set_title_locked e ss i title"
  for e ss i title by (rule moved_body, erule set_title_memory, erule (2) set_title_moved)

interpretation set_mode: locked_body members_ok resident_ok "member_step (ss_uid ss)" "set_mode_locked e ss mode"
  for e ss mode by (rule moved_body, erule set_mode_memory, erule (2) set_mode_moved)

interpretation add_participant: locked_body members_ok resident_ok "member_step (ss_uid ss)" "add_participant_locked e ss i u"
  for e ss i u by (rule moved_body, erule add_participant_memory, erule (2) add_participant_moved)

interpretation remove_participant: locked_body members_ok resident_ok "member_step (ss_uid ss)" "remove_participant_locked e ss i u"
  for e ss i u by (rule moved_body, erule remove_participant_memory, erule (2) remove_participant_moved)

text \<open>The people of a private reply come from the accounts, each of them once.\<close>

lemma private_reply_body:
  "distinct ids \<Longrightarrow> locked_body members_ok resident_ok (member_step (ss_uid ss)) (private_reply_locked e ss i anchor ids)"
  by (rule moved_body, erule private_reply_memory, rule private_reply_moved, assumption+)

lemma resolve_names_distinct: "keys_ok st \<Longrightarrow> distinct (fst (db_resolve_names f st names))"
  by (auto simp: db_resolve_names_def Let_def keys_ok_def distinct_map_filter)

end
