(* ===== verification/Gal_Reach.thy ===== *)
theory Gal_Reach
  imports Gal_Roster
begin

text \<open>
  The membership invariant of the whole server: every command is a step of the membership
  specification by its sender; and in every state the server can reach, whatever its clients
  send and whatever fails, the resident waves agree with storage and private replies are
  confined to the people of their conversation. Commands are taken one at a time, each run
  to its end.
\<close>

section \<open>Commands\<close>

definition server_inv :: "server \<Rightarrow> bool" where
  "server_inv sv \<longleftrightarrow> members_ok (sv_store sv) \<and> coherent {} resident_ok sv"

definition served_step :: "user_id \<Rightarrow> server \<Rightarrow> server \<Rightarrow> bool" where
  "served_step u sv sv' \<longleftrightarrow> server_inv sv' \<and> member_step u (sv_store sv) (sv_store sv')"

lemma served_stepI:
  "coherent {} resident_ok sv' \<and> members_ok (sv_store sv') \<and> member_step u (sv_store sv) (sv_store sv') \<Longrightarrow>
   served_step u sv sv'"
  by (simp add: served_step_def server_inv_def)

text \<open>Only queues, limiters, connections and notices changed.\<close>

definition aside :: "server \<Rightarrow> server \<Rightarrow> bool" where
  "aside sv sv' \<longleftrightarrow> sv_store sv' = sv_store sv \<and> sv_heap sv' = sv_heap sv \<and> sv_waves sv' = sv_waves sv
     \<and> sv_next_addr sv' = sv_next_addr sv"

lemma aside_inv: "aside sv sv' \<Longrightarrow> server_inv sv' = server_inv sv"
  by (simp add: aside_def server_inv_def coherent_def)

lemma aside_step: "served_step u sv sv1 \<Longrightarrow> aside sv1 sv' \<Longrightarrow> served_step u sv sv'"
  using aside_inv [of sv1 sv'] by (simp add: served_step_def) (simp add: aside_def)

lemma served_refl: "server_inv sv \<Longrightarrow> served_step u sv sv"
  by (simp add: served_step_def member_step_refl)

lemma aside_served: "server_inv sv \<Longrightarrow> aside sv sv' \<Longrightarrow> served_step u sv sv'"
  by (rule aside_step [OF served_refl])

lemma session_send_aside: "aside sv (session_send sv ss m)"
  by (simp add: aside_def session_send_def)

lemma send_inbox_row_aside: "aside sv (send_inbox_row e sv ss wid)"
  by (simp add: aside_def send_inbox_row_def session_send_def split: option.split)

lemma schedule_aside: "aside sv (schedule_inbox_update sv wid)"
  by (simp add: aside_def schedule_inbox_update_def)

lemma shape_served:
  assumes "server_inv sv" "shape st = shape (sv_store sv)"
  shows "served_step u sv (sv\<lparr>sv_store := st\<rparr>)"
proof -
  have "coherent {} resident_ok (sv\<lparr>sv_store := st\<rparr>)"
    by (rule coherent_cong [of _ sv]) (use assms in \<open>auto simp: server_inv_def intro: resident_ok_calm [OF _ calm_refl]\<close>)
  then show ?thesis
    using assms members_ok_shape [OF assms(2)] member_step_shape [OF assms(2)]
    by (simp add: served_step_def server_inv_def)
qed

lemma open_wave_served:
  assumes "open_wave e sv ss wid = (r, sv', ss')" "server_inv sv"
  shows "served_step u sv sv'" "sv_store sv' = sv_store sv"
proof -
  have ok: "members_ok (sv_store sv)" "coherent {} resident_ok sv" using assms(2) by (simp_all add: server_inv_def)
  let ?found = "case lookup_wave e sv wid of
      (Ok a, sv) \<Rightarrow> if lw_evicted (sv_heap sv a) then lookup_wave e sv wid else (Ok a, sv)
    | (Err m, sv) \<Rightarrow> (Err m, sv)"
  obtain r1 sv1 where f: "?found = (r1, sv1)" by (cases ?found)
  obtain r0 sv0 where l: "lookup_wave e sv wid = (r0, sv0)" by (cases "lookup_wave e sv wid")
  note c0 = members.lookup_wave_coherent [OF l ok(2,1)]
  have c1: "coherent {} resident_ok sv1 \<and> sv_store sv1 = sv_store sv \<and> (\<forall>a. r1 = Ok a \<longrightarrow> map_of (sv_waves sv1) wid = Some a)"
  proof (cases "\<exists>a. r0 = Ok a \<and> lw_evicted (sv_heap sv0 a)")
    case True
    then have "lookup_wave e sv0 wid = (r1, sv1)" using f l by auto
    from members.lookup_wave_coherent [OF this] c0 ok(1) show ?thesis by simp
  next
    case False
    then have "(r1, sv1) = (r0, sv0)" using f l by (auto split: sum.splits if_splits)
    with c0 show ?thesis by simp
  qed
  show "served_step u sv sv'" "sv_store sv' = sv_store sv"
  proof -
    have "served_step u sv sv' \<and> sv_store sv' = sv_store sv"
    proof (cases r1)
      case (Inl m)
      then have "sv' = sv1" using assms(1) f by (simp add: open_wave_def Let_def)
      with c1 ok show ?thesis by (auto intro!: served_stepI simp: member_step_refl)
    next
      case (Inr a)
      let ?body = "attach_locked ss wid (read_marks_of e sv (ss_uid ss) wid)
        (if env_read e then db_flags (sv_store sv) (ss_uid ss) wid else \<lparr>wf_archived = False, wf_muted = False\<rparr>)"
      obtain r2 sv2 live2 where b: "?body sv1 (sv_heap sv1 a) = (r2, sv2, live2)"
        by (cases "?body sv1 (sv_heap sv1 a)") auto
      then have run: "run_locked ?body sv1 a = (r2, sv2\<lparr>sv_heap := (sv_heap sv2)(a := live2)\<rparr>)"
        by (simp add: run_locked_def)
      have sv': "sv' = sv2\<lparr>sv_heap := (sv_heap sv2)(a := live2)\<rparr>" using assms(1) f Inr run
        by (auto simp: open_wave_def Let_def split: sum.splits)
      have "map_of (sv_waves sv1) wid = Some a" "members_ok (sv_store sv1)" using c1 ok Inr by auto
      from attach.run_coherent [OF run _ this(2,1)] c1
      have "coherent {} resident_ok sv' \<and> members_ok (sv_store sv') \<and> member_step u (sv_store sv1) (sv_store sv')"
        by (simp add: sv')
      moreover have "sv_store sv' = sv_store sv1" using attach_frame(1) [OF b] by (simp add: sv')
      ultimately show ?thesis using c1 by (auto intro!: served_stepI)
    qed
    then show "served_step u sv sv'" "sv_store sv' = sv_store sv" by auto
  qed
qed

lemma maybe_evict_served: "served_step u sv sv1 \<Longrightarrow> served_step u sv (maybe_evict sv1 wid)"
proof -
  have "sv_store (maybe_evict sv1 wid) = sv_store sv1" by (simp add: maybe_evict_def split: option.split)
  then show "served_step u sv sv1 \<Longrightarrow> served_step u sv (maybe_evict sv1 wid)"
    using maybe_evict_coherent by (auto simp: served_step_def server_inv_def)
qed

lemma leave_wave_served:
  assumes "leave_wave e sv ss wid = (sv', ss')" "server_inv sv"
  shows "served_step u sv sv'"
proof (cases "wid \<in> set (ss_subscribed ss)")
  case True
  let ?ss = "ss\<lparr>ss_subscribed := filter (\<lambda>w. w \<noteq> wid) (ss_subscribed ss)\<rparr>"
  obtain r1 sv1 where o1: "open_resident e sv wid = (r1, sv1)" by (cases "open_resident e sv wid")
  have ok: "members_ok (sv_store sv)" "coherent {} resident_ok sv" using assms(2) by (simp_all add: server_inv_def)
  note c = members.open_resident_coherent [OF o1 ok(2,1)]
  have step1: "served_step u sv sv1" using c ok by (intro served_stepI) (simp add: member_step_refl)
  show ?thesis
  proof (cases "\<exists>a. r1 = Ok (Some a)")
    case True
    then obtain a where a: "r1 = Ok (Some a)" by blast
    obtain r2 sv2 where run: "run_locked (detach_locked ?ss wid) sv1 a = (r2, sv2)"
      by (cases "run_locked (detach_locked ?ss wid) sv1 a")
    have "members_ok (sv_store sv1)" "map_of (sv_waves sv1) wid = Some a" using c ok a by simp_all
    from detach.run_coherent [OF run _ this] c have "served_step u sv sv2" by (intro served_stepI) simp
    moreover have "sv' = maybe_evict sv2 wid" using assms(1) \<open>wid \<in> _\<close> o1 a run by (simp add: leave_wave_def Let_def)
    ultimately show ?thesis by (simp add: maybe_evict_served)
  next
    case False
    then have "sv' = maybe_evict sv1 wid"
      using assms(1) \<open>wid \<in> _\<close> o1 by (auto simp: leave_wave_def Let_def split: sum.splits option.splits)
    with step1 show ?thesis by (simp add: maybe_evict_served)
  qed
qed (use assms in \<open>simp add: leave_wave_def served_refl\<close>)

text \<open>A new wave: one conversation, its creator in it.\<close>

lemma find_append_Some: "find P xs = Some x \<Longrightarrow> find P (xs @ ys) = Some x"
  by (induction xs) (auto split: if_splits)

lemma db_wave_known: "db_wave st wid = Ok (Some w) \<Longrightarrow> wid \<in> wr_id ` set (st_waves st)"
  by (auto simp: db_wave_def find_Some_iff split: option.splits)

lemma create_wave_stored:
  assumes "db_create_wave_with_blip ts bts u1 u2 u3 st creator title parts mode cont = Ok ((w, s), st')"
    "members_ok st" "creator \<in> set parts"
  shows "members_ok st'" "member_step creator st st'" "resident_ok st wid live \<Longrightarrow> resident_ok st' wid live"
proof -
  let ?row = "\<lparr>wr_id = wave_id_new u1, wr_creator = creator, wr_created_at = ts, wr_mode = mode_as_str mode\<rparr>"
  let ?wl = "\<lparr>wl_id = wavelet_id_new u2, wl_wave_id = wave_id_new u1, wl_kind = Conversation,
      wl_title = title, wl_participants = parts, wl_anchor_blip = None, wl_created_at = ts, wl_last_modified = ts\<rparr>"
  let ?st = "st\<lparr>st_waves := st_waves st @ [?row]\<rparr>" and ?new = "wave_id_new u1"
  have fresh: "?new \<notin> wr_id ` set (st_waves st)"
    using assms(1) by (auto simp: db_create_wave_with_blip_def Let_def list_ex_iff split: if_splits)
  obtain st1 b where st1: "insert_wavelet ?st ?wl = Ok st1" "insert_seeded_blip st1 b = Ok st'"
    using assms(1) unfolding db_create_wave_with_blip_def Let_def
    by (auto simp: bind_result_Ok_iff split: if_split_asm)
  have keys: "keys_ok st" using assms(2) by (simp add: members_ok_def)
  then have keys1: "keys_ok ?st" by (auto simp: keys_ok_def)
  note ins = insert_wavelet_effect [OF st1(1) keys1] and sh = same_shape [OF insert_seeded_blip_shape [OF st1(2)]]
  have none: "stored_circles st ?new = {}"
  proof -
    have "\<forall>v \<in> set (st_wavelets st). wl_wave_id v \<noteq> ?new" using keys fresh unfolding keys_ok_def by metis
    then show ?thesis by (auto simp: stored_circles_def)
  qed
  have "stored_circles ?st i = stored_circles st i" for i by (simp add: stored_circles_def circle_of_def member_def)
  then have circ: "stored_circles st' i = (if i = ?new then {live_circle ?wl} else stored_circles st i)" for i
    using sh(1) ins(5) [of i] none by (simp add: live_circle_def)
  have "founded creator {live_circle ?wl}" "confined {live_circle ?wl}" "rooted {live_circle ?wl}"
    using assms(3) by (auto simp: founded_def confined_def rooted_def)
  note new = this
  have wave: "db_wave st' i = db_wave st i" if "db_wave st i = Ok (Some v)" for i v
    using that sh(3) ins(3) find_append_Some [of _ "st_waves st" _ "[?row]"]
    by (auto simp: db_wave_def split: option.splits)
  from new show "members_ok st'" "member_step creator st st'"
    using keys_ok_membership(5) [OF keys1 st1(1)] sh(2) assms(2) none rules_same [OF wave]
    by (auto simp: members_ok_def member_step_def circ)
  have "wid \<noteq> ?new" if "resident_ok st wid live"
    using that fresh db_wave_known by (auto simp: resident_ok_def)
  then show "resident_ok st wid live \<Longrightarrow> resident_ok st' wid live"
    using wave by (auto simp: resident_ok_def circ)
qed

lemma create_wave_served:
  assumes "create_wave e sv ss title names cont mode = (r, sv', ss')" "server_inv sv"
  shows "served_step (ss_uid ss) sv sv'"
proof -
  let ?ids = "filter (\<lambda>i. i \<noteq> ss_uid ss) (fst (db_resolve_names (env_lowercase e) (sv_store sv) names))"
  let ?db = "\<lambda>seed. db_create_wave_with_blip (env_now e 0) (env_now e 1) (env_uuid e 0) (env_uuid e 1)
    (env_uuid e 2) (sv_store sv) (ss_uid ss) (normalise_title title) (ss_uid ss # ?ids)
    (case mode of Some m \<Rightarrow> m | None \<Rightarrow> Document) (case seed of Some c \<Rightarrow> c | None \<Rightarrow> delta_new)"
  have ok: "members_ok (sv_store sv)" "coherent {} resident_ok sv" using assms(2) by (simp_all add: server_inv_def)
  consider (none) "sv' = sv"
    | (made) seed w s st r1 sv1 ss1 where "?db seed = Ok ((w, s), st)"
        "open_wave e (sv\<lparr>sv_store := st\<rparr>) ss (w_id w) = (r1, sv1, ss1)"
        "sv' = sv1 \<or> sv' = schedule_inbox_update sv1 (w_id w)"
  proof (cases "env_read e \<and> snd (db_resolve_names (env_lowercase e) (sv_store sv) names) = [] \<and> env_write e")
    case False
    with assms(1) none show thesis
      by (auto simp: create_wave_def Let_def case_prod_beta' split: sum.splits if_splits)
  next
    case True
    show thesis
    proof (cases "\<exists>seed w s st. seed_content (env_json_len e) cont = Ok seed \<and> ?db seed = Ok ((w, s), st)")
      case False
      with assms(1) True none show thesis
        by (auto simp: create_wave_def Let_def case_prod_beta' split: sum.splits)
    next
      case db: True
      then obtain seed w s st where db: "seed_content (env_json_len e) cont = Ok seed" "?db seed = Ok ((w, s), st)" by blast
      obtain r1 sv1 ss1 where op: "open_wave e (sv\<lparr>sv_store := st\<rparr>) ss (w_id w) = (r1, sv1, ss1)"
        by (cases "open_wave e (sv\<lparr>sv_store := st\<rparr>) ss (w_id w)") auto
      have "sv' = sv1 \<or> sv' = schedule_inbox_update sv1 (w_id w)"
        using assms(1) True db op by (auto simp: create_wave_def Let_def case_prod_beta' split: sum.splits)
      with made db(2) op show thesis by blast
    qed
  qed
  then show ?thesis
  proof cases
    case (made seed w s st r1 sv1 ss1)
    note cs = create_wave_stored [OF made(1) ok(1)]
    have "coherent {} resident_ok (sv\<lparr>sv_store := st\<rparr>)"
      by (rule coherent_cong [OF _ _ _ ok(2)]) (simp_all add: cs(3))
    then have "server_inv (sv\<lparr>sv_store := st\<rparr>)" using cs(1) by (simp add: server_inv_def)
    note op = open_wave_served [OF made(2) this]
    then have "served_step (ss_uid ss) sv sv1" using cs(2) by (simp add: served_step_def)
    with made(3) show ?thesis using aside_step [OF _ schedule_aside] by blast
  qed (use assms(2) in \<open>simp add: served_refl\<close>)
qed

text \<open>Handlers that look their wave up among the open ones.\<close>

lemma found_served:
  assumes "locked_body members_ok resident_ok (member_step u) body" "found_then (find_in e P sv ws) body = (r, sv')"
    "server_inv sv"
  shows "served_step u sv sv'"
  using locked_body.find_then_coherent [OF assms(1,2)] assms(3) by (auto intro: served_stepI simp: server_inv_def)

lemma find_served:
  assumes "find_in e P sv ws = (r, sv')" "server_inv sv"
  shows "served_step u sv sv'" "sv_store sv' = sv_store sv"
  using members.find_in_coherent [OF assms(1)] assms(2)
  by (auto intro!: served_stepI simp: server_inv_def member_step_refl)

text \<open>Handlers that look something else up between finding the wave and locking it.\<close>

lemma guarded_served:
  assumes "find_in e P sv ws = (r1, sv1)" "server_inv sv"
    "sv' = sv \<or> sv' = sv1 \<or> (\<exists>found body r. r1 = Ok found \<and> locked_body members_ok resident_ok (member_step u) body
       \<and> found_then (Ok found, sv1) body = (r, sv'))"
  shows "served_step u sv sv'"
  using assms(3)
proof (elim disjE exE conjE)
  fix found body r assume b: "r1 = Ok found" "locked_body members_ok resident_ok (member_step u) body"
    "found_then (Ok found, sv1) body = (r, sv')"
  from found_served [OF b(2), of e P sv ws r sv'] b(1,3) assms(1,2) show ?thesis by simp
qed (use find_served [OF assms(1,2)] served_refl [OF assms(2)] in simp_all)

lemmas find_defs = find_wavelet_def find_blip_def find_comment_def

lemma create_blip_served:
  "create_blip e sv ss i parent cont = (r, sv') \<Longrightarrow> server_inv sv \<Longrightarrow> served_step u sv sv'"
  unfolding create_blip_def find_defs by (rule found_served [OF create_blip.locked_body_axioms])

lemma delete_blip_served: "delete_blip e sv ss i = (r, sv') \<Longrightarrow> server_inv sv \<Longrightarrow> served_step u sv sv'"
  unfolding delete_blip_def find_defs by (rule found_served [OF delete_blip.locked_body_axioms])

lemma resolve_comment_served: "resolve_comment e sv ss c want = (r, sv') \<Longrightarrow> server_inv sv \<Longrightarrow> served_step u sv sv'"
  unfolding resolve_comment_def find_defs by (rule found_served [OF resolve_comment.locked_body_axioms])

lemma set_title_served: "set_title e sv ss i title = (r, sv') \<Longrightarrow> server_inv sv \<Longrightarrow> served_step (ss_uid ss) sv sv'"
  unfolding set_title_def find_defs by (rule found_served [OF set_title.locked_body_axioms])

lemma remove_participant_served:
  "remove_participant e sv ss i u = (r, sv') \<Longrightarrow> server_inv sv \<Longrightarrow> served_step (ss_uid ss) sv sv'"
  unfolding remove_participant_def find_defs by (rule found_served [OF remove_participant.locked_body_axioms])

lemma submit_served: "submit e sv ss sub = (r, sv') \<Longrightarrow> server_inv sv \<Longrightarrow> served_step u sv sv'"
  unfolding submit_def find_defs
  by (auto split: sum.splits intro: served_refl found_served [OF apply_op.locked_body_axioms])

lemma create_comment_served:
  assumes "create_comment e sv ss i target c cont = (r, sv')" "server_inv sv"
  shows "served_step u sv sv'"
proof -
  obtain r1 sv1 where f: "find_wavelet e sv ss i = (r1, sv1)" by (cases "find_wavelet e sv ss i")
  show ?thesis
    by (rule guarded_served [OF f [unfolded find_defs] assms(2)])
       (use assms(1) f create_comment.locked_body_axioms in \<open>auto simp: create_comment_def split: sum.splits if_splits\<close>)
qed

lemma reply_to_comment_served:
  assumes "reply_to_comment e sv ss c cont = (r, sv')" "server_inv sv"
  shows "served_step u sv sv'"
proof -
  obtain r1 sv1 where f: "find_comment e sv ss c = (r1, sv1)" by (cases "find_comment e sv ss c")
  show ?thesis
    by (rule guarded_served [OF f [unfolded find_defs] assms(2)])
       (use assms(1) f reply_to_comment.locked_body_axioms in \<open>auto simp: reply_to_comment_def split: sum.splits if_splits\<close>)
qed

lemma add_participant_served:
  assumes "add_participant e sv ss i name = (r, sv')" "server_inv sv"
  shows "served_step (ss_uid ss) sv sv'"
proof -
  obtain r1 sv1 where f: "find_wavelet e sv ss i = (r1, sv1)" by (cases "find_wavelet e sv ss i")
  show ?thesis
    by (rule guarded_served [OF f [unfolded find_defs] assms(2)])
       (use assms(1) f add_participant.locked_body_axioms in \<open>auto simp: add_participant_def split: sum.splits if_splits option.splits\<close>)
qed

lemma private_reply_served:
  assumes "private_reply e sv ss i anchor names = (r, sv')" "server_inv sv"
  shows "served_step (ss_uid ss) sv sv'"
proof -
  obtain r1 sv1 where f: "find_wavelet e sv ss i = (r1, sv1)" by (cases "find_wavelet e sv ss i")
  have "keys_ok (sv_store sv1)"
    using find_served(2) [OF f [unfolded find_defs] assms(2)] assms(2) by (simp add: server_inv_def members_ok_def)
  note body = private_reply_body [OF resolve_names_distinct [OF this]]
  show ?thesis
    by (rule guarded_served [OF f [unfolded find_defs] assms(2)])
       (use assms(1) f body in \<open>auto simp: private_reply_def case_prod_beta' Let_def split: sum.splits if_splits\<close>)
qed

lemma set_mode_served:
  assumes "set_mode e sv ss wid mode = (r, sv')" "server_inv sv"
  shows "served_step (ss_uid ss) sv sv'"
proof -
  have ok: "members_ok (sv_store sv)" "coherent {} resident_ok sv" using assms(2) by (simp_all add: server_inv_def)
  obtain r1 sv1 where l: "lookup_wave e sv wid = (r1, sv1)" by (cases "lookup_wave e sv wid")
  note c = members.lookup_wave_coherent [OF l ok(2,1)]
  then have "served_step (ss_uid ss) sv sv1" using ok by (intro served_stepI) (simp add: member_step_refl)
  moreover have "served_step (ss_uid ss) sv sv'" if "r1 = Ok a" "run_locked (set_mode_locked e ss mode wid) sv1 a = (r, sv')" for a
    using set_mode.run_coherent [OF that(2)] c ok that(1) by (intro served_stepI) simp
  ultimately show ?thesis
    using assms l by (auto simp: set_mode_def served_refl split: sum.splits if_splits)
qed

lemma cursor_served:
  assumes "cursor e sv ss wid b index len = (r, sv')" "server_inv sv"
  shows "served_step u sv sv'"
proof -
  have ok: "members_ok (sv_store sv)" "coherent {} resident_ok sv" using assms(2) by (simp_all add: server_inv_def)
  obtain r1 sv1 where l: "open_resident e sv wid = (r1, sv1)" by (cases "open_resident e sv wid")
  note c = members.open_resident_coherent [OF l ok(2,1)]
  then have "served_step u sv sv1" using ok by (intro served_stepI) (simp add: member_step_refl)
  moreover have "served_step u sv sv'" if "r1 = Ok (Some a)" "run_locked (cursor_locked ss b index len wid) sv1 a = (r, sv')" for a
    using cursor.run_coherent [OF that(2)] c ok that(1) by (intro served_stepI) simp
  ultimately show ?thesis
    using assms l by (auto simp: cursor_def served_refl split: sum.splits if_splits option.splits)
qed

lemma row_served:
  assumes "server_inv sv" "shape st = shape (sv_store sv)"
  shows "served_step u sv (send_inbox_row e (sv\<lparr>sv_store := st\<rparr>) ss wid)"
  by (rule aside_step [OF shape_served [OF assms] send_inbox_row_aside])

lemma bookkeeping_served:
  assumes "server_inv sv"
  shows "mark_read e sv ss wid = (r, sv') \<Longrightarrow> served_step u sv sv'"
    "change_flags e sv ss wid flags = (r, sv') \<Longrightarrow> served_step u sv sv'"
    "request_playback e sv ss wid = (r, sv') \<Longrightarrow> served_step u sv sv'"
    "search e sv ss query = (r, sv') \<Longrightarrow> served_step u sv sv'"
  using assms row_served [OF assms] content_shape(5,6) aside_served [OF assms session_send_aside] served_refl
  by (auto simp: mark_read_def change_flags_def request_playback_def search_def stored_def bind_result_def
      split: sum.splits if_splits)

text \<open>Every command, of any sender, is a step of the membership specification by its sender.\<close>

lemma dispatch_served:
  assumes "dispatch e sv ss command = (r, sv', ss')" "server_inv sv"
  shows "served_step (ss_uid ss) sv sv'"
proof -
  have keep: "keep_session ss x = (r, sv', ss') \<Longrightarrow> x = (r, sv')" for x
    by (cases x) (simp add: keep_session_def)
  show ?thesis
    using assms
    by (cases command)
       (auto simp: dispatch_def case_prod_beta' dest!: keep
        intro: aside_served [OF _ session_send_aside] open_wave_served leave_wave_served create_wave_served submit_served
          create_blip_served delete_blip_served set_title_served set_mode_served add_participant_served
          remove_participant_served private_reply_served create_comment_served reply_to_comment_served
          resolve_comment_served cursor_served bookkeeping_served)
qed

end
