(* ===== verification/Gal_Accounts.thy ===== *)
theory Gal_Accounts
  imports Gal_Server
begin

text \<open>
  Accounts, sessions and attachments in storage, from \<open>crates/gal-server/src/db.rs\<close>: creating an
  account, resolving an external identity to one, sessions with their expiry and revocation,
  and uploads under a quota. Deleting an agent credential deletes its receipts, as the
  foreign key of \<open>agent_replies\<close> says. The clock readings and random ids are arguments.
\<close>

section \<open>Accounts\<close>

definition SESSION_TTL_MS :: int where
  "SESSION_TTL_MS = 30 * 24 * 60 * 60 * 1000"

text \<open>\<open>INSERT INTO users\<close>: the id is the primary key, the name is unique.\<close>

definition insert_user :: "store \<Rightarrow> user \<Rightarrow> store db_result" where
  "insert_user st u =
     (if list_ex (\<lambda>x. user_id x = user_id u \<or> user_name x = user_name u) (st_users st)
      then Err UniqueViolation
      else Ok (st\<lparr>st_users := st_users st @ [u]\<rparr>))"

definition db_create_user ::
  "timestamp \<Rightarrow> ustring \<Rightarrow> store \<Rightarrow> ustring \<Rightarrow> ustring \<Rightarrow> ustring \<Rightarrow> ustring \<Rightarrow> (user \<times> store) db_result" where
  "db_create_user ts uuid st name display_name email password_hash =
     (let u = \<lparr>user_id = user_id_new uuid, user_name = name, user_display_name = display_name,
               user_email = email, user_password_hash = password_hash, user_color = color_for name,
               user_created_at = ts\<rparr>
      in bind_result (insert_user st u) (\<lambda>st. Ok (u, st)))"

datatype oauth_login = OauthExisting user | OauthCreated user

definition user_by_id :: "store \<Rightarrow> user_id \<Rightarrow> user option" where
  "user_by_id st u = find (\<lambda>x. user_id x = u) (st_users st)"

definition identity_user_of :: "store \<Rightarrow> ustring \<Rightarrow> ustring \<Rightarrow> user option" where
  "identity_user_of st issuer subject =
     Option.bind (find (\<lambda>i. oi_issuer i = issuer \<and> oi_subject i = subject) (st_identities st))
       (\<lambda>i. user_by_id st (oi_user_id i))"

definition insert_identity :: "store \<Rightarrow> identity_row \<Rightarrow> store db_result" where
  "insert_identity st r =
     (if list_ex (\<lambda>x. oi_issuer x = oi_issuer r \<and> oi_subject x = oi_subject r) (st_identities st)
      then Err UniqueViolation
      else Ok (st\<lparr>st_identities := st_identities st @ [r]\<rparr>))"

text \<open>The password hash \<open>!\<close> is no Argon2 hash, so such an account has no local password.\<close>

definition db_user_for_oauth_identity ::
  "timestamp \<Rightarrow> ustring \<Rightarrow> store \<Rightarrow> ustring \<Rightarrow> ustring \<Rightarrow> ustring \<Rightarrow> ustring \<Rightarrow>
   (oauth_login \<times> store) db_result" where
  "db_user_for_oauth_identity ts uuid st issuer subject name_hint display_name =
     (case identity_user_of st issuer subject of
        Some u \<Rightarrow> Ok (OauthExisting u, st)
      | None \<Rightarrow>
          (case free_name st name_hint of
             None \<Rightarrow> Err NoFreeName
           | Some name \<Rightarrow>
               bind_result (db_create_user ts uuid st name display_name [] (lit ''!'')) (\<lambda>(u, st).
               bind_result (insert_identity st \<lparr>oi_issuer = issuer, oi_subject = subject,
                              oi_user_id = user_id u, oi_created_at = user_created_at u\<rparr>) (\<lambda>st.
               Ok (OauthCreated u, st)))))"

section \<open>Sessions\<close>

text \<open>A new session; sessions that have expired by now are swept away with the same call.\<close>

definition db_create_session :: "timestamp \<Rightarrow> store \<Rightarrow> user_id \<Rightarrow> ustring \<Rightarrow> store db_result" where
  "db_create_session created st u token_hash =
     (if list_ex (\<lambda>s. se_token_hash s = token_hash) (st_sessions st) then Err UniqueViolation
      else Ok (st\<lparr>st_sessions := filter (\<lambda>s. \<not> se_expires_at s < created)
             (st_sessions st @ [\<lparr>se_token_hash = token_hash, se_user_id = u, se_created_at = created,
                                 se_expires_at = created + SESSION_TTL_MS\<rparr>])\<rparr>))"

definition live_session :: "timestamp \<Rightarrow> store \<Rightarrow> ustring \<Rightarrow> session_row option" where
  "live_session ts st token_hash =
     find (\<lambda>s. se_token_hash s = token_hash \<and> se_expires_at s > ts) (st_sessions st)"

definition db_user_for_session :: "timestamp \<Rightarrow> store \<Rightarrow> ustring \<Rightarrow> user option" where
  "db_user_for_session ts st token_hash =
     Option.bind (live_session ts st token_hash) (\<lambda>s. user_by_id st (se_user_id s))"

definition db_session_expiry :: "timestamp \<Rightarrow> store \<Rightarrow> ustring \<Rightarrow> timestamp option" where
  "db_session_expiry ts st token_hash = map_option se_expires_at (live_session ts st token_hash)"

text \<open>The receipts of a deleted credential go with it.\<close>

definition delete_agent_tokens :: "(agent_token_row \<Rightarrow> bool) \<Rightarrow> store \<Rightarrow> store" where
  "delete_agent_tokens P st =
     st\<lparr>st_agent_tokens := filter (\<lambda>t. \<not> P t) (st_agent_tokens st),
        st_agent_replies := filter (\<lambda>r. \<not> list_ex (\<lambda>t. P t \<and> tr_id t = rr_token_id r) (st_agent_tokens st))
          (st_agent_replies st)\<rparr>"

definition other_session :: "user_id \<Rightarrow> ustring \<Rightarrow> session_row \<Rightarrow> bool" where
  "other_session u keep s = (se_user_id s = u \<and> se_token_hash s \<noteq> keep)"

definition db_revoke_other_sessions :: "store \<Rightarrow> user_id \<Rightarrow> ustring \<Rightarrow> nat \<times> store" where
  "db_revoke_other_sessions st u keep =
     (length (filter (other_session u keep) (st_sessions st)),
      delete_agent_tokens (\<lambda>t. tr_user_id t = u)
        (st\<lparr>st_sessions := filter (\<lambda>s. \<not> other_session u keep s) (st_sessions st)\<rparr>))"

definition db_change_password :: "store \<Rightarrow> user_id \<Rightarrow> ustring \<Rightarrow> ustring \<Rightarrow> store" where
  "db_change_password st u password_hash keep =
     delete_agent_tokens (\<lambda>t. tr_user_id t = u)
       (st\<lparr>st_users := map (\<lambda>x. if user_id x = u then x\<lparr>user_password_hash := password_hash\<rparr> else x) (st_users st),
          st_sessions := filter (\<lambda>s. \<not> other_session u keep s) (st_sessions st)\<rparr>)"

definition db_session_count :: "timestamp \<Rightarrow> store \<Rightarrow> user_id \<Rightarrow> nat" where
  "db_session_count ts st u = length (filter (\<lambda>s. se_user_id s = u \<and> se_expires_at s > ts) (st_sessions st))"

definition db_delete_session :: "store \<Rightarrow> ustring \<Rightarrow> store" where
  "db_delete_session st token_hash =
     st\<lparr>st_sessions := filter (\<lambda>s. se_token_hash s \<noteq> token_hash) (st_sessions st)\<rparr>"

section \<open>Attachments\<close>

record upload_quota =
  uq_bytes :: nat
  uq_since :: timestamp

definition uploaded_since :: "store \<Rightarrow> user_id \<Rightarrow> timestamp \<Rightarrow> nat" where
  "uploaded_since st u since =
     sum_list (map (at_size \<circ> fst)
       (filter (\<lambda>a. at_uploader (fst a) = u \<and> at_created_at (fst a) \<ge> since) (st_attachments st)))"

text \<open>\<open>None\<close> when the allowance is spent.\<close>

definition db_create_attachment ::
  "timestamp \<Rightarrow> ustring \<Rightarrow> store \<Rightarrow> wavelet_id \<Rightarrow> user_id \<Rightarrow> ustring \<Rightarrow> ustring \<Rightarrow> nat list \<Rightarrow> upload_quota \<Rightarrow>
   (attachment option \<times> store) db_result" where
  "db_create_attachment ts uuid st wl uploader name mime bytes quota =
     (let a = \<lparr>at_id = attachment_id_new uuid, at_wavelet_id = wl, at_name = name, at_mime = mime,
               at_size = length bytes, at_uploader = uploader, at_created_at = ts\<rparr>
      in if wrapping_add (uploaded_since st uploader (uq_since quota)) (at_size a) > uq_bytes quota
         then Ok (None, st)
         else if list_ex (\<lambda>x. at_id (fst x) = at_id a) (st_attachments st) then Err UniqueViolation
         else Ok (Some a, st\<lparr>st_attachments := st_attachments st @ [(a, bytes)]\<rparr>))"

definition db_attachment_for :: "store \<Rightarrow> user_id \<Rightarrow> attachment_id \<Rightarrow> (attachment \<times> nat list) option" where
  "db_attachment_for st u i =
     find (\<lambda>a. at_id (fst a) = i \<and> db_is_wavelet_participant st u (at_wavelet_id (fst a))) (st_attachments st)"

end
