(* ===== verification/Gal_Numbers.thy ===== *)
theory Gal_Numbers
  imports Gal_Auth
begin

text \<open>
  Decimal numbers as Rust's \<open>FromStr\<close> reads them for \<open>i64\<close> and \<open>u16\<close>: an optional sign, at least
  one digit, nothing else, and a value that fits. Printing with \<open>show_int\<close> and reading back is
  the identity.
\<close>

fun parse_digits :: "nat \<Rightarrow> ustring \<Rightarrow> nat option" where
  "parse_digits acc [] = Some acc"
| "parse_digits acc (c # s) = (if is_ascii_digit c then parse_digits (10 * acc + (c - 48)) s else None)"

definition parse_nat :: "ustring \<Rightarrow> nat option" where
  "parse_nat s = (if s = [] then None else parse_digits 0 s)"

definition parse_signed :: "ustring \<Rightarrow> int option" where
  "parse_signed s =
     (case s of
        [] \<Rightarrow> None
      | c # r \<Rightarrow> if c = 45 then map_option (\<lambda>n. - int n) (parse_nat r)
                else if c = 43 then map_option int (parse_nat r)
                else map_option int (parse_nat s))"

definition parse_i64 :: "ustring \<Rightarrow> int option" where
  "parse_i64 s =
     (case parse_signed s of
        Some n \<Rightarrow> if - (2 ^ 63) \<le> n \<and> n < 2 ^ 63 then Some n else None
      | None \<Rightarrow> None)"

definition parse_u16 :: "ustring \<Rightarrow> nat option" where
  "parse_u16 s =
     (case (case s of [] \<Rightarrow> None | c # r \<Rightarrow> if c = 43 then parse_nat r else parse_nat s) of
        Some n \<Rightarrow> if n < 2 ^ 16 then Some n else None
      | None \<Rightarrow> None)"

lemma parse_digits_append:
  "parse_digits a (s @ t) = (case parse_digits a s of Some b \<Rightarrow> parse_digits b t | None \<Rightarrow> None)"
  by (induction a s rule: parse_digits.induct) simp_all

lemma show_digits_not_empty [simp]: "show_digits n \<noteq> []"
  by (subst show_digits.simps) simp

lemma parse_show_digits: "parse_digits 0 (show_digits n) = Some n"
proof (induction n rule: show_digits.induct)
  case (1 n)
  show ?case
  proof (cases "n < 10")
    case True
    then show ?thesis by (subst show_digits.simps) (simp add: is_ascii_digit_def)
  next
    case False
    have "n mod 10 < 10" by simp
    then have d: "is_ascii_digit (48 + n mod 10)" by (simp add: is_ascii_digit_def)
    have "parse_digits 0 (show_digits n) = parse_digits (n div 10) [48 + n mod 10]"
      using 1 [OF False] False by (subst show_digits.simps) (simp add: parse_digits_append)
    also have "\<dots> = Some n" using d by simp
    finally show ?thesis .
  qed
qed

lemma show_digits_chars: "c \<in> set (show_digits n) \<Longrightarrow> is_ascii_digit c"
proof (induction n rule: show_digits.induct)
  case (1 n)
  have "n mod 10 < 10" by simp
  with 1 show ?case
    by (cases "n < 10") (auto simp: show_digits.simps [of n] is_ascii_digit_def)
qed

lemma parse_show_int: "parse_signed (show_int n) = Some n"
proof (cases "n < 0")
  case True
  then show ?thesis by (simp add: parse_signed_def show_int_def parse_nat_def parse_show_digits)
next
  case False
  obtain c r where s: "show_digits (nat n) = c # r" by (cases "show_digits (nat n)") auto
  then have "is_ascii_digit c" using show_digits_chars [of c "nat n"] by simp
  then have "c \<noteq> 45" "c \<noteq> 43" by (auto simp: is_ascii_digit_def)
  then show ?thesis
    using False parse_show_digits [of "nat n"] by (simp add: parse_signed_def show_int_def parse_nat_def s)
qed

lemma parse_show_i64: "- (2 ^ 63) \<le> n \<Longrightarrow> n < 2 ^ 63 \<Longrightarrow> parse_i64 (show_int n) = Some n"
  by (simp add: parse_i64_def parse_show_int)

lemma show_int_chars: "c \<in> set (show_int n) \<Longrightarrow> is_ascii_digit c \<or> c = 45"
  using show_digits_chars by (auto simp: show_int_def split: if_splits)

end
