(* ===== verification/Gal_Config.thy ===== *)
theory Gal_Config
  imports Gal_Numbers Gal_Store
begin

text \<open>
  The configuration of the server, \<open>crates/gal-server/src/config.rs\<close>: read from the environment,
  which is a function from names to values; a variable that is not valid Unicode counts as
  unset, as in the source. Reading an IP address from text is an argument, the loopback test on
  the address is not. Every refusal of the source is an error value naming the variable.
\<close>

section \<open>Model\<close>

datatype ip_addr = IpV4 nat nat nat nat | IpV6 "nat list"

text \<open>\<open>127.0.0.0/8\<close> and \<open>::1\<close>; an IPv6 address is its eight groups.\<close>

fun is_loopback :: "ip_addr \<Rightarrow> bool" where
  "is_loopback (IpV4 a b c d) = (a = 127)"
| "is_loopback (IpV6 gs) = (gs = [0, 0, 0, 0, 0, 0, 0, 1])"

record oidc_config =
  oc_issuer :: ustring
  oc_client_id :: ustring
  oc_client_secret :: ustring
  oc_redirect_url :: ustring
  oc_scopes :: ustring
  oc_label :: ustring

record config =
  cf_ip :: ip_addr
  cf_port :: nat
  cf_database :: ustring
  cf_secure_cookies :: bool
  cf_open_registration :: bool
  cf_allowed_origins :: "ustring list"
  cf_trust_forwarded_for :: bool
  cf_hsts :: bool
  cf_metrics_token :: "ustring option"
  cf_log_json :: bool
  cf_oidc :: "oidc_config option"

datatype config_error =
    BadHost | BadPort | BadBool ustring | ShortMetricsToken | NotWebUrl ustring | PlainHttp ustring
  | MissingSetting ustring | ScopesWithoutOpenid

definition config_default :: config where
  "config_default =
     \<lparr>cf_ip = IpV4 127 0 0 1, cf_port = 8080, cf_database = lit ''gal.db'', cf_secure_cookies = False,
      cf_open_registration = True, cf_allowed_origins = [], cf_trust_forwarded_for = False,
      cf_hsts = False, cf_metrics_token = None, cf_log_json = False, cf_oidc = None\<rparr>"

definition parse_bool :: "ustring \<Rightarrow> ustring \<Rightarrow> (config_error, bool) result" where
  "parse_bool name value =
     (let v = to_ascii_lowercase (trim value)
      in if v \<in> set (map lit [''1'', ''true'', ''yes'', ''on'']) then Ok True
         else if v \<in> set (map lit [''0'', ''false'', ''no'', ''off'', '''']) then Ok False
         else Err (BadBool name))"

definition non_empty :: "(ustring \<Rightarrow> ustring option) \<Rightarrow> ustring \<Rightarrow> ustring option" where
  "non_empty var key =
     (case var key of
        None \<Rightarrow> None
      | Some value \<Rightarrow> let value = trim value in if value \<noteq> [] then Some value else None)"

fun rsplit_once :: "uchar \<Rightarrow> ustring \<Rightarrow> (ustring \<times> ustring) option" where
  "rsplit_once c [] = None"
| "rsplit_once c (x # s) =
     (case rsplit_once c s of
        Some (a, b) \<Rightarrow> Some (x # a, b)
      | None \<Rightarrow> if x = c then Some ([], s) else None)"

definition scheme_and_host :: "ustring \<Rightarrow> (ustring \<times> ustring) option" where
  "scheme_and_host url =
     (case split_once_str (lit ''://'') url of
        None \<Rightarrow> None
      | Some (scheme, rest) \<Rightarrow>
          if scheme \<notin> {lit ''http'', lit ''https''} then None
          else
            let authority = takeWhile (\<lambda>c. c \<notin> {47, 63, 35}) rest;
                authority = (case rsplit_once 64 authority of Some (_, h) \<Rightarrow> h | None \<Rightarrow> authority);
                host = (case strip_prefix authority [91] of
                          Some rest \<Rightarrow> map_option fst (split_once 93 rest)
                        | None \<Rightarrow> Some (takeWhile (\<lambda>c. c \<noteq> 58) authority))
            in (case host of
                  None \<Rightarrow> None
                | Some h \<Rightarrow> if h \<noteq> [] then Some (scheme, h) else None))"

definition host_of :: "ustring \<Rightarrow> ustring option" where
  "host_of url = map_option snd (scheme_and_host url)"

definition is_loopback_host :: "(ustring \<Rightarrow> ip_addr option) \<Rightarrow> ustring \<Rightarrow> bool" where
  "is_loopback_host parse_ip host =
     (to_ascii_lowercase host = lit ''localhost''
      \<or> (case parse_ip host of Some ip \<Rightarrow> is_loopback ip | None \<Rightarrow> False))"

definition require_web_url ::
  "(ustring \<Rightarrow> ip_addr option) \<Rightarrow> ustring \<Rightarrow> ustring \<Rightarrow> (config_error, unit) result" where
  "require_web_url parse_ip name url =
     (case scheme_and_host url of
        None \<Rightarrow> Err (NotWebUrl name)
      | Some (scheme, host) \<Rightarrow>
          if scheme = lit ''http'' \<and> \<not> is_loopback_host parse_ip host then Err (PlainHttp name) else Ok ())"

text \<open>\<open>split_whitespace\<close>: the non-empty pieces between white space.\<close>

definition split_whitespace :: "ustring \<Rightarrow> ustring list" where
  "split_whitespace s = filter (\<lambda>w. w \<noteq> []) (split_pred is_whitespace s)"

definition required :: "(ustring \<Rightarrow> ustring option) \<Rightarrow> ustring \<Rightarrow> (config_error, ustring) result" where
  "required var key = (case non_empty var key of Some v \<Rightarrow> Ok v | None \<Rightarrow> Err (MissingSetting key))"

definition oidc_from_env ::
  "(ustring \<Rightarrow> ip_addr option) \<Rightarrow> (ustring \<Rightarrow> ustring option) \<Rightarrow> (config_error, oidc_config option) result" where
  "oidc_from_env parse_ip var =
     (case non_empty var (lit ''GAL_OIDC_ISSUER'') of
        None \<Rightarrow> Ok None
      | Some issuer \<Rightarrow>
          let issuer = trim_end_matches (\<lambda>c. c = 47) issuer
          in bind_result (require_web_url parse_ip (lit ''GAL_OIDC_ISSUER'') issuer) (\<lambda>_.
             bind_result (required var (lit ''GAL_OIDC_CLIENT_ID'')) (\<lambda>client_id.
             bind_result (required var (lit ''GAL_OIDC_CLIENT_SECRET'')) (\<lambda>client_secret.
             bind_result (required var (lit ''GAL_OIDC_REDIRECT_URL'')) (\<lambda>redirect_url.
             bind_result (require_web_url parse_ip (lit ''GAL_OIDC_REDIRECT_URL'') redirect_url) (\<lambda>_.
             let scopes = (case non_empty var (lit ''GAL_OIDC_SCOPES'') of
                             Some s \<Rightarrow> s | None \<Rightarrow> lit ''openid profile'')
             in if \<not> list_ex (\<lambda>s. s = lit ''openid'') (split_whitespace scopes) then Err ScopesWithoutOpenid
                else
                  let label = (case non_empty var (lit ''GAL_OIDC_LABEL'') of
                                 Some l \<Rightarrow> l
                               | None \<Rightarrow> (case host_of issuer of Some h \<Rightarrow> h | None \<Rightarrow> lit ''your provider''))
                  in Ok (Some \<lparr>oc_issuer = issuer, oc_client_id = client_id, oc_client_secret = client_secret,
                               oc_redirect_url = redirect_url, oc_scopes = scopes, oc_label = label\<rparr>)))))))"

text \<open>A boolean setting that is unset keeps its default.\<close>

definition bool_setting :: "(ustring \<Rightarrow> ustring option) \<Rightarrow> ustring \<Rightarrow> bool \<Rightarrow> (config_error, bool) result" where
  "bool_setting var key unset =
     (case var key of None \<Rightarrow> Ok unset | Some value \<Rightarrow> parse_bool key value)"

definition metrics_setting :: "(ustring \<Rightarrow> ustring option) \<Rightarrow> (config_error, ustring option) result" where
  "metrics_setting var =
     (case var (lit ''GAL_METRICS_TOKEN'') of
        None \<Rightarrow> Ok None
      | Some value \<Rightarrow>
          let value = trim value
          in if value = [] then Ok None
             else if str_len value < 16 then Err ShortMetricsToken
             else Ok (Some value))"

definition origins_setting :: "(ustring \<Rightarrow> ustring option) \<Rightarrow> ustring list" where
  "origins_setting var =
     (case var (lit ''GAL_ALLOWED_ORIGINS'') of
        None \<Rightarrow> []
      | Some value \<Rightarrow> filter (\<lambda>x. x \<noteq> [])
          (map (\<lambda>x. to_ascii_lowercase (trim_end_matches (\<lambda>c. c = 47) (trim x))) (split_char 44 value)))"

definition config_from_env ::
  "(ustring \<Rightarrow> ip_addr option) \<Rightarrow> (ustring \<Rightarrow> ustring option) \<Rightarrow> (config_error, config) result" where
  "config_from_env parse_ip var =
     bind_result (case var (lit ''GAL_HOST'') of
                    None \<Rightarrow> Ok (cf_ip config_default)
                  | Some host \<Rightarrow> (case parse_ip host of Some ip \<Rightarrow> Ok ip | None \<Rightarrow> Err BadHost)) (\<lambda>ip.
     bind_result (case var (lit ''GAL_PORT'') of
                    None \<Rightarrow> Ok (cf_port config_default)
                  | Some port \<Rightarrow> (case parse_u16 port of Some p \<Rightarrow> Ok p | None \<Rightarrow> Err BadPort)) (\<lambda>port.
     bind_result (bool_setting var (lit ''GAL_SECURE_COOKIES'') False) (\<lambda>secure.
     bind_result (bool_setting var (lit ''GAL_OPEN_REGISTRATION'') True) (\<lambda>open_registration.
     bind_result (bool_setting var (lit ''GAL_TRUST_FORWARDED_FOR'') False) (\<lambda>trust.
     bind_result (bool_setting var (lit ''GAL_HSTS'') False) (\<lambda>hsts.
     bind_result (metrics_setting var) (\<lambda>token.
     bind_result (bool_setting var (lit ''GAL_LOG_JSON'') False) (\<lambda>log_json.
     bind_result (oidc_from_env parse_ip var) (\<lambda>oidc.
     Ok \<lparr>cf_ip = ip, cf_port = port,
         cf_database = (case var (lit ''GAL_DB'') of Some p \<Rightarrow> p | None \<Rightarrow> cf_database config_default),
         cf_secure_cookies = secure, cf_open_registration = open_registration,
         cf_allowed_origins = origins_setting var, cf_trust_forwarded_for = trust, cf_hsts = hsts,
         cf_metrics_token = token, cf_log_json = log_json, cf_oidc = oidc\<rparr>)))))))))"

section \<open>What a configuration guarantees\<close>

text \<open>A URL the configuration accepts: over TLS, or to this machine.\<close>

definition guarded_url :: "(ustring \<Rightarrow> ip_addr option) \<Rightarrow> ustring \<Rightarrow> bool" where
  "guarded_url parse_ip url \<longleftrightarrow> (\<exists>host. scheme_and_host url = Some (lit ''https'', host)
     \<or> scheme_and_host url = Some (lit ''http'', host) \<and> is_loopback_host parse_ip host)"

lemma scheme_of_host: "scheme_and_host url = Some (s, h) \<Longrightarrow> s \<in> {lit ''http'', lit ''https''}"
  by (auto simp: scheme_and_host_def Let_def split: option.splits if_splits)

lemma require_web_url_guarded: "require_web_url parse_ip name url = Ok () \<Longrightarrow> guarded_url parse_ip url"
  using scheme_of_host by (fastforce simp: require_web_url_def guarded_url_def split: option.splits if_splits)

lemma oidc_from_env_guarded:
  assumes "oidc_from_env parse_ip var = Ok (Some oc)"
  shows "guarded_url parse_ip (oc_issuer oc)" "guarded_url parse_ip (oc_redirect_url oc)"
    "lit ''openid'' \<in> set (split_whitespace (oc_scopes oc))" "oc_client_secret oc \<noteq> []"
proof -
  obtain issuer where issuer: "non_empty var (lit ''GAL_OIDC_ISSUER'') = Some issuer"
    using assms by (cases "non_empty var (lit ''GAL_OIDC_ISSUER'')") (simp_all add: oidc_from_env_def)
  note parts = assms [unfolded oidc_from_env_def issuer option.case Let_def bind_result_Ok_iff]
  have secret: "required var key = Ok v \<Longrightarrow> v \<noteq> []" for key v
    by (auto simp: required_def non_empty_def Let_def split: option.splits if_splits)
  show "guarded_url parse_ip (oc_issuer oc)" "guarded_url parse_ip (oc_redirect_url oc)"
    using parts by (auto split: if_split_asm intro: require_web_url_guarded)
  show "lit ''openid'' \<in> set (split_whitespace (oc_scopes oc))" "oc_client_secret oc \<noteq> []"
    using parts by (auto simp: list_ex_iff split: if_split_asm dest: secret)
qed

lemma metrics_setting_long: "metrics_setting var = Ok (Some t) \<Longrightarrow> 16 \<le> str_len t"
  by (auto simp: metrics_setting_def Let_def split: option.splits if_splits)



end
