(* ===== verification/Gal_Http.thy ===== *)
theory Gal_Http
  imports Gal_Accounts Gal_Config
begin

text \<open>
  The HTTP surface, \<open>crates/gal-server/src/http.rs\<close>: the identity extractor, registration, sign-in
  and sign-out, password changes, lookups, uploads and downloads, and the embedded client. A
  handler is a function from the server and the request to a response and the server. What the
  handlers use of Argon2, SHA-256, base64, the random source and the header parser of the HTTP
  library is collected in the record \<open>web\<close>, beside the configuration. Routing, JSON decoding,
  logging and counters are not modelled; a body is the value that is encoded.
\<close>

section \<open>Requests and responses\<close>

record web =
  wb_config :: config
  wb_sha256 :: "nat list \<Rightarrow> nat list"
  wb_base64 :: "nat list \<Rightarrow> ustring"
  wb_random :: "nat \<Rightarrow> nat list"                  \<comment> \<open>successive draws of 32 random bytes\<close>
  wb_hash_password :: "ustring \<Rightarrow> ustring option" \<comment> \<open>Argon2 with a fresh salt\<close>
  wb_argon2_parse :: "ustring \<Rightarrow> ustring option"
  wb_argon2_verify :: "nat list \<Rightarrow> ustring \<Rightarrow> bool"
  wb_header_value :: "ustring \<Rightarrow> bool"            \<comment> \<open>is this a legal header value?\<close>
  wb_work :: bool                               \<comment> \<open>does the password worker return?\<close>
  wb_commit :: "nat \<Rightarrow> bool"                    \<comment> \<open>do the successive writes of the request reach the disk?\<close>
  wb_instant :: "nat \<Rightarrow> rat"                    \<comment> \<open>successive readings of the monotonic clock\<close>

record request =
  rq_cookie :: "ustring option"
  rq_forwarded :: "ustring option"
  rq_authorization :: "ustring option"
  rq_peer :: "ustring option"

datatype body =
    ErrorBody ustring
  | CodedBody ustring ustring
  | UserBody public_user
  | OkBody
  | RevokedBody nat
  | SessionsBody nat
  | UsersBody "public_user list"
  | AttachmentBody attachment
  | BytesBody "nat list"
  | TextBody ustring
  | AssetBody ustring
  | ServerInfoBody bool "ustring option"

record response =
  rs_status :: nat
  rs_headers :: "(ustring \<times> ustring) list"
  rs_body :: body

definition plain_response :: "nat \<Rightarrow> body \<Rightarrow> response" where
  "plain_response status b = \<lparr>rs_status = status, rs_headers = [], rs_body = b\<rparr>"

definition unauthorised :: response where
  "unauthorised = plain_response 401 (ErrorBody (lit ''Not signed in.''))"

definition bad_request :: "ustring \<Rightarrow> response" where
  "bad_request m = plain_response 400 (ErrorBody m)"

definition http_not_found :: "ustring \<Rightarrow> response" where
  "http_not_found m = plain_response 404 (ErrorBody m)"

definition payload_too_large :: response where
  "payload_too_large = plain_response 413 (ErrorBody (lit ''That file is too large. The limit is 10 MB.''))"

definition server_error :: response where
  "server_error = plain_response 500 (ErrorBody (lit ''Something went wrong.''))"

definition over_rate :: "ustring \<Rightarrow> response" where
  "over_rate m = \<lparr>rs_status = 429, rs_headers = [(lit ''retry-after'', lit ''10'')], rs_body = ErrorBody m\<rparr>"

text \<open>A header is left out when the library refuses its value.\<close>

definition header_if :: "web \<Rightarrow> ustring \<Rightarrow> ustring \<Rightarrow> (ustring \<times> ustring) list" where
  "header_if w name value = (if wb_header_value w value then [(name, value)] else [])"

definition token_digest :: "web \<Rightarrow> ustring \<Rightarrow> ustring" where
  "token_digest w token = hash_token (wb_sha256 w) (wb_base64 w) token"

definition fresh_token :: "web \<Rightarrow> nat \<Rightarrow> ustring" where
  "fresh_token w n = generate_token (wb_base64 w) (wb_random w n)"

definition password_matches :: "web \<Rightarrow> ustring \<Rightarrow> ustring \<Rightarrow> bool" where
  "password_matches w password stored = verify_password (wb_argon2_parse w) (wb_argon2_verify w) password stored"

text \<open>The extractor of the signed-in user.\<close>

definition identity_from_request :: "env \<Rightarrow> web \<Rightarrow> server \<Rightarrow> request \<Rightarrow> (response, identity) result" where
  "identity_from_request e w sv rq =
     (case rq_cookie rq of
        None \<Rightarrow> Err unauthorised
      | Some cookies \<Rightarrow>
          (case token_from_cookies cookies of
             None \<Rightarrow> Err unauthorised
           | Some token \<Rightarrow>
               let token_hash = token_digest w token
               in if \<not> env_read e then Err unauthorised
                  else (case db_user_for_session (env_now e 0) (sv_store sv) token_hash of
                          None \<Rightarrow> Err unauthorised
                        | Some u \<Rightarrow> Ok \<lparr>identity_user = u, identity_token_hash = token_hash\<rparr>)))"

text \<open>The limiter in front of the unauthenticated endpoints.\<close>

definition auth_limited ::
  "web \<Rightarrow> server \<Rightarrow> request \<Rightarrow> (server \<Rightarrow> response \<times> server) \<Rightarrow> response \<times> server" where
  "auth_limited w sv rq k =
     (let (allowed, sv) = check_auth_rate sv (wb_instant w 0) (rq_peer rq) (rq_forwarded rq)
            (cf_trust_forwarded_for (wb_config w))
      in if allowed then k sv else (over_rate (lit ''Too many attempts. Wait a moment and try again.''), sv))"

section \<open>Signing in\<close>

definition DUMMY_HASH :: ustring where
  "DUMMY_HASH = lit ''$argon2id$v=19$m=19456,t=2,p=1$c29tZXNhbHRzb21lc2FsdA$Yl5S5xJHRLPTPXQD0oPGxNzTfPFHKPYnUdRJXvJ7Hqo''"

definition issue_session :: "env \<Rightarrow> web \<Rightarrow> server \<Rightarrow> user \<Rightarrow> response \<times> server" where
  "issue_session e w sv u =
     (let token = fresh_token w 0
      in case (if wb_commit w 1 then db_create_session (env_now e 1) (sv_store sv) (user_id u) (token_digest w token)
               else Err Unavailable) of
           Err _ \<Rightarrow> (server_error, sv)
         | Ok st \<Rightarrow>
             (\<lparr>rs_status = 200,
               rs_headers = header_if w (lit ''set-cookie'')
                 (session_cookie token (cf_secure_cookies (wb_config w)) (SESSION_TTL_MS div 1000)),
               rs_body = UserBody (user_public u)\<rparr>,
              sv\<lparr>sv_store := st\<rparr>))"

definition name_taken :: response where
  "name_taken = bad_request (lit ''That username is already taken.'')"

definition register ::
  "env \<Rightarrow> web \<Rightarrow> server \<Rightarrow> request \<Rightarrow> ustring \<Rightarrow> ustring \<Rightarrow> ustring \<Rightarrow> response \<times> server" where
  "register e w sv rq name display_name password =
     auth_limited w sv rq (\<lambda>sv.
       if \<not> cf_open_registration (wb_config w)
       then (plain_response 403 (ErrorBody (lit ''Registration is closed on this server.'')), sv)
       else case validate_signup (env_lowercase e) name display_name password of
         Err err \<Rightarrow> (bad_request (signup_error_message err), sv)
       | Ok (name, display_name) \<Rightarrow>
           if \<not> env_read e then (server_error, sv)
           else if db_user_by_name (env_lowercase e) (sv_store sv) name \<noteq> None then (name_taken, sv)
           else case (if wb_work w then wb_hash_password w password else None) of
             None \<Rightarrow> (server_error, sv)
           | Some hash \<Rightarrow>
               (case (if wb_commit w 0
                      then db_create_user (env_now e 0) (env_uuid e 0) (sv_store sv) name display_name [] hash
                      else Err Unavailable) of
                  Err _ \<Rightarrow> (name_taken, sv)
                | Ok (u, st) \<Rightarrow> issue_session e w (sv\<lparr>sv_store := st\<rparr>) u))"

definition wrong_password :: response where
  "wrong_password = bad_request (lit ''Incorrect username or password.'')"

text \<open>
  The account limiter is looked at before the name is looked up and again when the password
  worker starts, and charged for a wrong guess only.
\<close>

definition login :: "env \<Rightarrow> web \<Rightarrow> server \<Rightarrow> request \<Rightarrow> ustring \<Rightarrow> ustring \<Rightarrow> response \<times> server" where
  "login e w sv rq name password =
     auth_limited w sv rq (\<lambda>sv.
       let (throttled, sv) = account_is_throttled (env_lowercase e) sv (wb_instant w 1) name
       in if throttled then (wrong_password, sv)
          else if \<not> env_read e then (server_error, sv)
          else
            let known = db_user_by_name (env_lowercase e) (sv_store sv) (trim name);
                hash = (case known of Some u \<Rightarrow> user_password_hash u | None \<Rightarrow> DUMMY_HASH)
            in if \<not> wb_work w then (server_error, sv)
               else
                 let (throttled, sv) = account_is_throttled (env_lowercase e) sv (wb_instant w 2) name
                 in if throttled then (wrong_password, sv)
                    else case (password_matches w password hash, known) of
                      (True, Some u) \<Rightarrow> issue_session e w sv u
                    | _ \<Rightarrow> (wrong_password, note_failed_signin (env_lowercase e) sv (wb_instant w 3) name))"

section \<open>Sessions\<close>

definition logout :: "web \<Rightarrow> server \<Rightarrow> identity \<Rightarrow> response \<times> server" where
  "logout w sv who =
     (if \<not> wb_commit w 0 then (server_error, sv)
      else
        (\<lparr>rs_status = 200,
          rs_headers = header_if w (lit ''set-cookie'') (clear_cookie (cf_secure_cookies (wb_config w))),
          rs_body = OkBody\<rparr>,
         disconnect_session (sv\<lparr>sv_store := db_delete_session (sv_store sv) (identity_token_hash who)\<rparr>)
           (user_id (identity_user who)) (identity_token_hash who)))"

definition sign_out_everywhere :: "web \<Rightarrow> server \<Rightarrow> identity \<Rightarrow> response \<times> server" where
  "sign_out_everywhere w sv who =
     (if \<not> wb_commit w 0 then (server_error, sv)
      else
        let u = user_id (identity_user who);
            (revoked, st) = db_revoke_other_sessions (sv_store sv) u (identity_token_hash who)
        in (plain_response 200 (RevokedBody revoked),
            disconnect_other_sessions (sv\<lparr>sv_store := st\<rparr>) u (identity_token_hash who)))"

definition session_info :: "env \<Rightarrow> server \<Rightarrow> identity \<Rightarrow> response" where
  "session_info e sv who =
     (if env_read e
      then plain_response 200 (SessionsBody (db_session_count (env_now e 1) (sv_store sv) (user_id (identity_user who))))
      else server_error)"

definition change_password ::
  "env \<Rightarrow> web \<Rightarrow> server \<Rightarrow> request \<Rightarrow> identity \<Rightarrow> ustring \<Rightarrow> ustring \<Rightarrow> response \<times> server" where
  "change_password e w sv rq who current_password new_password =
     auth_limited w sv rq (\<lambda>sv.
       case validate_password (env_lowercase e) new_password (Some (user_name (identity_user who))) of
         Err err \<Rightarrow> (bad_request (signup_error_message err), sv)
       | Ok _ \<Rightarrow>
           if \<not> wb_work w then (server_error, sv)
           else if \<not> password_matches w current_password (user_password_hash (identity_user who))
           then (bad_request (lit ''Current password is incorrect.''), sv)
           else case wb_hash_password w new_password of
             None \<Rightarrow> (server_error, sv)
           | Some hash \<Rightarrow>
               if \<not> wb_commit w 0 then (server_error, sv)
               else
                 let u = user_id (identity_user who);
                     st = db_change_password (sv_store sv) u hash (identity_token_hash who)
                 in (plain_response 200 OkBody,
                     disconnect_other_sessions (sv\<lparr>sv_store := st\<rparr>) u (identity_token_hash who)))"

definition me :: "identity \<Rightarrow> response" where
  "me who = plain_response 200 (UserBody (user_public (identity_user who)))"

definition users_handler :: "env \<Rightarrow> server \<Rightarrow> identity \<Rightarrow> response" where
  "users_handler e sv who =
     (if env_read e then plain_response 200 (UsersBody (db_known_users (sv_store sv) (user_id (identity_user who))))
      else server_error)"

definition lookup_handler :: "env \<Rightarrow> web \<Rightarrow> server \<Rightarrow> request \<Rightarrow> ustring \<Rightarrow> response \<times> server" where
  "lookup_handler e w sv rq name =
     (let (allowed, sv) = check_lookup_rate sv (wb_instant w 0) (rq_peer rq) (rq_forwarded rq)
            (cf_trust_forwarded_for (wb_config w))
      in if \<not> allowed then (over_rate (lit ''Too many lookups. Slow down.''), sv)
         else if \<not> env_read e then (server_error, sv)
         else case db_user_by_name (env_lowercase e) (sv_store sv) (trim name) of
           Some u \<Rightarrow> (plain_response 200 (UserBody (user_public u)), sv)
         | None \<Rightarrow> (http_not_found (lit ''No such user.''), sv))"

section \<open>Attachments\<close>

definition MAX_ATTACHMENT_BYTES :: nat where
  "MAX_ATTACHMENT_BYTES = 10 * 1024 * 1024"

definition UPLOAD_QUOTA_BYTES :: nat where
  "UPLOAD_QUOTA_BYTES = 200 * 1024 * 1024"

definition UPLOAD_QUOTA_WINDOW_MS :: int where
  "UPLOAD_QUOTA_WINDOW_MS = 24 * 60 * 60 * 1000"

definition sniff_image :: "nat list \<Rightarrow> ustring option" where
  "sniff_image bytes =
     (let starts = starts_with bytes
      in if starts [0x89, 80, 78, 71, 13, 10, 26, 10] then Some (lit ''image/png'')
         else if starts [0xff, 0xd8, 0xff] then Some (lit ''image/jpeg'')
         else if starts (lit ''GIF87a'') \<or> starts (lit ''GIF89a'') then Some (lit ''image/gif'')
         else if length bytes > 12 \<and> starts (lit ''RIFF'') \<and> take 4 (drop 8 bytes) = lit ''WEBP''
         then Some (lit ''image/webp'')
         else None)"

text \<open>\<open>rsplit\<close> on either slash: the text after the last one.\<close>

definition after_last_slash :: "ustring \<Rightarrow> ustring" where
  "after_last_slash raw = rev (takeWhile (\<lambda>c. c \<noteq> 47 \<and> c \<noteq> 92) (rev raw))"

definition clean_filename :: "ustring \<Rightarrow> ustring" where
  "clean_filename raw =
     (let base = after_last_slash raw;
          cleaned = take 120 (filter (\<lambda>c. \<not> is_control c \<and> c \<noteq> 34 \<and> c \<noteq> 92) base);
          trimmed = trim (trim_matches (\<lambda>c. c = 46) (trim cleaned))
      in if trimmed = [] then lit ''file'' else trimmed)"

definition hex_digit :: "nat \<Rightarrow> uchar" where
  "hex_digit n = (if n < 10 then 48 + n else 55 + n)"

definition percent_byte :: "nat \<Rightarrow> ustring" where
  "percent_byte b = [37, hex_digit (b div 16), hex_digit (b mod 16)]"

definition unreserved :: "nat \<Rightarrow> bool" where
  "unreserved b = (is_ascii_alphanumeric b \<or> b \<in> {45, 46, 95, 126})"

definition encode_filename :: "ustring \<Rightarrow> ustring" where
  "encode_filename name =
     foldl (\<lambda>out b. if unreserved b then out @ [b] else out @ percent_byte b) [] (as_bytes name)"

definition upload_attachment ::
  "env \<Rightarrow> web \<Rightarrow> server \<Rightarrow> identity \<Rightarrow> wavelet_id \<Rightarrow> ustring \<Rightarrow> nat list \<Rightarrow> response \<times> server" where
  "upload_attachment e w sv who i name bytes =
     (let u = user_id (identity_user who)
      in if \<not> env_read e then (server_error, sv)
         else if \<not> db_is_wavelet_participant (sv_store sv) u i
         then (http_not_found (lit ''No such conversation.''), sv)
         else if bytes = [] then (bad_request (lit ''That file is empty.''), sv)
         else if length bytes > MAX_ATTACHMENT_BYTES then (payload_too_large, sv)
         else
           let mime = (case sniff_image bytes of Some m \<Rightarrow> m | None \<Rightarrow> lit ''application/octet-stream'')
           in case (if wb_commit w 0
                    then db_create_attachment (env_now e 1) (env_uuid e 0) (sv_store sv) i u (clean_filename name) mime bytes
                           \<lparr>uq_bytes = UPLOAD_QUOTA_BYTES, uq_since = env_now e 0 - UPLOAD_QUOTA_WINDOW_MS\<rparr>
                    else Err Unavailable) of
                Ok (Some a, st) \<Rightarrow> (plain_response 201 (AttachmentBody a), sv\<lparr>sv_store := st\<rparr>)
              | Ok (None, st) \<Rightarrow>
                  (plain_response 429 (ErrorBody (lit ''You have uploaded too much today. Try again tomorrow.'')), sv)
              | Err _ \<Rightarrow> (server_error, sv))"

definition content_disposition :: "attachment \<Rightarrow> ustring" where
  "content_disposition a =
     (if is_image a then lit ''inline'' else lit ''attachment'') @ lit ''; filename='' @ [34] @ at_name a @ [34]
       @ lit ''; filename*=UTF-8'' @ [39, 39] @ encode_filename (at_name a)"

definition get_attachment :: "env \<Rightarrow> web \<Rightarrow> server \<Rightarrow> identity \<Rightarrow> attachment_id \<Rightarrow> response" where
  "get_attachment e w sv who i =
     (if \<not> env_read e then server_error
      else case db_attachment_for (sv_store sv) (user_id (identity_user who)) i of
        None \<Rightarrow> http_not_found (lit ''No such attachment.'')
      | Some (a, bytes) \<Rightarrow>
          \<lparr>rs_status = 200,
           rs_headers = header_if w (lit ''content-type'') (at_mime a)
             @ header_if w (lit ''content-disposition'') (content_disposition a)
             @ header_if w (lit ''cache-control'') (lit ''private, max-age=31536000, immutable''),
           rs_body = BytesBody bytes\<rparr>)"

section \<open>Operations and the embedded client\<close>

definition health :: "env \<Rightarrow> response" where
  "health e = (if env_read e then plain_response 200 (TextBody (lit ''ok''))
     else plain_response 503 (TextBody (lit ''database unavailable'')))"

definition provider_info :: "config \<Rightarrow> ustring option" where
  "provider_info c = map_option oc_label (cf_oidc c)"

definition server_info :: "web \<Rightarrow> response" where
  "server_info w = plain_response 200
     (ServerInfoBody (cf_open_registration (wb_config w)) (provider_info (wb_config w)))"

text \<open>The digest as the words \<open>constant_time_eq\<close> compares.\<close>

definition digest_words :: "web \<Rightarrow> nat list \<Rightarrow> 8 word list" where
  "digest_words w bytes = map word_of_nat (wb_sha256 w bytes)"

definition metrics_handler :: "web \<Rightarrow> ustring \<Rightarrow> request \<Rightarrow> response" where
  "metrics_handler w rendered rq =
     (case cf_metrics_token (wb_config w) of
        None \<Rightarrow> http_not_found (lit ''No such endpoint.'')
      | Some expected \<Rightarrow>
          let presented = (case Option.bind (rq_authorization rq) (\<lambda>v. strip_prefix v (lit ''Bearer '')) of
                             Some t \<Rightarrow> t | None \<Rightarrow> [])
          in if \<not> constant_time_eq (digest_words w) (as_bytes presented) (as_bytes expected)
             then plain_response 401 (ErrorBody (lit ''Not authorised.''))
             else \<lparr>rs_status = 200, rs_headers = [(lit ''content-type'', lit ''text/plain; version=0.0.4'')],
                   rs_body = TextBody rendered\<rparr>)"

text \<open>Path, content type and file of each embedded asset.\<close>

definition ASSETS :: "(ustring \<times> ustring \<times> ustring) list" where
  "ASSETS = map (\<lambda>(p, t, f). (lit p, lit t, lit f))
     [(''/'', ''text/html; charset=utf-8'', ''web/index.html''),
      (''/index.html'', ''text/html; charset=utf-8'', ''web/index.html''),
      (''/style.css'', ''text/css; charset=utf-8'', ''web/style.css''),
      (''/ot.js'', ''text/javascript; charset=utf-8'', ''web/ot.js''),
      (''/client.js'', ''text/javascript; charset=utf-8'', ''web/client.js''),
      (''/editor.js'', ''text/javascript; charset=utf-8'', ''web/editor.js''),
      (''/ui.js'', ''text/javascript; charset=utf-8'', ''web/ui.js''),
      (''/app.js'', ''text/javascript; charset=utf-8'', ''web/app.js'')]"

definition is_client_route :: "ustring \<Rightarrow> bool" where
  "is_client_route target =
     (target = lit ''/''
      \<or> (case strip_prefix target (lit ''/wave/'') of Some i \<Rightarrow> 47 \<notin> set i | None \<Rightarrow> False))"

definition asset_response :: "ustring \<Rightarrow> ustring \<Rightarrow> response" where
  "asset_response content_type file =
     \<lparr>rs_status = 200, rs_headers = [(lit ''content-type'', content_type), (lit ''cache-control'', lit ''no-cache'')],
      rs_body = AssetBody file\<rparr>"

definition static_asset :: "ustring \<Rightarrow> response" where
  "static_asset target =
     (case find (\<lambda>a. fst a = target) ASSETS of
        Some (_, content_type, file) \<Rightarrow> asset_response content_type file
      | None \<Rightarrow>
          if is_client_route target
          then asset_response (lit ''text/html; charset=utf-8'') (snd (snd (ASSETS ! 0)))
          else http_not_found (lit ''No such endpoint.''))"

definition security_headers :: "config \<Rightarrow> (ustring \<times> ustring) list" where
  "security_headers c =
     [(lit ''content-security-policy'',
       lit ''default-src '' @ [39] @ lit ''self'' @ [39] @ lit ''; script-src '' @ [39] @ lit ''self'' @ [39]
         @ lit ''; style-src '' @ [39] @ lit ''self'' @ [39] @ lit ''; img-src '' @ [39] @ lit ''self'' @ [39]
         @ lit '' data:; connect-src '' @ [39] @ lit ''self'' @ [39] @ lit ''; frame-ancestors '' @ [39]
         @ lit ''none'' @ [39] @ lit ''; base-uri '' @ [39] @ lit ''none'' @ [39] @ lit ''; form-action '' @ [39]
         @ lit ''self'' @ [39]),
      (lit ''x-content-type-options'', lit ''nosniff''),
      (lit ''x-frame-options'', lit ''DENY''),
      (lit ''referrer-policy'', lit ''same-origin'')]
     @ (if cf_hsts c then [(lit ''strict-transport-security'', lit ''max-age=31536000; includeSubDomains'')] else [])"

end
