(* ===== verification/Gal_Access.thy ===== *)
theory Gal_Access
  imports Gal_Http
begin

text \<open>
  What the HTTP surface guarantees about accounts: who a session speaks for, what a password
  change ends, how many passwords can be tried against an account, how much can be uploaded,
  and what a download can be.
\<close>

section \<open>Sessions\<close>

lemma find_SomeD: "find P xs = Some x \<Longrightarrow> x \<in> set xs \<and> P x"
  by (induction xs) (auto split: if_splits)

lemma find_filter: "find P (filter Q xs) = find (\<lambda>x. Q x \<and> P x) xs"
  by (induction xs) auto

lemma find_cong': "(\<And>x. x \<in> set xs \<Longrightarrow> P x = Q x) \<Longrightarrow> find P xs = find Q xs"
  by (induction xs) auto

lemma user_by_id_Some: "user_by_id st i = Some u \<Longrightarrow> user_id u = i \<and> u \<in> set (st_users st)"
  by (auto simp: user_by_id_def find_Some_iff)

lemma user_by_id_known:
  assumes "distinct (map user_id (st_users st))" "u \<in> set (st_users st)"
  shows "user_by_id st (user_id u) = Some u"
proof -
  have "find (\<lambda>x. user_id x = user_id u) us = Some u" if "distinct (map user_id us)" "u \<in> set us" for us
    using that by (induction us) force+
  with assms show ?thesis by (simp add: user_by_id_def)
qed

lemma session_user:
  assumes "db_user_for_session ts st h = Some u"
  obtains s where "live_session ts st h = Some s" "se_user_id s = user_id u" "s \<in> set (st_sessions st)"
    "se_token_hash s = h" "u \<in> set (st_users st)"
proof -
  obtain s where s: "live_session ts st h = Some s" "user_by_id st (se_user_id s) = Some u"
    using assms by (auto simp: db_user_for_session_def bind_eq_Some_conv)
  then have "s \<in> set (st_sessions st)" "se_token_hash s = h" by (auto simp: live_session_def find_Some_iff)
  with s user_by_id_Some [OF s(2)] that show ?thesis by auto
qed

text \<open>A session that survives a purge keeps its user.\<close>

lemma live_session_purge:
  assumes "live_session ts st h = Some s" "Q s" "st_sessions st' = filter Q (st_sessions st)"
  shows "live_session ts st' h = Some s"
proof -
  have "find P (filter Q xs) = Some x" if "find P xs = Some x" "Q x" for P xs and x :: session_row
    using that by (induction xs) (auto split: if_splits)
  with assms show ?thesis by (simp add: live_session_def)
qed

lemma delete_agent_tokens_fields [simp]:
  "st_users (delete_agent_tokens P st) = st_users st" "st_sessions (delete_agent_tokens P st) = st_sessions st"
  "st_agent_tokens (delete_agent_tokens P st) = filter (\<lambda>t. \<not> P t) (st_agent_tokens st)"
  "st_attachments (delete_agent_tokens P st) = st_attachments st"
  by (simp_all add: delete_agent_tokens_def)

text \<open>Closing connections: every connection of the user that meets the test is told to stop.\<close>

lemma kill_conns_kills:
  assumes "i \<in> set (conns_of sv u)" "map_of (sv_conns sv) i = Some h" "P h"
  shows "ch_killed (sv_chans (kill_conns sv u P) (cn_chan h))"
proof -
  define f where "f = (\<lambda>ch i. case map_of (sv_conns sv) i of
      Some h \<Rightarrow> if P h then notify_one ch (cn_chan h) else ch | None \<Rightarrow> ch)"
  have keep: "ch_killed (ch a) \<Longrightarrow> ch_killed (foldl f ch is a)" for ch a "is"
    by (induction "is" arbitrary: ch) (auto simp: f_def notify_one_def split: option.splits)
  have "ch_killed (foldl f ch is (cn_chan h))" if "i \<in> set is" for ch "is"
    using that
  proof (induction "is" arbitrary: ch)
    case (Cons j js)
    show ?case
    proof (cases "j = i")
      case True
      have "ch_killed (f ch j (cn_chan h))" using True assms(2,3) by (simp add: f_def notify_one_def)
      then show ?thesis using keep [where ch = "f ch j" and a = "cn_chan h"] by simp
    next
      case False
      with Cons show ?thesis by simp
    qed
  qed simp
  from this [OF assms(1)] show ?thesis by (simp add: kill_conns_def f_def)
qed

lemma kill_conns_store [simp]: "sv_store (kill_conns sv u P) = sv_store sv"
  by (simp add: kill_conns_def)

lemma rate_check_frame:
  assumes "check_auth_rate sv t peer fwd trust = (b, sv1)"
  shows "sv_store sv1 = sv_store sv" "sv_conns sv1 = sv_conns sv" "sv_chans sv1 = sv_chans sv"
    "sv_user_conns sv1 = sv_user_conns sv" "sv_account_limiter sv1 = sv_account_limiter sv"
  using assms by (auto simp: check_auth_rate_def case_prod_beta' Let_def)

definition auth_allowed :: "web \<Rightarrow> server \<Rightarrow> request \<Rightarrow> bool" where
  "auth_allowed w sv rq = fst (check_auth_rate sv (wb_instant w 0) (rq_peer rq) (rq_forwarded rq)
     (cf_trust_forwarded_for (wb_config w)))"

lemma auth_limited_cases:
  assumes "auth_limited w sv rq k = (r, sv')"
  obtains (refused) "rs_status r = 429" "sv_store sv' = sv_store sv" "sv_account_limiter sv' = sv_account_limiter sv"
      "\<not> auth_allowed w sv rq"
  | (allowed) sv1 where "k sv1 = (r, sv')" "sv_store sv1 = sv_store sv" "sv_conns sv1 = sv_conns sv"
      "sv_user_conns sv1 = sv_user_conns sv" "sv_account_limiter sv1 = sv_account_limiter sv"
      "auth_allowed w sv rq"
proof -
  obtain b sv1 where c: "check_auth_rate sv (wb_instant w 0) (rq_peer rq) (rq_forwarded rq)
      (cf_trust_forwarded_for (wb_config w)) = (b, sv1)" by fastforce
  note f = rate_check_frame [OF c]
  show thesis
  proof (cases b)
    case True
    with assms c f allowed show ?thesis by (simp add: auth_limited_def auth_allowed_def)
  next
    case False
    with assms c f refused show ?thesis by (auto simp: auth_limited_def over_rate_def auth_allowed_def)
  qed
qed

lemmas response_defs = plain_response_def bad_request_def server_error_def unauthorised_def http_not_found_def
  wrong_password_def name_taken_def over_rate_def payload_too_large_def

section \<open>Changing a password\<close>

text \<open>The store after a change of password.\<close>

lemma change_password_store:
  assumes st'_def: "st' = db_change_password st u hash keep"
  shows "h \<noteq> keep \<Longrightarrow> db_user_for_session ts st' h = Some x \<Longrightarrow> user_id x \<noteq> u"
    "t \<in> set (st_agent_tokens st') \<Longrightarrow> tr_user_id t \<noteq> u"
    "x \<in> set (st_users st') \<Longrightarrow> user_id x = u \<Longrightarrow> user_password_hash x = hash"
    "user_id x \<noteq> u \<Longrightarrow> db_user_for_session ts st h = Some x \<Longrightarrow> db_user_for_session ts st' h = Some x"
proof -
  have sess: "st_sessions st' = filter (\<lambda>s. \<not> other_session u keep s) (st_sessions st)"
    by (simp add: st'_def db_change_password_def)
  let ?upd = "\<lambda>x. if user_id x = u then x\<lparr>user_password_hash := hash\<rparr> else x"
  have users: "st_users st' = map ?upd (st_users st)" by (simp add: st'_def db_change_password_def)
  show "user_id x \<noteq> u" if "h \<noteq> keep" "db_user_for_session ts st' h = Some x"
  proof -
    from that(2) obtain s where "s \<in> set (st_sessions st')" "se_token_hash s = h" "se_user_id s = user_id x"
      by (rule session_user) auto
    with that(1) show ?thesis by (auto simp: sess other_session_def)
  qed
  have "st_agent_tokens st' = filter (\<lambda>t. tr_user_id t \<noteq> u) (st_agent_tokens st)" by (simp add: st'_def db_change_password_def)
  then show "t \<in> set (st_agent_tokens st') \<Longrightarrow> tr_user_id t \<noteq> u" by simp
  show "user_password_hash x = hash" if x: "x \<in> set (st_users st')" "user_id x = u"
  proof -
    from x(1) obtain y where y: "x = ?upd y" unfolding users by fastforce
    with x(2) show ?thesis by (cases "user_id y = u") simp_all
  qed
  show "db_user_for_session ts st' h = Some x" if x: "user_id x \<noteq> u" "db_user_for_session ts st h = Some x"
  proof -
    obtain s where s: "live_session ts st h = Some s" "user_by_id st (se_user_id s) = Some x"
      using x(2) by (auto simp: db_user_for_session_def bind_eq_Some_conv)
    have id: "user_id x = se_user_id s" using user_by_id_Some [OF s(2)] by simp
    have "live_session ts st' h = Some s"
      by (rule live_session_purge [OF s(1) _ sess]) (use id x(1) in \<open>simp add: other_session_def\<close>)
    moreover have "find (\<lambda>y. user_id y = i) (map ?upd us) = find (\<lambda>y. user_id y = i) us" if "i \<noteq> u" for i and us :: "user list"
      using that by (induction us) auto
    then have "user_by_id st' (se_user_id s) = Some x" using s(2) id x(1) by (simp add: user_by_id_def users)
    ultimately show ?thesis by (simp add: db_user_for_session_def)
  qed
qed

text \<open>
  (C18) Changing a password locks everyone else out. When the request is answered with success,
  the current password was given; from then on no other session of the account is accepted, at
  any time; none of its agent credentials is left; the stored hash is the hash of the new
  password; every open connection of another session has been told to close; and sessions of
  other accounts work as before.
\<close>

theorem password_change_locks_out:
  assumes "change_password e w sv rq who cur new = (r, sv')" "rs_status r = 200"
  defines "u \<equiv> user_id (identity_user who)" and "keep \<equiv> identity_token_hash who"
  shows "password_matches w cur (user_password_hash (identity_user who))
    \<and> (\<forall>ts h x. h \<noteq> keep \<and> db_user_for_session ts (sv_store sv') h = Some x \<longrightarrow> user_id x \<noteq> u)
    \<and> (\<forall>t \<in> set (st_agent_tokens (sv_store sv')). tr_user_id t \<noteq> u)
    \<and> (\<forall>x \<in> set (st_users (sv_store sv')). user_id x = u \<longrightarrow> wb_hash_password w new = Some (user_password_hash x))
    \<and> (\<forall>i h. i \<in> set (conns_of sv u) \<and> map_of (sv_conns sv) i = Some h \<and> cn_token_hash h \<noteq> keep
          \<longrightarrow> ch_killed (sv_chans sv' (cn_chan h)))
    \<and> (\<forall>ts h x. user_id x \<noteq> u \<and> db_user_for_session ts (sv_store sv) h = Some x
          \<longrightarrow> db_user_for_session ts (sv_store sv') h = Some x)"
  using assms(1) [unfolded change_password_def]
proof (cases rule: auth_limited_cases)
  case refused
  with assms(2) show ?thesis by simp
next
  case (allowed sv1)
  obtain hash where hash: "password_matches w cur (user_password_hash (identity_user who))"
      "wb_hash_password w new = Some hash"
    and sv': "sv' = disconnect_other_sessions (sv1\<lparr>sv_store := db_change_password (sv_store sv1) u hash keep\<rparr>) u keep"
    using allowed(1) assms(2)
    by (auto simp: response_defs Let_def u_def keep_def split: sum.splits if_splits option.splits)
  have store: "sv_store sv' = db_change_password (sv_store sv) u hash keep"
    by (simp add: sv' disconnect_other_sessions_def allowed(2))
  let ?sv = "sv1\<lparr>sv_store := db_change_password (sv_store sv1) u hash keep\<rparr>"
  have "ch_killed (sv_chans sv' (cn_chan h))"
    if "i \<in> set (conns_of sv u)" "map_of (sv_conns sv) i = Some h" "cn_token_hash h \<noteq> keep" for i h
    unfolding sv' disconnect_other_sessions_def
    by (rule kill_conns_kills) (use that allowed in \<open>simp_all add: conns_of_def\<close>)
  with hash change_password_store [OF store] show ?thesis
    by blast
qed

section \<open>Signing in\<close>

text \<open>A session that was just issued speaks for its user until it expires.\<close>

lemma create_session_speaks:
  assumes "db_create_session created st u h = Ok st'" "distinct (map user_id (st_users st))"
    "x \<in> set (st_users st)" "user_id x = u" "created \<le> ts" "ts < created + SESSION_TTL_MS"
  shows "db_user_for_session ts st' h = Some x"
proof -
  let ?new = "\<lparr>se_token_hash = h, se_user_id = u, se_created_at = created, se_expires_at = created + SESSION_TTL_MS\<rparr>"
  have fresh: "\<forall>s \<in> set (st_sessions st). se_token_hash s \<noteq> h"
    and st': "st' = st\<lparr>st_sessions := filter (\<lambda>s. \<not> se_expires_at s < created) (st_sessions st @ [?new])\<rparr>"
    using assms(1) by (auto simp: db_create_session_def list_ex_iff split: if_splits)
  have "find P (xs @ [y]) = (if P y then Some y else None)" if "\<forall>x \<in> set xs. \<not> P x" for P xs and y :: session_row
    using that by (induction xs) auto
  from this [of "filter (\<lambda>s. \<not> se_expires_at s < created) (st_sessions st)" "\<lambda>s. se_token_hash s = h \<and> ts < se_expires_at s" ?new]
  have "live_session ts st' h = Some ?new"
    using fresh assms(5,6) by (simp add: live_session_def st')
  moreover have "user_by_id st' u = Some x"
    using user_by_id_known [OF assms(2,3)] assms(4) by (simp add: user_by_id_def st')
  ultimately show ?thesis by (simp add: db_user_for_session_def)
qed

lemma throttle_frame:
  assumes "account_is_throttled lower sv t name = (b, sv1)"
  shows "sv_store sv1 = sv_store sv"
    "would_allow (sv_account_limiter sv) t (account_key lower name) = (\<not> b, sv_account_limiter sv1)"
  using assms by (auto simp: account_is_throttled_def case_prod_beta' Let_def prod_eq_iff)

text \<open>
  Is the password looked at? It is when neither limiter refuses, the database answers and
  the worker runs.
\<close>

definition login_checked :: "env \<Rightarrow> web \<Rightarrow> server \<Rightarrow> request \<Rightarrow> ustring \<Rightarrow> bool" where
  "login_checked e w sv rq name =
     (let (first, rl) = would_allow (sv_account_limiter sv) (wb_instant w 1) (account_key (env_lowercase e) name);
          (second, rl) = would_allow rl (wb_instant w 2) (account_key (env_lowercase e) name)
      in auth_allowed w sv rq \<and> first \<and> env_read e \<and> wb_work w \<and> second)"

text \<open>How a sign-in can go: refused before the password is looked at, or after it was checked.\<close>

lemma login_cases:
  assumes "login e w sv rq name password = (r, sv')"
  obtains (rate) "rs_status r = 429" "sv_store sv' = sv_store sv" "sv_account_limiter sv' = sv_account_limiter sv"
      "\<not> login_checked e w sv rq name"
  | (early) b sv1 sv2 where "r \<in> {wrong_password, server_error}" "sv_account_limiter sv1 = sv_account_limiter sv"
      "account_is_throttled (env_lowercase e) sv1 (wb_instant w 1) name = (b, sv2)"
      "sv_store sv' = sv_store sv" "sv' = sv2" "\<not> login_checked e w sv rq name"
  | (late) sv1 sv2 where "r = wrong_password" "sv_account_limiter sv1 = sv_account_limiter sv"
      "account_is_throttled (env_lowercase e) sv1 (wb_instant w 1) name = (False, sv2)"
      "account_is_throttled (env_lowercase e) sv2 (wb_instant w 2) name = (True, sv')"
      "sv_store sv' = sv_store sv" "\<not> login_checked e w sv rq name"
  | (verified) sv1 sv2 sv3 known where "login_checked e w sv rq name" "sv_account_limiter sv1 = sv_account_limiter sv"
      "account_is_throttled (env_lowercase e) sv1 (wb_instant w 1) name = (False, sv2)"
      "account_is_throttled (env_lowercase e) sv2 (wb_instant w 2) name = (False, sv3)"
      "sv_store sv3 = sv_store sv"
      "known = db_user_by_name (env_lowercase e) (sv_store sv) (trim name)"
      "(case known of
          Some u \<Rightarrow> if password_matches w password (user_password_hash u) then issue_session e w sv3 u
            else (wrong_password, note_failed_signin (env_lowercase e) sv3 (wb_instant w 3) name)
        | None \<Rightarrow> (wrong_password, note_failed_signin (env_lowercase e) sv3 (wb_instant w 3) name)) = (r, sv')"
  using assms [unfolded login_def]
proof (cases rule: auth_limited_cases)
  case refused
  then have "\<not> login_checked e w sv rq name" by (simp add: login_checked_def case_prod_beta' Let_def)
  with refused rate show ?thesis by blast
next
  case (allowed sv1)
  obtain b1 sv2 where t1: "account_is_throttled (env_lowercase e) sv1 (wb_instant w 1) name = (b1, sv2)" by fastforce
  obtain b2 sv3 where t2: "account_is_throttled (env_lowercase e) sv2 (wb_instant w 2) name = (b2, sv3)" by fastforce
  note f1 = throttle_frame(1) [OF t1] and f2 = throttle_frame(1) [OF t2]
  have checked: "login_checked e w sv rq name \<longleftrightarrow> \<not> b1 \<and> env_read e \<and> wb_work w \<and> \<not> b2"
    using throttle_frame(2) [OF t1] throttle_frame(2) [OF t2] allowed(5,6) by (auto simp: login_checked_def)
  show ?thesis
  proof (cases "b1 \<or> \<not> env_read e \<or> \<not> wb_work w")
    case True
    then have "sv' = sv2" "r \<in> {wrong_password, server_error}" using allowed(1) t1 by (auto simp: Let_def split: if_splits)
    with early [OF _ allowed(5) t1] f1 allowed(2) checked True show ?thesis by auto
  next
    case False
    then have b1: "b1 = False" by simp
    show ?thesis
    proof (cases b2)
      case True
      then have "sv' = sv3" "r = wrong_password" using allowed(1) t1 t2 False by (auto simp: Let_def)
      with late [OF _ allowed(5), of sv2] t1 t2 b1 True f1 f2 allowed(2) checked show ?thesis by simp
    next
      case b2: False
      let ?known = "db_user_by_name (env_lowercase e) (sv_store sv) (trim name)"
      have "(case ?known of
          Some u \<Rightarrow> if password_matches w password (user_password_hash u) then issue_session e w sv3 u
            else (wrong_password, note_failed_signin (env_lowercase e) sv3 (wb_instant w 3) name)
        | None \<Rightarrow> (wrong_password, note_failed_signin (env_lowercase e) sv3 (wb_instant w 3) name)) = (r, sv')"
        using allowed(1,2) t1 t2 False b2 f1 by (auto simp: Let_def split: option.splits bool.splits if_splits)
      with verified [OF _ allowed(5), of sv2 sv3 ?known] t1 t2 b1 b2 f1 f2 allowed(2) checked False show ?thesis by simp
    qed
  qed
qed

lemma note_failed_frame [simp]: "sv_store (note_failed_signin lower sv t name) = sv_store sv"
  "sv_account_limiter (note_failed_signin lower sv t name) =
     snd (limiter_check (sv_account_limiter sv) t (account_key lower name))"
  by (simp_all add: note_failed_signin_def)

lemma issue_session_cases:
  assumes "issue_session e w sv u = (r, sv')"
  obtains (failed) "r = server_error" "sv' = sv"
  | (issued) st where "db_create_session (env_now e 1) (sv_store sv) (user_id u) (token_digest w (fresh_token w 0)) = Ok st"
      "rs_status r = 200" "rs_body r = UserBody (user_public u)" "sv' = sv\<lparr>sv_store := st\<rparr>"
proof (cases "if wb_commit w 1 then db_create_session (env_now e 1) (sv_store sv) (user_id u) (token_digest w (fresh_token w 0))
    else Err Unavailable")
  case (Inl err)
  with assms failed show ?thesis by (simp add: issue_session_def Let_def)
next
  case (Inr st)
  then have "db_create_session (env_now e 1) (sv_store sv) (user_id u) (token_digest w (fresh_token w 0)) = Ok st"
    by (simp split: if_splits)
  moreover have "rs_status r = 200" "rs_body r = UserBody (user_public u)" "sv' = sv\<lparr>sv_store := st\<rparr>"
    using assms Inr by (auto simp: issue_session_def Let_def)
  ultimately show ?thesis by (rule issued)
qed


section \<open>Guessing passwords\<close>

lemma level_mono:
  assumes "limiter_ok rl t0" "t \<le> t'"
  shows "bucket_level rl t k \<le> bucket_level rl t' k"
proof (cases "fmlookup (entries rl) k")
  case (Some b)
  have "duration_since t (last_time b) * refill_per_sec rl \<le> duration_since t' (last_time b) * refill_per_sec rl"
    using duration_since_mono [OF assms(2)] limiter_okD(1) [OF assms(1)] by (intro mult_right_mono) auto
  with Some show ?thesis by (auto simp: bucket_level_def min_def)
qed (simp add: bucket_level_def)

lemma take_granted:
  assumes "limiter_ok rl t0" "limiter_take rl t key cost consume = (g, rl')"
  shows "g \<longleftrightarrow> cost \<le> bucket_level rl t key"
  using take_bucket [OF assms(1), of t key cost consume] assms(2) by (simp add: Let_def)

text \<open>
  Tokens of one account: no operation on the limiter adds any, beyond the refill for the time
  that has passed. \<open>drawn n\<close> says that \<open>n\<close> of them were spent on the way.
\<close>

definition drawn :: "ustring \<Rightarrow> rat \<Rightarrow> rate_limiter \<Rightarrow> rat \<Rightarrow> rat \<Rightarrow> rate_limiter \<Rightarrow> bool" where
  "drawn k n rl t t' rl' \<longleftrightarrow> limiter_ok rl' t' \<and> refill_per_sec rl' = refill_per_sec rl
     \<and> n + bucket_level rl' t' k \<le> bucket_level rl t k + refill_per_sec rl * (t' - t)"

lemma drawn_refl: "limiter_ok rl t \<Longrightarrow> drawn k 0 rl t t rl"
  by (simp add: drawn_def)

lemma drawn_trans: "drawn k m rl t t1 rl1 \<Longrightarrow> drawn k n rl1 t1 t' rl' \<Longrightarrow> drawn k (m + n) rl t t' rl'"
  by (auto simp: drawn_def algebra_simps)

lemma drawn_wait:
  assumes "limiter_ok rl t" "t \<le> t'"
  shows "drawn k 0 rl t t' rl"
  using limiter_ok_later [OF assms] level_grows [OF assms, of k] by (simp add: drawn_def)

lemma drawn_take:
  assumes "limiter_ok rl t" "t \<le> t'" "limiter_take rl t' key 1 consume = (g, rl')"
  shows "drawn k (if g \<and> consume \<and> key = k then 1 else 0) rl t t' rl'"
proof -
  note l = take_ok_level [OF assms(1,2) zero_le_one assms(3)]
  have "bucket_level rl' t' k = (if g \<and> consume \<and> key = k then bucket_level rl t' k - 1 else bucket_level rl t' k)"
    using l(3) [OF order_refl, of k] l(4) by (cases "k = key") auto
  with l(1,2) level_grows [OF assms(1,2), of k] show ?thesis by (simp add: drawn_def)
qed

text \<open>One sign-in: a wrong guess at the password is paid for by the account it was made at.\<close>

record attempt =
  ap_env :: env
  ap_web :: web
  ap_request :: request
  ap_name :: ustring
  ap_password :: ustring

definition attempt_login :: "server \<Rightarrow> attempt \<Rightarrow> response \<times> server" where
  "attempt_login sv a = login (ap_env a) (ap_web a) sv (ap_request a) (ap_name a) (ap_password a)"

definition guess_checked :: "server \<Rightarrow> attempt \<Rightarrow> bool" where
  "guess_checked sv a = login_checked (ap_env a) (ap_web a) sv (ap_request a) (ap_name a)"

text \<open>An attempt that is not checked does not depend on the password that was given.\<close>

lemma rate_check_account: "sv_account_limiter (snd (check_auth_rate sv t peer fwd trust)) = sv_account_limiter sv"
  by (rule rate_check_frame(5) [OF prod.collapse [symmetric]])

lemma unchecked_reveals_nothing:
  "\<not> guess_checked sv a \<Longrightarrow> attempt_login sv (a\<lparr>ap_password := p\<rparr>) = attempt_login sv a"
  by (auto simp: guess_checked_def login_checked_def auth_allowed_def attempt_login_def login_def auth_limited_def
      account_is_throttled_def rate_check_account Let_def case_prod_beta')

definition wrong_guess :: "(ustring \<Rightarrow> ustring) \<Rightarrow> ustring \<Rightarrow> server \<Rightarrow> attempt \<Rightarrow> bool" where
  "wrong_guess lower k sv a \<longleftrightarrow> account_key lower (ap_name a) = k \<and> guess_checked sv a
     \<and> fst (attempt_login sv a) = wrong_password"

definition timely :: "(ustring \<Rightarrow> ustring) \<Rightarrow> attempt \<Rightarrow> bool" where
  "timely lower a \<longleftrightarrow> env_lowercase (ap_env a) = lower \<and> wb_instant (ap_web a) 1 \<le> wb_instant (ap_web a) 2
     \<and> wb_instant (ap_web a) 2 \<le> wb_instant (ap_web a) 3"

lemma attempt_drawn:
  assumes "attempt_login sv a = (r, sv')" "timely lower a" "limiter_ok (sv_account_limiter sv) t"
    "t \<le> wb_instant (ap_web a) 1"
  shows "drawn k (if wrong_guess lower k sv a then 1 else 0) (sv_account_limiter sv) t
    (wb_instant (ap_web a) 3) (sv_account_limiter sv')"
proof -
  let ?rl = "sv_account_limiter sv" and ?w = "ap_web a" and ?k = "account_key lower (ap_name a)"
  have low: "env_lowercase (ap_env a) = lower" and t: "wb_instant ?w 1 \<le> wb_instant ?w 2" "wb_instant ?w 2 \<le> wb_instant ?w 3"
    using assms(2) by (auto simp: timely_def)
  have peek: "drawn k 0 rl t0 t1 rl'"
    if "would_allow rl t1 ?k = (g, rl')" "limiter_ok rl t0" "t0 \<le> t1" for rl t0 t1 g rl'
    using drawn_take [OF that(2,3), of ?k False g rl' k] that(1) by (simp add: would_allow_def)
  have rest: "drawn k 0 rl t1 (wb_instant ?w 3) rl" if "limiter_ok rl t1" "t1 \<le> wb_instant ?w 3" for rl t1
    using drawn_wait [OF that] .
  show ?thesis
    using assms(1) [unfolded attempt_login_def]
  proof (cases rule: login_cases)
    case rate
    then have "\<not> wrong_guess lower k sv a" using assms(1) by (auto simp: wrong_guess_def response_defs)
    with rate rest [OF assms(3)] assms(4) t show ?thesis by simp
  next
    case (early b sv1 sv2)
    note p = peek [OF throttle_frame(2) [OF early(3), unfolded early(2) low], OF assms(3,4)]
    then have ok: "limiter_ok (sv_account_limiter sv2) (wb_instant ?w 1)" by (simp add: drawn_def)
    have "\<not> wrong_guess lower k sv a" using early(6) by (simp add: wrong_guess_def guess_checked_def)
    with drawn_trans [OF p rest [OF ok]] t early(5) show ?thesis by simp
  next
    case (late sv1 sv2)
    note p1 = peek [OF throttle_frame(2) [OF late(3), unfolded late(2) low], OF assms(3,4)]
    then have ok1: "limiter_ok (sv_account_limiter sv2) (wb_instant ?w 1)" by (simp add: drawn_def)
    note p2 = peek [OF throttle_frame(2) [OF late(4), unfolded low], OF ok1 t(1)]
    then have ok2: "limiter_ok (sv_account_limiter sv') (wb_instant ?w 2)" by (simp add: drawn_def)
    have "\<not> wrong_guess lower k sv a" using late(6) by (simp add: wrong_guess_def guess_checked_def)
    with drawn_trans [OF drawn_trans [OF p1 p2] rest [OF ok2 t(2)]] show ?thesis by simp
  next
    case (verified sv1 sv2 sv3 known)
    note f1 = throttle_frame(2) [OF verified(3), unfolded verified(2) low]
    note f2 = throttle_frame(2) [OF verified(4), unfolded low]
    note p1 = peek [OF f1, OF assms(3,4)]
    then have ok1: "limiter_ok (sv_account_limiter sv2) (wb_instant ?w 1)" by (simp add: drawn_def)
    note p2 = peek [OF f2, OF ok1 t(1)]
    then have ok2: "limiter_ok (sv_account_limiter sv3) (wb_instant ?w 2)" by (simp add: drawn_def)
    note p = drawn_trans [OF p1 p2]
    have f2': "limiter_take (sv_account_limiter sv2) (wb_instant ?w 2) ?k 1 False = (True, sv_account_limiter sv3)"
      using f2 by (simp add: would_allow_def)
    have "1 \<le> bucket_level (sv_account_limiter sv3) (wb_instant ?w 2) ?k"
      using take_granted [OF ok1 f2'] take_ok_level(4) [OF ok1 t(1) zero_le_one f2'] by simp
    then have have_one: "1 \<le> bucket_level (sv_account_limiter sv3) (wb_instant ?w 3) ?k"
      using level_mono [OF ok2 t(2), of ?k] by linarith
    show ?thesis
    proof (cases "\<exists>u. known = Some u \<and> password_matches ?w (ap_password a) (user_password_hash u)")
      case True
      then obtain u where "issue_session (ap_env a) ?w sv3 u = (r, sv')" using verified(7) by auto
      then have "sv_account_limiter sv' = sv_account_limiter sv3 \<and> r \<noteq> wrong_password"
      proof (cases rule: issue_session_cases)
        case failed
        then show ?thesis by (simp add: response_defs)
      next
        case (issued st)
        from issued(2) have "r \<noteq> wrong_password" by (auto simp: response_defs)
        with issued(4) show ?thesis by simp
      qed
      with drawn_trans [OF p rest [OF ok2 t(2)]] assms(1) show ?thesis by (simp add: wrong_guess_def)
    next
      case False
      then have r: "r = wrong_password" "sv' = note_failed_signin lower sv3 (wb_instant ?w 3) (ap_name a)"
        using verified(7) low by (auto split: option.splits if_splits)
      obtain g rl where g: "limiter_take (sv_account_limiter sv3) (wb_instant ?w 3) ?k 1 True = (g, rl)" by fastforce
      have "g" using take_granted [OF ok2 g] have_one by simp
      moreover have "wrong_guess lower k sv a \<longleftrightarrow> ?k = k"
        using r(1) verified(1) assms(1) by (simp add: wrong_guess_def guess_checked_def)
      moreover have "sv_account_limiter sv' = rl" using g by (simp add: r(2) limiter_check_def check_cost_def)
      ultimately show ?thesis using drawn_trans [OF p drawn_take [OF ok2 t(2) g, of k]] by simp
    qed
  qed
qed

text \<open>The wrong guesses made at one account in the course of a list of attempts.\<close>

fun wrong_guesses :: "(ustring \<Rightarrow> ustring) \<Rightarrow> ustring \<Rightarrow> server \<Rightarrow> attempt list \<Rightarrow> nat" where
  "wrong_guesses lower k sv [] = 0"
| "wrong_guesses lower k sv (a # as) =
     (if wrong_guess lower k sv a then 1 else 0) + wrong_guesses lower k (snd (attempt_login sv a)) as"

abbreviation begins :: "attempt \<Rightarrow> rat" where "begins a \<equiv> wb_instant (ap_web a) 1"
abbreviation finishes :: "attempt \<Rightarrow> rat" where "finishes a \<equiv> wb_instant (ap_web a) 3"

lemma wrong_guesses_bound:
  assumes "limiter_ok (sv_account_limiter sv) t" "list_all (timely lower) as"
    "sorted_wrt (\<lambda>a b. finishes a \<le> begins b) as" "\<forall>a \<in> set as. t \<le> begins a \<and> finishes a \<le> tn" "t \<le> tn"
  shows "of_nat (wrong_guesses lower k sv as) \<le> bucket_level (sv_account_limiter sv) t k
    + refill_per_sec (sv_account_limiter sv) * (tn - t)"
  using assms
proof (induction as arbitrary: sv t)
  case Nil
  then show ?case
    using level_bounds(1) [OF Nil(1) order_refl, of k] limiter_okD(1) [OF Nil(1)] by simp
next
  case (Cons a as)
  obtain r sv' where step: "attempt_login sv a = (r, sv')" by fastforce
  have a: "timely lower a" "t \<le> begins a" "finishes a \<le> tn" using Cons.prems by auto
  note d = attempt_drawn [OF step a(1) Cons.prems(1) a(2), of k]
  have "of_nat (wrong_guesses lower k sv' as) \<le> bucket_level (sv_account_limiter sv') (finishes a) k
      + refill_per_sec (sv_account_limiter sv') * (tn - finishes a)"
    using d Cons.prems a by (intro Cons.IH) (auto simp: drawn_def)
  with d step show ?case by (auto simp: drawn_def algebra_simps)
qed


section \<open>Uploads\<close>

text \<open>
  The course of a server as far as attachments are concerned, with a clock that does not go
  back: uploads, and whatever else happens in between.
\<close>

inductive upload_run :: "timestamp \<Rightarrow> server \<Rightarrow> bool" where
  start: "st_attachments (sv_store sv) = [] \<Longrightarrow> upload_run t sv"
| upload: "upload_run t sv \<Longrightarrow> t \<le> env_now e 0 \<Longrightarrow> env_now e 0 \<le> env_now e 1 \<Longrightarrow>
    upload_attachment e w sv who i name bytes = (r, sv') \<Longrightarrow> upload_run (env_now e 1) sv'"
| elsewhere: "upload_run t sv \<Longrightarrow> t \<le> t' \<Longrightarrow> st_attachments (sv_store sv') = st_attachments (sv_store sv) \<Longrightarrow>
    upload_run t' sv'"

definition uploaded_between :: "store \<Rightarrow> user_id \<Rightarrow> timestamp \<Rightarrow> timestamp \<Rightarrow> nat" where
  "uploaded_between st u t t' =
     sum_list (map (at_size \<circ> fst)
       (filter (\<lambda>a. at_uploader (fst a) = u \<and> t \<le> at_created_at (fst a) \<and> at_created_at (fst a) \<le> t') (st_attachments st)))"

definition safe_name_char :: "uchar \<Rightarrow> bool" where
  "safe_name_char c \<longleftrightarrow> \<not> is_control c \<and> c \<noteq> 34 \<and> c \<noteq> 92 \<and> c \<noteq> 47"

definition sniffed :: "nat list \<Rightarrow> ustring" where
  "sniffed bytes = (case sniff_image bytes of Some m \<Rightarrow> m | None \<Rightarrow> lit ''application/octet-stream'')"

definition row_ok :: "attachment \<times> nat list \<Rightarrow> bool" where
  "row_ok a \<longleftrightarrow> at_size (fst a) = length (snd a) \<and> length (snd a) \<le> MAX_ATTACHMENT_BYTES
     \<and> at_mime (fst a) = sniffed (snd a)
     \<and> at_name (fst a) \<noteq> [] \<and> length (at_name (fst a)) \<le> 120 \<and> list_all safe_name_char (at_name (fst a))"

lemma set_trim_matches: "set (trim_matches f s) \<subseteq> set s"
  by (auto simp: trim_matches_def trim_end_matches_def trim_start_matches_def dest!: set_dropWhileD)

lemma length_trim_matches: "length (trim_matches f s) \<le> length s"
  using length_dropWhile_le [of f s] length_dropWhile_le [of f "rev (dropWhile f s)"]
  by (simp add: trim_matches_def trim_end_matches_def trim_start_matches_def)

lemma clean_filename_safe:
  "clean_filename raw \<noteq> []" "length (clean_filename raw) \<le> 120" "list_all safe_name_char (clean_filename raw)"
proof -
  let ?base = "filter (\<lambda>c. \<not> is_control c \<and> c \<noteq> 34 \<and> c \<noteq> 92) (after_last_slash raw)"
  let ?t = "trim (trim_matches (\<lambda>c. c = 46) (trim (take 120 ?base)))"
  have sub: "set ?t \<subseteq> set ?base"
    using set_trim_matches set_take_subset unfolding trim_def by (meson subset_trans)
  have "length ?t \<le> length (take 120 ?base)"
    using length_trim_matches unfolding trim_def by (meson order_trans)
  then have len: "length ?t \<le> 120" by simp
  have "47 \<notin> set (after_last_slash raw)" by (auto simp: after_last_slash_def dest: set_takeWhileD)
  then have "list_all safe_name_char ?t" using sub by (auto simp: list_all_iff safe_name_char_def)
  with len show "clean_filename raw \<noteq> []" "length (clean_filename raw) \<le> 120" "list_all safe_name_char (clean_filename raw)"
    by (auto simp: clean_filename_def Let_def lit_def safe_name_char_def is_control_def)
qed

lemma upload_cases:
  assumes "upload_attachment e w sv who i name bytes = (r, sv')"
  obtains (same) "sv' = sv"
  | (stored) a where "sv' = sv\<lparr>sv_store := (sv_store sv)\<lparr>st_attachments := st_attachments (sv_store sv) @ [(a, bytes)]\<rparr>\<rparr>"
      "row_ok (a, bytes)" "at_uploader a = user_id (identity_user who)" "at_created_at a = env_now e 1"
      "wrapping_add (uploaded_since (sv_store sv) (at_uploader a) (env_now e 0 - UPLOAD_QUOTA_WINDOW_MS)) (at_size a)
         \<le> UPLOAD_QUOTA_BYTES"
      "db_is_wavelet_participant (sv_store sv) (at_uploader a) (at_wavelet_id a)" "rs_status r = 201"
proof (cases "sv' = sv")
  case True
  then show ?thesis by (rule same)
next
  case False
  let ?u = "user_id (identity_user who)" and ?mime = "case sniff_image bytes of Some m \<Rightarrow> m | None \<Rightarrow> lit ''application/octet-stream''"
  let ?quota = "\<lparr>uq_bytes = UPLOAD_QUOTA_BYTES, uq_since = env_now e 0 - UPLOAD_QUOTA_WINDOW_MS\<rparr>"
  let ?new = "\<lparr>at_id = attachment_id_new (env_uuid e 0), at_wavelet_id = i, at_name = clean_filename name, at_mime = ?mime,
    at_size = length bytes, at_uploader = ?u, at_created_at = env_now e 1\<rparr>"
  have len: "length bytes \<le> MAX_ATTACHMENT_BYTES" and part: "db_is_wavelet_participant (sv_store sv) ?u i"
    using assms False by (auto simp: upload_attachment_def Let_def split: if_splits)
  obtain a st where db: "db_create_attachment (env_now e 1) (env_uuid e 0) (sv_store sv) i ?u (clean_filename name) ?mime bytes ?quota
      = Ok (Some a, st)" and sv': "sv' = sv\<lparr>sv_store := st\<rparr>" and r: "rs_status r = 201"
    using assms False by (auto simp: upload_attachment_def Let_def plain_response_def split: if_splits sum.splits option.splits)
  have a: "a = ?new" "st = (sv_store sv)\<lparr>st_attachments := st_attachments (sv_store sv) @ [(a, bytes)]\<rparr>"
    and q: "wrapping_add (uploaded_since (sv_store sv) ?u (env_now e 0 - UPLOAD_QUOTA_WINDOW_MS)) (length bytes) \<le> UPLOAD_QUOTA_BYTES"
    using db by (auto simp: db_create_attachment_def Let_def split: if_splits)
  show ?thesis
  proof (rule stored [of a])
    show "row_ok (a, bytes)" using len clean_filename_safe [of name] by (simp add: row_ok_def a(1) sniffed_def)
  qed (use q part r in \<open>simp_all add: sv' a(2), simp_all add: a(1)\<close>)
qed

text \<open>Every day, however it is placed, is within the quota; and no attachment is from the future.\<close>

definition quota_ok :: "timestamp \<Rightarrow> store \<Rightarrow> bool" where
  "quota_ok t st \<longleftrightarrow> (\<forall>a \<in> set (st_attachments st). at_created_at (fst a) \<le> t \<and> row_ok a)
     \<and> (\<forall>u s. uploaded_between st u s (s + UPLOAD_QUOTA_WINDOW_MS) \<le> UPLOAD_QUOTA_BYTES)"

lemma quota_ok_cong: "st_attachments st' = st_attachments st \<Longrightarrow> quota_ok t st \<Longrightarrow> t \<le> t' \<Longrightarrow> quota_ok t' st'"
  by (auto simp: quota_ok_def uploaded_between_def)

lemma sum_list_filter_mono:
  fixes f :: "'a \<Rightarrow> nat"
  assumes "\<And>x. x \<in> set xs \<Longrightarrow> P x \<Longrightarrow> Q x"
  shows "sum_list (map f (filter P xs)) \<le> sum_list (map f (filter Q xs))"
  using assms by (induction xs) (auto simp: trans_le_add2)

lemma quota_ok_upload:
  assumes "quota_ok t (sv_store sv)" "t \<le> env_now e 0" "env_now e 0 \<le> env_now e 1"
    "upload_attachment e w sv who i name bytes = (r, sv')"
  shows "quota_ok (env_now e 1) (sv_store sv')"
  using assms(4)
proof (cases rule: upload_cases)
  case same
  have "t \<le> env_now e 1" using assms(2,3) by (rule order_trans)
  with quota_ok_cong [OF refl assms(1)] same show ?thesis by simp
next
  case (stored a)
  let ?st = "sv_store sv" and ?W = UPLOAD_QUOTA_WINDOW_MS and ?since = "env_now e 0 - UPLOAD_QUOTA_WINDOW_MS"
  have old: "\<forall>x \<in> set (st_attachments ?st). at_created_at (fst x) \<le> t \<and> row_ok x"
    and win: "\<And>u s. uploaded_between ?st u s (s + ?W) \<le> UPLOAD_QUOTA_BYTES" using assms(1) by (auto simp: quota_ok_def)
  have "uploaded_since ?st (at_uploader a) ?since \<le> uploaded_between ?st (at_uploader a) ?since (?since + ?W)"
    unfolding uploaded_since_def uploaded_between_def using old assms(2) by (intro sum_list_filter_mono) force
  then have used: "uploaded_since ?st (at_uploader a) ?since \<le> UPLOAD_QUOTA_BYTES" using win order_trans by blast
  have "at_size a \<le> MAX_ATTACHMENT_BYTES" using stored(2) by (simp add: row_ok_def)
  with used have total: "uploaded_since ?st (at_uploader a) ?since + at_size a \<le> UPLOAD_QUOTA_BYTES"
    using stored(5) by (simp add: wrapping_add_def UPLOAD_QUOTA_BYTES_def MAX_ATTACHMENT_BYTES_def usize_max_def)
  have "uploaded_between (sv_store sv') u s (s + ?W) \<le> UPLOAD_QUOTA_BYTES" for u s
  proof (cases "at_uploader a = u \<and> s \<le> env_now e 1 \<and> env_now e 1 \<le> s + ?W")
    case False
    then have "uploaded_between (sv_store sv') u s (s + ?W) = uploaded_between ?st u s (s + ?W)"
      using stored(1,4) by (auto simp: uploaded_between_def)
    with win show ?thesis by simp
  next
    case True
    have "uploaded_between ?st u s (s + ?W) \<le> uploaded_since ?st u ?since"
      unfolding uploaded_since_def uploaded_between_def using True assms(3) by (intro sum_list_filter_mono) auto
    with total True stored(1,4) show ?thesis by (simp add: uploaded_between_def)
  qed
  moreover have "\<forall>x \<in> set (st_attachments (sv_store sv')). at_created_at (fst x) \<le> env_now e 1 \<and> row_ok x"
    using old assms(2,3) stored(1,2,4) by fastforce
  ultimately show ?thesis by (simp add: quota_ok_def)
qed

lemma upload_run_quota: "upload_run t sv \<Longrightarrow> quota_ok t (sv_store sv)"
proof (induction rule: upload_run.induct)
  case (start sv t)
  then show ?case by (simp add: quota_ok_def uploaded_between_def)
next
  case (upload t sv e w who i name bytes r sv')
  from quota_ok_upload [OF upload(5,2,3,4)] show ?case .
next
  case (elsewhere t sv t' sv')
  from quota_ok_cong [OF elsewhere(3,4,2)] show ?case .
qed

text \<open>
  (C25) The daily allowance holds. Whatever is uploaded and whatever else happens, in every
  period of 24 hours the attachments stored for one account amount to at most 200 MB, and
  each of them to at most 10 MB.
\<close>

theorem upload_quota_holds:
  assumes "upload_run t sv"
  shows "uploaded_between (sv_store sv) u s (s + UPLOAD_QUOTA_WINDOW_MS) \<le> 200 * 1024 * 1024
    \<and> (\<forall>a \<in> set (st_attachments (sv_store sv)). at_size (fst a) = length (snd a) \<and> length (snd a) \<le> 10 * 1024 * 1024)"
  using upload_run_quota [OF assms]
  by (auto simp: quota_ok_def row_ok_def UPLOAD_QUOTA_BYTES_def MAX_ATTACHMENT_BYTES_def)

section \<open>Downloads\<close>

lemma sniffed_types: "sniffed bytes \<in> lit ` {''image/png'', ''image/jpeg'', ''image/gif'', ''image/webp'', ''application/octet-stream''}"
  by (auto simp: sniffed_def sniff_image_def Let_def split: option.splits if_splits)

lemma sniffed_image: "starts_with (sniffed bytes) (lit ''image/'') \<longleftrightarrow> sniff_image bytes \<noteq> None"
  by (auto simp: sniffed_def sniff_image_def Let_def starts_with_def lit_def split: option.splits if_splits)

text \<open>
  (C26) A download is what it is. A file is served only to somebody in the wavelet it was
  uploaded into; its content type is one of five and read off its own bytes, so nothing that is
  not an image is ever served as anything but an opaque download; and the name in the
  disposition header holds no quote, backslash, slash or control character, so it cannot end
  the header early. The hypothesis on headers is what the HTTP library documents: visible ASCII
  is a legal value.
\<close>

theorem download_safe:
  assumes "upload_run t sv" "rs_status (get_attachment e w sv who i) = 200"
    and header: "\<And>v. (\<forall>c \<in> set v. 32 \<le> c \<and> c < 127) \<Longrightarrow> wb_header_value w v"
  shows "\<exists>a bytes. (a, bytes) \<in> set (st_attachments (sv_store sv)) \<and> at_id a = i
    \<and> rs_body (get_attachment e w sv who i) = BytesBody bytes
    \<and> db_is_wavelet_participant (sv_store sv) (user_id (identity_user who)) (at_wavelet_id a)
    \<and> map_of (rs_headers (get_attachment e w sv who i)) (lit ''content-type'') = Some (sniffed bytes)
    \<and> sniffed bytes \<in> lit ` {''image/png'', ''image/jpeg'', ''image/gif'', ''image/webp'', ''application/octet-stream''}
    \<and> (\<forall>v. map_of (rs_headers (get_attachment e w sv who i)) (lit ''content-disposition'') = Some v \<longrightarrow>
          (\<exists>rest. v = (if sniff_image bytes = None then lit ''attachment'' else lit ''inline'')
              @ lit ''; filename='' @ [34] @ at_name a @ [34] @ rest) \<and> list_all safe_name_char (at_name a))"
proof -
  obtain a bytes where f: "env_read e" "db_attachment_for (sv_store sv) (user_id (identity_user who)) i = Some (a, bytes)"
    using assms(2) by (auto simp: get_attachment_def response_defs split: if_splits option.splits)
  have row: "(a, bytes) \<in> set (st_attachments (sv_store sv))" "at_id a = i"
    "db_is_wavelet_participant (sv_store sv) (user_id (identity_user who)) (at_wavelet_id a)"
    using find_SomeD [OF f(2) [unfolded db_attachment_for_def]] by simp_all
  have ok: "row_ok (a, bytes)" using upload_run_quota [OF assms(1)] row(1) by (auto simp: quota_ok_def)
  then have mime: "at_mime a = sniffed bytes" and name: "list_all safe_name_char (at_name a)" by (auto simp: row_ok_def)
  have "wb_header_value w (sniffed bytes)"
    using sniffed_types [of bytes] by (intro header) (auto simp: lit_def)
  then have type: "map_of (rs_headers (get_attachment e w sv who i)) (lit ''content-type'') = Some (sniffed bytes)"
    using f mime by (simp add: get_attachment_def header_if_def)
  have "\<exists>rest. v = (if sniff_image bytes = None then lit ''attachment'' else lit ''inline'')
      @ lit ''; filename='' @ [34] @ at_name a @ [34] @ rest"
    if "map_of (rs_headers (get_attachment e w sv who i)) (lit ''content-disposition'') = Some v" for v
  proof -
    have "v = content_disposition a"
      using that f by (auto simp: get_attachment_def header_if_def lit_def split: if_splits)
    then show ?thesis using sniffed_image [of bytes] mime by (auto simp: content_disposition_def is_image_def)
  qed
  with row type name sniffed_types f show ?thesis
    by (intro exI [of _ a] exI [of _ bytes]) (simp add: get_attachment_def)
qed

section \<open>A sample deployment\<close>

text \<open>A server with one account, whose password is \<open>secret\<close>; hashing appends a mark.\<close>

definition sample_web :: web where
  "sample_web = \<lparr>wb_config = config_default, wb_sha256 = (\<lambda>bs. 35 # bs), wb_base64 = (\<lambda>bs. bs),
     wb_random = (\<lambda>n. [97 + n]), wb_hash_password = (\<lambda>p. Some (33 # p)),
     wb_argon2_parse = (\<lambda>h. case h of c # p \<Rightarrow> if c = 33 then Some p else None | [] \<Rightarrow> None),
     wb_argon2_verify = (\<lambda>bs p. bs = as_bytes p), wb_header_value = (\<lambda>v. list_all (\<lambda>c. 32 \<le> c \<and> c < 127) v),
     wb_work = True, wb_commit = (\<lambda>_. True), wb_instant = of_nat\<rparr>"

definition sample_account :: user where
  "sample_account = \<lparr>user_id = UserId [117], user_name = lit ''ann'', user_display_name = lit ''Ann'', user_email = [],
     user_password_hash = 33 # lit ''secret'', user_color = 0, user_created_at = 0\<rparr>"

definition web_env :: env where
  "web_env = \<lparr>env_now = of_nat, env_uuid = (\<lambda>n. [48 + n]), env_load = (\<lambda>_. True), env_read = True, env_write = True,
     env_lowercase = to_ascii_lowercase, env_json_len = (\<lambda>_. Some 0), env_alnum = is_ascii_alphanumeric,
     env_pick = last, env_fts = (\<lambda>_ rows. rows)\<rparr>"

definition sample_accounts :: store where
  "sample_accounts = \<lparr>st_users = [sample_account], st_waves = [], st_wavelets = [],
     st_participants = [(WaveletId [119], UserId [117], 0)], st_blips = [], st_ops = [], st_comments = [],
     st_read_marks = [], st_flags = [], st_search = [],
     st_sessions = [\<lparr>se_token_hash = lit ''phone'', se_user_id = UserId [117], se_created_at = 0, se_expires_at = 100\<rparr>],
     st_identities = [], st_agent_tokens = [], st_agent_replies = [], st_attachments = []\<rparr>"

definition sample_deployment :: server where
  "sample_deployment = app_new 0 sample_accounts
     (\<lambda>_. load_wave sample_accounts (WaveId []) \<lparr>w_id = WaveId [], w_creator = UserId [], w_created_at = 0, w_mode = Document\<rparr>)
     (\<lambda>_. \<lparr>ch_queue = [], ch_closed = False, ch_killed = False\<rparr>)"

definition sample_request :: request where
  "sample_request = \<lparr>rq_cookie = None, rq_forwarded = None, rq_authorization = None, rq_peer = None\<rparr>"

definition sample_identity :: identity where
  "sample_identity = \<lparr>identity_user = sample_account, identity_token_hash = lit ''laptop''\<rparr>"

lemmas limiter_eval = limiter_check_def would_allow_def check_cost_def limiter_take_def limiter_cleanup_def limiter_new_def
  duration_since_def

lemma sample_allowed:
  obtains sv where "\<And>k. auth_limited sample_web sample_deployment sample_request k = k sv" "sv_store sv = sample_accounts"
    "sv_account_limiter sv = limiter_new 0 10 (1 / 120)" "auth_allowed sample_web sample_deployment sample_request"
proof -
  obtain b sv where c: "check_auth_rate sample_deployment (wb_instant sample_web 0) (rq_peer sample_request)
      (rq_forwarded sample_request) (cf_trust_forwarded_for (wb_config sample_web)) = (b, sv)" by fastforce
  have "fst (limiter_check (limiter_new 0 10 (1 / 2)) t key)" for t key by (simp add: limiter_eval Let_def)
  then have "fst (check_auth_rate sample_deployment t peer fwd trust)" for t peer fwd trust
    by (simp add: check_auth_rate_def sample_deployment_def app_new_def Let_def case_prod_beta')
  then have "b" using c by (metis fst_conv)
  moreover have "sv_store sample_deployment = sample_accounts" "sv_account_limiter sample_deployment = limiter_new 0 10 (1 / 120)"
    by (simp_all add: sample_deployment_def app_new_def)
  ultimately show thesis
    using that [of sv] c rate_check_frame [OF c] by (simp add: auth_limited_def auth_allowed_def)
qed

theorem password_change_locks_out_witness:
  "\<exists>r sv'. change_password web_env sample_web sample_deployment sample_request sample_identity (lit ''secret'')
       (lit ''correct horse battery'') = (r, sv') \<and> rs_status r = 200
     \<and> db_user_for_session 1 (sv_store sample_deployment) (lit ''phone'') = Some sample_account
     \<and> \<not> (\<exists>x. db_user_for_session 1 (sv_store sv') (lit ''phone'') = Some x \<and> user_id x = UserId [117])"
proof -
  let ?c = "change_password web_env sample_web sample_deployment sample_request sample_identity (lit ''secret'')
     (lit ''correct horse battery'')"
  obtain r sv' where c: "?c = (r, sv')" by fastforce
  have "validate_password (env_lowercase web_env) (lit ''correct horse battery'')
      (Some (user_name (identity_user sample_identity))) = Ok ()"
    "password_matches sample_web (lit ''secret'') (user_password_hash (identity_user sample_identity))"
    "wb_work sample_web" "wb_hash_password sample_web (lit ''correct horse battery'') \<noteq> None" "wb_commit sample_web 0"
    by code_simp+
  note eval = this
  have "rs_status (fst ?c) = 200"
  proof (rule sample_allowed)
    fix sv assume "\<And>k. auth_limited sample_web sample_deployment sample_request k = k sv"
    with eval show ?thesis by (auto simp: change_password_def plain_response_def Let_def)
  qed
  then have s: "rs_status r = 200" by (simp add: c)
  have "lit ''phone'' \<noteq> identity_token_hash sample_identity" "user_id (identity_user sample_identity) = UserId [117]"
    "db_user_for_session 1 sample_accounts (lit ''phone'') = Some sample_account" by code_simp+
  moreover have "sv_store sample_deployment = sample_accounts" by (simp add: sample_deployment_def app_new_def)
  moreover note password_change_locks_out [OF c s, THEN conjunct2, THEN conjunct1, rule_format, of "lit ''phone''" 1]
  ultimately have "\<not> (\<exists>x. db_user_for_session 1 (sv_store sv') (lit ''phone'') = Some x \<and> user_id x = UserId [117])"
    "db_user_for_session 1 (sv_store sample_deployment) (lit ''phone'') = Some sample_account" by auto
  with c s show ?thesis by blast
qed

lemma sample_unthrottled:
  "\<exists>rl rl'. would_allow (limiter_new 0 10 (1 / 120)) 1 key = (True, rl) \<and> would_allow rl 2 key = (True, rl')"
proof -
  obtain g rl where g: "limiter_take (limiter_new 0 10 (1 / 120)) 1 key 1 False = (g, rl)" by fastforce
  obtain g' rl' where g': "limiter_take rl 2 key 1 False = (g', rl')" by fastforce
  have ok: "limiter_ok (limiter_new 0 10 (1 / 120)) 0" by (rule limiter_new_ok) simp_all
  have full: "bucket_level (limiter_new 0 10 (1 / 120)) 1 key = 10" by (simp add: bucket_level_def limiter_new_def)
  note l = take_ok_level [OF ok zero_le_one zero_le_one g]
  have "10 \<le> bucket_level rl 2 key" using level_mono [OF l(1), of 1 2 key] l(4) full by simp
  then have "g" "g'" using take_granted [OF ok g] take_granted [OF l(1) g'] full by simp_all
  with g g' show ?thesis by (auto simp: would_allow_def)
qed

lemma sample_login:
  "login_checked web_env sample_web sample_deployment sample_request (lit ''ann'')"
  "rs_status (fst (login web_env sample_web sample_deployment sample_request (lit ''ann'') (lit ''secret''))) = 200"
  "fst (login web_env sample_web sample_deployment sample_request (lit ''ann'') (lit ''guess'')) = wrong_password"
proof -
  let ?lower = "env_lowercase web_env" and ?key = "account_key (env_lowercase web_env) (lit ''ann'')"
  obtain rl rl' where rl: "would_allow (limiter_new 0 10 (1 / 120)) 1 ?key = (True, rl)" "would_allow rl 2 ?key = (True, rl')"
    using sample_unthrottled by blast
  have clock: "wb_instant sample_web 1 = 1" "wb_instant sample_web 2 = 2" "wb_work sample_web" "env_read web_env"
    by (simp_all add: sample_web_def web_env_def)
  obtain sv where sv: "\<And>k. auth_limited sample_web sample_deployment sample_request k = k sv" "sv_store sv = sample_accounts"
    "sv_account_limiter sv = limiter_new 0 10 (1 / 120)" "auth_allowed sample_web sample_deployment sample_request"
    by (rule sample_allowed) blast
  have "sv_account_limiter sample_deployment = limiter_new 0 10 (1 / 120)" by (simp add: sample_deployment_def app_new_def)
  with rl clock sv(4) show "login_checked web_env sample_web sample_deployment sample_request (lit ''ann'')"
    by (simp add: login_checked_def)
  have throttle: "account_is_throttled ?lower sv 1 (lit ''ann'') = (False, sv\<lparr>sv_account_limiter := rl\<rparr>)"
    "account_is_throttled ?lower (sv\<lparr>sv_account_limiter := rl\<rparr>) 2 (lit ''ann'') = (False, sv\<lparr>sv_account_limiter := rl'\<rparr>)"
    using rl sv(3) by (simp_all add: account_is_throttled_def)
  have known: "db_user_by_name ?lower sample_accounts (trim (lit ''ann'')) = Some sample_account"
    "password_matches sample_web (lit ''secret'') (user_password_hash sample_account)"
    "\<not> password_matches sample_web (lit ''guess'') (user_password_hash sample_account)"
    "\<not> list_ex (\<lambda>s. se_token_hash s = token_digest sample_web (fresh_token sample_web 0)) (st_sessions sample_accounts)"
    "wb_commit sample_web 1"
    by code_simp+
  with sv(1,2) throttle clock
  show "fst (login web_env sample_web sample_deployment sample_request (lit ''ann'') (lit ''guess'')) = wrong_password"
    "rs_status (fst (login web_env sample_web sample_deployment sample_request (lit ''ann'') (lit ''secret''))) = 200"
    by (simp_all add: login_def issue_session_def db_create_session_def Let_def)
qed


definition sample_attempt :: attempt where
  "sample_attempt = \<lparr>ap_env = web_env, ap_web = sample_web, ap_request = sample_request, ap_name = lit ''ann'',
     ap_password = lit ''guess''\<rparr>"


definition sample_upload :: "response \<times> server" where
  "sample_upload = upload_attachment web_env sample_web sample_deployment sample_identity (WaveletId [119])
     (lit ''../cat.gif'') (lit ''GIF89a'')"

lemma sample_upload_run: "upload_run 1 (snd sample_upload)"
proof -
  have start: "upload_run 0 sample_deployment"
    by (rule upload_run.start) (simp add: sample_deployment_def app_new_def sample_accounts_def)
  obtain r sv' where u: "sample_upload = (r, sv')" by fastforce
  have "upload_run (env_now web_env 1) sv'"
    by (rule upload_run.upload [OF start _ _ u [unfolded sample_upload_def]]) (simp_all add: web_env_def)
  then show ?thesis by (simp add: u web_env_def)
qed

theorem upload_quota_holds_witness:
  "length (st_attachments (sv_store (snd sample_upload))) = 1
   \<and> uploaded_between (sv_store (snd sample_upload)) (UserId [117]) 0 (0 + UPLOAD_QUOTA_WINDOW_MS) \<le> 200 * 1024 * 1024"
proof -
  have "length (st_attachments (sv_store (snd sample_upload))) = 1" by code_simp
  with upload_quota_holds [OF sample_upload_run] show ?thesis by blast
qed

theorem download_safe_witness:
  "map_of (rs_headers (get_attachment web_env sample_web (snd sample_upload) sample_identity (attachment_id_new [48])))
     (lit ''content-type'') = Some (lit ''image/gif'')
   \<and> (\<exists>a bytes. (a, bytes) \<in> set (st_attachments (sv_store (snd sample_upload))) \<and> list_all safe_name_char (at_name a))"
proof -
  let ?r = "get_attachment web_env sample_web (snd sample_upload) sample_identity (attachment_id_new [48])"
  have ok: "rs_status ?r = 200" by code_simp
  have "\<And>v. \<forall>c \<in> set v. 32 \<le> c \<and> c < 127 \<Longrightarrow> wb_header_value sample_web v"
    by (simp add: sample_web_def list_all_iff)
  from download_safe [OF sample_upload_run ok this] obtain a bytes where
    "(a, bytes) \<in> set (st_attachments (sv_store (snd sample_upload)))"
    "\<forall>v. map_of (rs_headers ?r) (lit ''content-disposition'') = Some v \<longrightarrow> list_all safe_name_char (at_name a)" by blast
  moreover have "map_of (rs_headers ?r) (lit ''content-disposition'') \<noteq> None"
    "map_of (rs_headers ?r) (lit ''content-type'') = Some (lit ''image/gif'')" by code_simp+
  ultimately show ?thesis by blast
qed

end
