(* ===== verification/Gal_Oidc.thy ===== *)
theory Gal_Oidc
  imports Gal_Access
begin

text \<open>
  Signing in through an external provider, \<open>crates/gal-server/src/oidc.rs\<close>: the flows in flight
  with their cap and expiry, the redirect to the provider, and the callback that turns a code
  into a session. What the provider answers over HTTP is an argument, the record \<open>provider\<close>;
  the flows and the cached discovery document are a state of their own beside the server's.
\<close>

section \<open>Flows\<close>

definition FLOW_COOKIE :: ustring where
  "FLOW_COOKIE = lit ''gal_oauth''"

definition FLOW_TTL :: rat where
  "FLOW_TTL = 10 * 60"

definition MAX_FLOWS :: nat where
  "MAX_FLOWS = 4096"

definition DISCOVERY_TTL :: rat where
  "DISCOVERY_TTL = 60 * 60"

record pending =
  pe_state :: ustring
  pe_verifier :: ustring
  pe_started :: rat

record endpoints =
  ep_issuer :: ustring
  ep_authorization :: ustring
  ep_token :: ustring
  ep_userinfo :: ustring

record user_info =
  ui_sub :: ustring
  ui_preferred_username :: "ustring option"
  ui_name :: "ustring option"

text \<open>\<open>None\<close> is an answer that did not arrive, was not a success or could not be decoded.\<close>

record provider =
  pv_discover :: "ustring \<Rightarrow> endpoints option"
  pv_token :: "ustring \<Rightarrow> ustring \<Rightarrow> ustring \<Rightarrow> ustring \<Rightarrow> ustring option"
  pv_userinfo :: "ustring \<Rightarrow> ustring \<Rightarrow> user_info option"

record oidc =
  od_config :: oidc_config
  od_discovery :: "(endpoints \<times> rat) option"
  od_flows :: "(ustring \<times> pending) list"

definition oidc_new :: "oidc_config \<Rightarrow> oidc" where
  "oidc_new c = \<lparr>od_config = c, od_discovery = None, od_flows = []\<rparr>"

definition oidc_endpoints :: "provider \<Rightarrow> rat \<Rightarrow> oidc \<Rightarrow> endpoints option \<times> oidc" where
  "oidc_endpoints pv t od =
     (case (case od_discovery od of
              Some (cached, at) \<Rightarrow> if duration_since t at < DISCOVERY_TTL then Some cached else None
            | None \<Rightarrow> None) of
        Some cached \<Rightarrow> (Some cached, od)
      | None \<Rightarrow>
          (case pv_discover pv (oc_issuer (od_config od) @ lit ''/.well-known/openid-configuration'') of
             None \<Rightarrow> (None, od)
           | Some found \<Rightarrow>
               if trim_end_matches (\<lambda>c. c = 47) (ep_issuer found) \<noteq> oc_issuer (od_config od) then (None, od)
               else (Some found, od\<lparr>od_discovery := Some (found, t)\<rparr>)))"

text \<open>The key of the flow that was started first; of several, the first in the map.\<close>

fun oldest_flow :: "(ustring \<times> pending) list \<Rightarrow> ustring option" where
  "oldest_flow [] = None"
| "oldest_flow ((k, f) # fs) =
     (if list_all (\<lambda>(_, g). pe_started f \<le> pe_started g) fs then Some k else oldest_flow fs)"

definition flow_begin :: "web \<Rightarrow> rat \<Rightarrow> ustring \<Rightarrow> oidc \<Rightarrow> ustring \<Rightarrow> ustring \<Rightarrow> oidc" where
  "flow_begin w t secret od flow_state verifier =
     (let flows = filter (\<lambda>(_, f). duration_since t (pe_started f) < FLOW_TTL) (od_flows od);
          flows = (if length flows \<ge> MAX_FLOWS
                   then (case oldest_flow flows of Some k \<Rightarrow> AList.delete k flows | None \<Rightarrow> flows)
                   else flows)
      in od\<lparr>od_flows := AList.update (token_digest w secret)
             \<lparr>pe_state = flow_state, pe_verifier = verifier, pe_started = t\<rparr> flows\<rparr>)"

definition flow_take :: "web \<Rightarrow> rat \<Rightarrow> oidc \<Rightarrow> ustring \<Rightarrow> pending option \<times> oidc" where
  "flow_take w t od secret =
     (case map_of (od_flows od) (token_digest w secret) of
        None \<Rightarrow> (None, od)
      | Some f \<Rightarrow>
          (if duration_since t (pe_started f) < FLOW_TTL then Some f else None,
           od\<lparr>od_flows := AList.delete (token_digest w secret) (od_flows od)\<rparr>))"

section \<open>Text\<close>

definition flow_cookie :: "ustring \<Rightarrow> bool \<Rightarrow> ustring" where
  "flow_cookie secret secure =
     FLOW_COOKIE @ lit ''='' @ secret @ lit ''; Path=/api/oauth; HttpOnly; SameSite=Lax; Max-Age='' @ show_digits 600
       @ (if secure then lit ''; Secure'' else [])"

definition clear_flow_cookie :: "bool \<Rightarrow> ustring" where
  "clear_flow_cookie secure =
     FLOW_COOKIE @ lit ''=; Path=/api/oauth; HttpOnly; SameSite=Lax; Max-Age=0''
       @ (if secure then lit ''; Secure'' else [])"

text \<open>The function \<open>cookie_value\<close> of \<open>oidc.rs\<close>, which takes the name of the cookie.\<close>

definition named_cookie :: "ustring \<Rightarrow> ustring \<Rightarrow> ustring option" where
  "named_cookie header name =
     find_map (\<lambda>pair. case split_once 61 pair of
         Some (key, value) \<Rightarrow> if trim key = name then Some (trim value) else None
       | None \<Rightarrow> None) (split_char 59 header)"

definition urlencode :: "ustring \<Rightarrow> ustring" where
  "urlencode s = foldl (\<lambda>out b. if unreserved b then out @ [b] else out @ percent_byte b) [] (as_bytes s)"

definition form_urlencode :: "(ustring \<times> ustring) list \<Rightarrow> ustring" where
  "form_urlencode pairs = join_with (lit ''&'') (map (\<lambda>(k, v). urlencode k @ lit ''='' @ urlencode v) pairs)"

definition redirect_with_cookies :: "web \<Rightarrow> ustring \<Rightarrow> ustring list \<Rightarrow> response" where
  "redirect_with_cookies w target cookies =
     \<lparr>rs_status = 303,
      rs_headers = (lit ''location'', target) # concat (map (header_if w (lit ''set-cookie'')) cookies),
      rs_body = TextBody []\<rparr>"

section \<open>The endpoints\<close>

text \<open>Both endpoints ask the limiter without the address of the peer.\<close>

definition anonymous :: "request \<Rightarrow> request" where
  "anonymous rq = rq\<lparr>rq_peer := None\<rparr>"

definition sso_missing :: response where
  "sso_missing = http_not_found (lit ''Single sign-on is not configured.'')"

definition authorization_url :: "web \<Rightarrow> oidc_config \<Rightarrow> endpoints \<Rightarrow> ustring \<Rightarrow> ustring \<Rightarrow> ustring" where
  "authorization_url w c ep flow_state verifier =
     ep_authorization ep @ lit ''?response_type=code&client_id='' @ urlencode (oc_client_id c)
       @ lit ''&redirect_uri='' @ urlencode (oc_redirect_url c) @ lit ''&scope='' @ urlencode (oc_scopes c)
       @ lit ''&state='' @ urlencode flow_state
       @ lit ''&code_challenge='' @ urlencode (wb_base64 w (wb_sha256 w (as_bytes verifier)))
       @ lit ''&code_challenge_method=S256''"

definition oauth_start ::
  "web \<Rightarrow> provider \<Rightarrow> server \<Rightarrow> oidc option \<Rightarrow> request \<Rightarrow> response \<times> server \<times> oidc option" where
  "oauth_start w pv sv od rq =
     (case od of
        None \<Rightarrow> (sso_missing, sv, None)
      | Some od \<Rightarrow>
          let (allowed, sv) = check_auth_rate sv (wb_instant w 0) (rq_peer (anonymous rq)) (rq_forwarded rq)
                (cf_trust_forwarded_for (wb_config w))
          in if \<not> allowed then (over_rate (lit ''Too many attempts. Wait a moment and try again.''), sv, Some od)
             else (case oidc_endpoints pv (wb_instant w 1) od of
                     (None, od) \<Rightarrow> (server_error, sv, Some od)
                   | (Some ep, od) \<Rightarrow>
                       let flow_state = fresh_token w 1; verifier = fresh_token w 2; secret = fresh_token w 3;
                           od = flow_begin w (wb_instant w 2) secret od flow_state verifier
                       in (redirect_with_cookies w (authorization_url w (od_config od) ep flow_state verifier)
                             [flow_cookie secret (cf_secure_cookies (wb_config w))], sv, Some od)))"

record callback_query =
  cq_code :: "ustring option"
  cq_state :: "ustring option"
  cq_error :: "ustring option"

definition oidc_exchange :: "provider \<Rightarrow> oidc \<Rightarrow> endpoints \<Rightarrow> ustring \<Rightarrow> ustring \<Rightarrow> user_info option" where
  "oidc_exchange pv od ep code verifier =
     (let c = od_config od;
          form = form_urlencode
            [(lit ''grant_type'', lit ''authorization_code''), (lit ''code'', code),
             (lit ''redirect_uri'', oc_redirect_url c), (lit ''client_id'', oc_client_id c),
             (lit ''code_verifier'', verifier)]
      in Option.bind (pv_token pv (ep_token ep) (oc_client_id c) (oc_client_secret c) form)
           (\<lambda>token. pv_userinfo pv (ep_userinfo ep) token))"

text \<open>
  The name an account starts from. \<open>name_from_external\<close> keeps ASCII characters only, so the
  truncation inside a character that would make it panic does not happen.
\<close>

definition external_name :: "env \<Rightarrow> ustring option \<Rightarrow> ustring option" where
  "external_name e raw =
     Option.bind raw (\<lambda>s. case name_from_external (env_lowercase e) s of Ok n \<Rightarrow> n | Err _ \<Rightarrow> None)"

definition name_hint :: "env \<Rightarrow> user_info \<Rightarrow> ustring" where
  "name_hint e claims =
     (case external_name e (ui_preferred_username claims) of
        Some n \<Rightarrow> n
      | None \<Rightarrow> (case external_name e (ui_name claims) of Some n \<Rightarrow> n | None \<Rightarrow> lit ''user''))"

definition display_hint :: "env \<Rightarrow> user_info \<Rightarrow> ustring" where
  "display_hint e claims =
     (case ui_name claims of
        Some n \<Rightarrow> if trim n \<noteq> [] \<and> length n \<le> 64 then n else name_hint e claims
      | None \<Rightarrow> name_hint e claims)"

fun oauth_user :: "oauth_login \<Rightarrow> user" where
  "oauth_user (OauthExisting u) = u"
| "oauth_user (OauthCreated u) = u"

text \<open>The last part of the callback: the provider has named a subject.\<close>

definition oauth_sign_in ::
  "env \<Rightarrow> web \<Rightarrow> server \<Rightarrow> endpoints \<Rightarrow> user_info \<Rightarrow> response \<times> server" where
  "oauth_sign_in e w sv ep claims =
     (if trim (ui_sub claims) = [] then (server_error, sv)
      else case (if wb_commit w 0
                 then db_user_for_oauth_identity (env_now e 0) (env_uuid e 0) (sv_store sv) (ep_issuer ep) (ui_sub claims)
                        (name_hint e claims) (display_hint e claims)
                 else Err Unavailable) of
        Err _ \<Rightarrow> (server_error, sv)
      | Ok (outcome, st) \<Rightarrow>
          let token = fresh_token w 0; sv = sv\<lparr>sv_store := st\<rparr>; secure = cf_secure_cookies (wb_config w)
          in case (if wb_commit w 1
                   then db_create_session (env_now e 1) (sv_store sv) (user_id (oauth_user outcome)) (token_digest w token)
                   else Err Unavailable) of
               Err _ \<Rightarrow> (server_error, sv)
             | Ok st \<Rightarrow>
                 (redirect_with_cookies w (lit ''/'')
                    [session_cookie token secure (SESSION_TTL_MS div 1000), clear_flow_cookie secure],
                  sv\<lparr>sv_store := st\<rparr>))"

definition not_started_here :: response where
  "not_started_here = bad_request (lit ''That sign-in did not start here.'')"

definition oauth_callback ::
  "env \<Rightarrow> web \<Rightarrow> provider \<Rightarrow> server \<Rightarrow> oidc option \<Rightarrow> request \<Rightarrow> callback_query \<Rightarrow>
   response \<times> server \<times> oidc option" where
  "oauth_callback e w pv sv od rq q =
     (case od of
        None \<Rightarrow> (sso_missing, sv, None)
      | Some od \<Rightarrow>
          let (allowed, sv) = check_auth_rate sv (wb_instant w 0) (rq_peer (anonymous rq)) (rq_forwarded rq)
                (cf_trust_forwarded_for (wb_config w))
          in if \<not> allowed then (over_rate (lit ''Too many attempts. Wait a moment and try again.''), sv, Some od)
             else if cq_error q \<noteq> None
             then (redirect_with_cookies w (lit ''/'') [clear_flow_cookie (cf_secure_cookies (wb_config w))], sv, Some od)
             else (case Option.bind (rq_cookie rq) (\<lambda>c. named_cookie c FLOW_COOKIE) of
               None \<Rightarrow> (not_started_here, sv, Some od)
             | Some cookie \<Rightarrow>
                 (case flow_take w (wb_instant w 1) od cookie of
                    (None, od) \<Rightarrow> (bad_request (lit ''That sign-in has expired. Please try again.''), sv, Some od)
                  | (Some flow, od) \<Rightarrow>
                      let returned = (case cq_state q of Some s \<Rightarrow> s | None \<Rightarrow> [])
                      in if \<not> constant_time_eq (digest_words w) (as_bytes returned) (as_bytes (pe_state flow))
                         then (not_started_here, sv, Some od)
                         else (case cq_code q of
                           None \<Rightarrow> (bad_request (lit ''The identity provider returned no code.''), sv, Some od)
                         | Some code \<Rightarrow>
                             (case oidc_endpoints pv (wb_instant w 2) od of
                                (None, od) \<Rightarrow> (server_error, sv, Some od)
                              | (Some ep, od) \<Rightarrow>
                                  (case oidc_exchange pv od ep code (pe_verifier flow) of
                                     None \<Rightarrow> (server_error, sv, Some od)
                                   | Some claims \<Rightarrow>
                                       let (r, sv) = oauth_sign_in e w sv ep claims in (r, sv, Some od)))))))"

section \<open>Flows are bounded and spent once\<close>

lemma oldest_flow_Some: "fs \<noteq> [] \<Longrightarrow> \<exists>k. oldest_flow fs = Some k \<and> k \<in> fst ` set fs"
proof (induction fs)
  case (Cons kf fs)
  obtain k f where kf: "kf = (k, f)" by fastforce
  show ?case
  proof (cases "list_all (\<lambda>(_, g). pe_started f \<le> pe_started g) fs")
    case False
    then have "fs \<noteq> []" by auto
    from Cons.IH [OF this] False show ?thesis by (auto simp: kf)
  qed (simp add: kf)
qed simp

lemma length_update_le: "length (AList.update k v xs) \<le> Suc (length xs)"
  by (induction xs) auto

lemma length_delete_less: "k \<in> fst ` set xs \<Longrightarrow> length (AList.delete k xs) < length xs"
  by (induction xs) (auto simp: AList.delete_eq intro: le_imp_less_Suc length_filter_le)

text \<open>However many sign-ins are started, no more than the cap are remembered.\<close>

lemma flow_begin_bounded:
  "length (od_flows od) \<le> MAX_FLOWS \<Longrightarrow> length (od_flows (flow_begin w t secret od fs v)) \<le> MAX_FLOWS"
proof -
  assume le: "length (od_flows od) \<le> MAX_FLOWS"
  let ?flows = "filter (\<lambda>(_, f). duration_since t (pe_started f) < FLOW_TTL) (od_flows od)"
  have fresh: "length ?flows \<le> MAX_FLOWS" using le length_filter_le order_trans by blast
  show ?thesis
  proof (cases "length ?flows \<ge> MAX_FLOWS")
    case True
    then have "?flows \<noteq> []" by (auto simp: MAX_FLOWS_def)
    from oldest_flow_Some [OF this] obtain k where k: "oldest_flow ?flows = Some k" "k \<in> fst ` set ?flows" by blast
    let ?new = "\<lparr>pe_state = fs, pe_verifier = v, pe_started = t\<rparr>"
    have "length (AList.update (token_digest w secret) ?new (AList.delete k ?flows)) \<le> MAX_FLOWS"
      using length_delete_less [OF k(2)] length_update_le [of "token_digest w secret" ?new "AList.delete k ?flows"] fresh by linarith
    then show ?thesis using True k(1) by (simp add: flow_begin_def Let_def)
  next
    case False
    then show ?thesis
      using length_update_le [of "token_digest w secret" "\<lparr>pe_state = fs, pe_verifier = v, pe_started = t\<rparr>" ?flows]
      by (simp add: flow_begin_def Let_def)
  qed
qed

lemma flow_take_spent:
  assumes "flow_take w t od c = (x, od')"
  shows "map_of (od_flows od') (token_digest w c) = None" "od_config od' = od_config od"
    "x = Some f \<Longrightarrow> map_of (od_flows od) (token_digest w c) = Some f \<and> duration_since t (pe_started f) < FLOW_TTL"
  using assms by (auto simp: flow_take_def delete_conv' split: option.splits if_splits)

lemma oidc_endpoints_flows: "oidc_endpoints pv t od = (x, od') \<Longrightarrow> od_flows od' = od_flows od \<and> od_config od' = od_config od"
  by (auto simp: oidc_endpoints_def split: option.splits if_splits prod.splits)

section \<open>Identities\<close>

lemma find_append_new: "\<forall>x \<in> set xs. \<not> P x \<Longrightarrow> P y \<Longrightarrow> find P (xs @ [y]) = Some y"
  by (induction xs) auto

text \<open>The identity is linked to the account that is returned, from then on.\<close>

lemma oauth_identity_linked:
  assumes "db_user_for_oauth_identity ts uuid st issuer subject hint display = Ok (outcome, st')"
  shows "identity_user_of st' issuer subject = Some (oauth_user outcome)"
proof (cases "identity_user_of st issuer subject")
  case (Some u)
  with assms show ?thesis by (auto simp: db_user_for_oauth_identity_def)
next
  case None
  then obtain name u st1 where u: "db_create_user ts uuid st name display [] (lit ''!'') = Ok (u, st1)"
    and i: "insert_identity st1 \<lparr>oi_issuer = issuer, oi_subject = subject, oi_user_id = user_id u, oi_created_at = user_created_at u\<rparr> = Ok st'"
    and out: "outcome = OauthCreated u"
    using assms by (auto simp: db_user_for_oauth_identity_def bind_result_Ok_iff split: option.splits)
  have new: "st1 = st\<lparr>st_users := st_users st @ [u]\<rparr>" "\<forall>x \<in> set (st_users st). user_id x \<noteq> user_id u"
    using u by (auto simp: db_create_user_def insert_user_def bind_result_Ok_iff Let_def list_ex_iff split: if_splits)
  have st': "st' = st1\<lparr>st_identities := st_identities st1 @ [\<lparr>oi_issuer = issuer, oi_subject = subject, oi_user_id = user_id u,
      oi_created_at = user_created_at u\<rparr>]\<rparr>"
    "\<forall>x \<in> set (st_identities st1). \<not> (oi_issuer x = issuer \<and> oi_subject x = subject)"
    using i by (auto simp: insert_identity_def list_ex_iff split: if_splits)
  have "find (\<lambda>i. oi_issuer i = issuer \<and> oi_subject i = subject) (st_identities st') =
      Some \<lparr>oi_issuer = issuer, oi_subject = subject, oi_user_id = user_id u, oi_created_at = user_created_at u\<rparr>"
    using find_append_new [OF st'(2)] by (simp add: st'(1))
  moreover have "user_by_id st' (user_id u) = Some u"
    using find_append_new [of "st_users st" "\<lambda>x. user_id x = user_id u" u] new(2) by (simp add: user_by_id_def st'(1) new(1))
  ultimately show ?thesis by (simp add: identity_user_of_def out)
qed

lemma create_session_frame:
  "db_create_session t st u h = Ok st' \<Longrightarrow> st_users st' = st_users st \<and> st_identities st' = st_identities st"
  by (auto simp: db_create_session_def split: if_splits)

lemma identity_frame:
  "st_users st' = st_users st \<Longrightarrow> st_identities st' = st_identities st \<Longrightarrow>
   identity_user_of st' issuer subject = identity_user_of st issuer subject"
  by (simp add: identity_user_of_def user_by_id_def)

lemma oauth_sign_in_linked:
  assumes "oauth_sign_in e w sv ep claims = (r, sv')" "sv_store sv' \<noteq> sv_store sv"
  obtains u where "identity_user_of (sv_store sv') (ep_issuer ep) (ui_sub claims) = Some u" "trim (ui_sub claims) \<noteq> []"
    "rs_status r = 303 \<Longrightarrow> \<exists>st. db_create_session (env_now e 1) st (user_id u) (token_digest w (fresh_token w 0)) = Ok (sv_store sv')
       \<and> st_users st = st_users (sv_store sv')"
proof -
  let ?idn = "db_user_for_oauth_identity (env_now e 0) (env_uuid e 0) (sv_store sv) (ep_issuer ep) (ui_sub claims)
    (name_hint e claims) (display_hint e claims)"
  obtain outcome st where o: "?idn = Ok (outcome, st)" "trim (ui_sub claims) \<noteq> []" "wb_commit w 0"
    using assms by (auto simp: oauth_sign_in_def split: if_splits sum.splits)
  note linked = oauth_identity_linked [OF o(1)]
  show thesis
  proof (cases "if wb_commit w 1 then db_create_session (env_now e 1) st (user_id (oauth_user outcome)) (token_digest w (fresh_token w 0))
      else Err Unavailable")
    case (Inl err)
    then have "r = server_error" "sv_store sv' = st" using assms(1) o Inl by (auto simp: oauth_sign_in_def Let_def cong: if_cong)
    with linked o(2) that [of "oauth_user outcome"] show ?thesis by (simp add: response_defs)
  next
    case (Inr st2)
    then have c: "db_create_session (env_now e 1) st (user_id (oauth_user outcome)) (token_digest w (fresh_token w 0)) = Ok st2"
      by (simp split: if_splits)
    have "sv_store sv' = st2" using assms(1) o Inr by (auto simp: oauth_sign_in_def Let_def cong: if_cong)
    with linked o(2) c that [of "oauth_user outcome"] create_session_frame [OF c] identity_frame [of st2 st] show ?thesis by auto
  qed
qed

section \<open>The callback\<close>

definition flow_cookie_of :: "request \<Rightarrow> ustring option" where
  "flow_cookie_of rq = Option.bind (rq_cookie rq) (\<lambda>c. named_cookie c FLOW_COOKIE)"

definition callback_code :: "web \<Rightarrow> callback_query \<Rightarrow> pending \<Rightarrow> ustring option" where
  "callback_code w q flow =
     (if constant_time_eq (digest_words w) (as_bytes (case cq_state q of Some s \<Rightarrow> s | None \<Rightarrow> [])) (as_bytes (pe_state flow))
      then cq_code q else None)"

text \<open>A callback changes storage only on the way through every check.\<close>

lemma oauth_callback_through:
  assumes "oauth_callback e w pv sv (Some od) rq q = (r, sv', od')" "sv_store sv' \<noteq> sv_store sv"
  obtains cookie flow code od1 ep od2 claims sv1 where
    "flow_cookie_of rq = Some cookie" "flow_take w (wb_instant w 1) od cookie = (Some flow, od1)"
    "callback_code w q flow = Some code" "oidc_endpoints pv (wb_instant w 2) od1 = (Some ep, od2)"
    "oidc_exchange pv od2 ep code (pe_verifier flow) = Some claims"
    "oauth_sign_in e w sv1 ep claims = (r, sv')" "sv_store sv1 = sv_store sv" "od' = Some od2"
proof -
  obtain b sv1 where c: "check_auth_rate sv (wb_instant w 0) (rq_peer (anonymous rq)) (rq_forwarded rq)
      (cf_trust_forwarded_for (wb_config w)) = (b, sv1)" by fastforce
  note f = rate_check_frame(1) [OF c]
  have ne: "sv_store sv' \<noteq> sv_store sv1" using assms(2) f by simp
  have b: "b" "cq_error q = None" using assms(1) c ne by (auto simp: oauth_callback_def split: if_splits)
  obtain cookie where cookie: "flow_cookie_of rq = Some cookie"
    using assms(1) c b ne by (cases "flow_cookie_of rq") (auto simp: oauth_callback_def flow_cookie_of_def)
  obtain flow od1 where take: "flow_take w (wb_instant w 1) od cookie = (Some flow, od1)"
    using assms(1) c b ne cookie
    by (cases "flow_take w (wb_instant w 1) od cookie") (auto simp: oauth_callback_def flow_cookie_of_def split: option.splits)
  obtain code where code: "callback_code w q flow = Some code"
    using assms(1) c b ne cookie take
    by (auto simp: oauth_callback_def flow_cookie_of_def callback_code_def Let_def split: option.splits if_splits)
  note sofar = assms(1) [unfolded oauth_callback_def, simplified] c b ne cookie [unfolded flow_cookie_of_def] take
    code [unfolded callback_code_def]
  obtain ep od2 where ep: "oidc_endpoints pv (wb_instant w 2) od1 = (Some ep, od2)"
    using sofar by (cases "oidc_endpoints pv (wb_instant w 2) od1") (auto simp: Let_def split: option.splits if_splits)
  obtain claims where claims: "oidc_exchange pv od2 ep code (pe_verifier flow) = Some claims"
    using sofar ep by (cases "oidc_exchange pv od2 ep code (pe_verifier flow)") (auto simp: Let_def split: if_splits)
  have "oauth_sign_in e w sv1 ep claims = (r, sv')" "od' = Some od2"
    using sofar ep claims by (auto simp: Let_def split: if_splits prod.splits)
  with that [OF cookie take code ep claims] f show thesis by simp
qed

text \<open>
  (C24) A sign-in through the provider is bound to the browser that began it and spent by it.
  When a callback stores anything, the request carried the cookie of a flow that was begun here
  less than ten minutes ago, the state it returned has the digest of the state that was handed
  out, and the provider exchanged the code, under the verifier of that flow, for a subject,
  which is linked to one account in storage from then on; the session that a redirect carries
  speaks for exactly that account. And the flow is gone: whatever is asked later with the same
  cookie and the flows that are left stores nothing.
\<close>

theorem oauth_callback_sound:
  assumes "oauth_callback e w pv sv (Some od) rq q = (r, sv', od')" "sv_store sv' \<noteq> sv_store sv"
    and sha: "\<And>a. length (wb_sha256 w a) = 32"
  shows "\<exists>cookie flow code (ep :: endpoints) (claims :: user_info) u od2. flow_cookie_of rq = Some cookie
    \<and> map_of (od_flows od) (token_digest w cookie) = Some flow
    \<and> duration_since (wb_instant w 1) (pe_started flow) < FLOW_TTL
    \<and> digest_words w (as_bytes (case cq_state q of Some s \<Rightarrow> s | None \<Rightarrow> [])) = digest_words w (as_bytes (pe_state flow))
    \<and> cq_code q = Some code \<and> oidc_exchange pv od2 ep code (pe_verifier flow) = Some claims
    \<and> identity_user_of (sv_store sv') (ep_issuer ep) (ui_sub claims) = Some u
    \<and> (rs_status r = 303 \<longrightarrow> (\<exists>s \<in> set (st_sessions (sv_store sv')). se_token_hash s = token_digest w (fresh_token w 0)
          \<and> se_user_id s = user_id u))
    \<and> od' = Some od2
    \<and> (\<forall>e2 w2 pv2 sv2 rq2 q2 r2 sv3 od3. flow_cookie_of rq2 = Some cookie \<and> token_digest w2 cookie = token_digest w cookie
          \<and> oauth_callback e2 w2 pv2 sv2 od' rq2 q2 = (r2, sv3, od3) \<longrightarrow> sv_store sv3 = sv_store sv2)"
proof -
  from assms(1,2) obtain cookie flow code od1 ep od2 claims sv1 where t:
    "flow_cookie_of rq = Some cookie" "flow_take w (wb_instant w 1) od cookie = (Some flow, od1)"
    "callback_code w q flow = Some code" "oidc_endpoints pv (wb_instant w 2) od1 = (Some ep, od2)"
    "oidc_exchange pv od2 ep code (pe_verifier flow) = Some claims"
    "oauth_sign_in e w sv1 ep claims = (r, sv')" "sv_store sv1 = sv_store sv" "od' = Some od2"
    by (rule oauth_callback_through)
  note spent = flow_take_spent [OF t(2)]
  have gone: "map_of (od_flows od2) (token_digest w cookie) = None" using spent(1) oidc_endpoints_flows [OF t(4)] by simp
  have words: "length (digest_words w a) = length (digest_words w b)" for a b using sha by (simp add: digest_words_def)
  have eq: "digest_words w (as_bytes (case cq_state q of Some s \<Rightarrow> s | None \<Rightarrow> [])) = digest_words w (as_bytes (pe_state flow))"
    "cq_code q = Some code"
    using t(3) constant_time_eq_correct [of "digest_words w", OF words] by (auto simp: callback_code_def split: if_splits)
  obtain u where u: "identity_user_of (sv_store sv') (ep_issuer ep) (ui_sub claims) = Some u"
    "rs_status r = 303 \<Longrightarrow> \<exists>st. db_create_session (env_now e 1) st (user_id u) (token_digest w (fresh_token w 0)) = Ok (sv_store sv')
       \<and> st_users st = st_users (sv_store sv')"
    using t(6,7) assms(2) oauth_sign_in_linked [of e w sv1 ep claims r sv'] by metis
  have sess: "\<exists>s \<in> set (st_sessions st'). se_token_hash s = h \<and> se_user_id s = i"
    if "db_create_session ts st i h = Ok st'" for ts st i h st'
    using that by (auto simp: db_create_session_def SESSION_TTL_MS_def split: if_splits)
  have "sv_store sv3 = sv_store sv2" if again: "flow_cookie_of rq2 = Some cookie" "token_digest w2 cookie = token_digest w cookie"
    "oauth_callback e2 w2 pv2 sv2 od' rq2 q2 = (r2, sv3, od3)" for e2 w2 pv2 sv2 rq2 q2 r2 sv3 od3
  proof (rule ccontr)
    assume "sv_store sv3 \<noteq> sv_store sv2"
    from again(3) [unfolded t(8)] this obtain c f od4 where
      "flow_cookie_of rq2 = Some c" "flow_take w2 (wb_instant w2 1) od2 c = (Some f, od4)" by (rule oauth_callback_through)
    with again(1,2) gone flow_take_spent(3) [of w2 "wb_instant w2 1" od2 c "Some f" od4 f] show False by simp
  qed
  with t u sess spent(3) [OF refl] eq show ?thesis
    by (intro exI [of _ cookie] exI [of _ flow] exI [of _ code] exI [of _ ep] exI [of _ claims] exI [of _ u] exI [of _ od2])
       (simp, meson)
qed

definition sample_oidc_web :: web where
  "sample_oidc_web = sample_web\<lparr>wb_sha256 := (\<lambda>bs. take 32 (bs @ replicate 32 0))\<rparr>"

definition sample_provider :: provider where
  "sample_provider = \<lparr>pv_discover = (\<lambda>_. Some \<lparr>ep_issuer = lit ''https://idp'', ep_authorization = [], ep_token = [], ep_userinfo = []\<rparr>),
     pv_token = (\<lambda>_ _ _ _. Some (lit ''t'')),
     pv_userinfo = (\<lambda>_ _. Some \<lparr>ui_sub = lit ''42'', ui_preferred_username = Some (lit ''bob''), ui_name = None\<rparr>)\<rparr>"

definition sample_oidc :: oidc where
  "sample_oidc = (oidc_new \<lparr>oc_issuer = lit ''https://idp'', oc_client_id = [], oc_client_secret = [], oc_redirect_url = [],
       oc_scopes = [], oc_label = []\<rparr>)
     \<lparr>od_flows := [(token_digest sample_oidc_web (lit ''s''), \<lparr>pe_state = lit ''x'', pe_verifier = lit ''v'', pe_started = 0\<rparr>)]\<rparr>"

definition sample_sso :: server where
  "sample_sso = sample_deployment\<lparr>sv_store := sample_accounts\<lparr>st_identities :=
     [\<lparr>oi_issuer = lit ''https://idp'', oi_subject = lit ''42'', oi_user_id = UserId [117], oi_created_at = 0\<rparr>]\<rparr>\<rparr>"

definition sample_sso_request :: request where
  "sample_sso_request = sample_request\<lparr>rq_cookie := Some (lit ''gal_oauth=s'')\<rparr>"

definition sample_query :: callback_query where
  "sample_query = \<lparr>cq_code = Some (lit ''c''), cq_state = Some (lit ''x''), cq_error = None\<rparr>"

lemma sample_sign_in:
  assumes "sv_store sv = sv_store sample_sso"
  shows "rs_status (fst (oauth_sign_in web_env sample_oidc_web sv
      \<lparr>ep_issuer = lit ''https://idp'', ep_authorization = [], ep_token = [], ep_userinfo = []\<rparr>
      \<lparr>ui_sub = lit ''42'', ui_preferred_username = Some (lit ''bob''), ui_name = None\<rparr>)) = 303"
    "st_sessions (sv_store (snd (oauth_sign_in web_env sample_oidc_web sv
      \<lparr>ep_issuer = lit ''https://idp'', ep_authorization = [], ep_token = [], ep_userinfo = []\<rparr>
      \<lparr>ui_sub = lit ''42'', ui_preferred_username = Some (lit ''bob''), ui_name = None\<rparr>))) \<noteq> st_sessions (sv_store sv)"
proof -
  have eval: "trim (lit ''42'') \<noteq> []" "wb_commit sample_oidc_web 0" "wb_commit sample_oidc_web 1"
    "identity_user_of (sv_store sample_sso) (lit ''https://idp'') (lit ''42'') = Some sample_account"
    "\<not> list_ex (\<lambda>s. se_token_hash s = token_digest sample_oidc_web (fresh_token sample_oidc_web 0)) (st_sessions (sv_store sample_sso))"
    "st_sessions (sv_store sample_sso) \<noteq> []" "filter (\<lambda>s. \<not> se_expires_at s < env_now web_env 1) (st_sessions (sv_store sample_sso))
       = st_sessions (sv_store sample_sso)"
    by code_simp+
  have "\<not> env_now web_env 1 + SESSION_TTL_MS < env_now web_env 1" by (simp add: SESSION_TTL_MS_def)
  with eval assms show "rs_status (fst (oauth_sign_in web_env sample_oidc_web sv
      \<lparr>ep_issuer = lit ''https://idp'', ep_authorization = [], ep_token = [], ep_userinfo = []\<rparr>
      \<lparr>ui_sub = lit ''42'', ui_preferred_username = Some (lit ''bob''), ui_name = None\<rparr>)) = 303"
    "st_sessions (sv_store (snd (oauth_sign_in web_env sample_oidc_web sv
      \<lparr>ep_issuer = lit ''https://idp'', ep_authorization = [], ep_token = [], ep_userinfo = []\<rparr>
      \<lparr>ui_sub = lit ''42'', ui_preferred_username = Some (lit ''bob''), ui_name = None\<rparr>))) \<noteq> st_sessions (sv_store sv)"
    by (simp_all add: oauth_sign_in_def db_user_for_oauth_identity_def db_create_session_def redirect_with_cookies_def Let_def cong: if_cong)
qed

lemma sample_callback:
  obtains r sv' od' where "oauth_callback web_env sample_oidc_web sample_provider sample_sso (Some sample_oidc)
      sample_sso_request sample_query = (r, sv', od')" "rs_status r = 303" "sv_store sv' \<noteq> sv_store sample_sso"
proof -
  obtain b sv where c: "check_auth_rate sample_sso (wb_instant sample_oidc_web 0) (rq_peer (anonymous sample_sso_request))
      (rq_forwarded sample_sso_request) (cf_trust_forwarded_for (wb_config sample_oidc_web)) = (b, sv)" by fastforce
  have "fst (limiter_check (limiter_new 0 10 (1 / 2)) t key)" for t key by (simp add: limiter_eval Let_def)
  then have "fst (check_auth_rate sample_sso t peer fwd trust)" for t peer fwd trust
    by (simp add: check_auth_rate_def sample_sso_def sample_deployment_def app_new_def Let_def case_prod_beta')
  then have b: "b" using c by (metis fst_conv)
  note f = rate_check_frame(1) [OF c]
  have eval: "Option.bind (rq_cookie sample_sso_request) (\<lambda>c. named_cookie c FLOW_COOKIE) = Some (lit ''s'')"
    "constant_time_eq (digest_words sample_oidc_web) (as_bytes (lit ''x'')) (as_bytes (lit ''x''))"
    "trim_end_matches (\<lambda>c. c = 47) (lit ''https://idp'') = lit ''https://idp''" by code_simp+
  have take: "\<exists>od. flow_take sample_oidc_web (wb_instant sample_oidc_web 1) sample_oidc (lit ''s'') =
      (Some \<lparr>pe_state = lit ''x'', pe_verifier = lit ''v'', pe_started = 0\<rparr>, od) \<and> od_discovery od = None
      \<and> oc_issuer (od_config od) = lit ''https://idp''"
    by (simp add: flow_take_def sample_oidc_def oidc_new_def duration_since_def FLOW_TTL_def sample_oidc_web_def sample_web_def)
  let ?s = "oauth_sign_in web_env sample_oidc_web sv
      \<lparr>ep_issuer = lit ''https://idp'', ep_authorization = [], ep_token = [], ep_userinfo = []\<rparr>
      \<lparr>ui_sub = lit ''42'', ui_preferred_username = Some (lit ''bob''), ui_name = None\<rparr>"
  have "\<exists>od'. oauth_callback web_env sample_oidc_web sample_provider sample_sso (Some sample_oidc)
      sample_sso_request sample_query = (fst ?s, snd ?s, od')"
    using b c eval take
    by (auto simp: oauth_callback_def sample_query_def oidc_endpoints_def oidc_exchange_def sample_provider_def Let_def
        case_prod_beta')
  moreover have "sv_store (snd ?s) \<noteq> sv_store sample_sso" using sample_sign_in(2) [OF f] f by auto
  ultimately show thesis using sample_sign_in(1) [OF f] that by blast
qed

theorem oauth_callback_sound_witness:
  "\<exists>r sv' od' (ep :: endpoints) (claims :: user_info) u. oauth_callback web_env sample_oidc_web sample_provider sample_sso (Some sample_oidc)
       sample_sso_request sample_query = (r, sv', od') \<and> rs_status r = 303
     \<and> identity_user_of (sv_store sv') (ep_issuer ep) (ui_sub claims) = Some u"
proof (rule sample_callback)
  fix r sv' od'
  assume c: "oauth_callback web_env sample_oidc_web sample_provider sample_sso (Some sample_oidc)
      sample_sso_request sample_query = (r, sv', od')" "rs_status r = 303" "sv_store sv' \<noteq> sv_store sample_sso"
  have "length (wb_sha256 sample_oidc_web a) = 32" for a by (simp add: sample_oidc_web_def)
  from oauth_callback_sound [OF c(1,3) this] obtain ep :: endpoints and claims :: user_info and u where
    "identity_user_of (sv_store sv') (ep_issuer ep) (ui_sub claims) = Some u" by (elim exE conjE) (rule that)
  with c(1,2) show ?thesis by blast
qed

end
