(* ===== verification/Gal_Agent.thy ===== *)
theory Gal_Agent
  imports Gal_Reach Gal_Oidc
begin

text \<open>
  The agent surface: \<open>crates/gal-server/src/agent.rs\<close> and the statements of \<open>db.rs\<close> behind it. A
  credential belongs to one account and one wavelet; with it an agent reads the messages of the
  wavelet page by page and posts replies, each under a request id that makes a retry harmless.
  The JSON form of a reply request, of which only the digest is stored, is an argument.
\<close>

section \<open>Credentials\<close>

definition scope_as_str :: "agent_scope \<Rightarrow> ustring" where
  "scope_as_str s = (case s of ScopeRead \<Rightarrow> lit ''read'' | ScopeReply \<Rightarrow> lit ''reply'')"

record agent_token =
  ag_id :: ustring
  ag_user_id :: user_id
  ag_wave_id :: wave_id
  ag_wavelet_id :: wavelet_id
  ag_label :: ustring
  ag_scope :: agent_scope
  ag_created_at :: timestamp
  ag_expires_at :: timestamp

record agent_identity =
  ai_token :: agent_token
  ai_token_hash :: ustring

definition row_to_agent_token :: "agent_token_row \<Rightarrow> wave_id \<Rightarrow> agent_token" where
  "row_to_agent_token t wid =
     \<lparr>ag_id = tr_id t, ag_user_id = tr_user_id t, ag_wave_id = wid, ag_wavelet_id = tr_wavelet_id t,
      ag_label = tr_label t, ag_scope = tr_scope t, ag_created_at = tr_created_at t, ag_expires_at = tr_expires_at t\<rparr>"

text \<open>The join with the wavelet a credential is for.\<close>

definition with_wave :: "store \<Rightarrow> agent_token_row \<Rightarrow> agent_token option" where
  "with_wave st t =
     map_option (\<lambda>w. row_to_agent_token t (wl_wave_id w)) (find (\<lambda>w. wl_id w = tr_wavelet_id t) (st_wavelets st))"

definition valid_agent_token :: "timestamp \<Rightarrow> store \<Rightarrow> ustring \<Rightarrow> agent_token option" where
  "valid_agent_token ts st hash =
     Option.bind (find (\<lambda>t. tr_token_hash t = hash \<and> tr_expires_at t > ts
         \<and> member st (tr_user_id t) (tr_wavelet_id t)) (st_agent_tokens st)) (with_wave st)"

text \<open>The insert selects its row only for a participant; the id and the digest are unique.\<close>

definition db_create_agent_token :: "store \<Rightarrow> agent_token \<Rightarrow> ustring \<Rightarrow> (bool \<times> store) db_result" where
  "db_create_agent_token st t hash =
     (if \<not> member st (ag_user_id t) (ag_wavelet_id t) then Ok (False, st)
      else if list_ex (\<lambda>x. tr_id x = ag_id t \<or> tr_token_hash x = hash) (st_agent_tokens st) then Err UniqueViolation
      else Ok (True, st\<lparr>st_agent_tokens := st_agent_tokens st @
             [\<lparr>tr_id = ag_id t, tr_token_hash = hash, tr_user_id = ag_user_id t, tr_wavelet_id = ag_wavelet_id t,
               tr_label = ag_label t, tr_scope = ag_scope t, tr_created_at = ag_created_at t,
               tr_expires_at = ag_expires_at t\<rparr>]\<rparr>))"

definition db_agent_tokens :: "timestamp \<Rightarrow> store \<Rightarrow> user_id \<Rightarrow> agent_token list" where
  "db_agent_tokens ts st u =
     List.map_filter (with_wave st)
       (sort_key (\<lambda>t. (tr_created_at t, tr_id t))
         (filter (\<lambda>t. tr_user_id t = u \<and> tr_expires_at t > ts) (st_agent_tokens st)))"

definition db_revoke_agent_token :: "store \<Rightarrow> user_id \<Rightarrow> ustring \<Rightarrow> bool \<times> store" where
  "db_revoke_agent_token st u i =
     (length (filter (\<lambda>t. tr_user_id t = u \<and> tr_id t = i) (st_agent_tokens st)) = 1,
      delete_agent_tokens (\<lambda>t. tr_user_id t = u \<and> tr_id t = i) st)"

section \<open>Reading\<close>

record context_blip =
  cb_id :: blip_id
  cb_parent :: "blip_id option"
  cb_author :: user_id
  cb_revision :: nat
  cb_seq :: int
  cb_comment_id :: "comment_id option"
  cb_comment_resolved :: "bool option"
  cb_text :: ustring
  cb_truncated :: bool

record agent_context =
  ac_wave_id :: wave_id
  ac_wavelet_id :: wavelet_id
  ac_title :: ustring
  ac_mode :: ustring
  ac_blips :: "context_blip list"
  ac_next_cursor :: "ustring option"

fun bounded_loop :: "nat \<Rightarrow> nat \<Rightarrow> ustring \<Rightarrow> ustring \<times> nat \<times> bool" where
  "bounded_loop budget units [] = ([], units, False)"
| "bounded_loop budget units (c # s) =
     (if units + len_utf16 c > budget then ([], units, True)
      else (case bounded_loop budget (units + len_utf16 c) s of (t, used, short) \<Rightarrow> (c # t, used, short)))"

definition bounded_text :: "ustring \<Rightarrow> nat \<Rightarrow> ustring \<times> nat \<times> bool" where
  "bounded_text txt budget = bounded_loop budget 0 txt"

definition blip_id_str :: "blip_id \<Rightarrow> ustring" where
  "blip_id_str b = (case b of BlipId s \<Rightarrow> s)"

definition blip_place :: "blip \<Rightarrow> int \<times> ustring" where
  "blip_place b = (b_seq b, blip_id_str (b_id b))"

definition comment_resolved_of :: "store \<Rightarrow> blip \<Rightarrow> bool option" where
  "comment_resolved_of st b =
     Option.bind (b_comment b) (\<lambda>c.
       map_option (\<lambda>t. ct_resolved_at (snd t) \<noteq> None) (find (\<lambda>t. ct_id (snd t) = c) (st_comments st)))"

text \<open>The loop over the candidates, with the messages and the text units still allowed.\<close>

fun context_page :: "store \<Rightarrow> nat \<Rightarrow> nat \<Rightarrow> blip list \<Rightarrow> context_blip list" where
  "context_page st limit left [] = []"
| "context_page st limit left (b # bs) =
     (if limit = 0 \<or> left < 2 then []
      else (case bounded_text (display_text (b_content b)) left of (txt, used, short) \<Rightarrow>
        \<lparr>cb_id = b_id b, cb_parent = b_parent b, cb_author = b_author b, cb_revision = b_revision b,
         cb_seq = b_seq b, cb_comment_id = b_comment b, cb_comment_resolved = comment_resolved_of st b,
         cb_text = txt, cb_truncated = short\<rparr>
        # context_page st (limit - 1) (left - used) bs))"

definition context_candidates :: "store \<Rightarrow> wavelet_id \<Rightarrow> int \<times> ustring \<Rightarrow> nat \<Rightarrow> blip list" where
  "context_candidates st i after limit =
     take (limit + 1) (sort_key blip_place
       (filter (\<lambda>b. b_wavelet_id b = i \<and> \<not> b_deleted b \<and> after < blip_place b) (st_blips st)))"

definition cursor_of :: "context_blip \<Rightarrow> ustring" where
  "cursor_of b = show_int (cb_seq b) @ lit '':'' @ blip_id_str (cb_id b)"

text \<open>
  The outer result is the query's, which fails when the wave of the wavelet is missing; \<open>None\<close>
  says that the credential is not valid.
\<close>

definition db_agent_context ::
  "timestamp \<Rightarrow> store \<Rightarrow> ustring \<Rightarrow> int \<times> ustring \<Rightarrow> nat \<Rightarrow> nat \<Rightarrow> agent_context option db_result" where
  "db_agent_context ts st hash after limit text_units =
     (case valid_agent_token ts st hash of
        None \<Rightarrow> Ok None
      | Some t \<Rightarrow>
          (case Option.bind (find (\<lambda>w. wl_id w = ag_wavelet_id t) (st_wavelets st)) (\<lambda>w.
                  map_option (\<lambda>r. (wl_title w, wr_mode r)) (find (\<lambda>r. wr_id r = wl_wave_id w) (st_waves st))) of
             None \<Rightarrow> Err Unavailable
           | Some (title, mode) \<Rightarrow>
               let candidates = context_candidates st (ag_wavelet_id t) after limit;
                   blips = context_page st limit text_units candidates;
                   next_cursor = (if length blips < length candidates
                     then (if blips = [] then None else Some (cursor_of (last blips))) else None)
               in Ok (Some \<lparr>ac_wave_id = ag_wave_id t, ac_wavelet_id = ag_wavelet_id t, ac_title = title, ac_mode = mode,
                            ac_blips = blips, ac_next_cursor = next_cursor\<rparr>)))"

section \<open>Replying\<close>

record reply_request =
  rp_request_id :: ustring
  rp_parent :: "blip_id option"
  rp_text :: ustring

record reply_receipt =
  rc_request_id :: ustring
  rc_wave_id :: wave_id
  rc_wavelet_id :: wavelet_id
  rc_blip_id :: blip_id
  rc_revision :: nat

record stored_reply =
  sr_request_hash :: ustring
  sr_receipt :: reply_receipt

definition db_agent_reply_receipt :: "store \<Rightarrow> agent_token \<Rightarrow> ustring \<Rightarrow> stored_reply option" where
  "db_agent_reply_receipt st t request_id =
     map_option (\<lambda>r. \<lparr>sr_request_hash = rr_request_hash r,
         sr_receipt = \<lparr>rc_request_id = request_id, rc_wave_id = ag_wave_id t, rc_wavelet_id = ag_wavelet_id t,
                       rc_blip_id = rr_blip_id r, rc_revision = rr_revision r\<rparr>\<rparr>)
       (find (\<lambda>r. rr_token_id r = ag_id t \<and> rr_request_id r = request_id) (st_agent_replies st))"

definition insert_agent_reply :: "store \<Rightarrow> agent_reply_row \<Rightarrow> store db_result" where
  "insert_agent_reply st r =
     (if list_ex (\<lambda>x. rr_token_id x = rr_token_id r \<and> rr_request_id x = rr_request_id r) (st_agent_replies st)
      then Err UniqueViolation
      else Ok (st\<lparr>st_agent_replies := st_agent_replies st @ [r]\<rparr>))"

definition db_create_agent_reply ::
  "timestamp \<Rightarrow> store \<Rightarrow> ustring \<Rightarrow> ustring \<Rightarrow> ustring \<Rightarrow> blip \<Rightarrow> (bool \<times> store) db_result" where
  "db_create_agent_reply ts st token_hash request_id request_hash b =
     (case valid_agent_token ts st token_hash of
        None \<Rightarrow> Ok (False, st)
      | Some t \<Rightarrow>
          if ag_scope t \<noteq> ScopeReply \<or> ag_wavelet_id t \<noteq> b_wavelet_id b \<or> ag_user_id t \<noteq> b_author b then Ok (False, st)
          else
            bind_result (insert_seeded_blip st b) (\<lambda>st.
            bind_result (insert_agent_reply st \<lparr>rr_token_id = ag_id t, rr_request_id = request_id,
                           rr_request_hash = request_hash, rr_blip_id = b_id b, rr_revision = b_revision b\<rparr>) (\<lambda>st.
            Ok (True, st))))"

section \<open>The endpoints\<close>

datatype agent_response =
    Refused response
  | TokenCreated ustring agent_token
  | TokenList "agent_token list"
  | TokenRevoked
  | ContextPage agent_context
  | Replied nat reply_receipt

definition agent_error :: "nat \<Rightarrow> ustring \<Rightarrow> ustring \<Rightarrow> agent_response" where
  "agent_error status code m = Refused (plain_response status (CodedBody m code))"

definition rate_limited :: agent_response where
  "rate_limited = Refused \<lparr>rs_status = 429, rs_headers = [(lit ''retry-after'', lit ''5'')],
     rs_body = CodedBody (lit ''Slow down and retry later.'') (lit ''tooManyRequests'')\<rparr>"

definition error_code_str :: "error_code \<Rightarrow> ustring" where
  "error_code_str c = lit (case c of NotFound \<Rightarrow> ''notFound'' | BadRequest \<Rightarrow> ''badRequest'' | Resync \<Rightarrow> ''resync''
     | Forbidden \<Rightarrow> ''forbidden'' | TooManyRequests \<Rightarrow> ''tooManyRequests'' | Internal \<Rightarrow> ''internal'')"

definition protocol_error :: "server_message \<Rightarrow> agent_response" where
  "protocol_error m =
     (case m of
        ErrorMsg code message _ \<Rightarrow>
          agent_error (case code of NotFound \<Rightarrow> 404 | Forbidden \<Rightarrow> 403 | BadRequest \<Rightarrow> 400 | TooManyRequests \<Rightarrow> 429
             | Resync \<Rightarrow> 409 | Internal \<Rightarrow> 500) (error_code_str code) message
      | _ \<Rightarrow> agent_error 500 (lit ''internal'') (lit ''Unexpected reply failure.''))"

definition no_wavelet :: agent_response where
  "no_wavelet = Refused (http_not_found (lit ''That wavelet is not available.''))"

definition valid_id :: "ustring \<Rightarrow> ustring \<Rightarrow> bool" where
  "valid_id i prefix =
     (case strip_prefix i prefix of
        None \<Rightarrow> False
      | Some suffix \<Rightarrow> suffix \<noteq> [] \<and> str_len i \<le> 64 \<and> list_all is_ascii_alphanumeric (as_bytes suffix))"

definition wavelet_id_str :: "wavelet_id \<Rightarrow> ustring" where
  "wavelet_id_str i = (case i of WaveletId s \<Rightarrow> s)"

definition agent_from_request :: "env \<Rightarrow> web \<Rightarrow> server \<Rightarrow> request \<Rightarrow> (agent_response, agent_identity) result" where
  "agent_from_request e w sv rq =
     (case Option.bind (rq_authorization rq) (split_once 32) of
        None \<Rightarrow> Err (Refused unauthorised)
      | Some (scheme, token) \<Rightarrow>
          if to_ascii_lowercase scheme \<noteq> lit ''bearer'' \<or> token = [] then Err (Refused unauthorised)
          else if \<not> env_read e then Err (Refused server_error)
          else
            let token_hash = token_digest w token
            in (case valid_agent_token (env_now e 0) (sv_store sv) token_hash of
                  None \<Rightarrow> Err (Refused unauthorised)
                | Some t \<Rightarrow> Ok \<lparr>ai_token = t, ai_token_hash = token_hash\<rparr>))"

definition create_token ::
  "env \<Rightarrow> web \<Rightarrow> server \<Rightarrow> identity \<Rightarrow> wavelet_id \<Rightarrow> ustring \<Rightarrow> agent_scope \<Rightarrow> nat \<Rightarrow> agent_response \<times> server" where
  "create_token e w sv who i label scope expires_in_seconds =
     (let label = trim label; u = user_id (identity_user who)
      in if label = [] \<or> str_len label > 100 \<or> list_ex is_control label \<or> \<not> valid_id (wavelet_id_str i) (lit ''s-'')
            \<or> expires_in_seconds = 0 \<or> expires_in_seconds > 30 * 24 * 60 * 60
         then (Refused (bad_request (lit ''Use a label of 1'' @ [0x2013] @ lit ''100 bytes, a wavelet id, and an expiry of 1''
                 @ [0x2013] @ lit ''2592000 seconds.'')), sv)
         else
           let (allowed, sv) = check_command_rate sv (wb_instant w 0) u (Open (WaveId []))
           in if \<not> allowed then (rate_limited, sv)
              else if \<not> env_read e then (Refused server_error, sv)
              else (case db_wave_for_participant (sv_store sv) u i of
                      None \<Rightarrow> (no_wavelet, sv)
                    | Some wid \<Rightarrow>
                        let created_at = env_now e 1;
                            t = \<lparr>ag_id = env_uuid e 0, ag_user_id = u, ag_wave_id = wid, ag_wavelet_id = i, ag_label = label,
                                 ag_scope = scope, ag_created_at = created_at,
                                 ag_expires_at = created_at + int expires_in_seconds * 1000\<rparr>;
                            token = lit ''gal_agent_'' @ fresh_token w 0
                        in (case (if wb_commit w 0 then db_create_agent_token (sv_store sv) t (token_digest w token)
                                  else Err Unavailable) of
                              Ok (True, st) \<Rightarrow> (TokenCreated token t, sv\<lparr>sv_store := st\<rparr>)
                            | Ok (False, _) \<Rightarrow> (no_wavelet, sv)
                            | Err _ \<Rightarrow> (Refused server_error, sv))))"

definition list_tokens :: "env \<Rightarrow> server \<Rightarrow> identity \<Rightarrow> agent_response" where
  "list_tokens e sv who =
     (if env_read e then TokenList (db_agent_tokens (env_now e 1) (sv_store sv) (user_id (identity_user who)))
      else Refused server_error)"

definition revoke_token :: "web \<Rightarrow> server \<Rightarrow> identity \<Rightarrow> ustring \<Rightarrow> agent_response \<times> server" where
  "revoke_token w sv who i =
     (if \<not> wb_commit w 0 then (Refused server_error, sv)
      else
        let (one, st) = db_revoke_agent_token (sv_store sv) (user_id (identity_user who)) i
        in (if one then TokenRevoked else Refused (http_not_found (lit ''That credential is not available.'')),
            sv\<lparr>sv_store := st\<rparr>))"

text \<open>Where a page starts; \<open>None\<close> is a cursor that is refused.\<close>

definition parse_cursor :: "ustring option \<Rightarrow> (int \<times> ustring) option" where
  "parse_cursor after =
     (case after of
        None \<Rightarrow> Some (-1, [])
      | Some c \<Rightarrow>
          (case split_once 58 c of
             None \<Rightarrow> None
           | Some (seq, i) \<Rightarrow>
               if \<not> valid_id i (lit ''b-'') then None
               else (case parse_i64 seq of
                       Some n \<Rightarrow> if n \<ge> 0 then Some (n, i) else None
                     | None \<Rightarrow> None)))"

definition context_handler ::
  "env \<Rightarrow> web \<Rightarrow> server \<Rightarrow> agent_identity \<Rightarrow> ustring option \<Rightarrow> nat \<Rightarrow> nat \<Rightarrow> agent_response \<times> server" where
  "context_handler e w sv who after limit text_units =
     (if \<not> (1 \<le> limit \<and> limit \<le> 100) \<or> \<not> (2 \<le> text_units \<and> text_units \<le> 64000)
      then (Refused (bad_request (lit ''limit must be 1'' @ [0x2013] @ lit ''100 and textUnits must be 2'' @ [0x2013]
              @ lit ''64000.'')), sv)
      else (case parse_cursor after of
        None \<Rightarrow> (Refused (bad_request (lit ''Invalid context cursor.'')), sv)
      | Some start \<Rightarrow>
          let (allowed, sv) = check_command_rate sv (wb_instant w 0) (ag_user_id (ai_token who)) (Open (ag_wave_id (ai_token who)))
          in if \<not> allowed then (rate_limited, sv)
             else if \<not> env_read e then (Refused server_error, sv)
             else (case db_agent_context (env_now e 1) (sv_store sv) (ai_token_hash who) start limit text_units of
                     Ok (Some c) \<Rightarrow> (ContextPage c, sv)
                   | Ok None \<Rightarrow> (Refused unauthorised, sv)
                   | Err _ \<Rightarrow> (Refused server_error, sv))))"

text \<open>The part of \<open>create_reply\<close> that runs under the lock of the wave.\<close>

definition create_reply_locked ::
  "env \<Rightarrow> web \<Rightarrow> (reply_request \<Rightarrow> ustring) \<Rightarrow> agent_identity \<Rightarrow> reply_request \<Rightarrow> wave_id \<Rightarrow> server \<Rightarrow> live_wave \<Rightarrow>
   agent_response \<times> server \<times> live_wave" where
  "create_reply_locked e w encode who rp wid sv live =
     (let t = ai_token who; request_hash = token_digest w (encode rp)
      in if \<not> may_access live (ag_user_id t) (ag_wavelet_id t) then (no_wavelet, sv, live)
         else if \<not> env_read e then (Refused server_error, sv, live)
         else if valid_agent_token (env_now e 1) (sv_store sv) (ai_token_hash who) = None then (Refused unauthorised, sv, live)
         else (case db_agent_reply_receipt (sv_store sv) t (rp_request_id rp) of
           Some r \<Rightarrow>
             if sr_request_hash r = request_hash then (Replied 200 (sr_receipt r), sv, live)
             else (agent_error 409 (lit ''requestConflict'') (lit ''That requestId was already used for different content.''), sv, live)
         | None \<Rightarrow>
             (case prepare_blip (env_json_len e) (env_now e 2) (env_uuid e 0) live (ag_user_id t) (ag_wavelet_id t)
                     (rp_parent rp) (Some (delta_document (rp_text rp))) of
                Err m \<Rightarrow> (protocol_error m, sv, live)
              | Ok b \<Rightarrow>
                  let receipt = \<lparr>rc_request_id = rp_request_id rp, rc_wave_id = wid, rc_wavelet_id = b_wavelet_id b,
                                 rc_blip_id = b_id b, rc_revision = b_revision b\<rparr>
                  in (case (if env_write e
                            then db_create_agent_reply (env_now e 3) (sv_store sv) (ai_token_hash who) (rp_request_id rp) request_hash b
                            else Err Unavailable) of
                        Err _ \<Rightarrow> (Refused server_error, sv, live)
                      | Ok (False, _) \<Rightarrow> (Refused unauthorised, sv, live)
                      | Ok (True, st) \<Rightarrow>
                          let (live, ch) = publish_blip live (sv_chans sv) b
                          in (Replied 201 receipt, schedule_inbox_update (sv\<lparr>sv_store := st, sv_chans := ch\<rparr>) wid, live)))))"

text \<open>The loop that opens the wave again as long as the copy it was given has been evicted.\<close>

partial_function (option) open_current ::
  "env \<Rightarrow> server \<Rightarrow> wave_id \<Rightarrow> ((agent_response, nat) result \<times> server) option" where
  "open_current e sv wid =
     (case open_resident e sv wid of
        (Ok (Some a), sv) \<Rightarrow> if lw_evicted (sv_heap sv a) then open_current e sv wid else Some (Ok a, sv)
      | (Ok None, sv) \<Rightarrow> Some (Err no_wavelet, sv)
      | (Err _, sv) \<Rightarrow> Some (Err (Refused server_error), sv))"

declare open_current.simps [code]

definition create_reply ::
  "env \<Rightarrow> web \<Rightarrow> (reply_request \<Rightarrow> ustring) \<Rightarrow> server \<Rightarrow> agent_identity \<Rightarrow> reply_request \<Rightarrow> (agent_response \<times> server) option" where
  "create_reply e w encode sv who rp =
     (let wid = ag_wave_id (ai_token who)
      in map_option (\<lambda>(found, sv). case found of
           Err r \<Rightarrow> (r, sv)
         | Ok a \<Rightarrow>
             let (r, sv, live) = create_reply_locked e w encode who rp wid sv (sv_heap sv a)
             in (r, sv\<lparr>sv_heap := (sv_heap sv)(a := live)\<rparr>)) (open_current e sv wid))"

definition reply_well_formed :: "reply_request \<Rightarrow> bool" where
  "reply_well_formed rp =
     (\<not> (rp_request_id rp = [] \<or> str_len (rp_request_id rp) > 100
        \<or> \<not> list_all (\<lambda>b. is_ascii_alphanumeric b \<or> b = 45 \<or> b = 95) (as_bytes (rp_request_id rp))
        \<or> (case rp_parent rp of Some i \<Rightarrow> \<not> valid_id (blip_id_str i) (lit ''b-'') | None \<Rightarrow> False)
        \<or> rp_text rp = [] \<or> utf16_len (rp_text rp) > MAX_BLIP_UNITS))"

definition agent_reply ::
  "env \<Rightarrow> web \<Rightarrow> (reply_request \<Rightarrow> ustring) \<Rightarrow> server \<Rightarrow> agent_identity \<Rightarrow> reply_request \<Rightarrow> (agent_response \<times> server) option" where
  "agent_reply e w encode sv who rp =
     (if ag_scope (ai_token who) \<noteq> ScopeReply
      then Some (agent_error 403 (lit ''forbidden'') (lit ''This credential permits reading only.''), sv)
      else if \<not> reply_well_formed rp
      then Some (Refused (bad_request (lit ''Use a requestId of 1'' @ [0x2013] @ lit ''100 letters, digits, hyphens or underscores, a valid parent id, and non-empty text within the document limit.'')), sv)
      else
        let (allowed, sv) = check_command_rate sv (wb_instant w 0) (ag_user_id (ai_token who))
              (CreateBlip (ag_wavelet_id (ai_token who)) (rp_parent rp) None)
        in if \<not> allowed then Some (rate_limited, sv)
           else map_option (\<lambda>(r, sv). (r, maybe_evict sv (ag_wave_id (ai_token who)))) (create_reply e w encode sv who rp))"

end
