(* ===== verification/Gal_Surface.thy ===== *)
theory Gal_Surface
  imports Gal_Agent
begin

text \<open>
  What requests over HTTP do to waves. Accounts, sessions, uploads, single sign-on and agent
  credentials leave the waves alone, in memory and in storage, and the table of connections; a reply of an agent is one more
  body that runs under the lock of a wave and meets the contract of such bodies, so it is a
  step that changes nobody's membership. The loop in which the reply opens its wave ends as soon
  as no resident wave is marked as evicted.
\<close>

section \<open>Requests that leave the waves alone\<close>

definition outside :: "server \<Rightarrow> server \<Rightarrow> bool" where
  "outside sv sv' \<longleftrightarrow> sv_heap sv' = sv_heap sv \<and> sv_waves sv' = sv_waves sv \<and> sv_next_addr sv' = sv_next_addr sv
     \<and> st_wavelets (sv_store sv') = st_wavelets (sv_store sv) \<and> st_participants (sv_store sv') = st_participants (sv_store sv)
     \<and> st_waves (sv_store sv') = st_waves (sv_store sv) \<and> st_blips (sv_store sv') = st_blips (sv_store sv)
     \<and> sv_conns sv' = sv_conns sv \<and> sv_user_conns sv' = sv_user_conns sv \<and> sv_next_conn_id sv' = sv_next_conn_id sv
     \<and> (distinct (map user_id (st_users (sv_store sv))) \<longrightarrow> distinct (map user_id (st_users (sv_store sv'))))"

lemma outside_refl [simp]: "outside sv sv"
  by (simp add: outside_def)

lemma outside_trans: "outside sv sv1 \<Longrightarrow> outside sv1 sv' \<Longrightarrow> outside sv sv'"
  by (simp add: outside_def)

lemma outside_served:
  assumes "outside sv sv'" "server_inv sv"
  shows "served_step u sv sv'"
proof -
  have eq: "st_wavelets (sv_store sv') = st_wavelets (sv_store sv)" "st_participants (sv_store sv') = st_participants (sv_store sv)"
    "st_waves (sv_store sv') = st_waves (sv_store sv)"
    and us: "distinct (map user_id (st_users (sv_store sv))) \<Longrightarrow> distinct (map user_id (st_users (sv_store sv')))"
    using assms(1) by (simp_all add: outside_def)
  have circ: "stored_circles (sv_store sv') wid = stored_circles (sv_store sv) wid"
    and wave: "db_wave (sv_store sv') wid = db_wave (sv_store sv) wid" for wid
    by (simp_all add: stored_circles_def circle_of_def member_def db_wave_def eq)
  have "members_ok (sv_store sv')" using assms(2) us by (simp add: server_inv_def members_ok_def circ keys_ok_def eq)
  moreover have "coherent {} resident_ok sv'"
    by (rule coherent_cong [of _ sv]) (use assms in \<open>simp_all add: outside_def server_inv_def resident_ok_def circ wave\<close>)
  ultimately show ?thesis using wave circ
    by (intro served_stepI) (simp add: member_step_def rules_same)
qed

text \<open>The pieces the handlers are made of.\<close>

lemma outside_limiters [simp]:
  "outside sv (snd (check_auth_rate sv t peer fwd trust))" "outside sv (snd (check_lookup_rate sv t peer fwd trust))"
  "outside sv (snd (check_command_rate sv t u c))" "outside sv (snd (account_is_throttled lower sv t name))"
  "outside sv (note_failed_signin lower sv t name)"
  by (simp_all add: outside_def check_auth_rate_def check_lookup_rate_def check_command_rate_def account_is_throttled_def
      note_failed_signin_def case_prod_beta' Let_def)

lemma outside_kill [simp]: "outside sv (kill_conns sv1 u P) = outside sv sv1"
  by (simp add: outside_def kill_conns_def)

lemma outside_limited:
  assumes "auth_limited w sv rq k = (r, sv')" "\<And>sv1 r sv'. k sv1 = (r, sv') \<Longrightarrow> outside sv1 sv'"
  shows "outside sv sv'"
proof -
  obtain b sv1 where c: "check_auth_rate sv (wb_instant w 0) (rq_peer rq) (rq_forwarded rq)
      (cf_trust_forwarded_for (wb_config w)) = (b, sv1)" by fastforce
  have "outside sv sv1" using outside_limiters(1) [of sv] by (metis c snd_conv)
  moreover have "outside sv1 sv'" using assms c by (auto simp: auth_limited_def split: if_splits)
  ultimately show ?thesis by (rule outside_trans)
qed

lemma distinct_ids_update: "map user_id (map (\<lambda>x. if user_id x = u then x\<lparr>user_password_hash := h\<rparr> else x) us) = map user_id us"
  by simp

lemma stored_accounts:
  "db_create_session ts st u h = Ok st' \<Longrightarrow> outside sv (sv1\<lparr>sv_store := st'\<rparr>) = outside sv (sv1\<lparr>sv_store := st\<rparr>)"
  "outside sv (sv1\<lparr>sv_store := delete_agent_tokens P st\<rparr>) = outside sv (sv1\<lparr>sv_store := st\<rparr>)"
  "outside sv (sv1\<lparr>sv_store := db_delete_session st h\<rparr>) = outside sv (sv1\<lparr>sv_store := st\<rparr>)"
  by (auto simp: db_create_session_def outside_def delete_agent_tokens_def db_delete_session_def split: if_splits)

lemma stored_same [simp]: "outside sv (sv\<lparr>sv_store := sv_store sv\<rparr>)"
  by (simp add: outside_def)

lemma stored_user:
  assumes "db_create_user ts uuid (sv_store sv) name disp email h = Ok (u, st')"
  shows "outside sv (sv\<lparr>sv_store := st'\<rparr>)"
  using assms by (auto simp: db_create_user_def insert_user_def outside_def Let_def bind_result_Ok_iff list_ex_iff split: if_splits) blast

lemma stored_identity:
  assumes "db_user_for_oauth_identity ts uuid (sv_store sv) iss sub hint disp = Ok (out, st')"
  shows "outside sv (sv\<lparr>sv_store := st'\<rparr>)"
proof (cases "identity_user_of (sv_store sv) iss sub")
  case None
  then obtain name u st1 where u: "db_create_user ts uuid (sv_store sv) name disp [] (lit ''!'') = Ok (u, st1)"
    and i: "insert_identity st1 \<lparr>oi_issuer = iss, oi_subject = sub, oi_user_id = user_id u, oi_created_at = user_created_at u\<rparr> = Ok st'"
    using assms by (auto simp: db_user_for_oauth_identity_def bind_result_Ok_iff split: option.splits)
  from i have "outside (sv\<lparr>sv_store := st1\<rparr>) (sv\<lparr>sv_store := st'\<rparr>)"
    by (auto simp: insert_identity_def outside_def split: if_splits)
  with stored_user [OF u] show ?thesis by (rule outside_trans)
qed (use assms in \<open>auto simp: db_user_for_oauth_identity_def outside_def\<close>)

text \<open>The handlers.\<close>

lemma issue_session_outside: "issue_session e w sv u = (r, sv') \<Longrightarrow> outside sv sv'"
  by (erule issue_session_cases) (auto simp: stored_accounts(1))

lemma register_outside: "register e w sv rq name disp pass = (r, sv') \<Longrightarrow> outside sv sv'"
  unfolding register_def
  by (erule outside_limited)
     (auto split: sum.splits if_splits option.splits intro: outside_trans [OF stored_user issue_session_outside])

lemma login_outside:
  assumes "login e w sv rq name pass = (r, sv')"
  shows "outside sv sv'"
  using assms unfolding login_def
proof (rule outside_limited)
  fix sv0 r sv'
  obtain b1 sv1 where t1: "account_is_throttled (env_lowercase e) sv0 (wb_instant w 1) name = (b1, sv1)" by fastforce
  obtain b2 sv2 where t2: "account_is_throttled (env_lowercase e) sv1 (wb_instant w 2) name = (b2, sv2)" by fastforce
  have o1: "outside sv0 sv1" and o2: "outside sv1 sv2" using outside_limiters(4) by (metis t1 snd_conv, metis t2 snd_conv)
  assume "(let (throttled, sv) = account_is_throttled (env_lowercase e) sv0 (wb_instant w 1) name
       in if throttled then (wrong_password, sv)
          else if \<not> env_read e then (server_error, sv)
          else
            let known = db_user_by_name (env_lowercase e) (sv_store sv) (trim name);
                hash = (case known of Some u \<Rightarrow> user_password_hash u | None \<Rightarrow> DUMMY_HASH)
            in if \<not> wb_work w then (server_error, sv)
               else
                 let (throttled, sv) = account_is_throttled (env_lowercase e) sv (wb_instant w 2) name
                 in if throttled then (wrong_password, sv)
                    else case (password_matches w pass hash, known) of
                      (True, Some u) \<Rightarrow> issue_session e w sv u
                    | _ \<Rightarrow> (wrong_password, note_failed_signin (env_lowercase e) sv (wb_instant w 3) name)) = (r, sv')"
  then have "sv' = sv1 \<or> sv' = sv2 \<or> (\<exists>u. issue_session e w sv2 u = (r, sv'))
      \<or> sv' = note_failed_signin (env_lowercase e) sv2 (wb_instant w 3) name"
    by (auto simp: t1 t2 Let_def simp del: One_nat_def split: if_splits bool.splits option.splits)
  with o1 o2 outside_trans [OF o1 o2] show "outside sv0 sv'"
    by (auto intro: outside_trans issue_session_outside outside_limiters(5))
qed

lemma sessions_outside:
  "logout w sv who = (r, sv') \<Longrightarrow> outside sv sv'"
  "sign_out_everywhere w sv who = (r, sv') \<Longrightarrow> outside sv sv'"
  "upload_attachment e w sv who i name bytes = (r, sv') \<Longrightarrow> outside sv sv'"
  "lookup_handler e w sv rq name = (r, sv') \<Longrightarrow> outside sv sv'"
proof -
  show "logout w sv who = (r, sv') \<Longrightarrow> outside sv sv'" "sign_out_everywhere w sv who = (r, sv') \<Longrightarrow> outside sv sv'"
    by (auto simp: logout_def sign_out_everywhere_def Let_def db_revoke_other_sessions_def disconnect_session_def
        disconnect_other_sessions_def stored_accounts split: if_splits) (simp_all add: outside_def)
  show "upload_attachment e w sv who i name bytes = (r, sv') \<Longrightarrow> outside sv sv'"
    by (erule upload_cases) (simp_all add: outside_def)
  show "lookup_handler e w sv rq name = (r, sv') \<Longrightarrow> outside sv sv'"
    by (auto simp: lookup_handler_def case_prod_beta' Let_def split: if_splits option.splits)
qed

lemma change_password_outside: "change_password e w sv rq who old new = (r, sv') \<Longrightarrow> outside sv sv'"
  unfolding change_password_def
  by (erule outside_limited)
     (auto simp: Let_def disconnect_other_sessions_def db_change_password_def stored_accounts comp_def if_distrib [of user_id]
       split: sum.splits if_splits option.splits, simp_all add: outside_def comp_def if_distrib [of user_id] cong: if_cong)

lemma oauth_sign_in_outside:
  assumes "oauth_sign_in e w sv ep claims = (r, sv')"
  shows "outside sv sv'"
proof -
  let ?db = "db_user_for_oauth_identity (env_now e 0) (env_uuid e 0) (sv_store sv) (ep_issuer ep) (ui_sub claims)
    (name_hint e claims) (display_hint e claims)"
  have "sv' = sv \<or> (\<exists>out st. ?db = Ok (out, st) \<and> (sv' = sv\<lparr>sv_store := st\<rparr> \<or>
      (\<exists>st' ts u h. db_create_session ts st u h = Ok st' \<and> sv' = sv\<lparr>sv_store := st'\<rparr>)))"
    using assms by (force simp: oauth_sign_in_def Let_def split: sum.splits if_splits)
  then show ?thesis using stored_identity stored_accounts(1) by (metis outside_refl)
qed

lemma oauth_outside:
  "oauth_start w pv sv od rq = (r, sv', od') \<Longrightarrow> outside sv sv'"
  "oauth_callback e w pv sv od rq q = (r, sv', od') \<Longrightarrow> outside sv sv'"
proof -
  show "oauth_start w pv sv od rq = (r, sv', od') \<Longrightarrow> outside sv sv'"
    by (auto simp: oauth_start_def case_prod_beta' Let_def split: option.splits if_splits)
  let ?rate = "check_auth_rate sv (wb_instant w 0) (rq_peer (anonymous rq)) (rq_forwarded rq) (cf_trust_forwarded_for (wb_config w))"
  obtain b sv1 where c: "?rate = (b, sv1)" by fastforce
  then have o: "outside sv sv1" using outside_limiters(1) by (metis snd_conv)
  assume "oauth_callback e w pv sv od rq q = (r, sv', od')"
  then have "sv' = sv \<or> sv' = sv1 \<or> (\<exists>ep claims. oauth_sign_in e w sv1 ep claims = (r, sv'))"
    using c by (auto simp: oauth_callback_def Let_def split: option.splits if_splits prod.splits)
  then show "outside sv sv'" using o by (auto intro: outside_trans oauth_sign_in_outside)
qed

lemma agent_outside:
  "create_token e w sv who i label scope expires = (a, sv') \<Longrightarrow> outside sv sv'"
  "revoke_token w sv who j = (a, sv') \<Longrightarrow> outside sv sv'"
  "context_handler e w sv ag after limit units = (a, sv') \<Longrightarrow> outside sv sv'"
proof -
  let ?rate = "check_command_rate sv (wb_instant w 0) (user_id (identity_user who)) (Open (WaveId []))"
  obtain b sv1 where c: "?rate = (b, sv1)" by fastforce
  then have o: "outside sv sv1" using outside_limiters(3) by (metis snd_conv)
  assume t: "create_token e w sv who i label scope expires = (a, sv')"
  have "sv' = sv \<or> sv' = sv1 \<or> (\<exists>t h ok st. db_create_agent_token (sv_store sv1) t h = Ok (ok, st) \<and> sv' = sv1\<lparr>sv_store := st\<rparr>)"
    using t c by (auto simp: create_token_def Let_def split: if_splits sum.splits option.splits bool.splits) blast
  moreover have "outside sv1 (sv1\<lparr>sv_store := st\<rparr>)" if "db_create_agent_token (sv_store sv1) t h = Ok (ok, st)" for t h ok st
    using that by (auto simp: db_create_agent_token_def outside_def split: if_splits)
  ultimately show "outside sv sv'" using o outside_trans outside_refl by blast
next
  show "revoke_token w sv who j = (a, sv') \<Longrightarrow> outside sv sv'"
    by (auto simp: revoke_token_def db_revoke_agent_token_def Let_def stored_accounts split: if_splits)
  show "context_handler e w sv ag after limit units = (a, sv') \<Longrightarrow> outside sv sv'"
    by (auto simp: context_handler_def case_prod_beta' Let_def split: if_splits option.splits sum.splits)
qed

text \<open>A request that is not an agent's reply.\<close>

inductive web_step :: "server \<Rightarrow> server \<Rightarrow> bool" where
  ws_register: "register e w sv rq name disp pass = (r, sv') \<Longrightarrow> web_step sv sv'"
| ws_login: "login e w sv rq name pass = (r, sv') \<Longrightarrow> web_step sv sv'"
| ws_logout: "logout w sv who = (r, sv') \<Longrightarrow> web_step sv sv'"
| ws_sign_out: "sign_out_everywhere w sv who = (r, sv') \<Longrightarrow> web_step sv sv'"
| ws_password: "change_password e w sv rq who old new = (r, sv') \<Longrightarrow> web_step sv sv'"
| ws_lookup: "lookup_handler e w sv rq name = (r, sv') \<Longrightarrow> web_step sv sv'"
| ws_upload: "upload_attachment e w sv who i name bytes = (r, sv') \<Longrightarrow> web_step sv sv'"
| ws_sso_start: "oauth_start w pv sv od rq = (r, sv', od') \<Longrightarrow> web_step sv sv'"
| ws_sso_callback: "oauth_callback e w pv sv od rq q = (r, sv', od') \<Longrightarrow> web_step sv sv'"
| ws_create_token: "create_token e w sv who i label scope expires = (a, sv') \<Longrightarrow> web_step sv sv'"
| ws_revoke_token: "revoke_token w sv who j = (a, sv') \<Longrightarrow> web_step sv sv'"
| ws_context: "context_handler e w sv ag after limit units = (a, sv') \<Longrightarrow> web_step sv sv'"

lemma web_step_outside: "web_step sv sv' \<Longrightarrow> outside sv sv'"
  by (induction rule: web_step.induct)
     (auto intro: register_outside login_outside sessions_outside change_password_outside oauth_outside agent_outside)

section \<open>An agent's reply\<close>

text \<open>The reply as a body that runs under the lock of its wave.\<close>

definition reply_body ::
  "env \<Rightarrow> web \<Rightarrow> (reply_request \<Rightarrow> ustring) \<Rightarrow> agent_identity \<Rightarrow> reply_request \<Rightarrow> wave_id \<Rightarrow> server \<Rightarrow> live_wave \<Rightarrow>
   unit reply \<times> server \<times> live_wave" where
  "reply_body e w encode who rp wid sv live = (Ok (), snd (create_reply_locked e w encode who rp wid sv live))"

lemma create_agent_reply_shape: "db_create_agent_reply ts st h i rh b = Ok (ok, st') \<Longrightarrow> shape st' = shape st"
  by (auto simp: db_create_agent_reply_def insert_agent_reply_def bind_result_Ok_iff shape_def
      dest!: insert_seeded_blip_shape [unfolded shape_def] split: option.splits if_splits)

lemma reply_quiet: "reply_body e w encode who rp wid sv live = (r, sv', live') \<Longrightarrow> quiet sv live sv' live'"
  by (auto simp: reply_body_def create_reply_locked_def publish_blip_def quiet_defs split: sum.splits if_splits option.splits bool.splits
      intro!: calm_rules dest: create_agent_reply_shape)

interpretation agent_reply: locked_body members_ok resident_ok "member_step u" "reply_body e w encode who rp"
  for u e w encode who rp by (rule quiet_body) (rule reply_quiet)

lemma open_current_once:
  assumes "server_inv sv" "open_resident e sv wid = (r, sv1)"
  shows "open_current e sv wid = Some (case r of Ok (Some a) \<Rightarrow> Ok a | Ok None \<Rightarrow> Err no_wavelet | Err _ \<Rightarrow> Err (Refused server_error), sv1)"
proof -
  have "members_ok (sv_store sv)" "coherent {} resident_ok sv" using assms(1) by (simp_all add: server_inv_def)
  note c = members.open_resident_coherent [OF assms(2) this(2,1)]
  have "\<not> lw_evicted (sv_heap sv1 a)" if "r = Ok (Some a)" for a
    using c that coherentD(3) [of "{}" resident_ok sv1 wid a] by (simp add: resident_ok_def)
  then show ?thesis
    by (subst open_current.simps) (auto simp: assms(2) split: sum.split option.split)
qed

lemma create_reply_cases:
  fixes who :: agent_identity
  defines "wid \<equiv> ag_wave_id (ai_token who)"
  assumes "server_inv sv"
  obtains (unopened) r sv1 where "create_reply e w encode sv who rp = Some (Refused r, sv1)" "server_inv sv1" "sv_store sv1 = sv_store sv"
      "\<nexists>a. fst (open_resident e sv wid) = Ok (Some a)"
  | (locked) a sv1 r sv2 live2 where "open_resident e sv wid = (Ok (Some a), sv1)" "server_inv sv1"
      "sv_store sv1 = sv_store sv" "map_of (sv_waves sv1) wid = Some a"
      "create_reply_locked e w encode who rp wid sv1 (sv_heap sv1 a) = (r, sv2, live2)"
      "create_reply e w encode sv who rp = Some (r, sv2\<lparr>sv_heap := (sv_heap sv2)(a := live2)\<rparr>)"
proof -
  obtain found sv1 where o: "open_resident e sv wid = (found, sv1)" by fastforce
  have ok: "members_ok (sv_store sv)" "coherent {} resident_ok sv" using assms(2) by (simp_all add: server_inv_def)
  note c = members.open_resident_coherent [OF o ok(2,1)] and once = open_current_once [OF assms(2) o]
  then have inv: "server_inv sv1" using ok by (simp add: server_inv_def)
  show thesis
  proof (cases "\<exists>a. found = Ok (Some a)")
    case True
    then obtain a where a: "found = Ok (Some a)" by blast
    obtain r sv2 live2 where b: "create_reply_locked e w encode who rp wid sv1 (sv_heap sv1 a) = (r, sv2, live2)"
      by (cases "create_reply_locked e w encode who rp wid sv1 (sv_heap sv1 a)") auto
    from locked [OF _ inv _ _ b] o a c b once show thesis by (simp add: create_reply_def wid_def)
  next
    case False
    then obtain r where "(case found of Ok (Some a) \<Rightarrow> Ok a | Ok None \<Rightarrow> Err no_wavelet | Err _ \<Rightarrow> Err (Refused server_error)) = Err (Refused r)"
      by (cases found) (auto simp: no_wavelet_def split: option.splits)
    with unopened [OF _ inv] c once o False show thesis by (simp add: create_reply_def wid_def)
  qed
qed

text \<open>A reply is always answered, and is a step that changes nobody's membership.\<close>

lemma create_reply_served:
  assumes "server_inv sv"
  shows "\<exists>r sv'. create_reply e w encode sv who rp = Some (r, sv') \<and> served_step u sv sv'"
  using assms
proof (cases rule: create_reply_cases [of _ e w encode who rp])
  case (unopened r sv1)
  then have "served_step u sv sv1" by (simp add: served_step_def member_step_refl)
  with unopened(1) show ?thesis by blast
next
  case (locked a sv1 r sv2 live2)
  let ?sv = "sv2\<lparr>sv_heap := (sv_heap sv2)(a := live2)\<rparr>"
  have run: "run_locked (reply_body e w encode who rp (ag_wave_id (ai_token who))) sv1 a = (Ok (), ?sv)"
    using locked(5) by (simp add: run_locked_def reply_body_def)
  have "members_ok (sv_store sv1)" "coherent {} resident_ok sv1" using locked(2) by (simp_all add: server_inv_def)
  from agent_reply.run_coherent [OF run this(2,1) locked(4)] locked(3)
  have "served_step u sv ?sv" by (intro served_stepI) simp
  with locked(6) show ?thesis by blast
qed

lemma agent_reply_served:
  assumes "server_inv sv"
  shows "\<exists>r sv'. agent_reply e w encode sv who rp = Some (r, sv') \<and> served_step u sv sv'"
proof -
  let ?c = "CreateBlip (ag_wavelet_id (ai_token who)) (rp_parent rp) None"
  obtain allowed sv1 where rate: "check_command_rate sv (wb_instant w 0) (ag_user_id (ai_token who)) ?c = (allowed, sv1)" by fastforce
  then have o: "outside sv sv1" using outside_limiters(3) by (metis snd_conv)
  then have st: "served_step u sv sv1" "sv_store sv1 = sv_store sv"
    using outside_served [OF _ assms] rate by (auto simp: check_command_rate_def case_prod_beta' Let_def)
  then have inv: "server_inv sv1" by (simp add: served_step_def)
  obtain r sv2 where "create_reply e w encode sv1 who rp = Some (r, sv2)" "served_step u sv1 sv2"
    using create_reply_served [OF inv] by blast
  moreover from this(2) have "served_step u sv sv2" by (simp add: served_step_def st(2))
  ultimately show ?thesis
    using rate st(1) maybe_evict_served served_refl [OF assms] by (auto simp: agent_reply_def)
qed

end
