(* ===== verification/Gal_Safety.thy ===== *)
theory Gal_Safety
  imports Gal_Surface
begin

text \<open>
  The states the server can reach, and what holds in all of them. A step is a command of any
  session, a request over HTTP, an agent's reply, a panic, the end of a connection, a new
  connection, a timer, or a message leaving a queue; sessions, identities and credentials are
  arbitrary, so nothing is assumed about what clients send.
\<close>

section \<open>Reachable states\<close>

text \<open>
  A panic may leave storage before or after the write of the command and the resident copies
  of the waves its connection has open, or the agent's credential is for, in any state; other
  resident waves are untouched.
\<close>

definition addresses :: "server \<Rightarrow> wave_id list \<Rightarrow> nat set" where
  "addresses sv ws = {a. \<exists>w \<in> set ws. map_of (sv_waves sv) w = Some a}"

text \<open>Storage and memory after a panic that may have touched the waves \<open>ws\<close>.\<close>

definition damaged :: "wave_id list \<Rightarrow> server \<Rightarrow> server \<Rightarrow> bool" where
  "damaged ws sv sv' \<longleftrightarrow> members_ok (sv_store sv') \<and> sv_waves sv' = sv_waves sv \<and> sv_next_addr sv' = sv_next_addr sv
     \<and> (\<forall>wid. wid \<notin> set ws \<and> map_of (sv_waves sv) wid \<noteq> None \<longrightarrow>
          stored_circles (sv_store sv') wid = stored_circles (sv_store sv) wid
          \<and> db_wave (sv_store sv') wid = db_wave (sv_store sv) wid)
     \<and> (\<forall>a. a \<notin> addresses sv ws \<longrightarrow> sv_heap sv' a = sv_heap sv a)"

inductive reachable :: "server \<Rightarrow> bool" where
  start: "members_ok st \<Longrightarrow> reachable (app_new t st heap ch)"
| command: "reachable sv \<Longrightarrow> handle_command e t sv ss c = (sv', ss') \<Longrightarrow> reachable sv'"
| web: "reachable sv \<Longrightarrow> web_step sv sv' \<Longrightarrow> reachable sv'"
| agent: "reachable sv \<Longrightarrow> agent_reply e w encode sv who rp = Some (r, sv') \<Longrightarrow> reachable sv'"
| panic: "reachable sv \<Longrightarrow> damaged (ss_subscribed ss) sv sv' \<Longrightarrow> reachable (contain_panic sv' ss)"
| reply_panic: "reachable sv \<Longrightarrow> damaged [wid] sv sv' \<Longrightarrow> reachable (evict_after_panic sv' wid)"
| connect: "reachable sv \<Longrightarrow> register_conn sv u chan limit token = (r, sv') \<Longrightarrow> reachable sv'"
| close: "reachable sv \<Longrightarrow> reachable (close_connection e sv ss)"
| timer: "reachable sv \<Longrightarrow> reachable (inbox_timer e sv wid)"
| drain: "reachable sv \<Longrightarrow> reachable (sv\<lparr>sv_chans := ch\<rparr>)"
| shutdown: "reachable sv \<Longrightarrow> reachable (begin_shutdown sv)"

lemma aside_trans: "aside sv sv1 \<Longrightarrow> aside sv1 sv' \<Longrightarrow> aside sv sv'"
  by (simp add: aside_def)

lemma aside_foldl:
  assumes "\<And>sv x. aside sv (f sv x)"
  shows "aside sv (foldl f sv xs)"
proof (induction xs arbitrary: sv)
  case (Cons x xs)
  from aside_trans [OF assms Cons] show ?case by simp
qed (simp add: aside_def)

lemma inbox_timer_aside: "aside sv (inbox_timer e sv wid)"
proof -
  let ?sv = "sv\<lparr>sv_inbox_pending := filter (\<lambda>w. w \<noteq> wid) (sv_inbox_pending sv)\<rparr>"
  have "aside ?sv (push_inbox_update e ?sv wid)"
    by (simp add: push_inbox_update_def, intro conjI impI aside_foldl)
       (simp_all add: aside_def send_to_user_def split: option.split)
  then show ?thesis unfolding inbox_timer_def by (rule aside_trans [rotated]) (simp add: aside_def)
qed

lemma register_conn_aside: "register_conn sv u chan limit token = (r, sv') \<Longrightarrow> aside sv sv'"
  by (auto simp: register_conn_def Let_def aside_def split: if_splits)

lemma unregister_conn_aside: "aside sv (unregister_conn sv i)"
  by (simp add: unregister_conn_def Let_def aside_def split: option.split)

lemma handle_command_served:
  assumes "handle_command e t sv ss c = (sv', ss')" "server_inv sv"
  shows "served_step (ss_uid ss) sv sv'"
proof -
  obtain allowed sv1 where rate: "check_command_rate sv t (ss_uid ss) c = (allowed, sv1)"
    by (cases "check_command_rate sv t (ss_uid ss) c")
  then have aside: "aside sv sv1" by (auto simp: check_command_rate_def case_prod_beta' Let_def aside_def)
  then have inv: "server_inv sv1" using aside_inv assms(2) by blast
  obtain r sv2 ss2 where d: "dispatch e sv1 ss c = (r, sv2, ss2)" by (cases "dispatch e sv1 ss c") auto
  have "served_step (ss_uid ss) sv1 sv'"
    using assms(1) rate d dispatch_served [OF d inv] aside_step [OF dispatch_served [OF d inv] session_send_aside]
      aside_served [OF inv session_send_aside]
    by (auto simp: handle_command_def split: sum.splits if_splits)
  with aside show ?thesis by (simp add: served_step_def aside_def)
qed

lemma close_connection_inv:
  assumes "server_inv sv"
  shows "server_inv (close_connection e sv ss)"
proof -
  have "server_inv (fst (foldl (\<lambda>(sv, ss) w. leave_wave e sv ss w) (sv, ss) ws))" if "server_inv sv" for sv ss ws
    using that
  proof (induction ws arbitrary: sv ss)
    case (Cons w ws)
    obtain sv1 ss1 where l: "leave_wave e sv ss w = (sv1, ss1)" by (cases "leave_wave e sv ss w")
    from leave_wave_served [OF l Cons.prems] have "server_inv sv1" by (simp add: served_step_def)
    from Cons.IH [OF this, of ss1] l show ?case by simp
  qed simp
  from this [OF assms] aside_inv [OF unregister_conn_aside] show ?thesis by (simp add: close_connection_def)
qed

lemma evict_all_coherent:
  "coherent W ok sv \<Longrightarrow> coherent (W - set ws) ok (foldl evict_after_panic sv ws)
     \<and> sv_store (foldl evict_after_panic sv ws) = sv_store sv"
proof (induction ws arbitrary: W sv)
  case (Cons w ws)
  from Cons.IH [OF evict_after_panic_coherent(1) [OF Cons.prems, of w]] evict_after_panic_coherent(2) [OF Cons.prems, of w]
  show ?case by (simp add: Diff_insert [symmetric] set_diff_eq Diff_eq)
qed simp

lemma damage_contained:
  assumes "server_inv sv" "damaged ws sv sv'"
  shows "server_inv (foldl evict_after_panic sv' ws)"
proof -
  have c: "coherent {} resident_ok sv" using assms(1) by (simp add: server_inv_def)
  have "resident_ok (sv_store sv') wid (sv_heap sv' a)" if a: "map_of (sv_waves sv) wid = Some a" "wid \<notin> set ws" for wid a
  proof -
    have "a \<notin> addresses sv ws" using coherentD(2) [OF c a(1)] a(2) by (auto simp: addresses_def)
    with assms(2) have "sv_heap sv' a = sv_heap sv a" by (simp add: damaged_def)
    with coherentD(3) [OF c a(1)] assms(2) a show ?thesis by (simp add: resident_ok_def damaged_def)
  qed
  then have "coherent (set ws) resident_ok sv'" using c assms(2) by (auto simp: coherent_def damaged_def)
  from evict_all_coherent [OF this, of ws] assms(2) show ?thesis by (simp add: server_inv_def damaged_def)
qed

lemma reachable_inv: "reachable sv \<Longrightarrow> server_inv sv"
proof (induction rule: reachable.induct)
  case (start st t heap ch)
  then show ?case by (simp add: server_inv_def app_new_def coherent_def)
next
  case (command sv e t ss c sv' ss')
  from handle_command_served [OF command(2,3)] show ?case by (simp add: served_step_def)
next
  case (web sv sv')
  from outside_served [OF web_step_outside [OF web(2)] web(3)] show ?case by (simp add: served_step_def)
next
  case (agent sv e w encode who rp r sv')
  from agent_reply_served [OF agent(3), of e w encode who rp] agent(2) show ?case by (auto simp: served_step_def)
next
  case (panic sv ss sv')
  from damage_contained [OF panic(3,2)] show ?case
    unfolding contain_panic_def using aside_inv [OF session_send_aside] by blast
next
  case (reply_panic sv wid sv')
  from damage_contained [OF reply_panic(3,2)] show ?case by simp
next
  case (connect sv u chan limit token r sv')
  with aside_inv [OF register_conn_aside] show ?case by blast
next
  case (timer sv e wid)
  with aside_inv [OF inbox_timer_aside] show ?case by blast
next
  case (close sv e ss)
  then show ?case by (simp add: close_connection_inv)
next
  case (drain sv ch)
  then show ?case using aside_inv [of sv "sv\<lparr>sv_chans := ch\<rparr>"] by (simp add: aside_def)
next
  case (shutdown sv)
  then show ?case using aside_inv [of sv "begin_shutdown sv"] by (simp add: aside_def begin_shutdown_def)
qed

section \<open>Reading the invariant\<close>

lemma reachable_members: "reachable sv \<Longrightarrow> members_ok (sv_store sv)"
  using reachable_inv by (simp add: server_inv_def)

lemma reachable_resident:
  "reachable sv \<Longrightarrow> map_of (sv_waves sv) wid = Some a \<Longrightarrow> resident_ok (sv_store sv) wid (sv_heap sv a)"
  using reachable_inv coherentD(3) by (fastforce simp: server_inv_def)

lemma resident_access:
  assumes "keys_ok st" "resident_ok st wid live" "w \<in> set (st_wavelets st)" "wl_wave_id w = wid"
  shows "may_access live u (wl_id w) = member st u (wl_id w)"
proof -
  have circ: "live_circles live = stored_circles st wid" and ids: "distinct (map wl_id (lw_wavelets live))"
    using assms(2) by (simp_all add: resident_ok_def)
  have "circle_of st w \<in> stored_circles st wid" using assms(3,4) by (simp add: stored_circles_def)
  moreover have "ci_members c = {u. member st u (ci_id c)}" if "c \<in> stored_circles st wid" for c
    using that by (auto simp: stored_circles_def)
  ultimately show ?thesis
    unfolding may_access_circle [OF ids] circ by (metis circle_of_fields(1) mem_Collect_eq)
qed

lemma participant_circle: "db_is_participant st u wid \<longleftrightarrow> (\<exists>c \<in> stored_circles st wid. u \<in> ci_members c)"
  by (auto simp: db_is_participant_def wave_participant_rows_def list_ex_iff stored_circles_def member_iff)

lemma stored_circle_iff:
  assumes "keys_ok st" "w \<in> set (st_wavelets st)"
  shows "circle_of st w \<in> stored_circles st wid \<longleftrightarrow> wl_wave_id w = wid"
proof
  assume "circle_of st w \<in> stored_circles st wid"
  then obtain v where "v \<in> set (st_wavelets st)" "wl_wave_id v = wid" "circle_of st w = circle_of st v"
    by (auto simp: stored_circles_def)
  then show "wl_wave_id w = wid" using wl_id_inj [OF assms(1,2)] by (metis circle_of_fields(1))
qed (use assms(2) in \<open>simp add: stored_circles_def\<close>)

text \<open>Somebody who is not in the conversation is nowhere in the wave.\<close>

lemma outsider:
  assumes "confined R" "rooted R" "c \<in> R" "ci_kind c = Conversation" "u \<notin> ci_members c" "inj_on ci_id R"
  shows "\<forall>d \<in> R. u \<notin> ci_members d"
proof (intro ballI notI)
  fix d assume "d \<in> R" "u \<in> ci_members d"
  from confinedD [OF assms(1) this] obtain k where k: "k \<in> R" "ci_kind k = Conversation" "u \<in> ci_members k" by blast
  with assms(2-4) have "ci_id k = ci_id c" unfolding rooted_def by blast
  with assms(3,6) k(1) have "k = c" by (blast dest: inj_onD)
  with assms(5) k(3) show False by simp
qed

lemma remove_participant_done:
  assumes "remove_participant_locked e ss i u wid sv live = (Ok (), sv', live')" "members_ok (sv_store sv)"
    "resident_ok (sv_store sv) wid live"
  shows "\<not> member (sv_store sv') u i"
proof -
  have "\<not> member (sv_store sv) u i" if w: "find_live_wavelet live i = Some w" "u \<notin> set (wl_participants w)" for w
  proof -
    note c = found_circle [OF assms(3) w(1)]
    then show ?thesis using w(2) by (auto simp: stored_circles_def circle_of_def live_circle_def)
  qed
  moreover have "sv_store sv' = db_remove_participant (sv_store sv) i u \<or>
      (\<exists>w. sv_store sv' = sv_store sv \<and> find_live_wavelet live i = Some w \<and> u \<notin> set (wl_participants w))"
    using assms(1)
    by (cases "find_live_wavelet live i")
       (auto simp: remove_participant_locked_def may_access_def frame_defs list_ex_iff split: if_splits)
  ultimately show ?thesis by (auto simp: member_remove)
qed

section \<open>A sample run\<close>

definition sample_session :: "user_id \<Rightarrow> nat \<Rightarrow> session" where
  "sample_session u c = \<lparr>ss_conn_id = c, ss_user = \<lparr>user_id = u, user_name = [], user_display_name = [], user_email = [],
     user_password_hash = [], user_color = 0, user_created_at = 0\<rparr>, ss_subscribed = [], ss_chan = c, ss_token_hash = []\<rparr>"

definition fresh_server :: server where
  "fresh_server = app_new 0 sample_store (\<lambda>_. sample_live) (\<lambda>_. empty_channel)"

text \<open>The creator opens the wave, then removes the second member from the conversation.\<close>

definition opened :: "server \<times> session" where
  "opened = handle_command sample_env 0 fresh_server (sample_session alice 1) (Open (WaveId (lit ''w-1'')))"

lemma sample_members: "members_ok sample_store"
proof -
  have "keys_ok sample_store" by code_simp
  moreover have ids: "wl_id sample_wavelet \<noteq> wl_id sample_private" by code_simp
  have w: "set (st_wavelets sample_store) = {sample_wavelet\<lparr>wl_participants := []\<rparr>, sample_private\<lparr>wl_participants := []\<rparr>}"
    by (simp add: sample_store_def)
  have k: "wl_kind sample_wavelet = Conversation" "wl_kind sample_private = PrivateReplyKind"
    by (simp_all add: sample_wavelet_def sample_private_def)
  have m: "member sample_store u (wl_id sample_wavelet) \<longleftrightarrow> u \<in> {alice, bob, carol}"
    "member sample_store u (wl_id sample_private) \<longleftrightarrow> u \<in> {alice, bob}" for u
    using ids by (auto simp: member_def sample_store_def)
  have "confined (stored_circles sample_store wid) \<and> rooted (stored_circles sample_store wid)" for wid
    using k m by (auto simp: stored_circles_def w confined_def rooted_def sample_wavelet_def [THEN arg_cong, of wl_wave_id]
        sample_private_def [THEN arg_cong, of wl_wave_id])
  ultimately show ?thesis by (simp add: members_ok_def)
qed

lemma opened_reachable: "reachable (fst opened)"
  unfolding opened_def fresh_server_def
  by (rule command [OF start [OF sample_members]]) (rule surjective_pairing)

section \<open>Properties\<close>

text \<open>
  (C9) Commands refine the membership specification. In every reachable state and whatever
  fails, a command changes the stored circles of each wave not at all, or by one step the
  specification allows its sender (invite, leave, be removed by the creator, retitle, or
  start a private reply), or founds a new wave with its sender in the conversation. No
  command changes the creator of a wave, and only its creator's commands change its mode.
\<close>

theorem commands_refine_membership:
  assumes "reachable sv" "handle_command e t sv ss c = (sv', ss')"
  shows "(stored_circles (sv_store sv') wid = stored_circles (sv_store sv) wid
      \<or> (\<exists>w. db_wave (sv_store sv) wid = Ok (Some w) \<and>
           circle_step (w_creator w) (ss_uid ss) (stored_circles (sv_store sv) wid) (stored_circles (sv_store sv') wid))
      \<or> (stored_circles (sv_store sv) wid = {} \<and> founded (ss_uid ss) (stored_circles (sv_store sv') wid)))
    \<and> (\<forall>w. db_wave (sv_store sv) wid = Ok (Some w) \<longrightarrow>
         (\<exists>mode. db_wave (sv_store sv') wid = Ok (Some (w\<lparr>w_mode := mode\<rparr>)) \<and> (mode = w_mode w \<or> w_creator w = ss_uid ss)))"
  using handle_command_served [OF assms(2) reachable_inv [OF assms(1)]]
  by (simp add: served_step_def member_step_def rules_step_def)

definition sample_removal :: "server \<times> session" where
  "sample_removal = handle_command sample_env 1 (fst opened) (snd opened) (RemoveParticipant (wl_id sample_wavelet) bob)"

theorem commands_refine_membership_witness:
  "circle_step alice alice (stored_circles sample_store (WaveId (lit ''w-1'')))
     (stored_circles (sv_store (fst sample_removal)) (WaveId (lit ''w-1'')))"
proof -
  let ?w = "WaveId (lit ''w-1'')"
  have st: "sv_store (fst opened) = sample_store" by code_simp
  have bob: "db_is_participant sample_store bob ?w" "\<not> db_is_participant (sv_store (fst sample_removal)) bob ?w" by code_simp+
  then have ne: "stored_circles (sv_store (fst sample_removal)) ?w \<noteq> stored_circles sample_store ?w"
    "stored_circles sample_store ?w \<noteq> {}" by (auto simp: participant_circle)
  have "db_wave sample_store ?w = Ok (Some (lw_wave sample_live))" "w_creator (lw_wave sample_live) = alice"
    "ss_uid (snd opened) = alice" by code_simp+
  with commands_refine_membership [OF opened_reachable, of sample_env 1 "snd opened" "RemoveParticipant (wl_id sample_wavelet) bob"
      "fst sample_removal" "snd sample_removal" ?w] ne st
  show ?thesis by (auto simp: sample_removal_def)
qed

text \<open>
  (C10) Memory and storage agree about access. In every reachable state a resident wave has the
  creator and the mode of the stored wave; who may open a wavelet, and who may see the wave,
  is the same in memory and in storage; and everybody who watches the wave may see it.
\<close>

theorem resident_waves_agree:
  assumes "reachable sv" "map_of (sv_waves sv) wid = Some a"
  shows "db_wave (sv_store sv) wid = Ok (Some (lw_wave (sv_heap sv a)))
    \<and> (\<forall>u w. w \<in> set (st_wavelets (sv_store sv)) \<and> wl_wave_id w = wid \<longrightarrow>
         may_access (sv_heap sv a) u (wl_id w) = member (sv_store sv) u (wl_id w))
    \<and> (\<forall>u. may_view (sv_heap sv a) u = db_is_participant (sv_store sv) u wid)
    \<and> (\<forall>s \<in> snd ` set (lw_subscribers (sv_heap sv a)). db_is_participant (sv_store sv) (sub_user s) wid)"
proof -
  have keys: "keys_ok (sv_store sv)" using reachable_members [OF assms(1)] by (simp add: members_ok_def)
  note r = reachable_resident [OF assms]
  then have circ: "live_circles (sv_heap sv a) = stored_circles (sv_store sv) wid" by (simp add: resident_ok_def)
  have view: "may_view (sv_heap sv a) u = db_is_participant (sv_store sv) u wid" for u
    by (simp add: may_view_circle circ participant_circle)
  with r resident_access [OF keys r] show ?thesis by (auto simp: resident_ok_def)
qed

theorem resident_waves_agree_witness:
  "map_of (sv_waves (fst opened)) (WaveId (lit ''w-1'')) = Some 0 \<and>
   may_view (sv_heap (fst opened) 0) bob = db_is_participant (sv_store (fst opened)) bob (WaveId (lit ''w-1''))"
proof -
  have "map_of (sv_waves (fst opened)) (WaveId (lit ''w-1'')) = Some 0" by code_simp
  with resident_waves_agree [OF opened_reachable this] show ?thesis by simp
qed

text \<open>
  (C11) Private replies are confined. In every reachable state whoever is in a wavelet of a wave
  is in the conversation of that wave, which exists, is the only one, and has somebody in it.
\<close>

theorem private_replies_confined:
  assumes "reachable sv" "w \<in> set (st_wavelets (sv_store sv))" "member (sv_store sv) u (wl_id w)"
  shows "\<exists>c \<in> set (st_wavelets (sv_store sv)). wl_wave_id c = wl_wave_id w \<and> wl_kind c = Conversation
    \<and> member (sv_store sv) u (wl_id c)
    \<and> (\<forall>d \<in> set (st_wavelets (sv_store sv)). wl_wave_id d = wl_wave_id w \<and> wl_kind d = Conversation \<longrightarrow> d = c)"
proof -
  let ?st = "sv_store sv" and ?R = "stored_circles (sv_store sv) (wl_wave_id w)"
  have ok: "keys_ok ?st" "confined ?R" "rooted ?R" using reachable_members [OF assms(1)] by (auto simp: members_ok_def)
  have "circle_of ?st w \<in> ?R" using assms(2) by (simp add: stored_circles_def)
  from confinedD [OF ok(2) this, of u] assms(3) obtain c where
    c: "c \<in> set (st_wavelets ?st)" "wl_wave_id c = wl_wave_id w" "wl_kind c = Conversation" "member ?st u (wl_id c)"
    by (auto simp: stored_circles_def)
  have "d = c" if d: "d \<in> set (st_wavelets ?st)" "wl_wave_id d = wl_wave_id w" "wl_kind d = Conversation" for d
  proof -
    have "circle_of ?st c \<in> ?R" "circle_of ?st d \<in> ?R" using c d by (simp_all add: stored_circles_def)
    with ok(3) c(3) d(3) have "wl_id d = wl_id c" unfolding rooted_def by (metis circle_of_fields(1,2))
    with wl_id_inj [OF ok(1) d(1) c(1)] show ?thesis .
  qed
  with c show ?thesis by blast
qed

theorem private_replies_confined_witness:
  "\<exists>w \<in> set (st_wavelets (sv_store (fst opened))). wl_kind w = PrivateReplyKind \<and>
     (\<exists>c \<in> set (st_wavelets (sv_store (fst opened))). wl_kind c = Conversation \<and> member (sv_store (fst opened)) bob (wl_id c))"
proof -
  let ?w = "sample_private\<lparr>wl_participants := []\<rparr>"
  have "?w \<in> set (st_wavelets (sv_store (fst opened)))" "member (sv_store (fst opened)) bob (wl_id ?w)"
    "wl_kind ?w = PrivateReplyKind" by code_simp+
  with private_replies_confined [OF opened_reachable this(1,2)] show ?thesis by blast
qed

text \<open>
  (C12) Out means out. When removing a user from the conversation of a wave is answered with
  success, in a reachable state, that user is in no wavelet of the wave any more, in storage
  or in memory, private replies included, and no connection of theirs watches it.
\<close>

theorem removed_user_is_out:
  assumes "reachable sv" "remove_participant e sv ss i u = (Ok (), sv')"
    and "w \<in> set (st_wavelets (sv_store sv'))" "wl_id w = i" "wl_kind w = Conversation"
  shows "\<not> db_is_participant (sv_store sv') u (wl_wave_id w)
    \<and> (\<forall>a. map_of (sv_waves sv') (wl_wave_id w) = Some a \<longrightarrow> \<not> may_view (sv_heap sv' a) u
         \<and> u \<notin> sub_user ` snd ` set (lw_subscribers (sv_heap sv' a)))"
proof -
  let ?st = "sv_store sv'" and ?R = "stored_circles (sv_store sv') (wl_wave_id w)"
  have inv: "server_inv sv'"
    using remove_participant_served [OF assms(2) reachable_inv [OF assms(1)]] by (simp add: served_step_def)
  then have ok: "keys_ok ?st" "confined ?R" "rooted ?R" by (auto simp: server_inv_def members_ok_def)
  have "\<not> member ?st u i"
  proof -
    obtain r1 sv1 where f: "find_wavelet e sv ss i = (r1, sv1)" by (cases "find_wavelet e sv ss i")
    have inv0: "coherent {} resident_ok sv" "members_ok (sv_store sv)"
      using reachable_inv [OF assms(1)] by (simp_all add: server_inv_def)
    note fc = members.find_in_coherent [OF f [unfolded find_defs] inv0]
    obtain wid a where r1: "r1 = Ok (wid, a)"
      using assms(2) f by (auto simp: remove_participant_def found_then_def split: sum.splits)
    obtain r2 sv2 live2 where b: "remove_participant_locked e ss i u wid sv1 (sv_heap sv1 a) = (r2, sv2, live2)"
      by (cases "remove_participant_locked e ss i u wid sv1 (sv_heap sv1 a)") auto
    then have run: "remove_participant_locked e ss i u wid sv1 (sv_heap sv1 a) = (Ok (), sv2, live2)" "?st = sv_store sv2"
      using assms(2) f r1 by (auto simp: remove_participant_def found_then_def run_locked_def)
    have "resident_ok (sv_store sv1) wid (sv_heap sv1 a)" "members_ok (sv_store sv1)"
      using fc r1 inv0 coherentD(3) [of "{}" resident_ok sv1 wid a] by auto
    with remove_participant_done [OF run(1)] run(2) show ?thesis by simp
  qed
  moreover have c: "circle_of ?st w \<in> ?R" using assms(3) by (simp add: stored_circles_def)
  ultimately have none: "\<forall>d \<in> ?R. u \<notin> ci_members d"
    using outsider [OF ok(2,3) c] assms(4,5) stored_circles_inj [OF ok(1)] by simp
  then have out: "\<not> db_is_participant ?st u (wl_wave_id w)" by (simp add: participant_circle)
  have "\<not> may_view (sv_heap sv' a) u \<and> u \<notin> sub_user ` snd ` set (lw_subscribers (sv_heap sv' a))"
    if a: "map_of (sv_waves sv') (wl_wave_id w) = Some a" for a
  proof -
    have r: "resident_ok ?st (wl_wave_id w) (sv_heap sv' a)"
      using inv coherentD(3) [OF _ a, of "{}" resident_ok] by (simp add: server_inv_def)
    then have "\<not> may_view (sv_heap sv' a) u" using none by (simp add: may_view_circle resident_ok_def)
    with r show ?thesis by (auto simp: resident_ok_def)
  qed
  with out show ?thesis by blast
qed

theorem removed_user_is_out_witness:
  "\<not> db_is_participant (sv_store (snd (remove_participant sample_env (fst opened) (snd opened) (wl_id sample_wavelet) bob)))
     bob (wl_wave_id sample_wavelet)"
proof -
  let ?r = "remove_participant sample_env (fst opened) (snd opened) (wl_id sample_wavelet) bob"
  let ?w = "sample_wavelet\<lparr>wl_participants := []\<rparr>"
  have "fst ?r = Ok ()" by code_simp
  then have r: "?r = (Ok (), snd ?r)" by (metis prod.collapse)
  have "?w \<in> set (st_wavelets (sv_store (snd ?r)))" "wl_id ?w = wl_id sample_wavelet" "wl_kind ?w = Conversation"
    "wl_wave_id ?w = wl_wave_id sample_wavelet" by code_simp+
  with removed_user_is_out [OF opened_reachable r this(1-3)] show ?thesis by simp
qed

end
