(* ===== verification/Gal_Refusal.thy ===== *)
theory Gal_Refusal
  imports Gal_Safety
begin

text \<open>
  Refusals: a command that is answered with an error has stored nothing, and in a frozen wave
  everything that would change content is refused. The contract of a refusing body is a
  locale of its own, interpreted for the body of every handler.
\<close>

section \<open>Bodies that refuse cleanly\<close>

locale refusing_body =
  fixes body :: "wave_id \<Rightarrow> server \<Rightarrow> live_wave \<Rightarrow> unit reply \<times> server \<times> live_wave"
  assumes refuse: "body wid sv live = (Err m, sv', live') \<Longrightarrow> sv_store sv' = sv_store sv"
begin

lemma run_refuse: "run_locked (body wid) sv a = (Err m, sv') \<Longrightarrow> sv_store sv' = sv_store sv"
  by (auto simp: run_locked_def split: prod.splits dest: refuse)

lemma found_refuse:
  "found_then found body = (Err m, sv') \<Longrightarrow> sv_store sv' = sv_store (snd found)"
  by (auto simp: found_then_def split: prod.splits sum.splits dest: run_refuse)

end

lemma open_resident_store: "open_resident e sv wid = (r, sv') \<Longrightarrow> sv_store sv' = sv_store sv"
  by (auto simp: open_resident_def Let_def split: option.splits if_splits sum.splits)

lemma lookup_wave_store: "lookup_wave e sv wid = (r, sv') \<Longrightarrow> sv_store sv' = sv_store sv"
  by (auto simp: lookup_wave_def split: prod.splits sum.splits option.splits dest: open_resident_store)

lemma find_in_store: "find_in e P sv ws = (r, sv') \<Longrightarrow> sv_store sv' = sv_store sv"
proof (induction ws arbitrary: sv)
  case (Cons w ws)
  obtain r1 sv1 where o1: "open_resident e sv w = (r1, sv1)" by (cases "open_resident e sv w")
  with Cons open_resident_store [OF o1] show ?case
    by (auto split: sum.splits option.splits if_splits)
qed auto

lemma find_store: "sv_store (snd (find_wavelet e sv ss i)) = sv_store sv" "sv_store (snd (find_blip e sv ss b)) = sv_store sv"
  "sv_store (snd (find_comment e sv ss c)) = sv_store sv"
  unfolding find_defs by (rule find_in_store, rule surjective_pairing)+

lemmas refuse_defs = stored_def Let_def case_prod_beta'

interpretation r_create_blip: refusing_body "create_blip_locked e ss i parent cont" for e ss i parent cont
  by unfold_locales (auto simp: create_blip_locked_def refuse_defs split: sum.splits if_splits)

interpretation r_create_comment: refusing_body "create_comment_locked e ss i target c seed" for e ss i target c seed
  by unfold_locales (auto simp: create_comment_locked_def refuse_defs split: sum.splits if_splits option.splits)

interpretation r_reply_to_comment: refusing_body "reply_to_comment_locked e ss c seed" for e ss c seed
  by unfold_locales (auto simp: reply_to_comment_locked_def refuse_defs split: sum.splits if_splits option.splits)

interpretation r_resolve_comment: refusing_body "resolve_comment_locked e ss c want" for e ss c want
  by unfold_locales (auto simp: resolve_comment_locked_def refuse_defs split: sum.splits if_splits option.splits)

lemma delete_blip_refuse: "delete_blip_locked e ss i wid sv live = (Err m, sv', live') \<Longrightarrow> sv_store sv' = sv_store sv"
proof (cases "map_of (lw_blips live) i")
  case (Some lb)
  assume "delete_blip_locked e ss i wid sv live = (Err m, sv', live')"
  from this [unfolded delete_blip_locked_def Some option.case] show ?thesis
    by (auto simp: refuse_defs split: sum.splits if_split_asm)
qed (simp add: delete_blip_locked_def)

interpretation r_delete_blip: refusing_body "delete_blip_locked e ss i" for e ss i
  by unfold_locales (rule delete_blip_refuse)

interpretation r_set_title: refusing_body "set_title_locked e ss i title" for e ss i title
  by unfold_locales (auto simp: set_title_locked_def refuse_defs split: sum.splits if_splits)

interpretation r_set_mode: refusing_body "set_mode_locked e ss mode" for e ss mode
  by unfold_locales (auto simp: set_mode_locked_def refuse_defs split: sum.splits if_splits)

lemma add_participant_refuse:
  "add_participant_locked e ss i u wid sv live = (Err m, sv', live') \<Longrightarrow> sv_store sv' = sv_store sv"
  by (cases "find_live_wavelet live i")
     (auto simp: add_participant_locked_def refuse_defs split: sum.splits if_splits)

interpretation r_add_participant: refusing_body "add_participant_locked e ss i u" for e ss i u
  by unfold_locales (rule add_participant_refuse)

lemma remove_participant_refuse:
  "remove_participant_locked e ss i u wid sv live = (Err m, sv', live') \<Longrightarrow> sv_store sv' = sv_store sv"
  by (cases "find_live_wavelet live i")
     (auto simp: remove_participant_locked_def refuse_defs split: sum.splits if_splits)

interpretation r_remove_participant: refusing_body "remove_participant_locked e ss i u" for e ss i u
  by unfold_locales (rule remove_participant_refuse)

lemma private_reply_refuse:
  "private_reply_locked e ss i anchor ids wid sv live = (Err m, sv', live') \<Longrightarrow> sv_store sv' = sv_store sv"
  by (cases "find (\<lambda>u. u \<notin> set (case find_live_wavelet live i of Some w \<Rightarrow> wl_participants w | None \<Rightarrow> [])) ids")
     (auto simp: private_reply_locked_def refuse_defs split: sum.splits if_splits)

interpretation r_private_reply: refusing_body "private_reply_locked e ss i anchor ids" for e ss i anchor ids
  by unfold_locales (rule private_reply_refuse)

interpretation r_cursor: refusing_body "cursor_locked ss b index len" for ss b index len
  by unfold_locales (auto simp: cursor_locked_def refuse_defs split: if_splits option.splits)

interpretation r_attach: refusing_body "\<lambda>wid. attach_locked ss wid marks flags" for ss marks flags
  by unfold_locales (rule attach_frame(1))

lemma apply_op_refuse: "apply_op e sv live conn author sub = (Err m, sv', live') \<Longrightarrow> sv_store sv' = sv_store sv"
proof -
  assume a: "apply_op e sv live conn author sub = (Err m, sv', live')"
  show ?thesis
  proof (cases "map_of (lw_blips live) (os_blip_id sub)")
    case (Some lb)
    from a Some show ?thesis
    proof (cases rule: apply_op_cases)
      case (commit committed lb')
      then show ?thesis
        by (auto simp: commit_edit_def refuse_defs split: sum.splits if_splits)
    qed auto
  qed (use a in \<open>simp add: apply_op_def\<close>)
qed

interpretation r_apply_op: refusing_body "\<lambda>_ sv live. apply_op e sv live conn author sub" for e conn author sub
  by unfold_locales (rule apply_op_refuse)

section \<open>Commands\<close>

lemma handlers_refuse:
  "create_blip e sv ss i parent cont = (Err m, sv') \<Longrightarrow> sv_store sv' = sv_store sv"
  "delete_blip e sv ss b = (Err m, sv') \<Longrightarrow> sv_store sv' = sv_store sv"
  "resolve_comment e sv ss c want = (Err m, sv') \<Longrightarrow> sv_store sv' = sv_store sv"
  "set_title e sv ss i title = (Err m, sv') \<Longrightarrow> sv_store sv' = sv_store sv"
  "remove_participant e sv ss i u = (Err m, sv') \<Longrightarrow> sv_store sv' = sv_store sv"
  unfolding create_blip_def delete_blip_def resolve_comment_def set_title_def remove_participant_def
  by (auto dest!: r_create_blip.found_refuse r_delete_blip.found_refuse r_resolve_comment.found_refuse
      r_set_title.found_refuse r_remove_participant.found_refuse simp: find_store)

lemma guarded_refuse:
  "submit e sv ss sub = (Err m, sv') \<Longrightarrow> sv_store sv' = sv_store sv"
  "create_comment e sv ss i target c cont = (Err m, sv') \<Longrightarrow> sv_store sv' = sv_store sv"
  "reply_to_comment e sv ss c cont = (Err m, sv') \<Longrightarrow> sv_store sv' = sv_store sv"
  "add_participant e sv ss i name = (Err m, sv') \<Longrightarrow> sv_store sv' = sv_store sv"
  "private_reply e sv ss i anchor names = (Err m, sv') \<Longrightarrow> sv_store sv' = sv_store sv"
  using find_store(1) [of e sv ss i] find_store(2) [of e sv ss "os_blip_id sub"] find_store(3) [of e sv ss c]
  by (auto simp: submit_def create_comment_def reply_to_comment_def add_participant_def private_reply_def case_prod_beta' Let_def
      split: sum.splits if_splits option.splits
      dest!: r_apply_op.found_refuse r_create_comment.found_refuse r_reply_to_comment.found_refuse
        r_add_participant.found_refuse r_private_reply.found_refuse)

lemma open_wave_store: "open_wave e sv ss wid = (r, sv', ss') \<Longrightarrow> sv_store sv' = sv_store sv"
proof -
  assume a: "open_wave e sv ss wid = (r, sv', ss')"
  let ?found = "case lookup_wave e sv wid of
      (Ok a, sv) \<Rightarrow> if lw_evicted (sv_heap sv a) then lookup_wave e sv wid else (Ok a, sv)
    | (Err m, sv) \<Rightarrow> (Err m, sv)"
  obtain r1 sv1 where f: "?found = (r1, sv1)" by (cases ?found)
  then have "sv_store sv1 = sv_store sv"
    by (auto split: prod.splits sum.splits if_splits dest!: lookup_wave_store)
  moreover have "sv_store (snd (run_locked (attach_locked ss wid marks flags) sv1 a)) = sv_store sv1" for marks flags a
    by (auto simp: run_locked_def split: prod.splits dest: attach_frame(1))
  ultimately show ?thesis
    using a f by (cases r1) (auto simp: open_wave_def Let_def case_prod_beta' split: sum.splits)
qed

lemma dispatch_refuse:
  assumes "dispatch e sv ss c = (Err m, sv', ss')" "\<And>title names cont mode. c \<noteq> CreateWave title names cont mode"
  shows "sv_store sv' = sv_store sv"
proof -
  have keep: "keep_session ss x = (Err m, sv', ss') \<Longrightarrow> x = (Err m, sv')" for x
    by (cases x) (simp add: keep_session_def)
  have mode: "set_mode e sv ss wid mode = (Err m, sv') \<Longrightarrow> sv_store sv' = sv_store sv" for wid mode
    using lookup_wave_store [OF prod.collapse [symmetric], of e sv wid]
    by (auto simp: set_mode_def split: prod.splits sum.splits if_splits dest!: r_set_mode.run_refuse)
  have cur: "cursor e sv ss wid b index len = (Err m, sv') \<Longrightarrow> sv_store sv' = sv_store sv" for wid b index len
    using open_resident_store [OF prod.collapse [symmetric], of e sv wid]
    by (auto simp: cursor_def split: prod.splits sum.splits option.splits if_splits dest!: r_cursor.run_refuse)
  have rest: "mark_read e sv ss wid = (Err m, sv') \<Longrightarrow> sv' = sv" "change_flags e sv ss wid flags = (Err m, sv') \<Longrightarrow> sv' = sv"
    "request_playback e sv ss wid = (Err m, sv') \<Longrightarrow> sv' = sv" "search e sv ss query = (Err m, sv') \<Longrightarrow> sv' = sv"
    for wid flags query
    by (auto simp: mark_read_def change_flags_def request_playback_def search_def split: sum.splits if_splits)
  show ?thesis
    using assms
    by (cases c) (auto simp: dispatch_def case_prod_beta' dest!: keep rest
        intro: open_wave_store handlers_refuse guarded_refuse mode cur)
qed

section \<open>Properties\<close>


definition stranger_edit :: client_message where
  "stranger_edit = RemoveParticipant (wl_id sample_wavelet) carol"


text \<open>
  (C14) Frozen means still. In a frozen wave no handler that changes content does anything:
  new messages and replies, edits, deletions, comments, remarks, resolutions, titles and
  private replies all leave storage, documents, comments and wavelets exactly as they were,
  whoever sends them and whether or not the disk works.
\<close>

theorem frozen_wave_is_still:
  assumes "is_frozen (w_mode (lw_wave live))"
    and "x \<in> {create_blip_locked e ss i parent cont wid sv live, apply_op e sv live conn author sub,
      delete_blip_locked e ss b wid sv live, create_comment_locked e ss i b k seed wid sv live,
      reply_to_comment_locked e ss k seed wid sv live, resolve_comment_locked e ss k want wid sv live,
      set_title_locked e ss i title wid sv live, private_reply_locked e ss i b ids wid sv live}"
  shows "sv_store (fst (snd x)) = sv_store sv \<and> lw_blips (snd (snd x)) = lw_blips live
    \<and> lw_comments (snd (snd x)) = lw_comments live \<and> lw_wavelets (snd (snd x)) = lw_wavelets live"
proof -
  have no: "permit live u a = Err (error_message Forbidden (permit_refusal (w_mode (lw_wave live)) a))" if "a \<noteq> ActSetMode" for u a
    using assms(1) that by (cases a) (simp_all add: permit_def action_allowed_def Let_def perm_defs)
  show ?thesis
    using assms(2)
  proof (elim insertE emptyE)
    assume "x = apply_op e sv live conn author sub"
    then show ?thesis
      using no by (auto simp: apply_op_def Let_def case_prod_beta' split: option.split)
  next
    assume "x = delete_blip_locked e ss b wid sv live"
    then show ?thesis using no by (cases "map_of (lw_blips live) b") (simp_all add: delete_blip_locked_def Let_def)
  qed (use no in \<open>auto simp: create_blip_locked_def prepare_blip_def create_comment_locked_def reply_to_comment_locked_def
      resolve_comment_locked_def set_title_locked_def private_reply_locked_def split: option.split\<close>)
qed

theorem frozen_wave_is_still_witness:
  "let live = sample_live\<lparr>lw_wave := (lw_wave sample_live)\<lparr>w_mode := Frozen\<rparr>\<rparr>
   in lw_blips (snd (snd (apply_op sample_env sample_server live 1 alice sample_edit))) = lw_blips live"
proof -
  let ?live = "sample_live\<lparr>lw_wave := (lw_wave sample_live)\<lparr>w_mode := Frozen\<rparr>\<rparr>"
  have "is_frozen (w_mode (lw_wave ?live))" by (simp add: is_frozen_def)
  from frozen_wave_is_still [OF this, of "apply_op sample_env sample_server ?live 1 alice sample_edit" sample_env _ _ _ _ _
      sample_server 1 alice sample_edit] show ?thesis by simp
qed

end
