(* ===== verification/Gal_Replies.thy ===== *)
theory Gal_Replies
  imports Gal_Safety
begin

text \<open>
  An agent's reply, from the request to the stored message: it is answered in every reachable
  state, it is published when the rules of the wave allow it, and repeating it, however often and
  whatever happened in between, stores nothing more.
\<close>

section \<open>Lemmas\<close>

lemma seed_document:
  assumes "s \<noteq> []" "utf16_len s \<le> MAX_BLIP_UNITS"
  shows "seed_content json_len (Some (delta_document s)) = Ok (Some (delta_document s))"
proof -
  have "ops (delta_document s) = [op_insert s]"
    using assms(1) by (simp add: delta_document_def push_def push_ops_def delta_new_def op_insert_def op_is_empty_def)
  then show ?thesis using assms
    by (simp add: seed_content_exact is_document_def op_insert_def delta_len_def kind_of_def sum_saturating_def
        saturating_add_def MAX_BLIP_UNITS_def)
qed

text \<open>Looking a row up by its key.\<close>

lemma find_unique_key:
  assumes "distinct (map key xs)" "x \<in> set xs" "key x = k"
  shows "find (\<lambda>y. key y = k) xs = Some x"
  using assms by (induction xs) auto

text \<open>A credential that is found is one row of the table, whose user is in its wavelet.\<close>

lemma valid_tokenD:
  assumes "valid_agent_token ts st h = Some t"
  obtains row wl where "row \<in> set (st_agent_tokens st)" "tr_token_hash row = h" "wl \<in> set (st_wavelets st)"
    "wl_id wl = tr_wavelet_id row" "t = row_to_agent_token row (wl_wave_id wl)" "member st (ag_user_id t) (ag_wavelet_id t)"
    "with_wave st row = Some t"
proof -
  obtain row where f: "find (\<lambda>t. tr_token_hash t = h \<and> tr_expires_at t > ts \<and> member st (tr_user_id t) (tr_wavelet_id t))
      (st_agent_tokens st) = Some row" and w: "with_wave st row = Some t"
    using assms by (auto simp: valid_agent_token_def bind_eq_Some_conv)
  note row = find_SomeD [OF f]
  obtain wl where wl: "find (\<lambda>w. wl_id w = tr_wavelet_id row) (st_wavelets st) = Some wl" "t = row_to_agent_token row (wl_wave_id wl)"
    using w by (auto simp: with_wave_def)
  note m = find_SomeD [OF wl(1)]
  show thesis by (rule that [of row wl]) (use row m wl w in \<open>simp_all add: row_to_agent_token_def\<close>)
qed

lemma valid_token_same:
  assumes "valid_agent_token ts st h = Some t" "valid_agent_token ts' st h = Some t'" "distinct (map tr_token_hash (st_agent_tokens st))"
  shows "t' = t"
proof -
  obtain row where r: "row \<in> set (st_agent_tokens st)" "tr_token_hash row = h" "with_wave st row = Some t"
    using valid_tokenD [OF assms(1)] by metis
  obtain row' where r': "row' \<in> set (st_agent_tokens st)" "tr_token_hash row' = h" "with_wave st row' = Some t'"
    using valid_tokenD [OF assms(2)] by metis
  have "row' = row" using assms(3) r(1,2) r'(1,2) by (metis distinct_map inj_onD)
  with r r' show ?thesis by simp
qed

text \<open>What the transaction of a reply stores.\<close>

lemma insert_seeded_blips:
  assumes "insert_seeded_blip st b = Ok st'"
  shows "st_blips st' = st_blips st @ [b\<lparr>b_deleted := False\<rparr>] \<and> st_agent_replies st' = st_agent_replies st
    \<and> st_agent_tokens st' = st_agent_tokens st"
  using assms by (auto simp: insert_seeded_blip_def bind_result_Ok_iff insert_blip_row_def insert_op_def index_blip_def
      touch_wavelet_def split: if_splits)

lemma create_agent_reply_stored:
  assumes "db_create_agent_reply ts st h i rh b = Ok (True, st')"
  obtains t where "valid_agent_token ts st h = Some t" "st_blips st' = st_blips st @ [b\<lparr>b_deleted := False\<rparr>]"
    "st_agent_replies st' = st_agent_replies st @ [\<lparr>rr_token_id = ag_id t, rr_request_id = i, rr_request_hash = rh,
       rr_blip_id = b_id b, rr_revision = b_revision b\<rparr>]"
  using assms
  by (auto simp: db_create_agent_reply_def bind_result_Ok_iff insert_agent_reply_def dest!: insert_seeded_blips
      split: option.splits if_splits)

lemma insert_seeded_ok:
  assumes "b_id b \<notin> b_id ` set (st_blips st)" "b_id b \<notin> or_blip_id ` set (st_ops st)"
  shows "\<exists>st'. insert_seeded_blip st b = Ok st'"
proof -
  have "\<not> list_ex (\<lambda>x. b_id x = b_id b) (st_blips st)" "\<not> list_ex (\<lambda>x. or_blip_id x = b_id b \<and> P x) (st_ops st)" for P
    using assms unfolding list_ex_iff by (metis imageI)+
  then show ?thesis by (simp add: insert_seeded_blip_def insert_blip_row_def insert_op_def bind_result_def)
qed

lemma create_agent_reply_ok:
  assumes "valid_agent_token ts st h = Some t" "ag_scope t = ScopeReply" "b_wavelet_id b = ag_wavelet_id t" "b_author b = ag_user_id t"
    "db_agent_reply_receipt st t i = None" "b_id b \<notin> b_id ` set (st_blips st) \<union> or_blip_id ` set (st_ops st)"
  shows "\<exists>st'. db_create_agent_reply ts st h i rh b = Ok (True, st')"
proof -
  obtain st1 where st1: "insert_seeded_blip st b = Ok st1" using insert_seeded_ok assms(6) by blast
  have "\<not> list_ex (\<lambda>x. rr_token_id x = ag_id t \<and> rr_request_id x = i) (st_agent_replies st1)"
    using assms(5) insert_seeded_blips [OF st1] by (auto simp: db_agent_reply_receipt_def find_None_iff list_ex_iff)
  then show ?thesis using assms(1-4) st1 by (simp add: db_create_agent_reply_def bind_result_def insert_agent_reply_def)
qed

text \<open>In memory, too, the account of a valid credential may open its wavelet.\<close>

lemma token_may_access:
  assumes "server_inv sv" "resident_ok (sv_store sv) (ag_wave_id t) live" "valid_agent_token ts (sv_store sv) h = Some t"
  shows "may_access live (ag_user_id t) (ag_wavelet_id t)"
proof -
  from valid_tokenD [OF assms(3)] obtain row wl where "wl \<in> set (st_wavelets (sv_store sv))" "wl_id wl = tr_wavelet_id row"
    "t = row_to_agent_token row (wl_wave_id wl)" "member (sv_store sv) (ag_user_id t) (ag_wavelet_id t)" by metis
  moreover from this(3) have "ag_wave_id t = wl_wave_id wl" "ag_wavelet_id t = tr_wavelet_id row"
    by (simp_all add: row_to_agent_token_def)
  ultimately show ?thesis using resident_access [OF _ assms(2)] assms(1) by (metis members_ok_def server_inv_def)
qed

lemma reply_locked_created:
  assumes "create_reply_locked e w encode who rp wid sv live = (Replied 201 rc, sv', live')"
  obtains b t where "prepare_blip (env_json_len e) (env_now e 2) (env_uuid e 0) live (ag_user_id (ai_token who))
      (ag_wavelet_id (ai_token who)) (rp_parent rp) (Some (delta_document (rp_text rp))) = Ok b"
    "valid_agent_token (env_now e 3) (sv_store sv) (ai_token_hash who) = Some t"
    "st_blips (sv_store sv') = st_blips (sv_store sv) @ [b\<lparr>b_deleted := False\<rparr>]"
    "st_agent_replies (sv_store sv') = st_agent_replies (sv_store sv) @ [\<lparr>rr_token_id = ag_id t, rr_request_id = rp_request_id rp,
       rr_request_hash = token_digest w (encode rp), rr_blip_id = b_id b, rr_revision = b_revision b\<rparr>]"
    "rc = \<lparr>rc_request_id = rp_request_id rp, rc_wave_id = wid, rc_wavelet_id = b_wavelet_id b, rc_blip_id = b_id b,
       rc_revision = b_revision b\<rparr>"
proof -
  let ?prep = "prepare_blip (env_json_len e) (env_now e 2) (env_uuid e 0) live (ag_user_id (ai_token who))
      (ag_wavelet_id (ai_token who)) (rp_parent rp) (Some (delta_document (rp_text rp)))"
  let ?db = "\<lambda>b. db_create_agent_reply (env_now e 3) (sv_store sv) (ai_token_hash who) (rp_request_id rp) (token_digest w (encode rp)) b"
  obtain b st where b: "?prep = Ok b" "?db b = Ok (True, st)" "sv_store sv' = st"
    "rc = \<lparr>rc_request_id = rp_request_id rp, rc_wave_id = wid, rc_wavelet_id = b_wavelet_id b, rc_blip_id = b_id b,
       rc_revision = b_revision b\<rparr>"
    using assms
    by (auto simp: create_reply_locked_def Let_def case_prod_beta' schedule_inbox_update_def no_wavelet_def protocol_error_def
        agent_error_def split: if_splits sum.splits option.splits bool.splits server_message.splits)
  from create_agent_reply_stored [OF b(2)] obtain t where "valid_agent_token (env_now e 3) (sv_store sv) (ai_token_hash who) = Some t"
    "st_blips st = st_blips (sv_store sv) @ [b\<lparr>b_deleted := False\<rparr>]"
    "st_agent_replies st = st_agent_replies (sv_store sv) @ [\<lparr>rr_token_id = ag_id t, rr_request_id = rp_request_id rp,
       rr_request_hash = token_digest w (encode rp), rr_blip_id = b_id b, rr_revision = b_revision b\<rparr>]" .
  with b that show thesis by metis
qed

text \<open>What a repeated request does once a receipt of the same content is stored.\<close>

lemma reply_locked_replayed:
  assumes "create_reply_locked e w encode who rp wid sv live = (r, sv', live')"
    "db_agent_reply_receipt (sv_store sv) (ai_token who) (rp_request_id rp) = Some s"
    "sr_request_hash s = token_digest w (encode rp)"
  shows "sv_store sv' = sv_store sv" "r = Replied 200 (sr_receipt s) \<or> (\<exists>x. r = Refused x)"
    "may_access live (ag_user_id (ai_token who)) (ag_wavelet_id (ai_token who)) \<Longrightarrow> env_read e \<Longrightarrow>
     valid_agent_token (env_now e 1) (sv_store sv) (ai_token_hash who) \<noteq> None \<Longrightarrow> r = Replied 200 (sr_receipt s)"
  using assms by (auto simp: create_reply_locked_def no_wavelet_def Let_def split: if_splits)

text \<open>The way of a request: refused before its wave is locked, or decided under the lock.\<close>

definition reply_allowed :: "web \<Rightarrow> server \<Rightarrow> agent_identity \<Rightarrow> reply_request \<Rightarrow> bool" where
  "reply_allowed w sv who rp = fst (check_command_rate sv (wb_instant w 0) (ag_user_id (ai_token who))
     (CreateBlip (ag_wavelet_id (ai_token who)) (rp_parent rp) None))"

definition reply_admitted :: "env \<Rightarrow> web \<Rightarrow> server \<Rightarrow> agent_identity \<Rightarrow> reply_request \<Rightarrow> bool" where
  "reply_admitted e w sv who rp \<longleftrightarrow> ag_scope (ai_token who) = ScopeReply \<and> reply_well_formed rp \<and> reply_allowed w sv who rp
     \<and> env_load e (ag_wave_id (ai_token who)) \<and> (\<exists>v. db_wave (sv_store sv) (ag_wave_id (ai_token who)) = Ok (Some v))"

lemma admitted_opens:
  assumes "env_load e wid" "db_wave (sv_store sv) wid = Ok (Some v)"
  shows "\<exists>a. fst (open_resident e sv wid) = Ok (Some a)"
  using assms by (simp add: open_resident_def Let_def split: option.split)

lemma agent_reply_cases:
  fixes who :: agent_identity
  defines "wid \<equiv> ag_wave_id (ai_token who)"
  assumes "server_inv sv" "agent_reply e w encode sv who rp = Some (r, sv')"
  obtains (refused) x where "r = Refused x" "sv_store sv' = sv_store sv" "\<not> reply_admitted e w sv who rp"
  | (decided) sv1 live sv2 live2 where "sv_store sv1 = sv_store sv" "resident_ok (sv_store sv) wid live"
      "create_reply_locked e w encode who rp wid sv1 live = (r, sv2, live2)" "sv_store sv' = sv_store sv2"
      "reply_well_formed rp"
proof -
  let ?c = "CreateBlip (ag_wavelet_id (ai_token who)) (rp_parent rp) None"
  have evict: "sv_store (maybe_evict sv0 i) = sv_store sv0" for sv0 i by (simp add: maybe_evict_def split: option.split)
  obtain allowed sv0 where rate: "check_command_rate sv (wb_instant w 0) (ag_user_id (ai_token who)) ?c = (allowed, sv0)" by fastforce
  have aside: "aside sv sv0" using rate by (auto simp: check_command_rate_def case_prod_beta' Let_def aside_def)
  then have inv: "server_inv sv0" and st: "sv_store sv0 = sv_store sv"
    using aside_inv [OF aside] assms(2) by (simp_all add: aside_def)
  show thesis
  proof (cases "ag_scope (ai_token who) = ScopeReply \<and> reply_well_formed rp \<and> allowed")
    case False
    then have "(\<exists>x. r = Refused x) \<and> sv_store sv' = sv_store sv" using assms(3) rate st
      by (auto simp: agent_reply_def agent_error_def rate_limited_def split: if_splits)
    with False rate refused show thesis by (auto simp: reply_admitted_def reply_allowed_def)
  next
    case True
    then have cr: "map_option (\<lambda>(r, sv). (r, maybe_evict sv wid)) (create_reply e w encode sv0 who rp) = Some (r, sv')"
      using assms(3) rate by (simp add: agent_reply_def wid_def)
    from inv show thesis
    proof (cases rule: create_reply_cases [of _ e w encode who rp])
      case (unopened x sv1)
      then have "r = Refused x" "sv_store sv' = sv_store sv" using cr st evict by auto
      moreover have "\<not> reply_admitted e w sv who rp"
        using unopened(4) admitted_opens [of e wid sv0] by (auto simp: reply_admitted_def wid_def st)
      ultimately show thesis by (rule refused)
    next
      case (locked a sv1 r1 sv2 live2)
      have "resident_ok (sv_store sv1) wid (sv_heap sv1 a)"
        using locked(2,4) coherentD(3) [of "{}" resident_ok sv1] by (simp add: server_inv_def wid_def)
      with locked cr st True evict show thesis by (intro decided [of sv1 "sv_heap sv1 a" sv2 live2]) (auto simp: wid_def)
    qed
  qed
qed

lemma agent_reply_created:
  fixes who :: agent_identity
  defines "t \<equiv> ai_token who"
  assumes "server_inv sv" "agent_reply e w encode sv who rp = Some (Replied 201 rc, sv')"
    "valid_agent_token ts (sv_store sv) (ai_token_hash who) = Some t" "distinct (map tr_token_hash (st_agent_tokens (sv_store sv)))"
  obtains b where "st_blips (sv_store sv') = st_blips (sv_store sv) @ [b]"
    "b_wavelet_id b = ag_wavelet_id t" "b_author b = ag_user_id t" "b_content b = delta_document (rp_text rp)"
    "\<lparr>rr_token_id = ag_id t, rr_request_id = rp_request_id rp, rr_request_hash = token_digest w (encode rp),
       rr_blip_id = b_id b, rr_revision = b_revision b\<rparr> \<in> set (st_agent_replies (sv_store sv'))"
    "rc = \<lparr>rc_request_id = rp_request_id rp, rc_wave_id = ag_wave_id t, rc_wavelet_id = b_wavelet_id b,
       rc_blip_id = b_id b, rc_revision = b_revision b\<rparr>"
  using assms(2,3)
proof (cases rule: agent_reply_cases)
  case (decided sv1 live sv2 live2)
  from reply_locked_created [OF decided(3)] obtain b t' where
    prep: "prepare_blip (env_json_len e) (env_now e 2) (env_uuid e 0) live (ag_user_id t) (ag_wavelet_id t)
       (rp_parent rp) (Some (delta_document (rp_text rp))) = Ok b"
    and t': "valid_agent_token (env_now e 3) (sv_store sv1) (ai_token_hash who) = Some t'"
    and st: "st_blips (sv_store sv2) = st_blips (sv_store sv1) @ [b\<lparr>b_deleted := False\<rparr>]"
      "st_agent_replies (sv_store sv2) = st_agent_replies (sv_store sv1) @ [\<lparr>rr_token_id = ag_id t', rr_request_id = rp_request_id rp,
         rr_request_hash = token_digest w (encode rp), rr_blip_id = b_id b, rr_revision = b_revision b\<rparr>]"
    and rc: "rc = \<lparr>rc_request_id = rp_request_id rp, rc_wave_id = ag_wave_id t, rc_wavelet_id = b_wavelet_id b,
       rc_blip_id = b_id b, rc_revision = b_revision b\<rparr>" unfolding t_def by metis
  have "t' = t" using valid_token_same [OF assms(4)] t' decided(1) assms(5) by simp
  moreover have len: "rp_text rp \<noteq> []" "utf16_len (rp_text rp) \<le> MAX_BLIP_UNITS"
    using decided(5) by (auto simp: reply_well_formed_def)
  from prep have "b_wavelet_id b = ag_wavelet_id t" "b_author b = ag_user_id t" "b_content b = delta_document (rp_text rp)"
    by (auto simp: prepare_blip_def bind_result_Ok_iff seed_document [OF len] blip_new_def Let_def split: if_splits)
  ultimately show thesis using that [of "b\<lparr>b_deleted := False\<rparr>"] st decided(1,4) rc by simp
qed simp

lemma agent_reply_replayed:
  fixes who :: agent_identity
  defines "t \<equiv> ai_token who"
  assumes "server_inv sv" "agent_reply e w encode sv who rp = Some (r, sv')"
    "db_agent_reply_receipt (sv_store sv) t (rp_request_id rp) = Some \<lparr>sr_request_hash = token_digest w (encode rp), sr_receipt = rc\<rparr>"
  shows "sv_store sv' = sv_store sv \<and> (r = Replied 200 rc \<or> (\<exists>x. r = Refused x))
    \<and> (reply_admitted e w sv who rp \<and> env_read e
         \<and> valid_agent_token (env_now e 1) (sv_store sv) (ai_token_hash who) = Some t \<longrightarrow> r = Replied 200 rc)"
  using assms(2,3)
proof (cases rule: agent_reply_cases)
  case (decided sv1 live sv2 live2)
  note re = reply_locked_replayed [OF decided(3), unfolded decided(1), OF assms(4) [unfolded t_def]]
  with decided token_may_access [OF assms(2) decided(2)] show ?thesis by (auto simp: t_def)
qed auto

section \<open>Properties\<close>

text \<open>
  (C15) An agent's reply is stored exactly once. When a reply is answered with \<open>201\<close>, one message has
  been stored, the one the receipt names, in the credential's wavelet, by its account and with the
  text of the request. From then on, in every reachable state that still has the receipt, the
  same request stores nothing and is answered with the same receipt or refused; and it is
  answered with the receipt whenever it gets past the limiter, the database answers and the
  credential is still valid, even if the wave has been frozen or the parent deleted since.
\<close>

theorem agent_reply_once:
  assumes "reachable sv" "agent_from_request e0 w sv rq = Ok who" "distinct (map tr_token_hash (st_agent_tokens (sv_store sv)))"
    and first: "agent_reply e w encode sv who rp = Some (Replied 201 rc, sv1)"
    and later: "reachable sv2" "set (st_agent_replies (sv_store sv1)) \<subseteq> set (st_agent_replies (sv_store sv2))"
      "distinct (map (\<lambda>r. (rr_token_id r, rr_request_id r)) (st_agent_replies (sv_store sv2)))"
    and again: "agent_reply e2 w2 encode sv2 who rp = Some (r, sv3)" "token_digest w2 = token_digest w"
  shows "(\<exists>b. st_blips (sv_store sv1) = st_blips (sv_store sv) @ [b] \<and> b_id b = rc_blip_id rc
         \<and> b_wavelet_id b = ag_wavelet_id (ai_token who) \<and> b_author b = ag_user_id (ai_token who)
         \<and> b_content b = delta_document (rp_text rp))
    \<and> sv_store sv3 = sv_store sv2 \<and> (r = Replied 200 rc \<or> (\<exists>x. r = Refused x))
    \<and> (reply_admitted e2 w2 sv2 who rp \<and> env_read e2
         \<and> valid_agent_token (env_now e2 1) (sv_store sv2) (ai_token_hash who) = Some (ai_token who) \<longrightarrow> r = Replied 200 rc)"
proof -
  let ?t = "ai_token who"
  have who: "valid_agent_token (env_now e0 0) (sv_store sv) (ai_token_hash who) = Some ?t"
    using assms(2) by (auto simp: agent_from_request_def Let_def split: option.splits if_splits prod.splits)
  from agent_reply_created [OF reachable_inv [OF assms(1)] first who assms(3)] obtain b where
    b: "st_blips (sv_store sv1) = st_blips (sv_store sv) @ [b]"
      "b_wavelet_id b = ag_wavelet_id ?t" "b_author b = ag_user_id ?t" "b_content b = delta_document (rp_text rp)"
    and row: "\<lparr>rr_token_id = ag_id ?t, rr_request_id = rp_request_id rp, rr_request_hash = token_digest w (encode rp),
       rr_blip_id = b_id b, rr_revision = b_revision b\<rparr> \<in> set (st_agent_replies (sv_store sv1))"
    and rc: "rc = \<lparr>rc_request_id = rp_request_id rp, rc_wave_id = ag_wave_id ?t, rc_wavelet_id = b_wavelet_id b,
       rc_blip_id = b_id b, rc_revision = b_revision b\<rparr>" by metis
  have "find (\<lambda>r. rr_token_id r = ag_id ?t \<and> rr_request_id r = rp_request_id rp) (st_agent_replies (sv_store sv2)) = Some
      \<lparr>rr_token_id = ag_id ?t, rr_request_id = rp_request_id rp, rr_request_hash = token_digest w (encode rp),
       rr_blip_id = b_id b, rr_revision = b_revision b\<rparr>"
    using find_unique_key [OF later(3), of _ "(ag_id ?t, rp_request_id rp)"] row later(2) by auto
  then have "db_agent_reply_receipt (sv_store sv2) ?t (rp_request_id rp) =
      Some \<lparr>sr_request_hash = token_digest w2 (encode rp), sr_receipt = rc\<rparr>"
    by (simp add: db_agent_reply_receipt_def rc b(2) again(2))
  from agent_reply_replayed [OF reachable_inv [OF later(1)] again(1) this] b rc show ?thesis by auto
qed


section \<open>A sample reply\<close>

definition sample_token :: agent_token_row where
  "sample_token = \<lparr>tr_id = lit ''t'', tr_token_hash = lit ''#k'', tr_user_id = bob, tr_wavelet_id = wl_id sample_wavelet,
     tr_label = lit ''bot'', tr_scope = ScopeReply, tr_created_at = 0, tr_expires_at = 1000\<rparr>"

definition agent_server :: server where
  "agent_server = app_new 0 (sample_store\<lparr>st_agent_tokens := [sample_token]\<rparr>) (\<lambda>_. sample_live) (\<lambda>_. empty_channel)"

definition sample_agent :: agent_identity where
  "sample_agent = \<lparr>ai_token = row_to_agent_token sample_token (WaveId (lit ''w-1'')), ai_token_hash = lit ''#k''\<rparr>"

definition sample_bearer :: request where
  "sample_bearer = sample_request\<lparr>rq_authorization := Some (lit ''Bearer k'')\<rparr>"

definition sample_reply :: reply_request where
  "sample_reply = \<lparr>rp_request_id = lit ''r-1'', rp_parent = None, rp_text = lit ''Done.''\<rparr>"

definition replied :: "server \<Rightarrow> (agent_response \<times> server) option" where
  "replied sv = agent_reply sample_env sample_web rp_text sv sample_agent sample_reply"

lemma agent_server_reachable: "reachable agent_server"
proof -
  have "shape (sample_store\<lparr>st_agent_tokens := [sample_token]\<rparr>) = shape sample_store" by (simp add: shape_def)
  from members_ok_shape [OF this] show ?thesis unfolding agent_server_def by (intro start) (simp add: sample_members)
qed

lemma sample_admitted: "reply_admitted sample_env sample_web agent_server sample_agent sample_reply"
proof -
  have "reply_well_formed sample_reply" "ag_scope (ai_token sample_agent) = ScopeReply"
    "env_load sample_env (ag_wave_id (ai_token sample_agent))"
    "db_wave (sv_store agent_server) (ag_wave_id (ai_token sample_agent)) = Ok (Some (lw_wave sample_live))" by code_simp+
  moreover have "reply_allowed sample_web agent_server sample_agent sample_reply" by code_simp
  ultimately show ?thesis unfolding reply_admitted_def by blast
qed


definition sample_receipt :: reply_receipt where
  "sample_receipt = \<lparr>rc_request_id = lit ''r-1'', rc_wave_id = WaveId (lit ''w-1''), rc_wavelet_id = wl_id sample_wavelet,
     rc_blip_id = blip_id_new (env_uuid sample_env 0), rc_revision = 1\<rparr>"

definition after_reply :: server where
  "after_reply = snd (the (replied agent_server))"

lemma sample_replied: "replied agent_server = Some (Replied 201 sample_receipt, after_reply)"
proof -
  have "map_option fst (replied agent_server) = Some (Replied 201 sample_receipt)" by code_simp
  then show ?thesis by (auto simp: after_reply_def)
qed

text \<open>The same request again, after the wave has been frozen.\<close>

definition frozen_later :: server where
  "frozen_later = fst (handle_command sample_env 5 after_reply ((sample_session alice 1)\<lparr>ss_subscribed := [WaveId (lit ''w-1'')]\<rparr>)
     (SetMode (WaveId (lit ''w-1'')) Frozen))"

theorem agent_reply_once_witness:
  "\<exists>sv3. replied agent_server = Some (Replied 201 sample_receipt, after_reply)
     \<and> map wr_mode (st_waves (sv_store frozen_later)) = [lit ''frozen'']
     \<and> replied frozen_later = Some (Replied 200 sample_receipt, sv3) \<and> sv_store sv3 = sv_store frozen_later"
proof -
  have first: "agent_reply sample_env sample_web rp_text agent_server sample_agent sample_reply = Some (Replied 201 sample_receipt, after_reply)"
    using sample_replied by (simp add: replied_def)
  have frozen: "map wr_mode (st_waves (sv_store frozen_later)) = [lit ''frozen'']" by code_simp
  have who: "agent_from_request sample_env sample_web agent_server sample_bearer = Ok sample_agent"
    and hashes: "distinct (map tr_token_hash (st_agent_tokens (sv_store agent_server)))" by code_simp+
  have reach: "reachable frozen_later" unfolding frozen_later_def
    by (rule command [OF reachable.agent [OF agent_server_reachable first]]) (rule surjective_pairing)
  have kept: "set (st_agent_replies (sv_store after_reply)) \<subseteq> set (st_agent_replies (sv_store frozen_later))"
    "distinct (map (\<lambda>r. (rr_token_id r, rr_request_id r)) (st_agent_replies (sv_store frozen_later)))" by code_simp+
  obtain r sv3 where again: "agent_reply sample_env sample_web rp_text frozen_later sample_agent sample_reply = Some (r, sv3)"
    using agent_reply_served [OF reachable_inv [OF reach]] by blast
  have "reply_well_formed sample_reply" "ag_scope (ai_token sample_agent) = ScopeReply"
    "env_load sample_env (ag_wave_id (ai_token sample_agent))" "reply_allowed sample_web frozen_later sample_agent sample_reply"
    "db_wave (sv_store frozen_later) (ag_wave_id (ai_token sample_agent)) = Ok (Some ((lw_wave sample_live)\<lparr>w_mode := Frozen\<rparr>))"
    "env_read sample_env"
    "valid_agent_token (env_now sample_env 1) (sv_store frozen_later) (ai_token_hash sample_agent) = Some (ai_token sample_agent)"
    by code_simp+
  with agent_reply_once [OF agent_server_reachable who hashes first reach kept again refl]
  have "r = Replied 200 sample_receipt" "sv_store sv3 = sv_store frozen_later" unfolding reply_admitted_def by blast+
  with sample_replied again frozen show ?thesis by (simp add: replied_def)
qed

end
