(* ===== verification/Gal_Pages.thy ===== *)
theory Gal_Pages
  imports Gal_Agent "HOL-Library.Sublist"
begin

text \<open>
  Reading a wavelet page by page. An agent asks for a page, and for the page after the cursor
  it was given until no cursor comes back; the pages together are the messages of the wavelet,
  each once and in order, whatever limits the agent chose.
\<close>

section \<open>One page\<close>

definition shown :: "store \<Rightarrow> context_blip \<Rightarrow> blip \<Rightarrow> bool" where
  "shown st c b \<longleftrightarrow> cb_id c = b_id b \<and> cb_seq c = b_seq b \<and> cb_author c = b_author b \<and> cb_parent c = b_parent b
     \<and> cb_revision c = b_revision b \<and> cb_comment_id c = b_comment b \<and> cb_comment_resolved c = comment_resolved_of st b
     \<and> prefix (cb_text c) (display_text (b_content b)) \<and> (cb_truncated c \<longleftrightarrow> cb_text c \<noteq> display_text (b_content b))"

lemma bounded_loop_text:
  "bounded_loop budget units s = (t, used, short) \<Longrightarrow> units \<le> budget \<Longrightarrow>
   prefix t s \<and> used = units + utf16_len t \<and> used \<le> budget \<and> (short \<longleftrightarrow> t \<noteq> s)"
proof (induction budget units s arbitrary: t used short rule: bounded_loop.induct)
  case (2 budget units c s)
  show ?case
  proof (cases "units + len_utf16 c > budget")
    case True
    with "2.prems" show ?thesis by auto
  next
    case False
    then obtain t' where "bounded_loop budget (units + len_utf16 c) s = (t', used, short)" "t = c # t'"
      using "2.prems" by (auto split: prod.splits)
    with "2.IH" [OF False this(1)] False show ?thesis by simp
  qed
qed auto

lemma bounded_text_spec:
  "bounded_text s budget = (t, used, short) \<Longrightarrow>
   prefix t s \<and> used = utf16_len t \<and> used \<le> budget \<and> (short \<longleftrightarrow> t \<noteq> s)"
  using bounded_loop_text [of budget 0 s] by (simp add: bounded_text_def)

definition page_units :: "context_blip list \<Rightarrow> nat" where
  "page_units p = sum_list (map (utf16_len \<circ> cb_text) p)"

lemma context_page_spec:
  defines "page st limit left bs \<equiv> context_page st limit left bs"
  shows "list_all2 (shown st) (page st limit left bs) (take (length (page st limit left bs)) bs)
   \<and> length (page st limit left bs) \<le> limit \<and> length (page st limit left bs) \<le> length bs \<and> page_units (page st limit left bs) \<le> left"
  unfolding page_def
proof (induction bs arbitrary: limit left)
  case (Cons b bs)
  show ?case
  proof (cases "limit = 0 \<or> left < 2")
    case False
    obtain t used short where b: "bounded_text (display_text (b_content b)) left = (t, used, short)" by (cases rule: prod_cases3)
    let ?rest = "context_page st (limit - 1) (left - used) bs"
    obtain c where c: "context_page st limit left (b # bs) = c # ?rest" "shown st c b" "utf16_len (cb_text c) = used"
      using False b bounded_text_spec [OF b] by (simp add: shown_def)
    have "used \<le> left" using bounded_text_spec [OF b] by simp
    note IH = Cons.IH [of "limit - 1" "left - used"]
    have "Suc (length ?rest) \<le> limit" using IH False by arith
    moreover have "used + page_units ?rest \<le> left" using IH \<open>used \<le> left\<close> by arith
    ultimately show ?thesis using IH c(2,3) unfolding c(1) by (simp add: page_units_def)
  qed (auto simp: page_units_def)
qed (simp add: page_units_def)

lemma context_page_nonempty: "bs \<noteq> [] \<Longrightarrow> 1 \<le> limit \<Longrightarrow> 2 \<le> left \<Longrightarrow> context_page st limit left bs \<noteq> []"
  by (cases bs) (simp_all split: prod.split)

section \<open>The cursor\<close>

lemma split_once_append: "c \<notin> set s \<Longrightarrow> split_once c (s @ c # t) = Some (s, t)"
  by (induction s) auto

lemma cursor_roundtrip:
  assumes "0 \<le> cb_seq c" "cb_seq c < 2 ^ 63" "valid_id (blip_id_str (cb_id c)) (lit ''b-'')"
  shows "parse_cursor (Some (cursor_of c)) = Some (cb_seq c, blip_id_str (cb_id c))"
proof -
  have "58 \<notin> set (show_int (cb_seq c))" using show_int_chars by (force simp: is_ascii_digit_def)
  from split_once_append [OF this, of "blip_id_str (cb_id c)"]
  show ?thesis using assms parse_show_i64 [of "cb_seq c"] by (simp add: parse_cursor_def cursor_of_def lit_def)
qed

section \<open>All pages\<close>

definition messages_of :: "store \<Rightarrow> wavelet_id \<Rightarrow> blip list" where
  "messages_of st i = sort_key blip_place (filter (\<lambda>b. b_wavelet_id b = i \<and> \<not> b_deleted b) (st_blips st))"

text \<open>What the agent does: the fuel bounds the number of pages.\<close>

fun read_pages :: "nat \<Rightarrow> timestamp \<Rightarrow> store \<Rightarrow> ustring \<Rightarrow> nat \<Rightarrow> nat \<Rightarrow> ustring option \<Rightarrow> context_blip list list option" where
  "read_pages 0 ts st hash limit units after = None"
| "read_pages (Suc n) ts st hash limit units after =
     (case parse_cursor after of
        None \<Rightarrow> None
      | Some start \<Rightarrow>
          (case db_agent_context ts st hash start limit units of
             Ok (Some c) \<Rightarrow>
               (case ac_next_cursor c of
                  None \<Rightarrow> Some [ac_blips c]
                | Some k \<Rightarrow> map_option (Cons (ac_blips c)) (read_pages n ts st hash limit units (Some k)))
           | _ \<Rightarrow> None))"

lemma candidates_eq:
  "context_candidates st i after limit = take (limit + 1) (filter (\<lambda>b. after < blip_place b) (messages_of st i))"
  by (simp add: context_candidates_def messages_of_def filter_sort conj_ac)

text \<open>Places are distinct, so what comes after a message is what follows it in the list.\<close>

lemma after_place:
  assumes "sorted (map f xs)" "distinct (map f xs)" "k < length xs"
  shows "filter (\<lambda>x. f (xs ! k) < f x) xs = drop (Suc k) xs"
proof -
  have "filter (\<lambda>x. f (xs ! k) < f x) xs =
      filter (\<lambda>x. f (xs ! k) < f x) (take (Suc k) xs) @ filter (\<lambda>x. f (xs ! k) < f x) (drop (Suc k) xs)"
    by (metis append_take_drop_id filter_append)
  moreover have "filter (\<lambda>x. f (xs ! k) < f x) (take (Suc k) xs) = []"
    using assms(1,3) by (auto simp: filter_empty_conv in_set_conv_nth sorted_iff_nth_mono not_less)
  moreover have "filter (\<lambda>x. f (xs ! k) < f x) (drop (Suc k) xs) = drop (Suc k) xs"
  proof (rule filter_True, rule ballI)
    fix x assume "x \<in> set (drop (Suc k) xs)"
    then obtain j where j: "x = xs ! j" "k < j" "j < length xs"
      by (auto simp: in_set_conv_nth)
    with assms have "f (xs ! k) \<le> f x" "f (xs ! k) \<noteq> f x"
      by (auto simp: sorted_iff_nth_mono distinct_conv_nth)
    then show "f (xs ! k) < f x" by simp
  qed
  ultimately show ?thesis by simp
qed

definition pageable :: "store \<Rightarrow> wavelet_id \<Rightarrow> bool" where
  "pageable st i \<longleftrightarrow> distinct (map b_id (st_blips st)) \<and>
     (\<forall>b \<in> set (st_blips st). b_wavelet_id b = i \<longrightarrow> valid_id (blip_id_str (b_id b)) (lit ''b-'') \<and> 0 \<le> b_seq b \<and> b_seq b < 2 ^ 63)"

lemma messages_of_places:
  assumes "pageable st i"
  shows "sorted (map blip_place (messages_of st i))" "distinct (map blip_place (messages_of st i))"
    "b \<in> set (messages_of st i) \<Longrightarrow> valid_id (blip_id_str (b_id b)) (lit ''b-'') \<and> 0 \<le> b_seq b \<and> b_seq b < 2 ^ 63"
proof -
  let ?xs = "filter (\<lambda>b. b_wavelet_id b = i \<and> \<not> b_deleted b) (st_blips st)"
  show "sorted (map blip_place (messages_of st i))" by (simp add: messages_of_def)
  have "inj_on b_id (set ?xs)" using assms by (auto simp: pageable_def distinct_map intro: inj_on_subset)
  then have "inj_on blip_place (set ?xs)"
    by (auto simp: inj_on_def blip_place_def blip_id_str_def split: blip_id.splits)
  moreover have "distinct ?xs" using assms by (auto simp: pageable_def distinct_map)
  ultimately show "distinct (map blip_place (messages_of st i))" by (simp add: messages_of_def distinct_map)
  show "b \<in> set (messages_of st i) \<Longrightarrow> valid_id (blip_id_str (b_id b)) (lit ''b-'') \<and> 0 \<le> b_seq b \<and> b_seq b < 2 ^ 63"
    using assms by (auto simp: pageable_def messages_of_def)
qed

text \<open>A valid credential for a wavelet whose wave exists.\<close>

definition may_read :: "timestamp \<Rightarrow> store \<Rightarrow> ustring \<Rightarrow> wavelet_id \<Rightarrow> bool" where
  "may_read ts st hash i \<longleftrightarrow> (\<exists>t. valid_agent_token ts st hash = Some t \<and> ag_wavelet_id t = i
     \<and> ag_wave_id t \<in> wr_id ` set (st_waves st))"

lemma context_answer:
  assumes "may_read ts st hash i" "bs = filter (\<lambda>b. after < blip_place b) (messages_of st i)"
    "p = context_page st limit units (take (limit + 1) bs)"
  shows "\<exists>c. db_agent_context ts st hash after limit units = Ok (Some c) \<and> ac_blips c = p
    \<and> ac_next_cursor c = (if length p < length (take (limit + 1) bs) then (if p = [] then None else Some (cursor_of (last p))) else None)"
proof -
  obtain t where t: "valid_agent_token ts st hash = Some t" "ag_wavelet_id t = i" "ag_wave_id t \<in> wr_id ` set (st_waves st)"
    using assms(1) by (auto simp: may_read_def)
  obtain row w where w: "find (\<lambda>w. wl_id w = tr_wavelet_id row) (st_wavelets st) = Some w" "t = row_to_agent_token row (wl_wave_id w)"
    using t(1) by (auto simp: valid_agent_token_def bind_eq_Some_conv with_wave_def)
  then have "find (\<lambda>w. wl_id w = ag_wavelet_id t) (st_wavelets st) = Some w" "wl_wave_id w \<in> wr_id ` set (st_waves st)"
    using t(3) by (simp_all add: row_to_agent_token_def)
  moreover from this(2) obtain r where "find (\<lambda>r. wr_id r = wl_wave_id w) (st_waves st) = Some r"
    by (cases "find (\<lambda>r. wr_id r = wl_wave_id w) (st_waves st)") (auto simp: find_None_iff)
  ultimately show ?thesis using t assms(2,3) by (simp add: db_agent_context_def candidates_eq Let_def)
qed

lemma read_pages_from:
  assumes "may_read ts st hash i" "pageable st i" "1 \<le> limit" "2 \<le> units"
  shows "parse_cursor after = Some start \<Longrightarrow> bs = filter (\<lambda>b. start < blip_place b) (messages_of st i) \<Longrightarrow>
     bs = drop m (messages_of st i) \<Longrightarrow> length bs < n \<Longrightarrow>
     \<exists>ps. read_pages n ts st hash limit units after = Some ps \<and> list_all2 (shown st) (concat ps) bs
       \<and> (\<forall>p \<in> set ps. length p \<le> limit \<and> page_units p \<le> units)"
proof (induction n arbitrary: after start bs m)
  case (Suc n)
  let ?p = "context_page st limit units (take (limit + 1) bs)" and ?ms = "messages_of st i"
  let ?k = "length ?p"
  obtain c where c: "db_agent_context ts st hash start limit units = Ok (Some c)" "ac_blips c = ?p"
    "ac_next_cursor c = (if ?k < length (take (limit + 1) bs) then (if ?p = [] then None else Some (cursor_of (last ?p))) else None)"
    using context_answer [OF assms(1) Suc.prems(2) refl] by blast
  have spec: "list_all2 (shown st) ?p (take ?k (take (limit + 1) bs))" "?k \<le> limit" "?k \<le> length (take (limit + 1) bs)" "page_units ?p \<le> units"
    using context_page_spec [of st limit units "take (limit + 1) bs"] by auto
  then have p: "list_all2 (shown st) ?p (take ?k bs)" by (simp add: min_def split: if_splits)
  show ?case
  proof (cases "?k < length (take (limit + 1) bs)")
    case False
    then have "?k = length bs" using spec(2,3) by (simp add: min_def split: if_splits)
    with c False Suc.prems(1) p spec show ?thesis by simp
  next
    case True
    then have "?p \<noteq> []" using context_page_nonempty [of "take (limit + 1) bs" limit units st] assms(3,4) by auto
    then obtain k where k: "?k = Suc k" by (cases ?k) auto
    have len: "Suc k < length bs" using True k by simp
    have "shown st (?p ! k) (bs ! k)" using p k len by (simp add: list_all2_conv_all_nth)
    moreover have "last ?p = ?p ! k" using \<open>?p \<noteq> []\<close> k by (simp add: last_conv_nth)
    moreover have "bs ! k \<in> set ?ms" using len Suc.prems(2) nth_mem [of k bs] by auto
    ultimately have cur: "parse_cursor (Some (cursor_of (last ?p))) = Some (blip_place (bs ! k))"
      using cursor_roundtrip [of "last ?p"] messages_of_places(3) [OF assms(2)] by (simp add: shown_def blip_place_def)
    have at: "bs ! k = ?ms ! (m + k)" "m + k < length ?ms" using Suc.prems(3) len by simp_all
    have "filter (\<lambda>b. blip_place (bs ! k) < blip_place b) ?ms = drop (Suc (m + k)) ?ms"
      unfolding at(1) by (rule after_place [OF messages_of_places(1,2) [OF assms(2)] at(2)])
    moreover have rest: "drop (Suc k) bs = drop (Suc (m + k)) ?ms" using Suc.prems(3) by (simp add: add.commute)
    ultimately have "drop (Suc k) bs = filter (\<lambda>b. blip_place (bs ! k) < blip_place b) ?ms" by simp
    moreover have "length (drop (Suc k) bs) < n" using len Suc.prems(4) by simp
    ultimately obtain ps where "read_pages n ts st hash limit units (Some (cursor_of (last ?p))) = Some ps"
        "list_all2 (shown st) (concat ps) (drop (Suc k) bs)" "\<forall>p \<in> set ps. length p \<le> limit \<and> page_units p \<le> units"
      using Suc.IH [OF cur _ rest] by auto
    moreover have "list_all2 (shown st) (?p @ concat ps) (take (Suc k) bs @ drop (Suc k) bs)"
      by (rule list_all2_appendI) (use p k calculation(2) in simp_all)
    ultimately show ?thesis using c True \<open>?p \<noteq> []\<close> Suc.prems(1) spec by simp
  qed
qed simp

text \<open>
  (C17) Reading by pages ends and is complete. An agent with a valid credential that follows the
  cursors from the start, with any limits the endpoint accepts, has every message of its wavelet
  that is not deleted, each exactly once and in order, after at most one page more than there
  are messages; no page exceeds its limits, and each text is a prefix of the message's, marked
  as truncated exactly when something is missing.
\<close>

theorem agent_pages_complete:
  assumes "may_read ts st hash i" "pageable st i" "1 \<le> limit" "2 \<le> units"
  shows "\<exists>ps. read_pages (Suc (length (messages_of st i))) ts st hash limit units None = Some ps
    \<and> list_all2 (shown st) (concat ps) (messages_of st i)
    \<and> (\<forall>p \<in> set ps. length p \<le> limit \<and> page_units p \<le> units)"
proof -
  have "filter (\<lambda>b. (-1, []) < blip_place b) (messages_of st i) = messages_of st i"
    using messages_of_places(3) [OF assms(2)] by (intro filter_True) (force simp: blip_place_def less_prod_def')
  from read_pages_from [OF assms, of None, OF _ this [symmetric], of 0 "Suc (length (messages_of st i))"] show ?thesis
    by (simp add: parse_cursor_def del: read_pages.simps)
qed

definition sample_reader :: agent_token_row where
  "sample_reader = \<lparr>tr_id = lit ''t'', tr_token_hash = lit ''#k'', tr_user_id = bob, tr_wavelet_id = wl_id sample_wavelet,
     tr_label = lit ''bot'', tr_scope = ScopeRead, tr_created_at = 0, tr_expires_at = 1000\<rparr>"

definition sample_library :: store where
  "sample_library = sample_store\<lparr>st_agent_tokens := [sample_reader],
     st_blips := [sample_blip\<lparr>b_id := BlipId (lit ''b-9''), b_seq := 7, b_content := delta_document (lit ''second'')\<rparr>,
       sample_blip\<lparr>b_content := delta_document (lit ''first'')\<rparr>]\<rparr>"

theorem agent_pages_complete_witness:
  "\<exists>ps. read_pages 3 5 sample_library (lit ''#k'') 1 4 None = Some ps
     \<and> list_all2 (shown sample_library) (concat ps) (rev (st_blips sample_library))"
proof -
  let ?i = "wl_id sample_wavelet"
  have "valid_agent_token 5 sample_library (lit ''#k'') = Some (row_to_agent_token sample_reader (WaveId (lit ''w-1'')))"
    "ag_wavelet_id (row_to_agent_token sample_reader (WaveId (lit ''w-1''))) = ?i"
    "ag_wave_id (row_to_agent_token sample_reader (WaveId (lit ''w-1''))) \<in> wr_id ` set (st_waves sample_library)" by code_simp+
  then have "may_read 5 sample_library (lit ''#k'') ?i" unfolding may_read_def by blast
  moreover have "pageable sample_library ?i" unfolding pageable_def by code_simp
  moreover have "messages_of sample_library ?i = rev (st_blips sample_library)" "length (st_blips sample_library) = 2" by code_simp+
  ultimately show ?thesis using agent_pages_complete [of 5 sample_library "lit ''#k''" ?i 1 4] by (auto simp: numeral_3_eq_3 simp del: read_pages.simps)
qed

end
