(* ===== verification/Gal_Schema.thy ===== *)
theory Gal_Schema
  imports Gal_Strings
begin

text \<open>
  The schema of the database and its migrations, from \<open>crates/gal-server/src/schema.sql\<close> and from
  \<open>migrate\<close> and \<open>adopt_legacy\<close> in \<open>db.rs\<close>. A database is its version, its tables with their columns,
  declarations and rows, and its indexes. A statement either takes effect or fails and leaves
  everything as it was; a batch outside a transaction keeps the statements before the one that
  failed. Whether a transaction commits, and how far the first batch gets before the process is
  interrupted, are arguments.
\<close>

section \<open>Databases and statements\<close>

datatype sql_value = SqlNull | SqlInt int | SqlText ustring | SqlBlob "nat list"

type_synonym sql_row = "int \<times> (string \<times> sql_value) list"

record sql_table =
  tb_columns :: "(string \<times> string) list"   \<comment> \<open>name and declaration\<close>
  tb_constraints :: "string list"
  tb_rows :: "sql_row list"                 \<comment> \<open>row id and values\<close>

record database =
  user_version :: int
  tables :: "(string \<times> sql_table) list"
  indexes :: "(string \<times> string \<times> string list \<times> string) list"

text \<open>The flag of a creation is \<open>IF NOT EXISTS\<close>; \<open>CopySearchKeys\<close> is the one statement on rows.\<close>

datatype ddl =
    CreateTable bool string "(string \<times> string) list" "string list"
  | CreateIndex bool string string "string list" string
  | AddColumn string string string sql_value
  | CopySearchKeys

definition cell_of :: "string \<Rightarrow> sql_row \<Rightarrow> sql_value" where
  "cell_of c r = (case map_of (snd r) c of Some v \<Rightarrow> v | None \<Rightarrow> SqlNull)"

definition rows_of :: "database \<Rightarrow> string \<Rightarrow> sql_row list" where
  "rows_of d n = (case map_of (tables d) n of Some t \<Rightarrow> tb_rows t | None \<Rightarrow> [])"

text \<open>What the constraints of \<open>blip_search_keys\<close> ask of its rows.\<close>

definition search_keys_ok :: "database \<Rightarrow> sql_row list \<Rightarrow> bool" where
  "search_keys_ok d rows =
     (let ids = map (cell_of ''blip_id'') rows
      in distinct (map fst rows) \<and> distinct ids \<and> SqlNull \<notin> set ids
         \<and> set ids \<subseteq> set (map (cell_of ''id'') (rows_of d ''blips'')))"

definition search_key_rows :: "database \<Rightarrow> sql_row list" where
  "search_key_rows d =
     map (\<lambda>r. (fst r, [(''id'', SqlInt (fst r)), (''blip_id'', cell_of ''blip_id'' r)])) (rows_of d ''blip_search'')"

fun exec_ddl :: "ddl \<Rightarrow> database \<Rightarrow> database option" where
  "exec_ddl (CreateTable lenient n cols cons) d =
     (if map_of (tables d) n \<noteq> None then (if lenient then Some d else None)
      else Some (d\<lparr>tables := tables d @ [(n, \<lparr>tb_columns = cols, tb_constraints = cons, tb_rows = []\<rparr>)]\<rparr>))"
| "exec_ddl (CreateIndex lenient n tab cols cond) d =
     (if map_of (indexes d) n \<noteq> None then (if lenient then Some d else None)
      else case map_of (tables d) tab of
        None \<Rightarrow> None
      | Some t \<Rightarrow>
          if list_all (\<lambda>c. c \<in> set (map fst (tb_columns t))) cols
          then Some (d\<lparr>indexes := indexes d @ [(n, tab, cols, cond)]\<rparr>) else None)"
| "exec_ddl (AddColumn tab c decl v) d =
     (case map_of (tables d) tab of
        None \<Rightarrow> None
      | Some t \<Rightarrow>
          if c \<in> set (map fst (tb_columns t)) then None
          else Some (d\<lparr>tables := AList.update tab
                 (t\<lparr>tb_columns := tb_columns t @ [(c, decl)], tb_rows := map (\<lambda>(i, vs). (i, vs @ [(c, v)])) (tb_rows t)\<rparr>)
                 (tables d)\<rparr>))"
| "exec_ddl CopySearchKeys d =
     (case map_of (tables d) ''blip_search_keys'' of
        None \<Rightarrow> None
      | Some t \<Rightarrow>
          let rows = tb_rows t @ search_key_rows d
          in if map_of (tables d) ''blip_search'' \<noteq> None \<and> search_keys_ok d rows
             then Some (d\<lparr>tables := AList.update ''blip_search_keys'' (t\<lparr>tb_rows := rows\<rparr>) (tables d)\<rparr>) else None)"

text \<open>A batch inside a transaction, and a batch on its own of which at most \<open>n\<close> statements run.\<close>

fun exec_batch :: "ddl list \<Rightarrow> database \<Rightarrow> database option" where
  "exec_batch [] d = Some d"
| "exec_batch (s # ss) d = Option.bind (exec_ddl s d) (exec_batch ss)"

fun exec_some :: "nat \<Rightarrow> ddl list \<Rightarrow> database \<Rightarrow> bool \<times> database" where
  "exec_some n [] d = (True, d)"
| "exec_some 0 (s # ss) d = (False, d)"
| "exec_some (Suc n) (s # ss) d = (case exec_ddl s d of None \<Rightarrow> (False, d) | Some d \<Rightarrow> exec_some n ss d)"

section \<open>The baseline and the steps\<close>

definition SCHEMA_SQL :: "ddl list" where
  "SCHEMA_SQL =
     [CreateTable True ''users''
       [(''id'', ''TEXT PRIMARY KEY''),
        (''name'', ''TEXT NOT NULL UNIQUE''),
        (''display_name'', ''TEXT NOT NULL''),
        (''email'', ''TEXT NOT NULL''),
        (''password_hash'', ''TEXT NOT NULL''),
        (''color'', ''INTEGER NOT NULL''),
        (''created_at'', ''INTEGER NOT NULL'')]
       [],
      CreateTable True ''sessions''
       [(''token_hash'', ''TEXT PRIMARY KEY''),
        (''user_id'', ''TEXT NOT NULL REFERENCES users(id) ON DELETE CASCADE''),
        (''created_at'', ''INTEGER NOT NULL''),
        (''expires_at'', ''INTEGER NOT NULL'')]
       [],
      CreateIndex True ''sessions_user'' ''sessions'' [''user_id''] '''',
      CreateIndex True ''sessions_expiry'' ''sessions'' [''expires_at''] '''',
      CreateTable True ''waves''
       [(''id'', ''TEXT PRIMARY KEY''),
        (''creator'', ''TEXT NOT NULL''),
        (''created_at'', ''INTEGER NOT NULL'')]
       [],
      CreateTable True ''wavelets''
       [(''id'', ''TEXT PRIMARY KEY''),
        (''wave_id'', ''TEXT NOT NULL REFERENCES waves(id) ON DELETE CASCADE''),
        (''kind'', ''TEXT NOT NULL CHECK (kind IN ('conversation', 'privateReply'))''),
        (''title'', ''TEXT NOT NULL DEFAULT '' @ [CHR 0x27, CHR 0x27]),
        (''anchor_blip'', ''TEXT''),
        (''created_at'', ''INTEGER NOT NULL''),
        (''last_modified'', ''INTEGER NOT NULL'')]
       [],
      CreateIndex True ''wavelets_wave'' ''wavelets'' [''wave_id''] '''',
      CreateTable True ''participants''
       [(''wavelet_id'', ''TEXT NOT NULL REFERENCES wavelets(id) ON DELETE CASCADE''),
        (''user_id'', ''TEXT NOT NULL REFERENCES users(id) ON DELETE CASCADE''),
        (''added_at'', ''INTEGER NOT NULL'')]
       [''PRIMARY KEY (wavelet_id, user_id)''],
      CreateIndex True ''participants_user'' ''participants'' [''user_id''] '''',
      CreateTable True ''blips''
       [(''id'', ''TEXT PRIMARY KEY''),
        (''wavelet_id'', ''TEXT NOT NULL REFERENCES wavelets(id) ON DELETE CASCADE''),
        (''wave_id'', ''TEXT NOT NULL''),
        (''parent'', ''TEXT''),
        (''seq'', ''INTEGER NOT NULL''),
        (''author'', ''TEXT NOT NULL''),
        (''contributors'', ''TEXT NOT NULL''),
        (''created_at'', ''INTEGER NOT NULL''),
        (''last_modified'', ''INTEGER NOT NULL''),
        (''content'', ''TEXT NOT NULL''),
        (''revision'', ''INTEGER NOT NULL''),
        (''deleted'', ''INTEGER NOT NULL DEFAULT 0'')]
       [],
      CreateIndex True ''blips_wavelet'' ''blips'' [''wavelet_id'', ''seq''] '''',
      CreateIndex True ''blips_wave'' ''blips'' [''wave_id'', ''last_modified''] '''',
      CreateTable True ''ops''
       [(''blip_id'', ''TEXT NOT NULL''),
        (''revision'', ''INTEGER NOT NULL''),
        (''wave_id'', ''TEXT NOT NULL''),
        (''author'', ''TEXT NOT NULL''),
        (''timestamp'', ''INTEGER NOT NULL''),
        (''delta'', ''TEXT NOT NULL'')]
       [''PRIMARY KEY (blip_id, revision)''],
      CreateIndex True ''ops_wave_time'' ''ops'' [''wave_id'', ''timestamp''] '''',
      CreateTable True ''read_marks''
       [(''user_id'', ''TEXT NOT NULL REFERENCES users(id) ON DELETE CASCADE''),
        (''blip_id'', ''TEXT NOT NULL''),
        (''revision'', ''INTEGER NOT NULL'')]
       [''PRIMARY KEY (user_id, blip_id)''],
      CreateTable True ''wave_flags''
       [(''user_id'', ''TEXT NOT NULL REFERENCES users(id) ON DELETE CASCADE''),
        (''wave_id'', ''TEXT NOT NULL REFERENCES waves(id) ON DELETE CASCADE''),
        (''archived'', ''INTEGER NOT NULL DEFAULT 0''),
        (''muted'', ''INTEGER NOT NULL DEFAULT 0'')]
       [''PRIMARY KEY (user_id, wave_id)''],
      CreateTable True ''blip_search''
       [(''blip_id'', ''UNINDEXED''), (''wave_id'', ''UNINDEXED''), (''body'', '''')]
       [''USING fts5'', ''tokenize = 'unicode61 remove_diacritics 2'' @ [CHR 0x27]]]"

definition step_1 :: "ddl list" where
  "step_1 =
     [AddColumn ''ops'' ''op_id'' ''TEXT'' SqlNull,
      CreateIndex True ''ops_op_id'' ''ops'' [''blip_id'', ''op_id''] ''UNIQUE WHERE op_id IS NOT NULL'']"

definition step_2 :: "ddl list" where
  "step_2 =
     [AddColumn ''waves'' ''mode'' (''TEXT NOT NULL DEFAULT 'document'' @ [CHR 0x27]) (SqlText (lit ''document''))]"

definition step_3 :: "ddl list" where
  "step_3 =
     [CreateTable True ''attachments''
       [(''id'', ''TEXT PRIMARY KEY''),
        (''wavelet_id'', ''TEXT NOT NULL REFERENCES wavelets(id) ON DELETE CASCADE''),
        (''uploader'', ''TEXT NOT NULL REFERENCES users(id) ON DELETE CASCADE''),
        (''name'', ''TEXT NOT NULL''),
        (''mime'', ''TEXT NOT NULL''),
        (''size'', ''INTEGER NOT NULL''),
        (''created_at'', ''INTEGER NOT NULL''),
        (''bytes'', ''BLOB NOT NULL'')]
       [],
      CreateIndex True ''attachments_wavelet'' ''attachments'' [''wavelet_id''] '''',
      CreateIndex True ''attachments_uploader'' ''attachments'' [''uploader'', ''created_at''] '''']"

definition step_4 :: "ddl list" where
  "step_4 =
     [CreateTable True ''comments''
       [(''id'', ''TEXT PRIMARY KEY''),
        (''wave_id'', ''TEXT NOT NULL''),
        (''wavelet_id'', ''TEXT NOT NULL REFERENCES wavelets(id) ON DELETE CASCADE''),
        (''blip_id'', ''TEXT NOT NULL''),
        (''author'', ''TEXT NOT NULL REFERENCES users(id) ON DELETE CASCADE''),
        (''created_at'', ''INTEGER NOT NULL''),
        (''resolved_by'', ''TEXT''),
        (''resolved_at'', ''INTEGER'')]
       [],
      CreateIndex True ''comments_wave'' ''comments'' [''wave_id''] '''',
      CreateIndex True ''comments_blip'' ''comments'' [''blip_id''] '''',
      AddColumn ''blips'' ''comment'' ''TEXT'' SqlNull,
      CreateIndex True ''blips_comment'' ''blips'' [''comment''] ''WHERE comment IS NOT NULL'']"

definition step_5 :: "ddl list" where
  "step_5 =
     [CreateTable True ''oauth_identities''
       [(''issuer'', ''TEXT NOT NULL''),
        (''subject'', ''TEXT NOT NULL''),
        (''user_id'', ''TEXT NOT NULL REFERENCES users(id) ON DELETE CASCADE''),
        (''created_at'', ''INTEGER NOT NULL'')]
       [''PRIMARY KEY (issuer, subject)''],
      CreateIndex True ''oauth_identities_user'' ''oauth_identities'' [''user_id''] '''']"

definition step_6 :: "ddl list" where
  "step_6 =
     [CreateTable False ''blip_search_keys''
       [(''id'', ''INTEGER PRIMARY KEY''),
        (''blip_id'', ''TEXT NOT NULL UNIQUE REFERENCES blips(id) ON DELETE CASCADE'')]
       [],
      CopySearchKeys]"

definition step_7 :: "ddl list" where
  "step_7 =
     [CreateTable False ''agent_tokens''
       [(''id'', ''TEXT PRIMARY KEY''),
        (''token_hash'', ''TEXT NOT NULL UNIQUE''),
        (''user_id'', ''TEXT NOT NULL REFERENCES users(id) ON DELETE CASCADE''),
        (''wavelet_id'', ''TEXT NOT NULL REFERENCES wavelets(id) ON DELETE CASCADE''),
        (''label'', ''TEXT NOT NULL''),
        (''scope'', ''TEXT NOT NULL CHECK(scope IN ('read', 'reply'))''),
        (''created_at'', ''INTEGER NOT NULL''),
        (''expires_at'', ''INTEGER NOT NULL'')]
       [],
      CreateIndex False ''agent_tokens_user'' ''agent_tokens'' [''user_id''] '''']"

definition step_8 :: "ddl list" where
  "step_8 =
     [CreateTable False ''agent_replies''
       [(''token_id'', ''TEXT NOT NULL REFERENCES agent_tokens(id) ON DELETE CASCADE''),
        (''request_id'', ''TEXT NOT NULL''),
        (''request_hash'', ''TEXT NOT NULL''),
        (''blip_id'', ''TEXT NOT NULL''),
        (''revision'', ''INTEGER NOT NULL'')]
       [''PRIMARY KEY (token_id, request_id)'']]"

section \<open>Migration\<close>

definition SCHEMA_VERSION :: int where
  "SCHEMA_VERSION = 9"

definition BASELINE_VERSION :: int where
  "BASELINE_VERSION = 1"

datatype migrate_error =
    SchemaFailed                   \<comment> \<open>the baseline or its stamp could not be applied\<close>
  | Unrecognised string string     \<comment> \<open>table and column that are missing\<close>
  | NewerVersion int
  | StepFailed int
  | NoMigration int

definition has_column :: "database \<Rightarrow> string \<times> string \<Rightarrow> bool" where
  "has_column d = (\<lambda>(tab, c). case map_of (tables d) tab of Some t \<Rightarrow> c \<in> set (map fst (tb_columns t)) | None \<Rightarrow> False)"

definition adopt_legacy :: "database \<Rightarrow> migrate_error option" where
  "adopt_legacy d =
     map_option (\<lambda>(tab, c). Unrecognised tab c)
       (find (\<lambda>p. \<not> has_column d p)
          [(''blips'', ''deleted''), (''blips'', ''revision''), (''wave_flags'', ''archived''), (''read_marks'', ''revision''),
           (''ops'', ''delta'')])"

definition steps :: "(int \<times> ddl list) list" where
  "steps = [(1, step_1), (2, step_2), (3, step_3), (4, step_4), (5, step_5), (6, step_6), (7, step_7), (8, step_8)]"

text \<open>
  The steps in order, each in its transaction with the new version; \<open>commits k\<close> says whether the
  transaction of step \<open>k\<close> goes through.
\<close>

fun run_steps :: "(int \<Rightarrow> bool) \<Rightarrow> (int \<times> ddl list) list \<Rightarrow> database \<Rightarrow> migrate_error option \<times> database" where
  "run_steps commits [] d = (None, d)"
| "run_steps commits ((k, ss) # rest) d =
     (if user_version d = k
      then (case (if commits k then exec_batch ss d else None) of
              None \<Rightarrow> (Some (StepFailed k), d)
            | Some d \<Rightarrow> run_steps commits rest (d\<lparr>user_version := k + 1\<rparr>))
      else run_steps commits rest d)"

text \<open>The branch for version 0; \<open>n\<close> statements of the baseline run before the process is interrupted.\<close>

definition baseline :: "nat \<Rightarrow> (int \<Rightarrow> bool) \<Rightarrow> database \<Rightarrow> migrate_error option \<times> database" where
  "baseline n commits d =
     (if map_of (tables d) ''users'' \<noteq> None
      then (case adopt_legacy d of
              Some err \<Rightarrow> (Some err, d)
            | None \<Rightarrow> if commits 0 then (None, d\<lparr>user_version := BASELINE_VERSION\<rparr>) else (Some SchemaFailed, d))
      else (case exec_some n SCHEMA_SQL d of
              (False, d) \<Rightarrow> (Some SchemaFailed, d)
            | (True, d) \<Rightarrow> if commits 0 then (None, d\<lparr>user_version := BASELINE_VERSION\<rparr>) else (Some SchemaFailed, d)))"

definition migrate :: "nat \<Rightarrow> (int \<Rightarrow> bool) \<Rightarrow> database \<Rightarrow> migrate_error option \<times> database" where
  "migrate n commits d =
     (case (if user_version d = 0 then baseline n commits d else (None, d)) of
        (Some err, d) \<Rightarrow> (Some err, d)
      | (None, d) \<Rightarrow>
          if user_version d > SCHEMA_VERSION then (Some (NewerVersion (user_version d)), d)
          else case run_steps commits steps d of
            (Some err, d) \<Rightarrow> (Some err, d)
          | (None, d) \<Rightarrow>
              if user_version d < SCHEMA_VERSION then (Some (NoMigration (user_version d)), d) else (None, d))"

definition empty_database :: database where
  "empty_database = \<lparr>user_version = 0, tables = [], indexes = []\<rparr>"

definition all_of_schema :: nat where
  "all_of_schema = length SCHEMA_SQL"

section \<open>Layouts\<close>

text \<open>A database without its rows.\<close>

definition bare_table :: "sql_table \<Rightarrow> sql_table" where
  "bare_table t = t\<lparr>tb_rows := []\<rparr>"

definition bare :: "database \<Rightarrow> database" where
  "bare d = d\<lparr>tables := map (\<lambda>(n, t). (n, bare_table t)) (tables d)\<rparr>"

lemma bare_simps [simp]:
  "user_version (bare d) = user_version d" "indexes (bare d) = indexes d"
  "map_of (tables (bare d)) n = map_option bare_table (map_of (tables d) n)"
  "bare (d\<lparr>user_version := v\<rparr>) = (bare d)\<lparr>user_version := v\<rparr>"
  "tb_columns (bare_table t) = tb_columns t"
proof -
  show "map_of (tables (bare d)) n = map_option bare_table (map_of (tables d) n)" by (simp add: bare_def map_of_map)
qed (simp_all add: bare_def bare_table_def)

lemma rows_of_bare [simp]: "rows_of (bare d) n = []"
  by (simp add: rows_of_def bare_table_def split: option.split)

lemma bare_update: "bare (d\<lparr>tables := AList.update n t (tables d)\<rparr>) = (bare d)\<lparr>tables := AList.update n (bare_table t) (tables (bare d))\<rparr>"
proof -
  have "map (\<lambda>(n, t). (n, bare_table t)) (AList.update n t ts) = AList.update n (bare_table t) (map (\<lambda>(n, t). (n, bare_table t)) ts)" for ts
    by (induction ts) auto
  then show ?thesis by (simp add: bare_def)
qed

lemma exec_ddl_bare: "exec_ddl s d = Some d' \<Longrightarrow> exec_ddl s (bare d) = Some (bare d')"
proof (induction s d rule: exec_ddl.induct)
  case (4 d)
  then show ?case
    by (auto simp: Let_def bare_update search_keys_ok_def search_key_rows_def split: option.splits if_splits)
       (simp_all add: bare_table_def)
qed (auto simp: bare_update split: if_splits option.splits, auto simp: bare_def bare_table_def)

lemma exec_batch_bare: "exec_batch ss d = Some d' \<Longrightarrow> exec_batch ss (bare d) = Some (bare d')"
  by (induction ss arbitrary: d) (auto simp: bind_eq_Some_conv dest: exec_ddl_bare)

section \<open>Rows\<close>

definition rows_kept :: "database \<Rightarrow> database \<Rightarrow> bool" where
  "rows_kept d d' \<longleftrightarrow> (\<forall>n i vs. (i, vs) \<in> set (rows_of d n) \<longrightarrow> (\<exists>extra. (i, vs @ extra) \<in> set (rows_of d' n)))"

lemma rows_kept_refl [simp]: "rows_kept d d"
  unfolding rows_kept_def by (metis append_Nil2)

lemma rows_kept_trans: "rows_kept d d1 \<Longrightarrow> rows_kept d1 d' \<Longrightarrow> rows_kept d d'"
  unfolding rows_kept_def by (metis append_assoc)

lemma rows_kept_version [simp]: "rows_kept d (d'\<lparr>user_version := v\<rparr>) = rows_kept d d'"
  by (simp add: rows_kept_def rows_of_def)

lemma rows_of_changed:
  "rows_of (d\<lparr>tables := AList.update n t (tables d)\<rparr>) m = (if m = n then tb_rows t else rows_of d m)"
  "map_of (tables d) n = None \<Longrightarrow> rows_of (d\<lparr>tables := tables d @ [(n, t)]\<rparr>) m = (if m = n then tb_rows t else rows_of d m)"
  "map_of (tables d) n = None \<Longrightarrow> rows_of d n = []" "map_of (tables d) n = Some t \<Longrightarrow> rows_of d n = tb_rows t"
  "rows_of (d\<lparr>indexes := ix\<rparr>) m = rows_of d m" "rows_of (d\<lparr>user_version := v\<rparr>) m = rows_of d m"
  by (auto simp: rows_of_def update_conv' map_add_def split: option.split)

lemma exec_ddl_shapes:
  assumes "exec_ddl s d = Some d'"
  shows "(\<exists>more. rows_of d' n = rows_of d n @ more) \<or> (\<exists>c v. rows_of d' n = map (\<lambda>(i, vs). (i, vs @ [(c, v)])) (rows_of d n))"
proof (cases "rows_of d' n = rows_of d n")
  case False
  with assms show ?thesis
    by (induction s d rule: exec_ddl.induct) (auto simp: Let_def rows_of_changed split: if_splits option.splits, blast)
qed auto

lemma exec_ddl_rows: "exec_ddl s d = Some d' \<Longrightarrow> rows_kept d d'"
  unfolding rows_kept_def
proof (intro allI impI)
  fix n i vs
  assume "exec_ddl s d = Some d'" and r: "(i, vs) \<in> set (rows_of d n)"
  from exec_ddl_shapes [OF this(1), of n] show "\<exists>extra. (i, vs @ extra) \<in> set (rows_of d' n)"
  proof (elim disjE exE)
    fix more assume "rows_of d' n = rows_of d n @ more"
    with r show ?thesis by (intro exI [of _ "[]"]) simp
  next
    fix c v assume "rows_of d' n = map (\<lambda>(i, vs). (i, vs @ [(c, v)])) (rows_of d n)"
    with r show ?thesis by (intro exI [of _ "[(c, v)]"]) force
  qed
qed

lemma exec_batch_rows: "exec_batch ss d = Some d' \<Longrightarrow> rows_kept d d'"
  by (induction ss arbitrary: d) (auto simp: bind_eq_Some_conv intro: rows_kept_trans exec_ddl_rows)

lemma exec_version: "exec_batch ss d = Some d' \<Longrightarrow> user_version d' = user_version d"
proof (induction ss arbitrary: d)
  case (Cons s ss)
  have "exec_ddl s d = Some d1 \<Longrightarrow> user_version d1 = user_version d" for d1
    by (induction s d rule: exec_ddl.induct) (auto simp: Let_def split: if_splits option.splits)
  with Cons.IH show ?case using Cons.prems by (metis bind_eq_Some_conv exec_batch.simps(2))
qed simp

text \<open>Whether the rows of the search index can be copied; no statement of the schema changes this.\<close>

definition search_ready :: "database \<Rightarrow> bool" where
  "search_ready d = search_keys_ok d (search_key_rows d)"

fun plain_ddl :: "ddl \<Rightarrow> bool" where
  "plain_ddl (AddColumn _ c _ _) = (c \<noteq> ''id'' \<and> c \<noteq> ''blip_id'')"
| "plain_ddl _ = True"

lemma cell_of_extended: "c \<noteq> k \<Longrightarrow> cell_of k (i, vs @ [(c, v)]) = cell_of k (i, vs)"
  by (simp add: cell_of_def map_add_def split: option.split)

lemma search_ready_cong:
  assumes "map fst (rows_of d' ''blip_search'') = map fst (rows_of d ''blip_search'')"
    "map (cell_of ''blip_id'') (rows_of d' ''blip_search'') = map (cell_of ''blip_id'') (rows_of d ''blip_search'')"
    "map (cell_of ''id'') (rows_of d' ''blips'') = map (cell_of ''id'') (rows_of d ''blips'')"
  shows "search_ready d' = search_ready d"
proof -
  have "map fst (search_key_rows d) = map fst (rows_of d ''blip_search'')"
    "map (cell_of ''blip_id'') (search_key_rows d) = map (cell_of ''blip_id'') (rows_of d ''blip_search'')" for d
    by (simp_all add: search_key_rows_def cell_of_def)
  with assms show ?thesis by (simp add: search_ready_def search_keys_ok_def Let_def del: set_map)
qed

lemma exec_ddl_ready:
  assumes "exec_ddl s d = Some d'" "plain_ddl s"
  shows "search_ready d' = search_ready d"
proof (rule search_ready_cong)
  have "map (\<lambda>r. (fst r, cell_of k r)) (rows_of d' n) = map (\<lambda>r. (fst r, cell_of k r)) (rows_of d n)"
    if "n \<noteq> ''blip_search_keys''" "k = ''id'' \<or> k = ''blip_id''" for n k
    using assms that
    by (induction s d rule: exec_ddl.induct)
       (auto simp: Let_def rows_of_changed cell_of_extended split: if_splits option.splits)
  note same = this [of "''blip_search''" "''blip_id''"] this [of "''blips''" "''id''"]
  from arg_cong [OF same(1), of "map fst"] show "map fst (rows_of d' ''blip_search'') = map fst (rows_of d ''blip_search'')"
    by (simp add: comp_def)
  from arg_cong [OF same(1), of "map snd"]
  show "map (cell_of ''blip_id'') (rows_of d' ''blip_search'') = map (cell_of ''blip_id'') (rows_of d ''blip_search'')"
    by (simp add: comp_def)
  from arg_cong [OF same(2), of "map snd"] show "map (cell_of ''id'') (rows_of d' ''blips'') = map (cell_of ''id'') (rows_of d ''blips'')"
    by (simp add: comp_def)
qed

lemma exec_batch_ready: "exec_batch ss d = Some d' \<Longrightarrow> list_all plain_ddl ss \<Longrightarrow> search_ready d' = search_ready d"
  by (induction ss arbitrary: d) (auto simp: bind_eq_Some_conv dest: exec_ddl_ready)

section \<open>Success does not depend on the rows\<close>

lemma exec_ddl_total: "exec_ddl s (bare d) = Some b \<Longrightarrow> s \<noteq> CopySearchKeys \<Longrightarrow> \<exists>d'. exec_ddl s d = Some d' \<and> bare d' = b"
proof -
  assume b: "exec_ddl s (bare d) = Some b" "s \<noteq> CopySearchKeys"
  then have "exec_ddl s d \<noteq> None"
    by (induction s d rule: exec_ddl.induct) (auto split: if_splits option.splits)
  then obtain d' where "exec_ddl s d = Some d'" by blast
  with exec_ddl_bare [OF this] b show ?thesis by simp
qed

lemma exec_batch_total:
  "exec_batch ss (bare d) = Some b \<Longrightarrow> CopySearchKeys \<notin> set ss \<Longrightarrow> \<exists>d'. exec_batch ss d = Some d' \<and> bare d' = b"
proof (induction ss arbitrary: d)
  case (Cons s ss)
  then obtain b1 where "exec_ddl s (bare d) = Some b1" "exec_batch ss b1 = Some b" by (auto simp: bind_eq_Some_conv)
  with Cons exec_ddl_total [of s d b1] show ?case by force
qed simp

lemma step_6_total:
  assumes "exec_batch step_6 (bare d) = Some b" "search_ready d"
  shows "\<exists>d'. exec_batch step_6 d = Some d' \<and> bare d' = b"
proof -
  have "exec_batch step_6 d \<noteq> None"
    using assms by (auto simp: step_6_def Let_def search_ready_def search_keys_ok_def search_key_rows_def rows_of_changed
        map_add_def split: if_splits option.splits)
  then obtain d' where "exec_batch step_6 d = Some d'" by blast
  with exec_batch_bare [OF this] assms(1) show ?thesis by simp
qed

section \<open>Steps in order\<close>

fun apply_steps :: "(int \<times> ddl list) list \<Rightarrow> database \<Rightarrow> database option" where
  "apply_steps [] d = Some d"
| "apply_steps ((k, ss) # rest) d = Option.bind (exec_batch ss d) (\<lambda>d. apply_steps rest (d\<lparr>user_version := k + 1\<rparr>))"

fun consecutive :: "int \<Rightarrow> (int \<times> ddl list) list \<Rightarrow> bool" where
  "consecutive v [] = True"
| "consecutive v ((k, ss) # rest) = (k = v \<and> consecutive (v + 1) rest)"

lemma apply_steps_append: "apply_steps (A @ B) d = Option.bind (apply_steps A d) (apply_steps B)"
  by (induction A d rule: apply_steps.induct) (auto split: Option.bind_split)

lemma apply_steps_version:
  "apply_steps L d = Some d' \<Longrightarrow> consecutive (user_version d) L \<Longrightarrow> user_version d' = user_version d + int (length L)"
  by (induction L d rule: apply_steps.induct) (auto simp: bind_eq_Some_conv)

lemma consecutive_append: "consecutive v (A @ B) \<longleftrightarrow> consecutive v A \<and> consecutive (v + int (length A)) B"
  by (induction v A rule: consecutive.induct) (auto simp: algebra_simps)

lemma consecutive_keys: "consecutive v A \<Longrightarrow> (k, ss) \<in> set A \<Longrightarrow> v \<le> k \<and> k < v + int (length A)"
  by (induction v A rule: consecutive.induct) auto

lemma run_steps_skip: "\<forall>(k, ss) \<in> set A. k \<noteq> user_version d \<Longrightarrow> run_steps commits (A @ B) d = run_steps commits B d"
  by (induction A) auto

lemma apply_steps_bare: "apply_steps L d = Some d' \<Longrightarrow> apply_steps L (bare d) = Some (bare d')"
proof (induction L d rule: apply_steps.induct)
  case (2 k ss rest d)
  then obtain d1 where d1: "exec_batch ss d = Some d1" "apply_steps rest (d1\<lparr>user_version := k + 1\<rparr>) = Some d'"
    by (auto simp: bind_eq_Some_conv)
  with 2(1) [OF d1] exec_batch_bare [OF d1(1)] show ?case by simp
qed simp

lemma apply_steps_rows: "apply_steps L d = Some d' \<Longrightarrow> rows_kept d d'"
proof (induction L d rule: apply_steps.induct)
  case (2 k ss rest d)
  then obtain d1 where "exec_batch ss d = Some d1" "rows_kept (d1\<lparr>user_version := k + 1\<rparr>) d'"
    by (auto simp: bind_eq_Some_conv)
  then show ?case using exec_batch_rows rows_kept_trans rows_kept_version by metis
qed simp

lemma search_ready_version [simp]: "search_ready (d\<lparr>user_version := v\<rparr>) = search_ready d"
  by (rule search_ready_cong) (simp_all add: rows_of_changed)

lemma apply_steps_ready:
  "apply_steps L d = Some d' \<Longrightarrow> \<forall>(k, ss) \<in> set L. list_all plain_ddl ss \<Longrightarrow> search_ready d' = search_ready d"
proof (induction L d rule: apply_steps.induct)
  case (2 k ss rest d)
  then obtain d1 where "exec_batch ss d = Some d1" "search_ready d' = search_ready (d1\<lparr>user_version := k + 1\<rparr>)"
    by (auto simp: bind_eq_Some_conv)
  with 2(3) exec_batch_ready [of ss d d1] show ?case by simp
qed simp

lemma run_steps_apply:
  assumes "run_steps commits L d = (r, d')" "consecutive (user_version d) L"
  shows "\<exists>j \<le> length L. apply_steps (take j L) d = Some d' \<and> (r = None \<longrightarrow> j = length L)"
  using assms
proof (induction commits L d rule: run_steps.induct)
  case (2 commits k ss rest d)
  show ?case
  proof (cases "if commits k then exec_batch ss d else None")
    case None
    with 2(3,4) have "d' = d" "r \<noteq> None" by auto
    then show ?thesis by (intro exI [of _ 0]) simp
  next
    case (Some d1)
    then have e: "exec_batch ss d = Some d1" by (auto split: if_splits)
    with 2 Some obtain j where "j \<le> length rest" "apply_steps (take j rest) (d1\<lparr>user_version := k + 1\<rparr>) = Some d'"
      "r = None \<longrightarrow> j = length rest" by auto
    with e show ?thesis by (intro exI [of _ "Suc j"]) simp
  qed
qed auto

text \<open>The steps of the program: consecutive, from the baseline on, and each succeeds if its layout allows it.\<close>

lemma steps_consecutive: "consecutive 1 steps" "length steps = 8"
  by (simp_all add: steps_def)

lemma steps_plain: "\<forall>(k, ss) \<in> set steps. list_all plain_ddl ss"
  by (simp add: steps_def step_1_def step_2_def step_3_def step_4_def step_5_def step_6_def step_7_def step_8_def)

lemma steps_copy: "\<forall>(k, ss) \<in> set steps. CopySearchKeys \<in> set ss \<longrightarrow> k = 6 \<and> ss = step_6"
  by (simp add: steps_def step_1_def step_2_def step_3_def step_4_def step_5_def step_6_def step_7_def step_8_def)

lemma run_steps_total:
  assumes "apply_steps L (bare d) = Some b" "consecutive (user_version d) L" "set L \<subseteq> set steps"
    "user_version d \<le> 6 \<longrightarrow> search_ready d"
  shows "\<exists>d'. run_steps (\<lambda>_. True) L d = (None, d') \<and> bare d' = b \<and> rows_kept d d'"
  using assms
proof (induction L arbitrary: d)
  case (Cons x L)
  obtain k ss where x: "x = (k, ss)" by fastforce
  from Cons.prems(1) obtain b1 where b1: "exec_batch ss (bare d) = Some b1" "apply_steps L (b1\<lparr>user_version := k + 1\<rparr>) = Some b"
    by (auto simp: x bind_eq_Some_conv)
  have k: "k = user_version d" using Cons.prems(2) by (simp add: x)
  have "\<exists>d1. exec_batch ss d = Some d1 \<and> bare d1 = b1"
  proof (cases "CopySearchKeys \<in> set ss")
    case True
    then have "k = 6" "ss = step_6" using steps_copy Cons.prems(3) x by auto
    with step_6_total b1(1) Cons.prems(4) k show ?thesis by simp
  qed (rule exec_batch_total [OF b1(1)])
  then obtain d1 where d1: "exec_batch ss d = Some d1" "bare d1 = b1" by blast
  have "list_all plain_ddl ss" using steps_plain Cons.prems(3) x by auto
  with exec_batch_ready [OF d1(1)] Cons.prems(4) have "k + 1 \<le> 6 \<longrightarrow> search_ready (d1\<lparr>user_version := k + 1\<rparr>)" using k by simp
  then obtain d' where "run_steps (\<lambda>_. True) L (d1\<lparr>user_version := k + 1\<rparr>) = (None, d')" "bare d' = b"
    "rows_kept (d1\<lparr>user_version := k + 1\<rparr>) d'"
    using Cons.IH [of "d1\<lparr>user_version := k + 1\<rparr>"] Cons.prems(2,3) b1(2) d1(2) k by (auto simp: x)
  moreover from this(3) exec_batch_rows [OF d1(1)] have "rows_kept d d'" using rows_kept_trans rows_kept_version by metis
  ultimately show ?case using d1(1) k by (simp add: x)
qed simp

section \<open>Every layout\<close>

definition unstamped :: database where
  "unstamped = snd (exec_some all_of_schema SCHEMA_SQL empty_database)"

definition stamped :: database where
  "stamped = unstamped\<lparr>user_version := BASELINE_VERSION\<rparr>"

definition current_layout :: database where
  "current_layout = snd (migrate all_of_schema (\<lambda>_. True) empty_database)"

lemma unstamped_made: "exec_some all_of_schema SCHEMA_SQL empty_database = (True, unstamped)" "bare unstamped = unstamped"
  "user_version unstamped = 0" "map_of (tables unstamped) ''users'' \<noteq> None" "adopt_legacy unstamped = None"
  by code_simp+

lemma current_made: "apply_steps steps stamped = Some current_layout" "user_version current_layout = 9"
  by code_simp+

text \<open>
  The layouts a database can have: none, the baseline without a version, or the baseline and
  the first steps.
\<close>

definition laid_out :: "database \<Rightarrow> bool" where
  "laid_out d \<longleftrightarrow> bare d = empty_database \<or> bare d = unstamped \<or> (\<exists>j \<le> 8. apply_steps (take j steps) stamped = Some (bare d))"

lemma exec_some_enough: "length ss \<le> n \<Longrightarrow> exec_some n ss d = exec_some (length ss) ss d"
  by (induction n ss d rule: exec_some.induct) (auto split: option.split)

lemma bare_empty: "bare d = empty_database \<Longrightarrow> d = empty_database"
  by (cases d) (simp add: bare_def empty_database_def)

lemma adopt_legacy_bare: "adopt_legacy (bare d) = adopt_legacy d"
proof -
  have "has_column (bare d) = has_column d" by (rule ext) (simp add: has_column_def split: option.split)
  then show ?thesis by (simp add: adopt_legacy_def)
qed

lemma stage_version: "j \<le> 8 \<Longrightarrow> apply_steps (take j steps) stamped = Some b \<Longrightarrow> user_version b = 1 + int j"
  using apply_steps_version [of "take j steps" stamped b] steps_consecutive consecutive_append [of 1 "take j steps" "drop j steps"]
  by (simp add: stamped_def BASELINE_VERSION_def)

lemma stage_steps:
  assumes "j \<le> 8" "apply_steps (take j steps) stamped = Some (bare d)"
  shows "run_steps commits steps d = run_steps commits (drop j steps) d" "consecutive (user_version d) (drop j steps)"
proof -
  have v: "user_version d = 1 + int j" using stage_version [OF assms] by simp
  have c: "consecutive 1 (take j steps)" "consecutive (1 + int j) (drop j steps)"
    using steps_consecutive consecutive_append [of 1 "take j steps" "drop j steps"] assms(1) by simp_all
  show "consecutive (user_version d) (drop j steps)" using c v by simp
  have "\<forall>(k, ss) \<in> set (take j steps). k \<noteq> user_version d" using consecutive_keys [OF c(1)] assms(1) v steps_consecutive(2) by fastforce
  from run_steps_skip [OF this, of commits "drop j steps"] show "run_steps commits steps d = run_steps commits (drop j steps) d" by simp
qed

lemma search_ready_bare: "search_ready (bare d)"
  by (simp add: search_ready_def search_keys_ok_def search_key_rows_def)

lemma blank_version: "bare d = empty_database \<or> bare d = unstamped \<Longrightarrow> user_version d = 0"
  by (metis bare_simps(1) database.select_convs(1) empty_database_def unstamped_made(3))

text \<open>What the branch for version 0 does with each of its two layouts.\<close>

lemma baseline_cases:
  assumes "bare d = empty_database \<or> bare d = unstamped" "n = 0 \<or> all_of_schema \<le> n"
  shows "\<not> (commits 0 \<and> all_of_schema \<le> n) \<and> baseline n commits d = (Some SchemaFailed, d)
    \<or> \<not> commits 0 \<and> baseline n commits d = (Some SchemaFailed, unstamped) \<and> d = empty_database
    \<or> commits 0 \<and> (\<exists>d'. baseline n commits d = (None, d') \<and> bare d' = stamped \<and> rows_kept d d' \<and> (search_ready d \<longrightarrow> search_ready d'))"
  using assms(1)
proof
  assume "bare d = empty_database"
  then have d: "d = empty_database" by (rule bare_empty)
  have none: "map_of (tables d) ''users'' = None" by (simp add: d empty_database_def)
  show ?thesis
  proof (cases "all_of_schema \<le> n")
    case True
    then have "exec_some n SCHEMA_SQL d = (True, unstamped)"
      using exec_some_enough [of SCHEMA_SQL n d] unstamped_made(1) by (simp add: d all_of_schema_def)
    moreover have "rows_kept d stamped" by (simp add: rows_kept_def d rows_of_def empty_database_def)
    moreover have "search_ready stamped" unfolding stamped_def by (metis search_ready_bare search_ready_version unstamped_made(2))
    moreover have "bare stamped = stamped" by (simp add: stamped_def unstamped_made(2))
    ultimately show ?thesis using none by (simp add: baseline_def stamped_def [symmetric] d)
  next
    case False
    with assms(2) have "n = 0" by simp
    moreover have "exec_some 0 SCHEMA_SQL d = (False, d)" by (simp add: SCHEMA_SQL_def)
    ultimately show ?thesis using none False by (simp add: baseline_def)
  qed
next
  assume b: "bare d = unstamped"
  have "adopt_legacy d = None" using adopt_legacy_bare [of d] unstamped_made(5) by (simp add: b)
  moreover have "map_of (tables d) ''users'' \<noteq> None" using bare_simps(3) [of d "''users''"] unstamped_made(4) by (simp add: b)
  moreover have "bare (d\<lparr>user_version := BASELINE_VERSION\<rparr>) = stamped" by (simp add: b stamped_def)
  ultimately show ?thesis by (simp add: baseline_def)
qed

definition fit :: "database \<Rightarrow> bool" where
  "fit d \<longleftrightarrow> laid_out d \<and> (user_version d \<le> 6 \<longrightarrow> search_ready d)"

lemma stageI: "bare d = stamped \<Longrightarrow> apply_steps (take 0 steps) stamped = Some (bare d)"
  by simp

lemma run_steps_fit:
  assumes "j \<le> 8" "apply_steps (take j steps) stamped = Some (bare d)" "user_version d \<le> 6 \<longrightarrow> search_ready d"
    "run_steps commits steps d = (r, d')"
  shows "fit d' \<and> user_version d' \<le> 9"
proof -
  obtain i where i: "i \<le> length (drop j steps)" "apply_steps (take i (drop j steps)) d = Some d'"
    using run_steps_apply [OF _ stage_steps(2) [OF assms(1,2)], of commits r d'] assms(4) stage_steps(1) [OF assms(1,2)] by auto
  have "apply_steps (take (j + i) steps) stamped = Some (bare d')"
    using apply_steps_bare [OF i(2)] assms(2) by (simp add: take_add apply_steps_append)
  moreover have le: "j + i \<le> 8" using i(1) assms(1) steps_consecutive(2) by simp
  ultimately have "laid_out d'" "user_version d' = 1 + int (j + i)"
    using stage_version [of "j + i" "bare d'"] by (auto simp: laid_out_def)
  moreover have "user_version d = 1 + int j" using stage_version [OF assms(1,2)] by simp
  moreover have "search_ready d' = search_ready d"
    by (rule apply_steps_ready [OF i(2)]) (use steps_plain in \<open>blast dest: in_set_takeD in_set_dropD\<close>)
  ultimately show ?thesis using assms(3) le by (simp add: fit_def)
qed

lemma stage_positive: "j \<le> 8 \<Longrightarrow> apply_steps (take j steps) stamped = Some (bare d) \<Longrightarrow> user_version d \<noteq> 0 \<and> user_version d \<le> 9"
  using stage_version [of j "bare d"] by simp

lemma migrate_fit:
  assumes "fit d" "n = 0 \<or> all_of_schema \<le> n" "migrate n commits d = (r, d')"
  shows "fit d'"
proof -
  have go: "fit d'" if s: "j \<le> 8" "apply_steps (take j steps) stamped = Some (bare d1)" "user_version d1 \<le> 6 \<longrightarrow> search_ready d1"
    and res: "(if user_version d1 > SCHEMA_VERSION then (Some (NewerVersion (user_version d1)), d1)
      else case run_steps commits steps d1 of (Some err, d) \<Rightarrow> (Some err, d)
        | (None, d) \<Rightarrow> if user_version d < SCHEMA_VERSION then (Some (NoMigration (user_version d)), d) else (None, d)) = (r, d')" for j d1
  proof -
    obtain r1 d2 where "run_steps commits steps d1 = (r1, d2)" by fastforce
    moreover from run_steps_fit [OF s this] have "fit d2" by simp
    ultimately show ?thesis using res stage_positive [OF s(1,2)] by (auto simp: SCHEMA_VERSION_def split: option.splits if_splits)
  qed
  show ?thesis
  proof (cases "\<exists>j \<le> 8. apply_steps (take j steps) stamped = Some (bare d)")
    case True
    then obtain j where j: "j \<le> 8" "apply_steps (take j steps) stamped = Some (bare d)" by blast
    show ?thesis by (rule go [OF j]) (use assms(1,3) stage_positive [OF j] in \<open>simp_all add: fit_def migrate_def\<close>)
  next
    case False
    with assms(1) have b: "bare d = empty_database \<or> bare d = unstamped" by (simp add: fit_def laid_out_def)
    have v: "user_version d = 0" by (rule blank_version [OF b])
    with assms(1) have ready: "search_ready d" by (simp add: fit_def)
    have "fit unstamped" using search_ready_bare [of unstamped] unstamped_made(2) by (simp add: fit_def laid_out_def)
    from baseline_cases [OF b assms(2), of commits] show ?thesis
    proof (elim disjE conjE exE)
      fix d1 assume "baseline n commits d = (None, d1)" "bare d1 = stamped" "search_ready d \<longrightarrow> search_ready d1"
      then show ?thesis using go [OF _ stageI, of d1] assms(3) v ready by (simp add: migrate_def)
    qed (use assms v \<open>fit unstamped\<close> in \<open>auto simp: migrate_def\<close>)
  qed
qed

section \<open>What a start-up does to a database\<close>

text \<open>
  The databases there can be: a new file, what any run of the migration leaves behind, however
  it is interrupted outside the batch that creates the baseline, and what a server makes of the
  rows, which keeps one entry per message in the search index as long as that is the rule.
\<close>

inductive installed :: "database \<Rightarrow> bool" where
  created: "installed empty_database"
| migrated: "installed d \<Longrightarrow> n = 0 \<or> all_of_schema \<le> n \<Longrightarrow> migrate n commits d = (r, d') \<Longrightarrow> installed d'"
| used: "installed d \<Longrightarrow> bare d' = bare d \<Longrightarrow> user_version d' \<le> 6 \<longrightarrow> search_ready d' \<Longrightarrow> installed d'"

lemma installed_fit: "installed d \<Longrightarrow> fit d"
proof (induction rule: installed.induct)
  case created
  have "bare empty_database = empty_database" by (simp add: bare_def empty_database_def)
  with search_ready_bare [of empty_database] show ?case by (simp add: fit_def laid_out_def)
next
  case (migrated d n commits r d')
  from migrate_fit [OF migrated(4,2,3)] show ?case .
qed (simp add: fit_def laid_out_def)


text \<open>A database that lost its power during step 4 and holds a message.\<close>

definition interrupted :: database where
  "interrupted = snd (migrate all_of_schema (\<lambda>k. k < 4) empty_database)"

definition with_message :: database where
  "with_message = interrupted\<lparr>tables :=
     map (\<lambda>(n, t). (n, if n = ''blips'' then t\<lparr>tb_rows := [(1, [(''id'', SqlText (lit ''b-1''))])]\<rparr>
                       else if n = ''blip_search'' then t\<lparr>tb_rows := [(1, [(''blip_id'', SqlText (lit ''b-1''))])]\<rparr> else t))
       (tables interrupted)\<rparr>"



text \<open>
  The batch that creates the baseline is not a transaction: a first start that is interrupted
  in it leaves a file that every later start refuses.
\<close>

lemma interrupted_creation_refused:
  "fst (migrate all_of_schema (\<lambda>_. True) (snd (migrate 1 (\<lambda>_. True) empty_database))) = Some (Unrecognised ''blips'' ''deleted'')"
  by code_simp


end
