(* ===== verification/Gal_Rows.thy ===== *)
theory Gal_Rows
  imports Gal_Schema Gal_Store "HOL-Library.Monad_Syntax"
begin

text \<open>
  Records as rows, from the mappings at the end of \<open>crates/gal-server/src/db.rs\<close>: the values that
  the insertions bind, and the functions that make records of the columns a query selects. A
  conversion that fails is \<open>None\<close>. The JSON encoder and decoder are arguments. The store of the
  other theories holds records; what is shown here is that a record survives its way through
  the columns of the migrated schema, and that a row that cannot be read is not taken for an
  empty one.
\<close>

section \<open>Columns\<close>

fun get_text :: "sql_value \<Rightarrow> ustring option" where
  "get_text (SqlText s) = Some s"
| "get_text _ = None"

fun get_i64 :: "sql_value \<Rightarrow> int option" where
  "get_i64 (SqlInt i) = Some i"
| "get_i64 _ = None"

fun get_opt_text :: "sql_value \<Rightarrow> ustring option option" where
  "get_opt_text SqlNull = Some None"
| "get_opt_text (SqlText s) = Some (Some s)"
| "get_opt_text _ = None"

fun get_opt_i64 :: "sql_value \<Rightarrow> int option option" where
  "get_opt_i64 SqlNull = Some None"
| "get_opt_i64 (SqlInt i) = Some (Some i)"
| "get_opt_i64 _ = None"

definition opt_text :: "ustring option \<Rightarrow> sql_value" where
  "opt_text s = (case s of None \<Rightarrow> SqlNull | Some s \<Rightarrow> SqlText s)"

definition opt_i64 :: "int option \<Rightarrow> sql_value" where
  "opt_i64 i = (case i of None \<Rightarrow> SqlNull | Some i \<Rightarrow> SqlInt i)"

text \<open>Binding a \<open>u64\<close> fails when it does not fit; \<open>as u64\<close> and \<open>as u16\<close> wrap.\<close>

definition bind_u64 :: "nat \<Rightarrow> sql_value option" where
  "bind_u64 n = (if n < 2 ^ 63 then Some (SqlInt (int n)) else None)"

definition as_u64 :: "int \<Rightarrow> nat" where
  "as_u64 i = nat (i mod 2 ^ 64)"

definition as_u16 :: "int \<Rightarrow> nat" where
  "as_u16 i = nat (i mod 2 ^ 16)"

definition select :: "string list \<Rightarrow> (string \<times> sql_value) list \<Rightarrow> sql_value list" where
  "select cols vs = map (\<lambda>c. cell_of c (0, vs)) cols"

record json_codec =
  js_delta_out :: "delta \<Rightarrow> ustring option"
  js_delta_in :: "ustring \<Rightarrow> delta option"
  js_users_out :: "user_id list \<Rightarrow> ustring option"
  js_users_in :: "ustring \<Rightarrow> user_id list option"

section \<open>Accounts\<close>

definition user_id_text :: "user_id \<Rightarrow> ustring" where
  "user_id_text u = (case u of UserId s \<Rightarrow> s)"

definition USER_COLUMNS :: "string list" where
  "USER_COLUMNS = [''id'', ''name'', ''display_name'', ''email'', ''password_hash'', ''color'', ''created_at'']"

definition user_values :: "user \<Rightarrow> (string \<times> sql_value) list" where
  "user_values u = zip USER_COLUMNS
     [SqlText (user_id_text (user_id u)), SqlText (user_name u), SqlText (user_display_name u), SqlText (user_email u),
      SqlText (user_password_hash u), SqlInt (int (user_color u)), SqlInt (user_created_at u)]"

definition row_to_user :: "(string \<times> sql_value) list \<Rightarrow> user option" where
  "row_to_user vs = (let get = (\<lambda>c. cell_of c (0, vs)) in do {
     i \<leftarrow> get_text (get ''id'');
     name \<leftarrow> get_text (get ''name'');
     disp \<leftarrow> get_text (get ''display_name'');
     email \<leftarrow> get_text (get ''email'');
     hash \<leftarrow> get_text (get ''password_hash'');
     color \<leftarrow> get_i64 (get ''color'');
     created \<leftarrow> get_i64 (get ''created_at'');
     Some \<lparr>user_id = UserId i, user_name = name, user_display_name = disp, user_email = email, user_password_hash = hash,
           user_color = as_u16 color, user_created_at = created\<rparr> })"

definition row_to_public_user :: "(string \<times> sql_value) list \<Rightarrow> public_user option" where
  "row_to_public_user vs = (let get = (\<lambda>c. cell_of c (0, vs)) in do {
     i \<leftarrow> get_text (get ''id'');
     name \<leftarrow> get_text (get ''name'');
     disp \<leftarrow> get_text (get ''display_name'');
     color \<leftarrow> get_i64 (get ''color'');
     Some \<lparr>pu_id = UserId i, pu_name = name, pu_display_name = disp, pu_color = as_u16 color\<rparr> })"

section \<open>Wavelets\<close>

definition WAVELET_COLUMNS :: "string list" where
  "WAVELET_COLUMNS = [''id'', ''wave_id'', ''kind'', ''title'', ''anchor_blip'', ''created_at'', ''last_modified'']"

definition wavelet_id_text :: "wavelet_id \<Rightarrow> ustring" where
  "wavelet_id_text i = (case i of WaveletId s \<Rightarrow> s)"

definition wave_id_text :: "wave_id \<Rightarrow> ustring" where
  "wave_id_text i = (case i of WaveId s \<Rightarrow> s)"

definition blip_id_text :: "blip_id \<Rightarrow> ustring" where
  "blip_id_text i = (case i of BlipId s \<Rightarrow> s)"

definition comment_id_text :: "comment_id \<Rightarrow> ustring" where
  "comment_id_text i = (case i of CommentId s \<Rightarrow> s)"

definition wavelet_values :: "wavelet \<Rightarrow> (string \<times> sql_value) list" where
  "wavelet_values w =
     (let kind = (case wl_kind w of Conversation \<Rightarrow> lit ''conversation'' | PrivateReplyKind \<Rightarrow> lit ''privateReply'')
      in zip WAVELET_COLUMNS
           [SqlText (wavelet_id_text (wl_id w)), SqlText (wave_id_text (wl_wave_id w)), SqlText kind, SqlText (wl_title w),
            opt_text (map_option blip_id_text (wl_anchor_blip w)), SqlInt (wl_created_at w), SqlInt (wl_last_modified w)])"

fun row_to_wavelet :: "sql_value list \<Rightarrow> wavelet option" where
  "row_to_wavelet [c0, c1, c2, c3, c4, c5, c6] = do {
     kind \<leftarrow> get_text c2;
     i \<leftarrow> get_text c0;
     wave \<leftarrow> get_text c1;
     title \<leftarrow> get_text c3;
     anchor \<leftarrow> get_opt_text c4;
     created \<leftarrow> get_i64 c5;
     modified \<leftarrow> get_i64 c6;
     Some \<lparr>wl_id = WaveletId i, wl_wave_id = WaveId wave,
           wl_kind = (if kind = lit ''privateReply'' then PrivateReplyKind else Conversation),
           wl_title = title, wl_participants = [], wl_anchor_blip = map_option BlipId anchor, wl_created_at = created,
           wl_last_modified = modified\<rparr> }"
| "row_to_wavelet _ = None"

section \<open>Messages\<close>

definition BLIP_COLUMNS :: "string list" where
  "BLIP_COLUMNS = [''id'', ''wavelet_id'', ''wave_id'', ''parent'', ''seq'', ''author'', ''contributors'', ''created_at'',
     ''last_modified'', ''content'', ''revision'', ''deleted'', ''comment'']"

definition blip_values :: "json_codec \<Rightarrow> blip \<Rightarrow> (string \<times> sql_value) list option" where
  "blip_values js b = do {
     contributors \<leftarrow> js_users_out js (b_contributors b);
     content \<leftarrow> js_delta_out js (b_content b);
     revision \<leftarrow> bind_u64 (b_revision b);
     Some (zip BLIP_COLUMNS
       [SqlText (blip_id_text (b_id b)), SqlText (wavelet_id_text (b_wavelet_id b)), SqlText (wave_id_text (b_wave_id b)),
        opt_text (map_option blip_id_text (b_parent b)), SqlInt (b_seq b), SqlText (user_id_text (b_author b)),
        SqlText contributors, SqlInt (b_created_at b), SqlInt (b_last_modified b), SqlText content, revision, SqlInt 0,
        opt_text (map_option comment_id_text (b_comment b))]) }"

definition stored_json :: "(ustring \<Rightarrow> 'a option) \<Rightarrow> ustring \<Rightarrow> 'a option" where
  "stored_json from_str raw = from_str raw"

fun row_to_blip :: "json_codec \<Rightarrow> sql_value list \<Rightarrow> blip option" where
  "row_to_blip js [c0, c1, c2, c3, c4, c5, c6, c7, c8, c9, c10, c11, c12] = do {
     contributors \<leftarrow> get_text c6;
     content \<leftarrow> get_text c9;
     i \<leftarrow> get_text c0;
     wavelet \<leftarrow> get_text c1;
     wave \<leftarrow> get_text c2;
     parent \<leftarrow> get_opt_text c3;
     seq \<leftarrow> get_i64 c4;
     author \<leftarrow> get_text c5;
     contributors \<leftarrow> stored_json (js_users_in js) contributors;
     created \<leftarrow> get_i64 c7;
     modified \<leftarrow> get_i64 c8;
     content \<leftarrow> stored_json (js_delta_in js) content;
     revision \<leftarrow> get_i64 c10;
     deleted \<leftarrow> get_i64 c11;
     comment \<leftarrow> get_opt_text c12;
     Some \<lparr>b_id = BlipId i, b_wavelet_id = WaveletId wavelet, b_wave_id = WaveId wave, b_parent = map_option BlipId parent,
           b_comment = map_option CommentId comment, b_seq = seq, b_author = UserId author, b_contributors = contributors,
           b_created_at = created, b_last_modified = modified, b_content = content, b_revision = as_u64 revision,
           b_deleted = (deleted \<noteq> 0)\<rparr> }"
| "row_to_blip js _ = None"

section \<open>Comments\<close>

definition COMMENT_COLUMNS :: "string list" where
  "COMMENT_COLUMNS = [''id'', ''wavelet_id'', ''blip_id'', ''author'', ''created_at'', ''resolved_by'', ''resolved_at'']"

definition comment_values :: "comment_thread \<Rightarrow> wave_id \<Rightarrow> (string \<times> sql_value) list" where
  "comment_values t wave =
     zip [''id'', ''wave_id'', ''wavelet_id'', ''blip_id'', ''author'', ''created_at'']
       [SqlText (comment_id_text (ct_id t)), SqlText (wave_id_text wave), SqlText (wavelet_id_text (ct_wavelet_id t)),
        SqlText (blip_id_text (ct_blip_id t)), SqlText (user_id_text (ct_author t)), SqlInt (ct_created_at t)]"

text \<open>The update that closes a thread or opens it again.\<close>

definition resolve_values :: "user_id option \<Rightarrow> timestamp option \<Rightarrow> (string \<times> sql_value) list \<Rightarrow> (string \<times> sql_value) list" where
  "resolve_values by at vs =
     AList.update ''resolved_at'' (opt_i64 at) (AList.update ''resolved_by'' (opt_text (map_option user_id_text by)) vs)"

fun row_to_comment :: "sql_value list \<Rightarrow> comment_thread option" where
  "row_to_comment [c0, c1, c2, c3, c4, c5, c6] = do {
     i \<leftarrow> get_text c0;
     wavelet \<leftarrow> get_text c1;
     blip \<leftarrow> get_text c2;
     author \<leftarrow> get_text c3;
     created \<leftarrow> get_i64 c4;
     by \<leftarrow> get_opt_text c5;
     at \<leftarrow> get_opt_i64 c6;
     Some \<lparr>ct_id = CommentId i, ct_wavelet_id = WaveletId wavelet, ct_blip_id = BlipId blip, ct_author = UserId author,
           ct_created_at = created, ct_resolved_by = map_option UserId by, ct_resolved_at = at\<rparr> }"
| "row_to_comment _ = None"

section \<open>Round trips\<close>

lemma column_simps [simp]:
  "get_opt_text (opt_text s) = Some s" "get_opt_i64 (opt_i64 i) = Some i"
  by (simp_all add: opt_text_def opt_i64_def split: option.split)

lemma id_texts [simp]:
  "WaveletId (wavelet_id_text a) = a" "WaveId (wave_id_text b) = b" "BlipId (blip_id_text c) = c" "CommentId (comment_id_text d) = d"
  "UserId (user_id_text u) = u" "BlipId \<circ> blip_id_text = id" "CommentId \<circ> comment_id_text = id" "UserId \<circ> user_id_text = id"
  by (auto simp: wavelet_id_text_def wave_id_text_def blip_id_text_def comment_id_text_def user_id_text_def fun_eq_iff
      split: wavelet_id.split wave_id.split blip_id.split comment_id.split user_id.split)

lemmas row_defs = select_def cell_of_def Let_def option.map_comp option.map_id

lemma user_row: "user_color u < 2 ^ 16 \<Longrightarrow> row_to_user (user_values u) = Some u"
  by (simp add: row_to_user_def user_values_def USER_COLUMNS_def row_defs as_u16_def)

lemma public_user_row: "user_color u < 2 ^ 16 \<Longrightarrow> row_to_public_user (user_values u) = Some (user_public u)"
  by (simp add: row_to_public_user_def user_values_def USER_COLUMNS_def row_defs as_u16_def user_public_def)

lemma wavelet_row: "row_to_wavelet (select WAVELET_COLUMNS (wavelet_values w)) = Some (w\<lparr>wl_participants := []\<rparr>)"
  by (cases "wl_kind w") (simp_all add: wavelet_values_def WAVELET_COLUMNS_def row_defs lit_def)

lemma comment_row:
  "row_to_comment (select COMMENT_COLUMNS (comment_values t wave)) = Some (t\<lparr>ct_resolved_by := None, ct_resolved_at := None\<rparr>)"
  "row_to_comment (select COMMENT_COLUMNS (resolve_values (ct_resolved_by t) (ct_resolved_at t) (comment_values t wave))) = Some t"
  by (simp_all add: comment_values_def COMMENT_COLUMNS_def resolve_values_def row_defs)

lemma blip_row:
  assumes "blip_values js b = Some vs" "\<not> b_deleted b"
    "\<And>s. js_delta_out js (b_content b) = Some s \<Longrightarrow> js_delta_in js s = Some (b_content b)"
    "\<And>s. js_users_out js (b_contributors b) = Some s \<Longrightarrow> js_users_in js s = Some (b_contributors b)"
  shows "row_to_blip js (select BLIP_COLUMNS vs) = Some b"
  using assms(1)
  by (auto simp: blip_values_def BLIP_COLUMNS_def row_defs bind_eq_Some_conv bind_u64_def as_u64_def stored_json_def assms(2-4)
      split: if_splits)

lemma unreadable_content:
  "js_delta_in js raw = None \<Longrightarrow> row_to_blip js [c0, c1, c2, c3, c4, c5, c6, c7, c8, SqlText raw, c10, c11, c12] = None"
  by (auto simp: stored_json_def Option.bind_eq_None_conv)

text \<open>Every column the statements name is one of the migrated schema.\<close>

lemma columns_exist:
  "list_all (\<lambda>c. has_column current_layout (''users'', c)) USER_COLUMNS"
  "list_all (\<lambda>c. has_column current_layout (''wavelets'', c)) WAVELET_COLUMNS"
  "list_all (\<lambda>c. has_column current_layout (''blips'', c)) BLIP_COLUMNS"
  "list_all (\<lambda>c. has_column current_layout (''comments'', c)) (''wave_id'' # COMMENT_COLUMNS)"
  by code_simp+

text \<open>
  (C30) What is stored is what is read. A message that is inserted is read back as it was, given
  that JSON decodes what it encodes for its content and contributors; one whose revision does
  not fit a signed integer is refused, and a row whose content does not decode is an error and
  never an empty message. Accounts, wavelets and comment threads, closed and open, come back as
  they were stored (the participants of a wavelet are rows of their own), and every column
  involved is one of the migrated schema.
\<close>

theorem stored_rows_roundtrip:
  assumes "user_color u < 2 ^ 16" "\<not> b_deleted b"
    "\<And>s. js_delta_out js (b_content b) = Some s \<Longrightarrow> js_delta_in js s = Some (b_content b)"
    "\<And>s. js_users_out js (b_contributors b) = Some s \<Longrightarrow> js_users_in js s = Some (b_contributors b)"
  shows "(\<forall>vs. blip_values js b = Some vs \<longrightarrow> row_to_blip js (select BLIP_COLUMNS vs) = Some b)
    \<and> (b_revision b \<ge> 2 ^ 63 \<longrightarrow> blip_values js b = None)
    \<and> (\<forall>vs raw. select BLIP_COLUMNS vs ! 9 = SqlText raw \<and> js_delta_in js raw = None \<longrightarrow> row_to_blip js (select BLIP_COLUMNS vs) = None)
    \<and> row_to_user (user_values u) = Some u \<and> row_to_public_user (user_values u) = Some (user_public u)
    \<and> row_to_wavelet (select WAVELET_COLUMNS (wavelet_values w)) = Some (w\<lparr>wl_participants := []\<rparr>)
    \<and> row_to_comment (select COMMENT_COLUMNS (resolve_values (ct_resolved_by t) (ct_resolved_at t) (comment_values t wave))) = Some t
    \<and> (\<forall>c \<in> set BLIP_COLUMNS. has_column current_layout (''blips'', c))
    \<and> (\<forall>c \<in> set USER_COLUMNS. has_column current_layout (''users'', c))
    \<and> (\<forall>c \<in> set WAVELET_COLUMNS. has_column current_layout (''wavelets'', c))
    \<and> (\<forall>c \<in> set COMMENT_COLUMNS. has_column current_layout (''comments'', c))"
proof (intro conjI)
  show "\<forall>vs. blip_values js b = Some vs \<longrightarrow> row_to_blip js (select BLIP_COLUMNS vs) = Some b" using blip_row [OF _ assms(2-4)] by blast
  show "b_revision b \<ge> 2 ^ 63 \<longrightarrow> blip_values js b = None"
    by (auto simp: blip_values_def bind_u64_def Option.bind_eq_None_conv)
  show "\<forall>vs raw. select BLIP_COLUMNS vs ! 9 = SqlText raw \<and> js_delta_in js raw = None \<longrightarrow> row_to_blip js (select BLIP_COLUMNS vs) = None"
    using unreadable_content by (simp add: select_def BLIP_COLUMNS_def)
qed (use assms(1) columns_exist in \<open>simp_all add: user_row public_user_row wavelet_row comment_row list_all_iff\<close>)

text \<open>A message with two contributors, encoded by a codec that knows this one message.\<close>

definition sample_message :: blip where
  "sample_message = (blip_new 0 (lit ''1'') (WaveId (lit ''w'')) (WaveletId (lit ''c'')) (UserId (lit ''u'')) None 3)\<lparr>b_revision := 7\<rparr>"

definition sample_writer :: user where
  "sample_writer = \<lparr>user_id = UserId (lit ''u''), user_name = lit ''ann'', user_display_name = lit ''Ann'', user_email = [],
     user_password_hash = lit ''!'', user_color = 120, user_created_at = 0\<rparr>"

definition sample_codec :: json_codec where
  "sample_codec = \<lparr>js_delta_out = (\<lambda>_. Some (lit ''[]'')), js_delta_in = (\<lambda>s. if s = lit ''[]'' then Some (b_content sample_message) else None),
     js_users_out = (\<lambda>_. Some (lit ''[u]'')), js_users_in = (\<lambda>s. if s = lit ''[u]'' then Some (b_contributors sample_message) else None)\<rparr>"

theorem stored_rows_roundtrip_witness:
  "blip_values sample_codec sample_message \<noteq> None
   \<and> row_to_blip sample_codec (select BLIP_COLUMNS (the (blip_values sample_codec sample_message))) = Some sample_message"
proof -
  have some: "blip_values sample_codec sample_message \<noteq> None"
    by (simp add: blip_values_def sample_codec_def sample_message_def bind_u64_def)
  have "user_color sample_writer < 2 ^ 16" "\<not> b_deleted sample_message" by (simp_all add: sample_message_def blip_new_def sample_writer_def)
  from stored_rows_roundtrip [OF this, of sample_codec] some show ?thesis by (auto simp: sample_codec_def)
qed

end
