(* ===== verification/Gal_Socket.thy ===== *)
theory Gal_Socket
  imports Gal_Safety
begin

text \<open>
  The life of a WebSocket connection, from \<open>crates/gal-server/src/ws.rs\<close>: the upgrade with its
  check of the origin, registration under the cap on connections, the greeting, the loop that
  reads frames, and the writer. The reader waits on several things at once and takes the first
  that is ready, in the order of the source (\<open>biased\<close>): one turn of the loop is a function of the
  instant at which something became ready and of the frame that has arrived by then. The JSON
  decoder is an argument in the shape of its result.
\<close>

section \<open>Opening\<close>

definition KEEPALIVE :: rat where
  "KEEPALIVE = 30"

definition IDLE_TIMEOUT :: rat where
  "IDLE_TIMEOUT = 120"

text \<open>The refusal of an upgrade; \<open>None\<close> when the connection goes on.\<close>

definition ws_handler :: "web \<Rightarrow> ustring option \<Rightarrow> ustring option \<Rightarrow> response option" where
  "ws_handler w origin host =
     (if origin_allowed origin host (cf_allowed_origins (wb_config w)) then None
      else Some (plain_response 403 (TextBody (lit ''This origin is not allowed to connect.''))))"

text \<open>A new queue and a new notification, registered for the account.\<close>

definition open_connection :: "server \<Rightarrow> identity \<Rightarrow> nat \<Rightarrow> (server_message, session) result \<times> server" where
  "open_connection sv who chan =
     (let u = identity_user who; sv = sv\<lparr>sv_chans := (sv_chans sv)(chan := empty_channel)\<rparr>
      in case register_conn sv (user_id u) chan MAX_CONNECTIONS_PER_USER (identity_token_hash who) of
           (None, sv) \<Rightarrow>
             (Err (error_message TooManyRequests
                (lit ''Too many connections open for this account. Close a tab and reload.'')), sv)
         | (Some i, sv) \<Rightarrow>
             (Ok \<lparr>ss_conn_id = i, ss_user = u, ss_subscribed = [], ss_chan = chan,
                  ss_token_hash = identity_token_hash who\<rparr>, sv))"

text \<open>What the reader keeps between two turns of its loop.\<close>

record socket =
  sk_session :: session
  sk_expires :: rat      \<comment> \<open>the instant at which the session ends\<close>
  sk_next_tick :: rat    \<comment> \<open>when the keepalive is due\<close>
  sk_last_heard :: rat
  sk_ping :: bool        \<comment> \<open>a ping waits for the writer\<close>

definition killed :: "server \<Rightarrow> session \<Rightarrow> bool" where
  "killed sv ss = ch_killed (sv_chans sv (ss_chan ss))"

text \<open>\<open>Notify::notified\<close> takes the permit that \<open>notify_one\<close> left.\<close>

definition take_permit :: "server \<Rightarrow> session \<Rightarrow> server" where
  "take_permit sv ss =
     sv\<lparr>sv_chans := (sv_chans sv)(ss_chan ss := (sv_chans sv (ss_chan ss))\<lparr>ch_killed := False\<rparr>)\<rparr>"

definition session_ended :: server_message where
  "session_ended = error_message Forbidden (lit ''Your session has ended. Sign in again.'')"

definition no_inbox :: server_message where
  "no_inbox = error_message Internal (lit ''could not load your inbox; reconnect to try again'')"

text \<open>
  The part of \<open>read_commands\<close> before its loop. The session is looked up again after the
  connection has been registered; the inbox may be the one read that fails. The instants are
  successive readings of the monotonic clock.
\<close>

definition greet :: "env \<Rightarrow> (nat \<Rightarrow> rat) \<Rightarrow> bool \<Rightarrow> server \<Rightarrow> session \<Rightarrow> socket option \<times> server" where
  "greet e clock inbox_loads sv ss =
     (if \<not> env_read e then (None, session_send sv ss internal_error)
      else case db_session_expiry (env_now e 0) (sv_store sv) (ss_token_hash ss) of
        None \<Rightarrow> (None, session_send sv ss session_ended)
      | Some expires_at \<Rightarrow>
          let expires = clock 0 + of_int (max 0 (min (2 ^ 63 - 1) (expires_at - env_now e 1))) / 1000
          in if killed sv ss then (None, take_permit sv ss)
             else if expires \<le> clock 1 then (None, sv)
             else if \<not> inbox_loads then (None, session_send sv ss no_inbox)
             else (Some \<lparr>sk_session = ss, sk_expires = expires, sk_next_tick = clock 2 + KEEPALIVE,
                         sk_last_heard = clock 3, sk_ping = False\<rparr>,
                   session_send sv ss (WelcomeMsg (user_public (ss_user ss))
                     (db_inbox (env_pick e) (sv_store sv) (ss_uid ss)))))"

section \<open>Reading\<close>

datatype frame =
    TextFrame "(ustring, client_message) result"   \<comment> \<open>decoded, or the decoder's complaint\<close>
  | CloseFrame
  | OtherFrame
  | StreamEnd

definition not_understood :: "ustring \<Rightarrow> server_message" where
  "not_understood m = error_message BadRequest (lit ''Could not understand that message: '' @ m)"

text \<open>
  A frame that has arrived; \<open>False\<close> leaves the loop. A command whose dispatch panics leaves some
  server and some session behind, here an argument; one over its allowance is not dispatched.
\<close>

definition read_frame ::
  "env \<Rightarrow> rat \<Rightarrow> frame \<Rightarrow> (server \<times> session) option \<Rightarrow> server \<Rightarrow> socket \<Rightarrow> bool \<times> socket \<times> server" where
  "read_frame e t f crash sv sk =
     (case f of
        StreamEnd \<Rightarrow> (False, sk, sv)
      | CloseFrame \<Rightarrow> (False, sk\<lparr>sk_last_heard := t\<rparr>, sv)
      | OtherFrame \<Rightarrow> (True, sk\<lparr>sk_last_heard := t\<rparr>, sv)
      | TextFrame (Err m) \<Rightarrow> (True, sk\<lparr>sk_last_heard := t\<rparr>, session_send sv (sk_session sk) (not_understood m))
      | TextFrame (Ok c) \<Rightarrow>
          (case (fst (check_command_rate sv t (ss_uid (sk_session sk)) c), crash) of
             (True, Some (sv, ss)) \<Rightarrow> (False, sk\<lparr>sk_last_heard := t, sk_session := ss\<rparr>, contain_panic sv ss)
           | _ \<Rightarrow>
               let (sv, ss) = handle_command e t sv (sk_session sk) c
               in (True, sk\<lparr>sk_last_heard := t, sk_session := ss\<rparr>, sv)))"

text \<open>
  One turn of the loop at the instant \<open>t\<close>. A keepalive that is late is due again at once, as the
  interval of the runtime has it; a turn at which nothing is ready changes nothing.
\<close>

definition read_step ::
  "env \<Rightarrow> rat \<Rightarrow> frame option \<Rightarrow> (server \<times> session) option \<Rightarrow> server \<Rightarrow> socket \<Rightarrow> bool \<times> socket \<times> server" where
  "read_step e t f crash sv sk =
     (if sv_shutdown sv then (False, sk, sv)
      else if killed sv (sk_session sk) then (False, sk, take_permit sv (sk_session sk))
      else if sk_expires sk \<le> t then (False, sk, sv)
      else if sk_next_tick sk \<le> t
      then (if duration_since t (sk_last_heard sk) > IDLE_TIMEOUT then (False, sk, sv)
            else (True, sk\<lparr>sk_next_tick := sk_next_tick sk + KEEPALIVE, sk_ping := True\<rparr>, sv))
      else (case f of None \<Rightarrow> (True, sk, sv) | Some f \<Rightarrow> read_frame e t f crash sv sk))"

text \<open>The writer takes a message off the queue; when the socket refuses it, the writer stops.\<close>

definition write_step :: "bool \<Rightarrow> server \<Rightarrow> session \<Rightarrow> server" where
  "write_step sent sv ss =
     (let a = ss_chan ss; c = sv_chans sv a
      in case ch_queue c of
           [] \<Rightarrow> sv
         | m # ms \<Rightarrow>
             if sent then sv\<lparr>sv_chans := (sv_chans sv)(a := c\<lparr>ch_queue := ms\<rparr>)\<rparr>
             else sv\<lparr>sv_chans := notify_one ((sv_chans sv)(a := c\<lparr>ch_queue := ms, ch_closed := True\<rparr>)) a\<rparr>)"

text \<open>Or it takes the request for a ping, of which there is at most one.\<close>

definition ping_step :: "bool \<Rightarrow> server \<Rightarrow> socket \<Rightarrow> socket \<times> server" where
  "ping_step sent sv sk =
     (let a = ss_chan (sk_session sk)
      in if \<not> sk_ping sk then (sk, sv)
         else if sent then (sk\<lparr>sk_ping := False\<rparr>, sv)
         else (sk\<lparr>sk_ping := False\<rparr>,
               sv\<lparr>sv_chans := notify_one ((sv_chans sv)(a := (sv_chans sv a)\<lparr>ch_closed := True\<rparr>)) a\<rparr>))"

section \<open>The loop\<close>

text \<open>
  The states of a connection in its loop, with the instant of its last turn. Between two
  turns everybody else may do anything to the server.
\<close>

inductive socket_run :: "rat \<Rightarrow> server \<Rightarrow> socket \<Rightarrow> bool" where
  greeted: "greet e clock ok sv ss = (Some sk, sv') \<Longrightarrow> clock 2 \<le> clock 3 \<Longrightarrow> socket_run (clock 3) sv' sk"
| turn: "socket_run t sv sk \<Longrightarrow> t \<le> t' \<Longrightarrow> read_step e t' f crash sv sk = (True, sk', sv') \<Longrightarrow> socket_run t' sv' sk'"
| pinged: "socket_run t sv sk \<Longrightarrow> ping_step sent sv sk = (sk', sv') \<Longrightarrow> socket_run t sv' sk'"
| world: "socket_run t sv sk \<Longrightarrow> socket_run t sv' sk"

lemma read_frame_heard:
  "read_frame e t f crash sv sk = (going, sk', sv') \<Longrightarrow> going \<Longrightarrow>
   sk_last_heard sk' = t \<and> sk_next_tick sk' = sk_next_tick sk \<and> sk_expires sk' = sk_expires sk"
  by (auto simp: read_frame_def case_prod_beta' Let_def split: frame.splits sum.splits bool.splits option.splits)

lemma read_frame_ends:
  "read_frame e t f crash sv sk = (False, sk', sv') \<Longrightarrow>
   f = CloseFrame \<or> f = StreamEnd \<or> (\<exists>c. f = TextFrame (Ok c) \<and> crash \<noteq> None)"
  by (auto simp: read_frame_def case_prod_beta' Let_def split: frame.splits sum.splits bool.splits option.splits)

lemma read_frame_changes:
  assumes "read_frame e t f crash sv sk = (going, sk', sv')" "\<not> aside sv sv'"
  shows "\<exists>c. f = TextFrame (Ok c) \<and>
    ((going \<and> (sv', sk_session sk') = handle_command e t sv (sk_session sk) c)
     \<or> (\<exists>svp ssp. \<not> going \<and> crash = Some (svp, ssp) \<and> sv' = contain_panic svp ssp))"
proof -
  have "aside sv sv" by (simp add: aside_def)
  with assms session_send_aside show ?thesis
    by (auto simp: read_frame_def case_prod_beta' Let_def split: frame.splits sum.splits bool.splits option.splits)
qed

lemma socket_run_tick:
  "socket_run t sv sk \<Longrightarrow> sk_last_heard sk \<le> t \<and> sk_next_tick sk \<le> sk_last_heard sk + (IDLE_TIMEOUT + KEEPALIVE)"
proof (induction rule: socket_run.induct)
  case (greeted e clock ok sv ss sk sv')
  then show ?case
    by (auto simp: greet_def Let_def KEEPALIVE_def IDLE_TIMEOUT_def split: if_splits option.splits)
next
  case (turn t sv sk t' e f crash sk' sv')
  show ?case
  proof (cases "sk_next_tick sk \<le> t'")
    case True
    then have "sk' = sk\<lparr>sk_next_tick := sk_next_tick sk + KEEPALIVE, sk_ping := True\<rparr>"
      "duration_since t' (sk_last_heard sk) \<le> IDLE_TIMEOUT"
      using turn(3) by (auto simp: read_step_def split: if_splits)
    with True turn(2,4) show ?thesis by (auto simp: duration_since_def)
  next
    case False
    then have "sk' = sk \<or> (\<exists>f. read_frame e t' f crash sv sk = (True, sk', sv'))"
      using turn(3) by (auto simp: read_step_def split: if_splits option.splits)
    with turn(2,4) show ?thesis by (auto dest: read_frame_heard)
  qed
next
  case (pinged t sv sk sent sk' sv')
  then show ?case by (auto simp: ping_step_def Let_def split: if_splits)
qed auto

text \<open>
  (C20) Once a connection is in its loop, the first turn after the shutdown of the server, after
  the connection has been told to close, after its session has expired, or once nothing has been
  heard for 150 seconds (the idle limit and one keepalive) is the last, whatever frame has
  arrived, and that frame changes neither storage nor memory. The loop ends for no other
  reason than these (silence counts after 120 seconds), the end of the stream, or a command
  that panicked; and a turn that does change storage or memory is a decoded command, run by the
  handler of commands or contained after its panic.
\<close>

theorem socket_loop_guarded:
  assumes "socket_run t sv sk" "t \<le> t'" "read_step e t' f crash sv sk = (going, sk', sv')"
  shows "(sv_shutdown sv \<or> killed sv (sk_session sk) \<or> sk_expires sk \<le> t' \<or> sk_last_heard sk + 150 \<le> t'
        \<longrightarrow> \<not> going \<and> aside sv sv')
    \<and> (\<not> going \<longrightarrow> sv_shutdown sv \<or> killed sv (sk_session sk) \<or> sk_expires sk \<le> t' \<or> sk_last_heard sk + 120 < t'
        \<or> f = Some CloseFrame \<or> f = Some StreamEnd \<or> (\<exists>c. f = Some (TextFrame (Ok c)) \<and> crash \<noteq> None))
    \<and> (\<not> aside sv sv' \<longrightarrow> (\<exists>c. f = Some (TextFrame (Ok c)) \<and>
        ((going \<and> (sv', sk_session sk') = handle_command e t' sv (sk_session sk) c)
         \<or> (\<exists>svp ssp. \<not> going \<and> crash = Some (svp, ssp) \<and> sv' = contain_panic svp ssp))))"
proof (cases "sv_shutdown sv \<or> killed sv (sk_session sk) \<or> sk_expires sk \<le> t'")
  case True
  then have "\<not> going \<and> aside sv sv'"
    using assms(3) by (auto simp: read_step_def take_permit_def aside_def split: if_splits)
  with True show ?thesis by blast
next
  case live: False
  have tick: "sk_last_heard sk \<le> t'" "sk_next_tick sk \<le> sk_last_heard sk + 150"
    using socket_run_tick [OF assms(1)] assms(2) by (auto simp: IDLE_TIMEOUT_def KEEPALIVE_def)
  show ?thesis
  proof (cases "sk_next_tick sk \<le> t'")
    case True
    then have "going \<longleftrightarrow> t' - sk_last_heard sk \<le> 120" "aside sv sv'"
      using assms(3) live tick by (auto simp: read_step_def duration_since_def IDLE_TIMEOUT_def aside_def split: if_splits)
    then show ?thesis using live by auto
  next
    case False
    then have early: "\<not> sk_last_heard sk + 150 \<le> t'" using tick by simp
    have "going \<and> aside sv sv' \<or> (\<exists>f'. f = Some f' \<and> read_frame e t' f' crash sv sk = (going, sk', sv'))"
      using assms(3) live False by (auto simp: read_step_def aside_def split: option.splits)
    then show ?thesis
    proof (elim disjE exE conjE)
      fix f' assume f: "f = Some f'" "read_frame e t' f' crash sv sk = (going, sk', sv')"
      have "going \<or> f' = CloseFrame \<or> f' = StreamEnd \<or> (\<exists>c. f' = TextFrame (Ok c) \<and> crash \<noteq> None)"
        using f(2) read_frame_ends [of e t' f' crash sv sk sk' sv'] by (cases going) simp_all
      with read_frame_changes [OF f(2)] live early show ?thesis unfolding f(1) by (intro conjI impI) simp_all
    qed (use live early in simp)
  qed
qed

text \<open>A session with 99 milliseconds to live: a command that arrives after one second is not run.\<close>

definition phone_session :: session where
  "phone_session = \<lparr>ss_conn_id = 1, ss_user = sample_account, ss_subscribed = [], ss_chan = 7, ss_token_hash = lit ''phone''\<rparr>"

definition phone_socket :: socket where
  "phone_socket = \<lparr>sk_session = phone_session, sk_expires = 99 / 1000, sk_next_tick = 30 + 2 / 100,
     sk_last_heard = 3 / 100, sk_ping = False\<rparr>"

lemma phone_greeted: "fst (greet web_env (\<lambda>n. of_nat n / 100) True sample_deployment phone_session) = Some phone_socket"
  by code_simp

theorem socket_loop_guarded_witness:
  "\<exists>sv. socket_run (3 / 100) sv phone_socket
     \<and> \<not> fst (read_step web_env 1 (Some (TextFrame (Ok Ping))) None sv phone_socket)"
proof -
  obtain sv where g: "greet web_env (\<lambda>n. of_nat n / 100) True sample_deployment phone_session = (Some phone_socket, sv)"
    using phone_greeted by (metis prod.collapse)
  have run: "socket_run (3 / 100) sv phone_socket" using socket_run.greeted [OF g] by simp
  obtain going sk' sv' where step: "read_step web_env 1 (Some (TextFrame (Ok Ping))) None sv phone_socket = (going, sk', sv')"
    by (metis prod.exhaust)
  have "\<not> going" using socket_loop_guarded [OF run _ step] by (simp add: phone_socket_def)
  with run step show ?thesis by auto
qed

end
