(* ===== verification/Gal_Connections.thy ===== *)
theory Gal_Connections
  imports Gal_Socket
begin

text \<open>
  The table of connections. Every handler leaves it alone, opening and closing a connection keep
  it consistent and under the cap, and so a session that is revoked takes its connections with
  it: the next turn of their loops is the last.
\<close>

section \<open>Handlers leave the table alone\<close>

definition table :: "server \<Rightarrow> (nat \<times> conn_handle) list \<times> (user_id \<times> nat list) list \<times> nat" where
  "table sv = (sv_conns sv, sv_user_conns sv, sv_next_conn_id sv)"

lemma table_simps [simp]:
  "table (sv\<lparr>sv_store := st\<rparr>) = table sv" "table (sv\<lparr>sv_chans := ch\<rparr>) = table sv" "table (sv\<lparr>sv_heap := h\<rparr>) = table sv"
  "table (sv\<lparr>sv_waves := ws\<rparr>) = table sv" "table (sv\<lparr>sv_next_addr := n\<rparr>) = table sv"
  "table (sv\<lparr>sv_inbox_pending := ps\<rparr>) = table sv" "table (sv\<lparr>sv_command_limiter := l\<rparr>) = table sv"
  "table (session_send sv ss m) = table sv" "table (schedule_inbox_update sv wid) = table sv"
  "table (send_to_user sv u m) = table sv"
  by (simp_all add: table_def session_send_def schedule_inbox_update_def send_to_user_def)

locale seated_body =
  fixes body :: "wave_id \<Rightarrow> server \<Rightarrow> live_wave \<Rightarrow> unit reply \<times> server \<times> live_wave"
  assumes seated: "body wid sv live = (r, sv', live') \<Longrightarrow> table sv' = table sv"
begin

lemma run_seated: "run_locked (body wid) sv a = (r, sv') \<Longrightarrow> table sv' = table sv"
  by (auto simp: run_locked_def split: prod.splits dest: seated)

lemma found_seated: "found_then found body = (r, sv') \<Longrightarrow> table sv' = table (snd found)"
  by (auto simp: found_then_def split: prod.splits sum.splits dest: run_seated)

end

lemma open_resident_table: "open_resident e sv wid = (r, sv') \<Longrightarrow> table sv' = table sv"
  by (auto simp: open_resident_def Let_def split: option.splits if_splits sum.splits)

lemma lookup_wave_table: "lookup_wave e sv wid = (r, sv') \<Longrightarrow> table sv' = table sv"
  by (auto simp: lookup_wave_def split: prod.splits sum.splits option.splits dest: open_resident_table)

lemma find_in_table: "find_in e P sv ws = (r, sv') \<Longrightarrow> table sv' = table sv"
proof (induction ws arbitrary: sv)
  case (Cons w ws)
  obtain r1 sv1 where o1: "open_resident e sv w = (r1, sv1)" by (cases "open_resident e sv w")
  with Cons open_resident_table [OF o1] show ?case
    by (auto split: sum.splits option.splits if_splits)
qed auto

lemma find_table: "table (snd (find_wavelet e sv ss i)) = table sv" "table (snd (find_blip e sv ss b)) = table sv"
  "table (snd (find_comment e sv ss c)) = table sv"
  unfolding find_defs by (rule find_in_table, rule surjective_pairing)+

lemmas seat_defs = stored_def Let_def case_prod_beta'

interpretation s_create_blip: seated_body "create_blip_locked e ss i parent cont" for e ss i parent cont
  by unfold_locales (auto simp: create_blip_locked_def seat_defs split: sum.splits if_splits)

interpretation s_create_comment: seated_body "create_comment_locked e ss i target c seed" for e ss i target c seed
  by unfold_locales (auto simp: create_comment_locked_def seat_defs split: sum.splits if_splits option.splits)

interpretation s_reply_to_comment: seated_body "reply_to_comment_locked e ss c seed" for e ss c seed
  by unfold_locales (auto simp: reply_to_comment_locked_def seat_defs split: sum.splits if_splits option.splits)

interpretation s_resolve_comment: seated_body "resolve_comment_locked e ss c want" for e ss c want
  by unfold_locales (auto simp: resolve_comment_locked_def seat_defs split: sum.splits if_splits option.splits)

lemma delete_blip_seated: "delete_blip_locked e ss i wid sv live = (r, sv', live') \<Longrightarrow> table sv' = table sv"
proof (cases "map_of (lw_blips live) i")
  case (Some lb)
  assume "delete_blip_locked e ss i wid sv live = (r, sv', live')"
  from this [unfolded delete_blip_locked_def Some option.case] show ?thesis
    by (auto simp: seat_defs split: sum.splits if_split_asm)
qed (auto simp: delete_blip_locked_def)

interpretation s_delete_blip: seated_body "delete_blip_locked e ss i" for e ss i
  by unfold_locales (rule delete_blip_seated)

interpretation s_set_title: seated_body "set_title_locked e ss i title" for e ss i title
  by unfold_locales (auto simp: set_title_locked_def seat_defs split: sum.splits if_splits)

interpretation s_set_mode: seated_body "set_mode_locked e ss mode" for e ss mode
  by unfold_locales (auto simp: set_mode_locked_def seat_defs split: sum.splits if_splits)

lemma roster_seated:
  "add_participant_locked e ss i u wid sv live = (r, sv', live') \<Longrightarrow> table sv' = table sv"
  "remove_participant_locked e ss i v wid sv live = (r, sv', live') \<Longrightarrow> table sv' = table sv"
  "private_reply_locked e ss i anchor ids wid sv live = (r, sv', live') \<Longrightarrow> table sv' = table sv"
proof -
  show "add_participant_locked e ss i u wid sv live = (r, sv', live') \<Longrightarrow> table sv' = table sv"
    by (cases "find_live_wavelet live i")
       (auto simp: add_participant_locked_def seat_defs split: sum.splits if_splits)
  show "remove_participant_locked e ss i v wid sv live = (r, sv', live') \<Longrightarrow> table sv' = table sv"
    by (cases "find_live_wavelet live i")
       (auto simp: remove_participant_locked_def seat_defs split: sum.splits if_splits)
  show "private_reply_locked e ss i anchor ids wid sv live = (r, sv', live') \<Longrightarrow> table sv' = table sv"
    by (cases "find (\<lambda>u. u \<notin> set (case find_live_wavelet live i of Some w \<Rightarrow> wl_participants w | None \<Rightarrow> [])) ids")
       (auto simp: private_reply_locked_def seat_defs split: sum.splits if_splits)
qed

interpretation s_add_participant: seated_body "add_participant_locked e ss i u" for e ss i u
  by unfold_locales (rule roster_seated)

interpretation s_remove_participant: seated_body "remove_participant_locked e ss i u" for e ss i u
  by unfold_locales (rule roster_seated)

interpretation s_private_reply: seated_body "private_reply_locked e ss i anchor ids" for e ss i anchor ids
  by unfold_locales (rule roster_seated)

interpretation s_cursor: seated_body "cursor_locked ss b index len" for ss b index len
  by unfold_locales (auto simp: cursor_locked_def seat_defs split: if_splits option.splits)

interpretation s_attach: seated_body "\<lambda>wid. attach_locked ss wid marks flags" for ss marks flags
  by unfold_locales (auto simp: attach_locked_def seat_defs split: if_splits)

interpretation s_detach: seated_body "detach_locked ss" for ss
  by unfold_locales (auto simp: detach_locked_def seat_defs)

lemma apply_op_seated: "apply_op e sv live conn author sub = (r, sv', live') \<Longrightarrow> table sv' = table sv"
proof -
  assume a: "apply_op e sv live conn author sub = (r, sv', live')"
  show ?thesis
  proof (cases "map_of (lw_blips live) (os_blip_id sub)")
    case (Some lb)
    from a Some show ?thesis
    proof (cases rule: apply_op_cases)
      case (commit committed lb')
      then show ?thesis
        by (auto simp: commit_edit_def seat_defs split: sum.splits if_splits)
    qed auto
  qed (use a in \<open>simp add: apply_op_def\<close>)
qed

interpretation s_apply_op: seated_body "\<lambda>_ sv live. apply_op e sv live conn author sub" for e conn author sub
  by unfold_locales (rule apply_op_seated)

lemma handlers_seated:
  "create_blip e sv ss i parent cont = (r, sv') \<Longrightarrow> table sv' = table sv"
  "delete_blip e sv ss b = (r, sv') \<Longrightarrow> table sv' = table sv"
  "resolve_comment e sv ss c want = (r, sv') \<Longrightarrow> table sv' = table sv"
  "set_title e sv ss i title = (r, sv') \<Longrightarrow> table sv' = table sv"
  "remove_participant e sv ss i u = (r, sv') \<Longrightarrow> table sv' = table sv"
  unfolding create_blip_def delete_blip_def resolve_comment_def set_title_def remove_participant_def
  by (auto dest!: s_create_blip.found_seated s_delete_blip.found_seated s_resolve_comment.found_seated
      s_set_title.found_seated s_remove_participant.found_seated simp: find_table)

lemma guarded_seated:
  "submit e sv ss sub = (r, sv') \<Longrightarrow> table sv' = table sv"
  "create_comment e sv ss i target c cont = (r, sv') \<Longrightarrow> table sv' = table sv"
  "reply_to_comment e sv ss c cont = (r, sv') \<Longrightarrow> table sv' = table sv"
  "add_participant e sv ss i name = (r, sv') \<Longrightarrow> table sv' = table sv"
  "private_reply e sv ss i anchor names = (r, sv') \<Longrightarrow> table sv' = table sv"
  using find_table(1) [of e sv ss i] find_table(2) [of e sv ss "os_blip_id sub"] find_table(3) [of e sv ss c]
  by (auto simp: submit_def create_comment_def reply_to_comment_def add_participant_def private_reply_def case_prod_beta' Let_def
      split: sum.splits if_splits option.splits
      dest!: s_apply_op.found_seated s_create_comment.found_seated s_reply_to_comment.found_seated
        s_add_participant.found_seated s_private_reply.found_seated)

lemma open_wave_seated: "open_wave e sv ss wid = (r, sv', ss') \<Longrightarrow> table sv' = table sv"
proof -
  assume a: "open_wave e sv ss wid = (r, sv', ss')"
  let ?found = "case lookup_wave e sv wid of
      (Ok a, sv) \<Rightarrow> if lw_evicted (sv_heap sv a) then lookup_wave e sv wid else (Ok a, sv)
    | (Err m, sv) \<Rightarrow> (Err m, sv)"
  obtain r1 sv1 where f: "?found = (r1, sv1)" by (cases ?found)
  then have "table sv1 = table sv"
    by (auto split: prod.splits sum.splits if_splits dest!: lookup_wave_table)
  moreover have "table (snd (run_locked (attach_locked ss wid marks flags) sv1 a)) = table sv1" for marks flags a
    by (rule s_attach.run_seated) (rule surjective_pairing)
  ultimately show ?thesis
    using a f by (cases r1) (auto simp: open_wave_def Let_def case_prod_beta' split: sum.splits)
qed

lemma open_wave_table [simp]: "table (fst (snd (open_wave e sv ss wid))) = table sv"
  by (cases "open_wave e sv ss wid") (simp add: open_wave_seated)

lemma maybe_evict_table [simp]: "table (maybe_evict sv wid) = table sv"
  by (simp add: maybe_evict_def split: option.split)

lemma leave_wave_seated: "leave_wave e sv ss wid = (sv', ss') \<Longrightarrow> table sv' = table sv"
  by (auto simp: leave_wave_def Let_def case_prod_beta' open_resident_table [OF prod.collapse [symmetric]]
      s_detach.run_seated [OF prod.collapse [symmetric]] split: if_splits sum.splits option.splits)

lemma create_wave_seated: "create_wave e sv ss title names cont mode = (r, sv', ss') \<Longrightarrow> table sv' = table sv"
  by (auto simp: create_wave_def Let_def case_prod_beta' split: sum.splits if_splits)
     (metis fst_conv open_wave_table table_simps(1))

lemma send_inbox_row_table [simp]: "table (send_inbox_row e sv ss wid) = table sv"
  by (simp add: send_inbox_row_def split: option.split)

lemma dispatch_seated:
  assumes "dispatch e sv ss c = (r, sv', ss')"
  shows "table sv' = table sv"
proof -
  have keep: "keep_session ss x = (r, sv', ss') \<Longrightarrow> x = (r, sv')" for x
    by (cases x) (simp add: keep_session_def)
  have mode: "set_mode e sv ss wid mode = (r, sv') \<Longrightarrow> table sv' = table sv" for wid mode
    using lookup_wave_table [OF prod.collapse [symmetric], of e sv wid]
    by (auto simp: set_mode_def split: prod.splits sum.splits if_splits dest!: s_set_mode.run_seated)
  have cur: "cursor e sv ss wid b index len = (r, sv') \<Longrightarrow> table sv' = table sv" for wid b index len
    using open_resident_table [OF prod.collapse [symmetric], of e sv wid]
    by (auto simp: cursor_def split: prod.splits sum.splits option.splits if_splits dest!: s_cursor.run_seated)
  have rest: "mark_read e sv ss wid = (r, sv') \<Longrightarrow> table sv' = table sv" "change_flags e sv ss wid flags = (r, sv') \<Longrightarrow> table sv' = table sv"
    "request_playback e sv ss wid = (r, sv') \<Longrightarrow> table sv' = table sv" "search e sv ss query = (r, sv') \<Longrightarrow> table sv' = table sv"
    for wid flags query
    by (auto simp: mark_read_def change_flags_def request_playback_def search_def stored_def bind_result_def split: sum.splits if_splits)
  show ?thesis
    using assms
    by (cases c) (auto simp: dispatch_def case_prod_beta' dest!: keep rest
        intro: open_wave_seated leave_wave_seated create_wave_seated handlers_seated guarded_seated mode cur)
qed

lemma handle_command_seated:
  assumes "handle_command e t sv ss c = (sv', ss')"
  shows "table sv' = table sv"
proof -
  obtain allowed sv1 where rate: "check_command_rate sv t (ss_uid ss) c = (allowed, sv1)" by fastforce
  then have "table sv1 = table sv" by (auto simp: check_command_rate_def case_prod_beta' Let_def)
  moreover obtain r sv2 ss2 where d: "dispatch e sv1 ss c = (r, sv2, ss2)" by (cases "dispatch e sv1 ss c") auto
  ultimately show ?thesis using assms rate dispatch_seated [OF d] by (auto simp: handle_command_def split: if_splits sum.splits)
qed

section \<open>The table is consistent\<close>

text \<open>
  Every registered connection is listed for its account, the listed ones are at most as many as
  the cap allows, and the next id is new. Ids come from a counter of 64 bits, so the run has
  fewer than \<open>2 ^ 64\<close> connections.
\<close>

definition seats_ok :: "server \<Rightarrow> bool" where
  "seats_ok sv \<longleftrightarrow> (\<forall>i h. map_of (sv_conns sv) i = Some h \<longrightarrow> i \<in> set (conns_of sv (cn_user h)) \<and> i < sv_next_conn_id sv)
     \<and> (\<forall>u. length (conns_of sv u) \<le> MAX_CONNECTIONS_PER_USER \<and> distinct (conns_of sv u))"

lemma seats_ok_table: "table sv' = table sv \<Longrightarrow> seats_ok sv \<Longrightarrow> seats_ok sv'"
  by (simp add: seats_ok_def table_def conns_of_def)

text \<open>
  The steps of a server that keep or change its table. A panic may leave anything but the table,
  which no handler touches, and the queues belong to their writers.
\<close>

inductive table_run :: "server \<Rightarrow> bool" where
  started: "table_run (app_new t st heap ch)"
| joined: "table_run sv \<Longrightarrow> sv_next_conn_id sv < 2 ^ 64 - 1 \<Longrightarrow> open_connection sv who chan = (r, sv') \<Longrightarrow> table_run sv'"
| parted: "table_run sv \<Longrightarrow> table_run (close_connection e sv ss)"
| spoke: "table_run sv \<Longrightarrow> handle_command e t sv ss c = (sv', ss') \<Longrightarrow> table_run sv'"
| web: "table_run sv \<Longrightarrow> web_step sv sv' \<Longrightarrow> table_run sv'"
| agent: "table_run sv \<Longrightarrow> agent_reply e w encode sv who rp = Some (r, sv') \<Longrightarrow> table_run sv'"
| panic: "table_run sv \<Longrightarrow> table sv' = table sv \<Longrightarrow> table_run (contain_panic sv' ss)"
| reply_panic: "table_run sv \<Longrightarrow> table sv' = table sv \<Longrightarrow> table_run (evict_after_panic sv' wid)"
| timer: "table_run sv \<Longrightarrow> table_run (inbox_timer e sv wid)"
| drain: "table_run sv \<Longrightarrow> table_run (sv\<lparr>sv_chans := ch\<rparr>)"
| shutdown: "table_run sv \<Longrightarrow> table_run (begin_shutdown sv)"

lemma conns_of_update: "conns_of (sv\<lparr>sv_user_conns := AList.update u cs (sv_user_conns sv)\<rparr>) v = (if v = u then cs else conns_of sv v)"
  by (simp add: conns_of_def update_conv')

lemma register_conn_seats:
  assumes "register_conn sv u chan MAX_CONNECTIONS_PER_USER h = (r, sv')" "seats_ok sv" "sv_next_conn_id sv < 2 ^ 64 - 1"
  shows "seats_ok sv'"
proof (cases "length (conns_of sv u) \<ge> MAX_CONNECTIONS_PER_USER")
  case True
  with assms(1) have "sv' = sv\<lparr>sv_user_conns := AList.update u (conns_of sv u) (sv_user_conns sv)\<rparr>"
    by (simp add: register_conn_def Let_def)
  with assms(2) show ?thesis by (auto simp: seats_ok_def conns_of_update)
next
  case False
  let ?i = "sv_next_conn_id sv"
  have i: "wrapping_add ?i 1 = Suc ?i" using assms(3) by (simp add: wrapping_add_def)
  have conns: "map_of (sv_conns sv') = (map_of (sv_conns sv))(?i \<mapsto> \<lparr>cn_user = u, cn_chan = chan, cn_token_hash = h\<rparr>)"
    and users: "conns_of sv' v = (if v = u then List.insert ?i (conns_of sv u) else conns_of sv v)"
    and new: "sv_next_conn_id sv' = Suc ?i" for v
    using assms(1) False i by (auto simp: register_conn_def Let_def update_conv' conns_of_def)
  show ?thesis
    using assms(2) False by (fastforce simp: seats_ok_def conns users new less_Suc_eq List.insert_def split: if_splits)
qed

lemma unregister_conn_seats: "seats_ok sv \<Longrightarrow> seats_ok (unregister_conn sv i)"
proof (cases "map_of (sv_conns sv) i")
  case (Some h)
  assume ok: "seats_ok sv"
  have conns: "map_of (sv_conns (unregister_conn sv i)) = (map_of (sv_conns sv))(i := None)"
    and users: "conns_of (unregister_conn sv i) v
      = (if v = cn_user h then filter (\<lambda>c. c \<noteq> i) (conns_of sv v) else conns_of sv v)"
    and new: "sv_next_conn_id (unregister_conn sv i) = sv_next_conn_id sv" for v
    by (auto simp: unregister_conn_def Some Let_def update_conv' delete_conv' conns_of_def)
  show ?thesis
    using ok by (fastforce simp: seats_ok_def conns users new intro: le_trans [OF length_filter_le] split: if_splits)
qed (simp add: unregister_conn_def)

lemma close_connection_seats:
  assumes "seats_ok sv"
  shows "seats_ok (close_connection e sv ss)"
proof -
  have "table (fst (foldl (\<lambda>(sv, ss) w. leave_wave e sv ss w) (sv, ss) ws)) = table sv" for ws
  proof (induction ws arbitrary: sv ss)
    case (Cons w ws)
    obtain sv1 ss1 where l: "leave_wave e sv ss w = (sv1, ss1)" by fastforce
    with Cons [of sv1 ss1] leave_wave_seated [OF l] show ?case by simp
  qed simp
  from seats_ok_table [OF this assms] show ?thesis unfolding close_connection_def by (rule unregister_conn_seats)
qed

lemma open_connection_seats:
  assumes "open_connection sv who chan = (r, sv')" "seats_ok sv" "sv_next_conn_id sv < 2 ^ 64 - 1"
  shows "seats_ok sv'"
proof -
  let ?sv = "sv\<lparr>sv_chans := (sv_chans sv)(chan := empty_channel)\<rparr>"
  obtain i where "register_conn ?sv (user_id (identity_user who)) chan MAX_CONNECTIONS_PER_USER (identity_token_hash who) = (i, sv')"
    using assms(1) by (auto simp: open_connection_def Let_def split: prod.splits option.splits)
  moreover have "seats_ok ?sv" by (rule seats_ok_table [OF _ assms(2)]) simp
  ultimately show ?thesis by (rule register_conn_seats) (use assms(3) in simp)
qed

lemma evict_after_panic_table [simp]: "table (evict_after_panic sv wid) = table sv"
  by (simp add: evict_after_panic_def Let_def case_prod_beta' split: option.split)

lemma foldl_table: "(\<And>sv x. table (f sv x) = table sv) \<Longrightarrow> table (foldl f sv xs) = table sv"
  by (induction xs arbitrary: sv) simp_all

lemma open_current_table: "open_current e sv wid = Some (r, sv') \<Longrightarrow> table sv' = table sv"
proof -
  assume ret: "open_current e sv wid = Some (r, sv')"
  have "table (snd (r, sv')) = table sv"
  proof (rule open_current.raw_induct [where P = "\<lambda>e sv wid x. table (snd x) = table sv", OF _ ret])
    fix f e sv wid x
    assume IH: "\<And>e sv wid x. f e sv wid = Some x \<Longrightarrow> table (snd x) = table sv"
      and eq: "(case open_resident e sv wid of
        (Ok (Some a), sv) \<Rightarrow> if lw_evicted (sv_heap sv a) then f e sv wid else Some (Ok a, sv)
      | (Ok None, sv) \<Rightarrow> Some (Err no_wavelet, sv)
      | (Err _, sv) \<Rightarrow> Some (Err (Refused server_error), sv)) = Some x"
    obtain r1 sv1 where o1: "open_resident e sv wid = (r1, sv1)" by (cases "open_resident e sv wid")
    from eq [unfolded o1] have "x = (snd (fst x, fst x), sv1) \<or> f e sv1 wid = Some x"
      by (auto split: sum.splits option.splits if_splits)
    with IH open_resident_table [OF o1] show "table (snd x) = table sv" by (metis snd_conv)
  qed
  then show ?thesis by simp
qed

lemma create_reply_table:
  assumes "create_reply e w encode sv who rp = Some (r, sv')"
  shows "table sv' = table sv"
proof -
  obtain found sv1 where o: "open_current e sv (ag_wave_id (ai_token who)) = Some (found, sv1)"
    and res: "(case found of Err r \<Rightarrow> (r, sv1)
      | Ok a \<Rightarrow> let (r, sv, live) = create_reply_locked e w encode who rp (ag_wave_id (ai_token who)) sv1 (sv_heap sv1 a)
                in (r, sv\<lparr>sv_heap := (sv_heap sv)(a := live)\<rparr>)) = (r, sv')"
    using assms by (auto simp: create_reply_def Let_def)
  have "table (fst (snd (create_reply_locked e w encode who rp wid sv1 live))) = table sv1" for wid live
    by (auto simp: create_reply_locked_def Let_def case_prod_beta' split: sum.split option.split bool.split)
  with res open_current_table [OF o] show ?thesis
    by (auto simp: Let_def case_prod_beta' split: sum.splits)
qed

lemma agent_reply_table:
  assumes "agent_reply e w encode sv who rp = Some (r, sv')"
  shows "table sv' = table sv"
proof -
  have "table (snd (check_command_rate sv t u c)) = table sv" for t u c
    by (simp add: check_command_rate_def case_prod_beta' Let_def)
  then show ?thesis using assms
    by (auto simp: agent_reply_def Let_def case_prod_beta' dest: create_reply_table split: if_splits)
qed

lemma inbox_timer_table: "table (inbox_timer e sv wid) = table sv"
proof -
  have "table (push_inbox_update e sv wid) = table sv" for sv
    unfolding push_inbox_update_def by (auto intro!: foldl_table split: option.split)
  then show ?thesis by (simp add: inbox_timer_def)
qed

lemma table_run_seats: "table_run sv \<Longrightarrow> seats_ok sv"
proof (induction rule: table_run.induct)
  case (started t st heap ch)
  show ?case by (simp add: seats_ok_def app_new_def conns_of_def)
next
  case (web sv sv')
  then have "table sv' = table sv" by (auto simp: table_def outside_def dest: web_step_outside)
  from seats_ok_table [OF this web.IH] show ?case .
next
  case (panic sv sv' ss)
  have "table (contain_panic sv' ss) = table sv'" unfolding contain_panic_def table_simps by (rule foldl_table) simp
  with panic have "table (contain_panic sv' ss) = table sv" by simp
  from seats_ok_table [OF this panic.IH] show ?case .
next
  case (reply_panic sv sv' wid)
  then show ?case by (intro seats_ok_table [OF _ reply_panic.IH]) simp
next
  case (shutdown sv)
  then show ?case by (simp add: begin_shutdown_def seats_ok_def conns_of_def)
qed (fact open_connection_seats close_connection_seats seats_ok_table [OF inbox_timer_table] seats_ok_table [OF table_simps(2)]
    seats_ok_table [OF handle_command_seated] seats_ok_table [OF agent_reply_table]
  | blast intro: open_connection_seats close_connection_seats seats_ok_table [OF inbox_timer_table] seats_ok_table [OF table_simps(2)]
    seats_ok_table [OF handle_command_seated] seats_ok_table [OF agent_reply_table])+

section \<open>The cap\<close>

text \<open>
  (C21) Whatever connections, commands, requests, replies of agents and panics a server has been
  through, no account holds more than 24 connections at once, every connection is in the list of
  its account, where the messages and the revocations of the account look for it, and an id that is given out is
  new.
\<close>

theorem connections_capped:
  assumes "table_run sv"
  shows "card {i. \<exists>h. map_of (sv_conns sv) i = Some h \<and> cn_user h = u} \<le> 24
    \<and> (\<forall>i h. map_of (sv_conns sv) i = Some h \<longrightarrow> i \<in> set (conns_of sv (cn_user h)))
    \<and> map_of (sv_conns sv) (sv_next_conn_id sv) = None"
proof -
  note ok = table_run_seats [OF assms, unfolded seats_ok_def]
  have "{i. \<exists>h. map_of (sv_conns sv) i = Some h \<and> cn_user h = u} \<subseteq> set (conns_of sv u)" using ok by blast
  then have "card {i. \<exists>h. map_of (sv_conns sv) i = Some h \<and> cn_user h = u} \<le> length (conns_of sv u)"
    using le_trans [OF card_mono [OF finite_set] card_length] by blast
  also have "\<dots> \<le> 24" using ok by (simp add: MAX_CONNECTIONS_PER_USER_def)
  finally have "card {i. \<exists>h. map_of (sv_conns sv) i = Some h \<and> cn_user h = u} \<le> 24" .
  moreover have "map_of (sv_conns sv) (sv_next_conn_id sv) = None" using ok by (metis less_irrefl not_Some_eq)
  ultimately show ?thesis using ok by blast
qed

section \<open>Revocation\<close>

text \<open>The requests that end the session \<open>th\<close> of the account \<open>u\<close>, answered with success.\<close>

inductive revokes :: "server \<Rightarrow> user_id \<Rightarrow> ustring \<Rightarrow> server \<Rightarrow> bool" where
  by_logout: "logout w sv who = (r, sv') \<Longrightarrow> rs_status r = 200 \<Longrightarrow>
    revokes sv (user_id (identity_user who)) (identity_token_hash who) sv'"
| by_sign_out: "sign_out_everywhere w sv who = (r, sv') \<Longrightarrow> rs_status r = 200 \<Longrightarrow> th \<noteq> identity_token_hash who \<Longrightarrow>
    revokes sv (user_id (identity_user who)) th sv'"
| by_password: "change_password e w sv rq who old new = (r, sv') \<Longrightarrow> rs_status r = 200 \<Longrightarrow> th \<noteq> identity_token_hash who \<Longrightarrow>
    revokes sv (user_id (identity_user who)) th sv'"

lemma revokes_parts:
  assumes "revokes sv u th sv'"
  obtains sv1 P where "sv' = kill_conns sv1 u P" "sv_conns sv1 = sv_conns sv" "sv_user_conns sv1 = sv_user_conns sv"
    "\<And>h. cn_token_hash h = th \<Longrightarrow> P h" "\<And>s. s \<in> set (st_sessions (sv_store sv')) \<Longrightarrow> se_user_id s = u \<Longrightarrow> se_token_hash s \<noteq> th"
  using assms
proof cases
  case (by_logout w who r)
  then have sv': "sv' = kill_conns (sv\<lparr>sv_store := db_delete_session (sv_store sv) th\<rparr>) u (\<lambda>h. cn_token_hash h = th)"
    by (auto simp: logout_def disconnect_session_def server_error_def plain_response_def split: if_splits)
  show ?thesis by (rule that [OF sv']) (auto simp: sv' db_delete_session_def)
next
  case (by_sign_out w who r)
  let ?st = "snd (db_revoke_other_sessions (sv_store sv) u (identity_token_hash who))"
  have sv': "sv' = kill_conns (sv\<lparr>sv_store := ?st\<rparr>) u (\<lambda>h. cn_token_hash h \<noteq> identity_token_hash who)"
    using by_sign_out by (auto simp: sign_out_everywhere_def disconnect_other_sessions_def server_error_def plain_response_def
        case_prod_beta' Let_def split: if_splits)
  show ?thesis
    by (rule that [OF sv']) (use by_sign_out in \<open>auto simp: sv' db_revoke_other_sessions_def other_session_def delete_agent_tokens_def\<close>)
next
  case (by_password e w rq who old new r)
  from by_password(2) [unfolded change_password_def] show ?thesis
  proof (cases rule: auth_limited_cases)
    case refused
    with by_password show ?thesis by simp
  next
    case (allowed sv1)
    obtain hash where
      sv': "sv' = disconnect_other_sessions (sv1\<lparr>sv_store := db_change_password (sv_store sv1) u hash (identity_token_hash who)\<rparr>) u (identity_token_hash who)"
      using allowed(1) by_password(1,3)
      by (auto simp: response_defs Let_def split: sum.splits if_splits option.splits)
    show ?thesis
      by (rule that [OF sv' [unfolded disconnect_other_sessions_def]])
         (use by_password allowed in \<open>auto simp: sv' disconnect_other_sessions_def db_change_password_def other_session_def delete_agent_tokens_def\<close>)
  qed
qed

text \<open>
  (C19) Ending a session ends its connections. When signing out, signing out everywhere else or a
  change of password has succeeded, every connection that the account has open under a session
  that it ended stops at its next turn, and whatever frame it has received by then has no
  effect on storage or memory. A connection under that session that has not yet entered its
  loop, even one registered after the request, never does.
\<close>

theorem revoked_connections_stop:
  assumes "table_run sv" "revokes sv u th sv'"
  shows "(\<forall>i h sk e t f crash. map_of (sv_conns sv) i = Some h \<and> cn_user h = u \<and> cn_token_hash h = th \<and> ss_chan (sk_session sk) = cn_chan h
        \<longrightarrow> \<not> fst (read_step e t f crash sv' sk) \<and> aside sv' (snd (snd (read_step e t f crash sv' sk))))
    \<and> (\<forall>ss e clock ok. ss_token_hash ss = th \<and> (\<forall>s \<in> set (st_sessions (sv_store sv')). se_token_hash s = th \<longrightarrow> se_user_id s = u)
        \<longrightarrow> fst (greet e clock ok sv' ss) = None)"
proof -
  from assms(2) obtain sv1 P where sv': "sv' = kill_conns sv1 u P"
    and tab: "sv_conns sv1 = sv_conns sv" "sv_user_conns sv1 = sv_user_conns sv"
    and P: "\<And>h. cn_token_hash h = th \<Longrightarrow> P h"
    and gone: "\<And>s. s \<in> set (st_sessions (sv_store sv')) \<Longrightarrow> se_user_id s = u \<Longrightarrow> se_token_hash s \<noteq> th"
    by (rule revokes_parts) blast
  have "killed sv' (sk_session sk)" if h: "map_of (sv_conns sv) i = Some h" "cn_user h = u" "cn_token_hash h = th"
    and c: "ss_chan (sk_session sk) = cn_chan h" for i h sk
  proof -
    have "i \<in> set (conns_of sv1 u)" using table_run_seats [OF assms(1)] h by (auto simp: seats_ok_def conns_of_def tab)
    moreover have "map_of (sv_conns sv1) i = Some h" using h(1) tab by simp
    ultimately show ?thesis using kill_conns_kills [where P = P] P [OF h(3)] by (simp add: killed_def c sv')
  qed
  moreover have "fst (greet e clock ok sv' ss) = None"
    if "ss_token_hash ss = th" "\<forall>s \<in> set (st_sessions (sv_store sv')). se_token_hash s = th \<longrightarrow> se_user_id s = u" for ss e clock ok
  proof -
    have "live_session ts (sv_store sv') th = None" for ts
      using that(2) gone by (auto simp: live_session_def find_None_iff)
    then show ?thesis using that(1) by (simp add: greet_def db_session_expiry_def)
  qed
  moreover have "\<not> fst (read_step e t f crash sv' sk) \<and> aside sv' (snd (snd (read_step e t f crash sv' sk)))"
    if "killed sv' (sk_session sk)" for e t f crash sk
    using that by (simp add: read_step_def take_permit_def aside_def)
  ultimately show ?thesis by blast
qed

section \<open>A sample\<close>

text \<open>One connection of the account, under the session of its phone.\<close>

definition phone_identity :: identity where
  "phone_identity = \<lparr>identity_user = sample_account, identity_token_hash = lit ''phone''\<rparr>"

definition phone_server :: server where
  "phone_server = snd (open_connection sample_deployment phone_identity 7)"

lemma phone_run: "table_run phone_server"
proof -
  have "sv_next_conn_id sample_deployment < 2 ^ 64 - 1" by (simp add: sample_deployment_def app_new_def)
  moreover have "table_run sample_deployment" unfolding sample_deployment_def by (rule table_run.started)
  ultimately show ?thesis unfolding phone_server_def by (rule table_run.joined [OF _ _ prod.collapse [symmetric], rotated])
qed

lemma phone_seated:
  "map_of (sv_conns phone_server) 1 = Some \<lparr>cn_user = UserId [117], cn_chan = 7, cn_token_hash = lit ''phone''\<rparr>"
  by code_simp

theorem connections_capped_witness:
  "map_of (sv_conns phone_server) 1 \<noteq> None
   \<and> card {i. \<exists>h. map_of (sv_conns phone_server) i = Some h \<and> cn_user h = UserId [117]} \<le> 24"
  using connections_capped [OF phone_run, of "UserId [117]"] phone_seated by simp

theorem revoked_connections_stop_witness:
  "revokes phone_server (UserId [117]) (lit ''phone'') (snd (logout sample_web phone_server phone_identity))
   \<and> \<not> fst (read_step web_env (4 / 100) (Some (TextFrame (Ok Ping))) None
        (snd (logout sample_web phone_server phone_identity)) phone_socket)"
proof -
  have "rs_status (fst (logout sample_web phone_server phone_identity)) = 200" by (simp add: logout_def sample_web_def)
  then have r: "revokes phone_server (UserId [117]) (lit ''phone'') (snd (logout sample_web phone_server phone_identity))"
    using revokes.by_logout [OF prod.collapse [symmetric], of sample_web phone_server phone_identity]
    by (simp add: phone_identity_def sample_account_def)
  have "ss_chan (sk_session phone_socket) = 7" by (simp add: phone_socket_def phone_session_def)
  with revoked_connections_stop [OF phone_run r] phone_seated r show ?thesis by (metis conn_handle.select_convs)
qed

end
