(* ===== verification/Gal_Metrics.thy ===== *)
theory Gal_Metrics
  imports Gal_Oidc
begin

text \<open>
  The counters of \<open>crates/gal-server/src/metrics.rs\<close> and their text form, with the two places of
  the server that live on them: the wait for open connections at shutdown (\<open>drain_connections\<close> in
  \<open>state.rs\<close>) and the observer of every request (\<open>observe\<close> in \<open>http.rs\<close>). A map of counters is a list of
  entries; its order, which the concurrent map of the program does not fix, is any order.
\<close>

section \<open>Counters\<close>

record metrics =
  mt_http_requests :: "(nat \<times> nat) list"
  mt_ws_commands :: "(ustring \<times> nat) list"
  mt_ws_connections_opened :: nat
  mt_ws_slow_client_disconnects :: nat
  mt_ws_command_panics :: nat
  mt_agent_reply_panics :: nat
  mt_ws_frames_unparseable :: nat
  mt_ops_applied :: nat
  mt_ops_refused :: nat
  mt_ops_persist_failures :: nat
  mt_waves_loaded :: nat
  mt_waves_evicted_after_panic :: nat
  mt_rate_limited :: "(ustring \<times> nat) list"
  mt_ws_connections_active :: int
  mt_waves_resident :: int

definition metrics_default :: metrics where
  "metrics_default = \<lparr>mt_http_requests = [], mt_ws_commands = [], mt_ws_connections_opened = 0, mt_ws_slow_client_disconnects = 0,
     mt_ws_command_panics = 0, mt_agent_reply_panics = 0, mt_ws_frames_unparseable = 0, mt_ops_applied = 0, mt_ops_refused = 0,
     mt_ops_persist_failures = 0, mt_waves_loaded = 0, mt_waves_evicted_after_panic = 0, mt_rate_limited = [],
     mt_ws_connections_active = 0, mt_waves_resident = 0\<rparr>"

definition bump :: "nat \<Rightarrow> nat" where
  "bump n = wrapping_add n 1"

definition bump_entry :: "'k \<Rightarrow> ('k \<times> nat) list \<Rightarrow> ('k \<times> nat) list" where
  "bump_entry k m = AList.update k (bump (case map_of m k of Some n \<Rightarrow> n | None \<Rightarrow> 0)) m"

definition metrics_command :: "ustring \<Rightarrow> metrics \<Rightarrow> metrics" where
  "metrics_command name m = m\<lparr>mt_ws_commands := bump_entry name (mt_ws_commands m)\<rparr>"

definition http_response :: "nat \<Rightarrow> metrics \<Rightarrow> metrics" where
  "http_response status m = m\<lparr>mt_http_requests := bump_entry status (mt_http_requests m)\<rparr>"

definition metrics_rate_limit :: "ustring \<Rightarrow> metrics \<Rightarrow> metrics" where
  "metrics_rate_limit limiter m = m\<lparr>mt_rate_limited := bump_entry limiter (mt_rate_limited m)\<rparr>"

definition connection_opened :: "metrics \<Rightarrow> metrics" where
  "connection_opened m =
     m\<lparr>mt_ws_connections_opened := bump (mt_ws_connections_opened m),
       mt_ws_connections_active := wrap_i64 (mt_ws_connections_active m + 1)\<rparr>"

definition connection_closed :: "metrics \<Rightarrow> metrics" where
  "connection_closed m = m\<lparr>mt_ws_connections_active := wrap_i64 (mt_ws_connections_active m - 1)\<rparr>"

definition wave_loaded :: "metrics \<Rightarrow> metrics" where
  "wave_loaded m =
     m\<lparr>mt_waves_loaded := bump (mt_waves_loaded m), mt_waves_resident := wrap_i64 (mt_waves_resident m + 1)\<rparr>"

definition wave_evicted :: "metrics \<Rightarrow> metrics" where
  "wave_evicted m = m\<lparr>mt_waves_resident := wrap_i64 (mt_waves_resident m - 1)\<rparr>"

section \<open>The text form\<close>

definition help_line :: "ustring \<Rightarrow> ustring \<Rightarrow> ustring" where
  "help_line name help = lit ''# HELP '' @ name @ lit '' '' @ help @ [10]"

definition render_counter :: "ustring \<Rightarrow> ustring \<Rightarrow> nat \<Rightarrow> ustring" where
  "render_counter name help v =
     help_line name help @ lit ''# TYPE '' @ name @ lit '' counter'' @ [10] @ name @ lit '' '' @ show_digits v @ [10]"

definition render_gauge :: "ustring \<Rightarrow> ustring \<Rightarrow> int \<Rightarrow> ustring" where
  "render_gauge name help v =
     help_line name help @ lit ''# TYPE '' @ name @ lit '' gauge'' @ [10] @ name @ lit '' '' @ show_int v @ [10]"

definition labelled :: "ustring \<Rightarrow> ustring \<Rightarrow> ustring \<Rightarrow> ustring" where
  "labelled name label v = name @ lit ''{'' @ label @ lit ''='' @ [34] @ v @ [34] @ lit ''}''"

definition render_family :: "ustring \<Rightarrow> ustring \<Rightarrow> ustring \<Rightarrow> (ustring \<times> nat) list \<Rightarrow> ustring" where
  "render_family name help label rows =
     help_line name help @ lit ''# TYPE '' @ name @ lit '' counter'' @ [10]
     @ concat (map (\<lambda>(k, n). labelled name label k @ lit '' '' @ show_digits n @ [10]) rows)"

definition render :: "metrics \<Rightarrow> ustring" where
  "render m =
     render_family (lit ''gal_http_responses_total'') (lit ''HTTP responses by status code.'') (lit ''status'')
       (map (\<lambda>(s, n). (show_digits s, n)) (mt_http_requests m))
     @ render_family (lit ''gal_ws_commands_total'') (lit ''WebSocket commands handled, by command.'') (lit ''command'') (mt_ws_commands m)
     @ render_family (lit ''gal_rate_limited_total'') (lit ''Requests refused by a rate limiter.'') (lit ''limiter'') (mt_rate_limited m)
     @ render_counter (lit ''gal_ws_connections_opened_total'') (lit ''WebSocket connections accepted.'') (mt_ws_connections_opened m)
     @ render_counter (lit ''gal_ws_slow_client_disconnects_total'')
         (lit ''Clients disconnected for overflowing their outbound queue. Each one missed messages and had to resynchronise.'')
         (mt_ws_slow_client_disconnects m)
     @ render_counter (lit ''gal_ws_command_panics_total'') (lit ''Commands that panicked. Always a bug.'') (mt_ws_command_panics m)
     @ render_counter (lit ''gal_agent_reply_panics_total'') (lit ''Agent reply tasks that panicked. Always a bug.'') (mt_agent_reply_panics m)
     @ render_counter (lit ''gal_ws_unparseable_frames_total'') (lit ''Frames that were not a message this server defines.'')
         (mt_ws_frames_unparseable m)
     @ render_counter (lit ''gal_ops_applied_total'') (lit ''Edits applied to a document and persisted.'') (mt_ops_applied m)
     @ render_counter (lit ''gal_ops_refused_total'')
         (lit ''Edits the server declined: mode, document limits, or a revision it could no longer transform from.'') (mt_ops_refused m)
     @ render_counter (lit ''gal_ops_persist_failures_total'')
         (lit ''Edits applied in memory that would not persist and were rolled back.'') (mt_ops_persist_failures m)
     @ render_counter (lit ''gal_waves_loaded_total'') (lit ''Waves read from storage into memory.'') (mt_waves_loaded m)
     @ render_counter (lit ''gal_waves_evicted_after_panic_total'')
         (lit ''Waves thrown out of memory because a command panicked while holding them.'') (mt_waves_evicted_after_panic m)
     @ render_gauge (lit ''gal_ws_connections_active'') (lit ''WebSocket connections open right now.'') (mt_ws_connections_active m)
     @ render_gauge (lit ''gal_waves_resident'') (lit ''Waves held in memory right now.'') (mt_waves_resident m)"

section \<open>Waiting for connections\<close>

text \<open>
  The loop of \<open>drain_connections\<close>: \<open>gauge k\<close> and \<open>clock k\<close> are what the gauge of open connections and
  the clock read in turn \<open>k\<close>.
\<close>

partial_function (option) drain_loop :: "(nat \<Rightarrow> int) \<Rightarrow> (nat \<Rightarrow> rat) \<Rightarrow> rat \<Rightarrow> nat \<Rightarrow> nat option" where
  "drain_loop gauge clock deadline k =
     (let open = nat (max 0 (gauge k))
      in if open = 0 \<or> deadline \<le> clock k then Some open else drain_loop gauge clock deadline (Suc k))"

declare drain_loop.simps [code]

definition drain_connections :: "(nat \<Rightarrow> int) \<Rightarrow> (nat \<Rightarrow> rat) \<Rightarrow> rat \<Rightarrow> rat \<Rightarrow> nat option" where
  "drain_connections gauge clock start grace = drain_loop gauge clock (start + grace) 0"

section \<open>Observing requests\<close>

text \<open>The id of a request: the one a proxy gave it, if that is usable, or a new one.\<close>

definition observed_id :: "ustring option \<Rightarrow> ustring \<Rightarrow> ustring" where
  "observed_id given fresh =
     (case given of
        Some v \<Rightarrow> if v \<noteq> [] \<and> str_len v \<le> 200 \<and> list_all (\<lambda>c. c < 128) v then v else fresh
      | None \<Rightarrow> fresh)"

definition observe :: "web \<Rightarrow> ustring option \<Rightarrow> ustring \<Rightarrow> response \<Rightarrow> metrics \<Rightarrow> response \<times> metrics" where
  "observe w given fresh r m =
     (let i = observed_id given fresh
      in (if wb_header_value w i then r\<lparr>rs_headers := AList.update (lit ''x-request-id'') i (rs_headers r)\<rparr> else r,
          http_response (rs_status r) m))"

section \<open>Reading the text form\<close>

text \<open>
  A reader of the format: lines that start with \<open>#\<close> are comments, and every other line is a series,
  a space and a value.
\<close>

definition read_sample :: "ustring \<Rightarrow> (ustring \<times> int) list" where
  "read_sample l =
     (case rsplit_once 32 l of
        Some (name, v) \<Rightarrow> (case parse_signed v of Some n \<Rightarrow> [(name, n)] | None \<Rightarrow> [])
      | None \<Rightarrow> [])"

definition scrape :: "ustring \<Rightarrow> (ustring \<times> int) list" where
  "scrape s = concat (map read_sample (filter (\<lambda>l. \<not> starts_with l (lit ''#'')) (lines s)))"

definition declared :: "ustring \<Rightarrow> ustring list" where
  "declared s = concat (map (\<lambda>l. case strip_prefix l (lit ''# HELP '') of Some r \<Rightarrow> [takeWhile (\<lambda>c. c \<noteq> 32) r] | None \<Rightarrow> []) (lines s))"

definition unlines :: "ustring list \<Rightarrow> ustring" where
  "unlines ls = concat (map (\<lambda>l. l @ [10]) ls)"

definition line_ok :: "ustring \<Rightarrow> bool" where
  "line_ok l = list_all (\<lambda>c. 32 \<le> c) l"

lemma unlines_append [simp]: "unlines (a @ b) = unlines a @ unlines b" "unlines [] = []" "unlines (l # ls) = l @ 10 # unlines ls"
  by (simp_all add: unlines_def)

lemma split_char_line: "10 \<notin> set l \<Longrightarrow> split_char 10 (l @ 10 # s) = l # split_char 10 s"
  by (induction l) auto

lemma lines_unlines: "list_all line_ok ls \<Longrightarrow> lines (unlines ls) = ls"
proof -
  assume ok: "list_all line_ok ls"
  then have "split_char 10 (unlines ls) = ls @ [[]]"
  proof (induction ls)
    case (Cons l ls)
    then have "10 \<notin> set l" by (auto simp: line_ok_def list_all_iff)
    with Cons show ?case by (simp add: split_char_line)
  qed simp
  moreover have "map strip_cr ls = ls"
  proof (rule map_idI)
    fix l assume "l \<in> set ls"
    with ok have "line_ok l" by (simp add: list_all_iff)
    then show "strip_cr l = l" by (cases l rule: rev_cases) (auto simp: line_ok_def strip_cr_def)
  qed
  ultimately show ?thesis by (simp add: lines_def)
qed

lemma rsplit_once_append: "32 \<notin> set v \<Longrightarrow> rsplit_once 32 (n @ 32 # v) = Some (n, v)"
proof -
  assume v: "32 \<notin> set v"
  then have "rsplit_once 32 v = None" by (induction v) auto
  then show ?thesis by (induction n) auto
qed

lemma line_ok_simps [simp]:
  "line_ok (a @ b) = (line_ok a \<and> line_ok b)" "line_ok []" "line_ok (c # l) = (32 \<le> c \<and> line_ok l)"
  by (simp_all add: line_ok_def)

lemma line_ok_numbers [simp]: "line_ok (show_digits n)" "line_ok (show_int i)"
  using show_digits_chars [of _ n] show_int_chars [of _ i]
  by (auto simp: line_ok_def list_all_iff is_ascii_digit_def) (metis le_trans numeral_le_iff semiring_norm, force)

lemma read_number:
  "read_sample (n @ 32 # show_int v) = [(n, v)]" "read_sample (n @ 32 # show_digits k) = [(n, int k)]"
proof -
  have "32 \<notin> set (show_int i)" for i using show_int_chars [of 32 i] by (auto simp: is_ascii_digit_def)
  then show i: "read_sample (n @ 32 # show_int i) = [(n, i)]" for i
    by (simp add: read_sample_def rsplit_once_append parse_show_int)
  from this [of "int k"] show "read_sample (n @ 32 # show_digits k) = [(n, int k)]" by (simp add: show_int_def)
qed

section \<open>Families\<close>

definition metric_name :: "ustring \<Rightarrow> bool" where
  "metric_name name = (name \<noteq> [] \<and> hd name \<noteq> 35 \<and> list_all (\<lambda>c. 32 < c) name)"

definition head_lines :: "ustring \<Rightarrow> ustring \<Rightarrow> ustring \<Rightarrow> ustring list" where
  "head_lines name help ty = [lit ''# HELP '' @ name @ 32 # help, lit ''# TYPE '' @ name @ 32 # ty]"

definition scrape_lines :: "ustring list \<Rightarrow> (ustring \<times> int) list" where
  "scrape_lines ls = concat (map read_sample (filter (\<lambda>l. \<not> starts_with l (lit ''#'')) ls))"

definition declared_lines :: "ustring list \<Rightarrow> ustring list" where
  "declared_lines ls = concat (map (\<lambda>l. case strip_prefix l (lit ''# HELP '') of Some r \<Rightarrow> [takeWhile (\<lambda>c. c \<noteq> 32) r] | None \<Rightarrow> []) ls)"

lemma by_lines_append [simp]:
  "scrape_lines (a @ b) = scrape_lines a @ scrape_lines b" "declared_lines (a @ b) = declared_lines a @ declared_lines b"
  "scrape_lines [] = []" "declared_lines [] = []"
  by (simp_all add: scrape_lines_def declared_lines_def)

lemma by_lines: "list_all line_ok ls \<Longrightarrow> scrape (unlines ls) = scrape_lines ls \<and> declared (unlines ls) = declared_lines ls"
  by (simp add: scrape_def declared_def scrape_lines_def declared_lines_def lines_unlines)

lemma metric_nameD: "metric_name name \<Longrightarrow> line_ok name"
  by (auto simp: metric_name_def line_ok_def list_all_iff)

lemma head_lines_read:
  assumes "metric_name name" "line_ok help" "line_ok ty"
  shows "list_all line_ok (head_lines name help ty)" "scrape_lines (head_lines name help ty) = []"
    "declared_lines (head_lines name help ty) = [name]"
proof -
  have "takeWhile (\<lambda>c. c \<noteq> 32) (name @ 32 # help) = name"
    using assms(1) by (subst takeWhile_append2) (auto simp: metric_name_def list_all_iff)
  then show "declared_lines (head_lines name help ty) = [name]"
    by (simp add: declared_lines_def head_lines_def strip_prefix_def starts_with_def lit_def)
  show "scrape_lines (head_lines name help ty) = []"
    by (simp add: scrape_lines_def head_lines_def starts_with_def lit_def)
  show "list_all line_ok (head_lines name help ty)"
    using metric_nameD [OF assms(1)] assms(2,3) by (simp add: head_lines_def lit_def)
qed

lemma sample_line_read:
  assumes "metric_name name"
  shows "scrape_lines [name @ rest @ 32 # show_digits n] = [(name @ rest, int n)]" "scrape_lines [name @ 32 # show_int i] = [(name, i)]"
    "declared_lines [name @ l] = []"
proof -
  obtain c r where "name = c # r" "c \<noteq> 35" using assms by (cases name) (auto simp: metric_name_def)
  then show "scrape_lines [name @ rest @ 32 # show_digits n] = [(name @ rest, int n)]" "scrape_lines [name @ 32 # show_int i] = [(name, i)]"
    "declared_lines [name @ l] = []"
    using read_number(1) [of name i] read_number(2) [of "name @ rest" n]
    by (simp_all add: scrape_lines_def declared_lines_def starts_with_def strip_prefix_def lit_def)
qed

text \<open>A text that declares the families \<open>fs\<close> and holds the samples \<open>xs\<close>.\<close>

definition exposes :: "ustring \<Rightarrow> ustring list \<Rightarrow> (ustring \<times> int) list \<Rightarrow> bool" where
  "exposes s fs xs \<longleftrightarrow> (\<exists>ls. s = unlines ls \<and> list_all line_ok ls \<and> scrape_lines ls = xs \<and> declared_lines ls = fs)"

lemma exposesD: "exposes s fs xs \<Longrightarrow> scrape s = xs \<and> declared s = fs"
  using by_lines by (auto simp: exposes_def)

lemma exposes_append: "exposes s fs xs \<Longrightarrow> exposes s' fs' xs' \<Longrightarrow> exposes (s @ s') (fs @ fs') (xs @ xs')"
  unfolding exposes_def by (elim exE conjE, rule_tac x = "ls @ lsa" in exI) simp

lemma render_family_exposes:
  assumes "metric_name name" "line_ok help" "line_ok label" "list_all (\<lambda>(k, n). line_ok k) rows"
  shows "exposes (render_family name help label rows) [name] (map (\<lambda>(k, n). (labelled name label k, int n)) rows)"
  unfolding exposes_def
proof (intro exI conjI)
  let ?line = "\<lambda>(k, n). labelled name label k @ 32 # show_digits n"
  let ?ls = "head_lines name help (lit ''counter'') @ map ?line rows"
  have k: "line_ok (lit ''counter'')" by (simp add: lit_def)
  note h = head_lines_read [OF assms(1,2) k]
  show "render_family name help label rows = unlines ?ls"
    by (simp add: render_family_def help_line_def head_lines_def unlines_def lit_def comp_def case_prod_beta')
  show "list_all line_ok ?ls"
    using h(1) metric_nameD [OF assms(1)] assms(3,4) by (auto simp: list_all_iff labelled_def lit_def)
  have "scrape_lines (map ?line rows) = map (\<lambda>(k, n). (labelled name label k, int n)) rows \<and> declared_lines (map ?line rows) = []"
  proof (induction rows)
    case (Cons x rows)
    obtain k n where x: "x = (k, n)" by fastforce
    obtain rest where "labelled name label k = name @ rest" by (simp add: labelled_def)
    with sample_line_read(1) [OF assms(1), where rest = rest and n = n] sample_line_read(3) [OF assms(1)]
    have "scrape_lines [?line x] = [(labelled name label k, int n)]" "declared_lines [?line x] = []" by (simp_all add: x)
    with Cons by_lines_append(1,2) [of "[?line x]" "map ?line rows"] show ?case by (simp add: x)
  qed simp
  with h show "scrape_lines ?ls = map (\<lambda>(k, n). (labelled name label k, int n)) rows" "declared_lines ?ls = [name]" by simp_all
qed

lemma render_single_exposes:
  assumes "metric_name name" "line_ok help"
  shows "exposes (render_counter name help n) [name] [(name, int n)]" "exposes (render_gauge name help i) [name] [(name, i)]"
proof -
  have k: "line_ok (lit ''counter'')" "line_ok (lit ''gauge'')" by (simp_all add: lit_def)
  note c = head_lines_read [OF assms k(1)] and g = head_lines_read [OF assms k(2)]
  have cl: "scrape_lines (head_lines name help (lit ''counter'') @ [name @ 32 # show_digits n]) = [(name, int n)]"
    "declared_lines (head_lines name help (lit ''counter'') @ [name @ 32 # show_digits n]) = [name]"
    using c sample_line_read(1) [OF assms(1), of "[]"] sample_line_read(3) [OF assms(1)] by simp_all
  have gl: "scrape_lines (head_lines name help (lit ''gauge'') @ [name @ 32 # show_int i]) = [(name, i)]"
    "declared_lines (head_lines name help (lit ''gauge'') @ [name @ 32 # show_int i]) = [name]"
    using g sample_line_read(2) [OF assms(1)] sample_line_read(3) [OF assms(1)] by simp_all
  show "exposes (render_counter name help n) [name] [(name, int n)]"
    unfolding exposes_def using c(1) metric_nameD [OF assms(1)]
    by (intro exI [of _ "head_lines name help (lit ''counter'') @ [name @ 32 # show_digits n]"] conjI cl)
       (simp_all add: render_counter_def help_line_def head_lines_def unlines_def lit_def)
  show "exposes (render_gauge name help i) [name] [(name, i)]"
    unfolding exposes_def using g(1) metric_nameD [OF assms(1)]
    by (intro exI [of _ "head_lines name help (lit ''gauge'') @ [name @ 32 # show_int i]"] conjI gl)
       (simp_all add: render_gauge_def help_line_def head_lines_def unlines_def lit_def)
qed

section \<open>What is counted\<close>

text \<open>The occasions on which the program counts something.\<close>

datatype limiter = AuthLimiter | LookupLimiter | SigninFailures | CommandLimiter

definition limiter_name :: "limiter \<Rightarrow> ustring" where
  "limiter_name l =
     (case l of AuthLimiter \<Rightarrow> lit ''auth'' | LookupLimiter \<Rightarrow> lit ''lookup'' | SigninFailures \<Rightarrow> lit ''signin_failures''
      | CommandLimiter \<Rightarrow> lit ''command'')"

datatype event =
    CommandRead client_message
  | Responded nat
  | RateLimited limiter
  | ConnectionOpened
  | ConnectionClosed
  | WaveLoaded
  | WaveEvicted
  | SlowClient
  | CommandPanicked
  | ReplyPanicked
  | FrameUnparseable
  | OpApplied
  | OpRefused
  | PersistFailed
  | PanicEviction

definition count_event :: "metrics \<Rightarrow> event \<Rightarrow> metrics" where
  "count_event m ev =
     (case ev of
        CommandRead c \<Rightarrow> metrics_command (message_name c) m
      | Responded status \<Rightarrow> http_response status m
      | RateLimited l \<Rightarrow> metrics_rate_limit (limiter_name l) m
      | ConnectionOpened \<Rightarrow> connection_opened m
      | ConnectionClosed \<Rightarrow> connection_closed m
      | WaveLoaded \<Rightarrow> wave_loaded m
      | WaveEvicted \<Rightarrow> wave_evicted m
      | SlowClient \<Rightarrow> m\<lparr>mt_ws_slow_client_disconnects := bump (mt_ws_slow_client_disconnects m)\<rparr>
      | CommandPanicked \<Rightarrow> m\<lparr>mt_ws_command_panics := bump (mt_ws_command_panics m)\<rparr>
      | ReplyPanicked \<Rightarrow> m\<lparr>mt_agent_reply_panics := bump (mt_agent_reply_panics m)\<rparr>
      | FrameUnparseable \<Rightarrow> m\<lparr>mt_ws_frames_unparseable := bump (mt_ws_frames_unparseable m)\<rparr>
      | OpApplied \<Rightarrow> m\<lparr>mt_ops_applied := bump (mt_ops_applied m)\<rparr>
      | OpRefused \<Rightarrow> m\<lparr>mt_ops_refused := bump (mt_ops_refused m)\<rparr>
      | PersistFailed \<Rightarrow> m\<lparr>mt_ops_persist_failures := bump (mt_ops_persist_failures m)\<rparr>
      | PanicEviction \<Rightarrow> (wave_evicted m)\<lparr>mt_waves_evicted_after_panic := bump (mt_waves_evicted_after_panic m)\<rparr>)"

definition counted :: "event list \<Rightarrow> metrics" where
  "counted es = foldl count_event metrics_default es"

definition tally :: "(event \<Rightarrow> bool) \<Rightarrow> event list \<Rightarrow> nat" where
  "tally P es = length (filter P es)"

lemma counted_snoc: "counted (es @ [ev]) = count_event (counted es) ev" "counted [] = metrics_default"
  by (simp_all add: counted_def)

lemma tally_snoc: "tally P (es @ [ev]) = tally P es + (if P ev then 1 else 0)" "tally P [] = 0" "tally P es \<le> length es"
  by (simp_all add: tally_def)

definition counts :: "('k \<times> nat) list \<Rightarrow> ('k \<Rightarrow> event \<Rightarrow> bool) \<Rightarrow> event list \<Rightarrow> bool" where
  "counts m P es \<longleftrightarrow> distinct (map fst m)
     \<and> (\<forall>k. map_of m k = (if tally (P k) es = 0 then None else Some (tally (P k) es)))"

lemma bump_tally: "length es < 2 ^ 63 \<Longrightarrow> bump (tally P es) = Suc (tally P es)"
  using tally_snoc(3) [of P es] by (simp add: bump_def wrapping_add_def)

lemma counts_other: "counts m P es \<Longrightarrow> (\<And>k. \<not> P k ev) \<Longrightarrow> counts m P (es @ [ev])"
  by (simp add: counts_def tally_snoc)

lemma counts_bump:
  assumes "counts m P es" "length es < 2 ^ 63" "\<And>k'. P k' ev \<longleftrightarrow> k' = k"
  shows "counts (bump_entry k m) P (es @ [ev])"
proof -
  have v: "(case map_of m k of Some n \<Rightarrow> n | None \<Rightarrow> 0) = tally (P k) es" using assms(1) by (simp add: counts_def)
  have "bump_entry k m = AList.update k (Suc (tally (P k) es)) m" by (simp only: bump_entry_def v bump_tally [OF assms(2)])
  then show ?thesis using assms(1) by (auto simp: counts_def update_conv' tally_snoc assms(3) distinct_update)
qed

lemma counts_step:
  assumes "counts m P es" "length es < 2 ^ 63" "(\<exists>k. m' = bump_entry k m \<and> (\<forall>k'. P k' ev \<longleftrightarrow> k' = k)) \<or> m' = m \<and> (\<forall>k. \<not> P k ev)"
  shows "counts m' P (es @ [ev])"
  using assms(3) by (elim disjE exE conjE) (use assms(1,2) in \<open>auto intro: counts_bump counts_other\<close>)

lemma count_event_maps:
  "mt_http_requests (count_event m ev) = (case ev of Responded s \<Rightarrow> bump_entry s (mt_http_requests m) | _ \<Rightarrow> mt_http_requests m)"
  "mt_ws_commands (count_event m ev) = (case ev of CommandRead c \<Rightarrow> bump_entry (message_name c) (mt_ws_commands m) | _ \<Rightarrow> mt_ws_commands m)"
  "mt_rate_limited (count_event m ev) = (case ev of RateLimited l \<Rightarrow> bump_entry (limiter_name l) (mt_rate_limited m) | _ \<Rightarrow> mt_rate_limited m)"
  by (cases ev; simp add: count_event_def metrics_command_def http_response_def metrics_rate_limit_def connection_opened_def
      connection_closed_def wave_loaded_def wave_evicted_def)+

text \<open>The state of the counters after the events \<open>es\<close>.\<close>

definition tallied :: "event list \<Rightarrow> metrics \<Rightarrow> bool" where
  "tallied es m \<longleftrightarrow>
     counts (mt_http_requests m) (\<lambda>s ev. ev = Responded s) es
     \<and> counts (mt_ws_commands m) (\<lambda>k ev. \<exists>c. ev = CommandRead c \<and> message_name c = k) es
     \<and> counts (mt_rate_limited m) (\<lambda>k ev. \<exists>l. ev = RateLimited l \<and> limiter_name l = k) es
     \<and> mt_ws_connections_opened m = tally (\<lambda>ev. ev = ConnectionOpened) es
     \<and> mt_ws_slow_client_disconnects m = tally (\<lambda>ev. ev = SlowClient) es
     \<and> mt_ws_command_panics m = tally (\<lambda>ev. ev = CommandPanicked) es
     \<and> mt_agent_reply_panics m = tally (\<lambda>ev. ev = ReplyPanicked) es
     \<and> mt_ws_frames_unparseable m = tally (\<lambda>ev. ev = FrameUnparseable) es
     \<and> mt_ops_applied m = tally (\<lambda>ev. ev = OpApplied) es
     \<and> mt_ops_refused m = tally (\<lambda>ev. ev = OpRefused) es
     \<and> mt_ops_persist_failures m = tally (\<lambda>ev. ev = PersistFailed) es
     \<and> mt_waves_loaded m = tally (\<lambda>ev. ev = WaveLoaded) es
     \<and> mt_waves_evicted_after_panic m = tally (\<lambda>ev. ev = PanicEviction) es
     \<and> mt_ws_connections_active m = int (tally (\<lambda>ev. ev = ConnectionOpened) es) - int (tally (\<lambda>ev. ev = ConnectionClosed) es)
     \<and> mt_waves_resident m = int (tally (\<lambda>ev. ev = WaveLoaded) es) - int (tally (\<lambda>ev. ev = WaveEvicted \<or> ev = PanicEviction) es)"

lemma counted_tallied: "length es < 2 ^ 63 \<Longrightarrow> tallied es (counted es)"
proof (induction es rule: rev_induct)
  case Nil
  show ?case by (simp add: tallied_def counts_def counted_snoc metrics_default_def tally_snoc)
next
  case (snoc ev es)
  then have len: "length es < 2 ^ 63" and t: "tallied es (counted es)" by simp_all
  have gauge: "wrap_i64 (int (tally P es) - int (tally Q es) + 1) = int (tally P es) - int (tally Q es) + 1"
    "wrap_i64 (int (tally P es) - int (tally Q es) - 1) = int (tally P es) - int (tally Q es) - 1" for P Q
    using tally_snoc(3) [of P es] tally_snoc(3) [of Q es] snoc.prems by (auto simp: wrap_i64_def)
  have c: "counts (mt_http_requests (counted es)) (\<lambda>s ev. ev = Responded s) es"
    "counts (mt_ws_commands (counted es)) (\<lambda>k ev. \<exists>c. ev = CommandRead c \<and> message_name c = k) es"
    "counts (mt_rate_limited (counted es)) (\<lambda>k ev. \<exists>l. ev = RateLimited l \<and> limiter_name l = k) es"
    using t by (simp_all add: tallied_def)
  have maps: "counts (mt_http_requests (counted (es @ [ev]))) (\<lambda>s ev. ev = Responded s) (es @ [ev])"
    "counts (mt_ws_commands (counted (es @ [ev]))) (\<lambda>k ev. \<exists>c. ev = CommandRead c \<and> message_name c = k) (es @ [ev])"
    "counts (mt_rate_limited (counted (es @ [ev]))) (\<lambda>k ev. \<exists>l. ev = RateLimited l \<and> limiter_name l = k) (es @ [ev])"
    unfolding counted_snoc
    by (rule counts_step [OF c(1) len] counts_step [OF c(2) len] counts_step [OF c(3) len], cases ev; auto simp: count_event_maps)+
  show ?case
    unfolding tallied_def using maps t [unfolded tallied_def]
    by (cases ev) (simp_all add: counted_snoc count_event_def metrics_command_def http_response_def metrics_rate_limit_def
        connection_opened_def connection_closed_def wave_loaded_def wave_evicted_def bump_tally [OF len] gauge tally_snoc)
qed

section \<open>Reading back what was counted\<close>

definition series :: "metrics \<Rightarrow> (ustring \<times> int) list" where
  "series m =
     map (\<lambda>(k, n). (labelled (lit ''gal_http_responses_total'') (lit ''status'') k, int n)) (map (\<lambda>(s, n). (show_digits s, n)) (mt_http_requests m))
     @ map (\<lambda>(k, n). (labelled (lit ''gal_ws_commands_total'') (lit ''command'') k, int n)) (mt_ws_commands m)
     @ map (\<lambda>(k, n). (labelled (lit ''gal_rate_limited_total'') (lit ''limiter'') k, int n)) (mt_rate_limited m)
     @ [(lit ''gal_ws_connections_opened_total'', int (mt_ws_connections_opened m))]
     @ [(lit ''gal_ws_slow_client_disconnects_total'', int (mt_ws_slow_client_disconnects m))]
     @ [(lit ''gal_ws_command_panics_total'', int (mt_ws_command_panics m))]
     @ [(lit ''gal_agent_reply_panics_total'', int (mt_agent_reply_panics m))]
     @ [(lit ''gal_ws_unparseable_frames_total'', int (mt_ws_frames_unparseable m))]
     @ [(lit ''gal_ops_applied_total'', int (mt_ops_applied m))]
     @ [(lit ''gal_ops_refused_total'', int (mt_ops_refused m))]
     @ [(lit ''gal_ops_persist_failures_total'', int (mt_ops_persist_failures m))]
     @ [(lit ''gal_waves_loaded_total'', int (mt_waves_loaded m))]
     @ [(lit ''gal_waves_evicted_after_panic_total'', int (mt_waves_evicted_after_panic m))]
     @ [(lit ''gal_ws_connections_active'', mt_ws_connections_active m)]
     @ [(lit ''gal_waves_resident'', mt_waves_resident m)]"

definition families :: "ustring list" where
  "families =
     [lit ''gal_http_responses_total'']
     @ [lit ''gal_ws_commands_total'']
     @ [lit ''gal_rate_limited_total'']
     @ [lit ''gal_ws_connections_opened_total'']
     @ [lit ''gal_ws_slow_client_disconnects_total'']
     @ [lit ''gal_ws_command_panics_total'']
     @ [lit ''gal_agent_reply_panics_total'']
     @ [lit ''gal_ws_unparseable_frames_total'']
     @ [lit ''gal_ops_applied_total'']
     @ [lit ''gal_ops_refused_total'']
     @ [lit ''gal_ops_persist_failures_total'']
     @ [lit ''gal_waves_loaded_total'']
     @ [lit ''gal_waves_evicted_after_panic_total'']
     @ [lit ''gal_ws_connections_active'']
     @ [lit ''gal_waves_resident'']"

lemma render_exposes:
  assumes "list_all (\<lambda>(k, n). line_ok k) (mt_ws_commands m)" "list_all (\<lambda>(k, n). line_ok k) (mt_rate_limited m)"
  shows "exposes (render m) families (series m)"
proof -
  have rows: "list_all (\<lambda>(k, n). line_ok k) (map (\<lambda>(s, n). (show_digits s, n)) (mt_http_requests m))"
    by (simp add: list_all_iff case_prod_beta')
  show ?thesis
    unfolding render_def families_def series_def
    by (intro exposes_append render_family_exposes render_single_exposes assms rows) (simp_all add: metric_name_def lit_def)
qed

lemma label_names: "line_ok (message_name c)" "line_ok (limiter_name l)"
  by (cases c; simp add: message_name_def lit_def) (cases l; simp add: limiter_name_def lit_def)

lemma counts_keys:
  assumes "counts m P es" "\<And>k ev. P k ev \<Longrightarrow> line_ok k"
  shows "list_all (\<lambda>(k, n). line_ok k) m"
  unfolding list_all_iff
proof clarify
  fix k n assume "(k, n) \<in> set m"
  then have "map_of m k = Some n" using assms(1) by (intro map_of_is_SomeI) (simp_all add: counts_def)
  with assms(1) have "tally (P k) es \<noteq> 0" by (auto simp: counts_def split: if_splits)
  then obtain ev where "P k ev" by (auto simp: tally_def filter_empty_conv)
  then show "line_ok k" by (rule assms(2))
qed

lemma labelled_inj: "labelled name label k = labelled name label k' \<longleftrightarrow> k = k'"
  by (simp add: labelled_def)

lemma show_digits_inj: "show_digits a = show_digits b \<longleftrightarrow> a = b"
  using parse_show_digits by (metis option.inject)

lemma labels_distinct:
  assumes "distinct (map fst rows)" "inj f"
  shows "distinct (map fst (map (\<lambda>(k, n). (labelled name label (f k), int n)) rows))"
proof -
  have "inj (\<lambda>k. labelled name label (f k))" using assms(2) by (simp add: inj_def labelled_inj)
  from distinct_map [THEN iffD2, OF conjI, OF assms(1) inj_on_subset [OF this]] show ?thesis by (simp add: comp_def case_prod_beta')
qed

lemma labels_start: "x \<in> set (map fst (map (\<lambda>(k, n). (labelled name label (f k), int n)) rows)) \<Longrightarrow>
   5 \<le> length name \<Longrightarrow> x ! 4 = name ! 4 \<and> 123 \<in> set x"
  by (auto simp: labelled_def nth_append lit_def)

lemma series_distinct:
  assumes "distinct (map fst (mt_http_requests m))" "distinct (map fst (mt_ws_commands m))" "distinct (map fst (mt_rate_limited m))"
  shows "distinct (map fst (series m))"
proof -
  let ?h = "map fst (map (\<lambda>(k, n). (labelled (lit ''gal_http_responses_total'') (lit ''status'') (show_digits k), int n)) (mt_http_requests m))"
  let ?w = "map fst (map (\<lambda>(k, n). (labelled (lit ''gal_ws_commands_total'') (lit ''command'') (id k), int n)) (mt_ws_commands m))"
  let ?r = "map fst (map (\<lambda>(k, n). (labelled (lit ''gal_rate_limited_total'') (lit ''limiter'') (id k), int n)) (mt_rate_limited m))"
  obtain rest where split: "map fst (series m) = ?h @ ?w @ ?r @ rest" "distinct rest" "\<And>x. x \<in> set rest \<Longrightarrow> 123 \<notin> set x"
  proof (rule that)
    let ?rest = "drop 3 families"
    show "map fst (series m) = ?h @ ?w @ ?r @ ?rest" by (simp add: series_def families_def case_prod_beta' comp_def)
    show "distinct ?rest" by (simp add: families_def lit_def)
    show "x \<in> set ?rest \<Longrightarrow> 123 \<notin> set x" for x by (auto simp: families_def lit_def)
  qed
  have "distinct ?h" "distinct ?w" "distinct ?r" using assms by (auto intro!: labels_distinct simp: inj_def show_digits_inj simp del: map_map)
  moreover have "x ! 4 = 104 \<and> 123 \<in> set x" if "x \<in> set ?h" for x using labels_start [OF that] by (simp add: lit_def)
  moreover have "x ! 4 = 119 \<and> 123 \<in> set x" if "x \<in> set ?w" for x using labels_start [OF that] by (simp add: lit_def)
  moreover have "x ! 4 = 114 \<and> 123 \<in> set x" if "x \<in> set ?r" for x using labels_start [OF that] by (simp add: lit_def)
  ultimately show ?thesis unfolding split(1) distinct_append
    using split(2,3) by (intro conjI; (assumption | fastforce simp del: map_map set_map))
qed

text \<open>
  (C31) What a scrape reads is what happened. After any sequence of fewer than \<open>2 ^ 63\<close> countable
  events, a reader of the exposition finds each series once, every family is declared once,
  and the values are the number of responses per status, of commands per name, of refusals per
  limiter and of the other events, with the two gauges at what has been opened and loaded less what
  has been closed and evicted.
\<close>

theorem metrics_readout:
  assumes "length es < 2 ^ 63"
  shows "scrape (render (counted es)) = series (counted es) \<and> declared (render (counted es)) = families
    \<and> distinct (map fst (series (counted es))) \<and> distinct families \<and> tallied es (counted es)"
proof -
  note t = counted_tallied [OF assms]
  have c: "counts (mt_http_requests (counted es)) (\<lambda>s ev. ev = Responded s) es"
    "counts (mt_ws_commands (counted es)) (\<lambda>k ev. \<exists>c. ev = CommandRead c \<and> message_name c = k) es"
    "counts (mt_rate_limited (counted es)) (\<lambda>k ev. \<exists>l. ev = RateLimited l \<and> limiter_name l = k) es"
    using t by (simp_all add: tallied_def)
  have "list_all (\<lambda>(k, n). line_ok k) (mt_ws_commands (counted es))" "list_all (\<lambda>(k, n). line_ok k) (mt_rate_limited (counted es))"
    by (rule counts_keys [OF c(2)], use label_names in blast) (rule counts_keys [OF c(3)], use label_names in blast)
  from exposesD [OF render_exposes [OF this]] t series_distinct [of "counted es"] c show ?thesis
    by (simp add: counts_def) (simp add: families_def lit_def)
qed

theorem metrics_readout_witness:
  "map_of (scrape (render (counted [ConnectionOpened, CommandRead Ping, CommandRead Ping, ConnectionOpened, ConnectionClosed, Responded 200])))
     (labelled (lit ''gal_ws_commands_total'') (lit ''command'') (lit ''ping'')) = Some 2"
proof -
  let ?es = "[ConnectionOpened, CommandRead Ping, CommandRead Ping, ConnectionOpened, ConnectionClosed, Responded 200]"
  have "scrape (render (counted ?es)) = series (counted ?es)" using metrics_readout [of ?es] by simp
  moreover have "map_of (series (counted ?es)) (labelled (lit ''gal_ws_commands_total'') (lit ''command'') (lit ''ping'')) = Some 2"
    by code_simp
  ultimately show ?thesis by simp
qed

section \<open>Shutdown\<close>

text \<open>
  The wait at shutdown ends: with a clock that advances by at least the 25 milliseconds of the
  sleep in every turn it takes at most one turn per 25 milliseconds of grace and one more, and
  it returns 0 unless the deadline has passed.
\<close>

lemma drain_loop_returns:
  assumes "\<And>j. k \<le> j \<Longrightarrow> clock j + 25 / 1000 \<le> clock (Suc j)" "deadline \<le> clock k + of_nat n * (25 / 1000)"
  shows "\<exists>j \<le> k + n. drain_loop gauge clock deadline k = Some (nat (max 0 (gauge j))) \<and> (gauge j \<le> 0 \<or> deadline \<le> clock j)"
  using assms
proof (induction n arbitrary: k)
  case 0
  then show ?case by (intro exI [of _ k]) (simp add: drain_loop.simps [of gauge clock deadline k])
next
  case (Suc n)
  show ?case
  proof (cases "nat (max 0 (gauge k)) = 0 \<or> deadline \<le> clock k")
    case True
    then show ?thesis by (intro exI [of _ k]) (auto simp: drain_loop.simps [of gauge clock deadline k])
  next
    case False
    have "of_nat (Suc n) * (25 / 1000) = 25 / 1000 + of_nat n * (25 / 1000 :: rat)" by (simp add: algebra_simps)
    then have "deadline \<le> clock (Suc k) + of_nat n * (25 / 1000)" using Suc.prems(1) [of k] Suc.prems(2) by linarith
    from Suc.IH [OF _ this] Suc.prems(1) obtain j where "j \<le> Suc k + n"
      "drain_loop gauge clock deadline (Suc k) = Some (nat (max 0 (gauge j)))" "gauge j \<le> 0 \<or> deadline \<le> clock j" by auto
    with False show ?thesis by (intro exI [of _ j]) (simp add: drain_loop.simps [of gauge clock deadline k])
  qed
qed

end
