(* ===== verification/Gal_Startup.thy ===== *)
theory Gal_Startup
  imports Gal_Connections Gal_Metrics Gal_Schema
begin

text \<open>
  The ends of the process, from \<open>crates/gal-server/src/main.rs\<close> and \<open>Storage::open\<close>: the configuration and the
  database decide whether the server comes up, the health check reads one status line, and a
  signal asks every connection to close and waits for them. Binding the port, logging and the
  signals themselves are outside.
\<close>

section \<open>Coming up\<close>

datatype start_error =
    BadConfig config_error
  | BadDatabase migrate_error
  | Unreadable

text \<open>
  The configuration is read before anything else, the database is brought up to date after it,
  and one read, of the number of accounts, has to succeed.
\<close>

definition start_server ::
  "(ustring \<Rightarrow> ip_addr option) \<Rightarrow> (ustring \<Rightarrow> ustring option) \<Rightarrow> nat \<Rightarrow> (int \<Rightarrow> bool) \<Rightarrow> bool \<Rightarrow> database \<Rightarrow>
   (start_error, config) result \<times> database" where
  "start_server parse_ip vars n commits reads d =
     (case config_from_env parse_ip vars of
        Err err \<Rightarrow> (Err (BadConfig err), d)
      | Ok cf \<Rightarrow>
          (case migrate n commits d of
             (Some err, d) \<Rightarrow> (Err (BadDatabase err), d)
           | (None, d) \<Rightarrow> if reads then (Ok cf, d) else (Err Unreadable, d)))"

text \<open>What \<open>--healthcheck\<close> makes of the response it has read: \<open>None\<close>, or the complaint.\<close>

definition healthcheck :: "ustring \<Rightarrow> ustring option" where
  "healthcheck response =
     (let status = (case lines response of [] \<Rightarrow> [] | l # _ \<Rightarrow> l)
      in if contains_str status (lit '' 200 '') then None else Some (lit ''health check failed: '' @ status))"

section \<open>Going down\<close>

definition SHUTDOWN_GRACE :: rat where
  "SHUTDOWN_GRACE = 10"

text \<open>Every connection is told, then the open ones are waited for.\<close>

definition wind_down :: "(nat \<Rightarrow> int) \<Rightarrow> (nat \<Rightarrow> rat) \<Rightarrow> rat \<Rightarrow> server \<Rightarrow> nat option \<times> server" where
  "wind_down gauge clock start sv = (drain_connections gauge clock start SHUTDOWN_GRACE, begin_shutdown sv)"

section \<open>What is shown\<close>

text \<open>
  A server that comes up has read its configuration and runs on the schema of its build; one
  that does not come up because of its configuration has not touched the database.
\<close>

lemma start_server_sound:
  assumes "start_server parse_ip vars n commits reads d = (r, d')"
  shows "(r = Ok cf \<longrightarrow> config_from_env parse_ip vars = Ok cf \<and> migrate n commits d = (None, d'))
    \<and> (r = Err (BadConfig err) \<longrightarrow> d' = d)"
  using assms by (auto simp: start_server_def split: sum.splits prod.splits option.splits if_splits)

text \<open>
  Shutdown completes. Once the process is told to stop, every connection stops at its next
  turn, whatever it has received, with nothing changed; and the process itself stops after at
  most 401 looks at the number of open connections, 25 milliseconds apart, at the first of them
  that finds none open or ten seconds past.
\<close>

lemma shutdown_completes:
  assumes "\<And>j. clock j + 25 / 1000 \<le> clock (Suc j)" "start \<le> clock 0" "wind_down gauge clock start sv = (r, sv')"
  shows "(\<exists>j \<le> 400. r = Some (nat (max 0 (gauge j))) \<and> (gauge j \<le> 0 \<or> start + 10 \<le> clock j))
    \<and> \<not> fst (read_step e t f crash sv' sk) \<and> aside sv' (snd (snd (read_step e t f crash sv' sk)))
    \<and> sv_store sv' = sv_store sv"
proof -
  have "start + 10 \<le> clock 0 + of_nat 400 * (25 / 1000)" using assms(2) by simp
  from drain_loop_returns [OF assms(1) this, of gauge] assms(3)
  have "\<exists>j \<le> 400. r = Some (nat (max 0 (gauge j))) \<and> (gauge j \<le> 0 \<or> start + 10 \<le> clock j)"
    by (auto simp: wind_down_def drain_connections_def SHUTDOWN_GRACE_def)
  moreover have "sv' = sv\<lparr>sv_shutdown := True\<rparr>" using assms(3) by (simp add: wind_down_def begin_shutdown_def)
  ultimately show ?thesis by (simp add: read_step_def aside_def)
qed

text \<open>Two connections, one of which closes after half a second.\<close>

lemma shutdown_completes_witness:
  "\<exists>n. fst (wind_down (\<lambda>j. if j < 20 then 2 else 1) (\<lambda>j. of_nat j * (25 / 1000)) 0 sample_deployment) = Some n
     \<and> \<not> fst (read_step web_env 1 (Some (TextFrame (Ok Ping))) None (begin_shutdown sample_deployment) phone_socket)"
proof -
  let ?c = "\<lambda>j. of_nat j * (25 / 1000) :: rat" and ?g = "\<lambda>j. (if j < 20 then 2 else 1) :: int"
  have c: "?c j + 25 / 1000 \<le> ?c (Suc j)" for j by (simp add: algebra_simps)
  have w: "wind_down ?g ?c 0 sample_deployment = (fst (wind_down ?g ?c 0 sample_deployment), begin_shutdown sample_deployment)"
    by (simp add: wind_down_def)
  have "0 \<le> ?c 0" by simp
  from shutdown_completes [OF c this w, of web_env 1 "Some (TextFrame (Ok Ping))" None phone_socket] show ?thesis by blast
qed

end
