(* ===== verification/Spec2Isabelle.thy ===== *)
theory Spec2Isabelle
  imports Gal_Refusal Gal_Position Gal_Replies Gal_Pages Gal_Rows Gal_Startup
begin

text \<open>
  A verification of the Gal server: waves of rich-text messages edited by many people at once.

  \<^bold>\<open>The program.\<close> The crate \<open>gal-ot\<close> is the operational-transformation engine: documents and
  changes are deltas, and \<open>ServerDoc\<close> is one authoritative document with a bounded history. The
  crate \<open>gal-core\<close> is the domain model and the wire protocol. The crate \<open>gal-server\<close> keeps the
  waves people are looking at in memory (\<open>state.rs\<close>), answers the commands of WebSocket clients
  (\<open>ws.rs\<close>) and stores everything in SQLite (\<open>db.rs\<close>). A submitted edit is rebased over the
  history, checked against the document, composed into it, committed to storage and only then
  acknowledged and broadcast to the participants.

  \<^bold>\<open>The model of \<open>gal-ot\<close>.\<close> \<open>Gal_Text\<close> is \<open>text.rs\<close>, \<open>Gal_Attributes\<close> is \<open>attributes.rs\<close>,
  \<open>Gal_Delta\<close> and \<open>Gal_Algebra\<close> are \<open>delta.rs\<close> and \<open>Gal_ServerDoc\<close> is \<open>lib.rs\<close>. Strings are lists of
  code points and offsets count UTF-16 units. \<open>Gal_Run\<close> specifies what a change does to a document
  as a plain machine over cells; \<open>Gal_Push\<close>, \<open>Gal_Iter\<close>, \<open>Gal_Compose\<close>, \<open>Gal_Transform\<close>,
  \<open>Gal_Validate\<close>, \<open>Gal_Invert\<close> and \<open>Gal_Position\<close> show that the algebra refines it: composition
  is doing one change after another, transformed changes converge, validation is exact,
  inversion restores, offsets follow. \<open>Gal_ServerDoc\<close> then shows that a valid edit based on
  any retained revision is accepted and lands where every client that rebases it lands, and
  that history, rollback and playback agree.

  \<^bold>\<open>The model of \<open>gal-core\<close>.\<close> \<open>Gal_Model\<close> is \<open>model.rs\<close> with the permission tables of the wave
  modes; \<open>Gal_Protocol\<close> is \<open>protocol.rs\<close>, the commands, server messages and views.

  \<^bold>\<open>The model of \<open>gal-server\<close>.\<close> \<open>Gal_Limit\<close> is \<open>limit.rs\<close>, \<open>Gal_Auth\<close> is \<open>auth.rs\<close>. \<open>Gal_Store\<close>
  and \<open>Gal_Inbox\<close> are the tables of \<open>schema.sql\<close> and the statements of \<open>db.rs\<close>: a table is a list
  of rows, a statement a function on the store, and a transaction that fails leaves the store
  as it was; \<open>Gal_Schema\<close> is \<open>schema.sql\<close> with the migrations of \<open>db.rs\<close>, and \<open>Gal_Rows\<close> its mappings between
  records and rows. \<open>Gal_Content\<close> holds the checks on submitted content of \<open>ws.rs\<close>. \<open>Gal_Live\<close> is the
  resident wave of \<open>state.rs\<close> and \<open>Gal_Server\<close> is \<open>AppState\<close>: storage, resident waves, bounded
  queues of the connections, connection counts and eviction. \<open>Gal_Handlers\<close> and \<open>Gal_Dispatch\<close> are
  the handlers of \<open>ws.rs\<close>, one definition per handler with every early return, composed by
  \<open>dispatch\<close> as the source composes them; \<open>Gal_Socket\<close> is the rest of \<open>ws.rs\<close>, the life of a connection
  from its upgrade to its end, one definition for a turn of its loop. What a handler reads of the world is the record
  \<open>env\<close>: the clock, fresh identifiers, whether a read or a write of the database succeeds, the
  length of a JSON value, lower-casing; theorems hold for every environment unless they say so.

  \<^bold>\<open>The model of the HTTP surface.\<close> \<open>Gal_Numbers\<close> holds the number parsers of the standard library
  and \<open>Gal_Config\<close> is \<open>config.rs\<close>, a function of the environment variables. \<open>Gal_Accounts\<close> are the
  statements of \<open>db.rs\<close> on accounts, identities, sessions and attachments, \<open>Gal_Http\<close> the endpoints
  of \<open>http.rs\<close>, \<open>Gal_Oidc\<close> is \<open>oidc.rs\<close> and \<open>Gal_Agent\<close> is \<open>agent.rs\<close> with its statements. A handler is
  a function from the server and the request to a response and the server; the record \<open>web\<close>
  holds the configuration and what the handlers use of Argon2, SHA-256, base64, the random
  source and the monotonic clock, and the record \<open>provider\<close> the answers of an identity provider.

  \<^bold>\<open>What is shown of the HTTP surface.\<close> \<open>Gal_Config\<close>: a configuration that is accepted sends no
  secret over plain http. \<open>Gal_Access\<close>: a sign-in is sound and gives nothing away, guessing is
  bounded per account, a password change locks everybody else out, uploads keep to the quota and
  downloads to the members of the wavelet. \<open>Gal_Oidc\<close>: a provider sign-in ends in a session only
  for the browser that started it. \<open>Gal_Pages\<close>: reading a wavelet page by page ends and is
  complete. \<open>Gal_Surface\<close>: no request but an agent's reply touches a wave, and the reply meets the
  contract of a locked body. \<open>Gal_Replies\<close>: a reply is always answered and stored exactly once.

  \<^bold>\<open>What is shown of the server.\<close> \<open>Gal_View\<close>: a view shows exactly the wavelets and messages its
  reader takes part in. \<open>Gal_Inbox\<close>: one summary equals its row of the inbox, search is confined to
  one's own waves and its snippets are escaped. \<open>Gal_Durable\<close>: the resident document, the stored
  snapshot and the op log agree after every edit, whatever fails; nothing is told to a client that
  is not stored; an edit resubmitted under its op id takes effect once. \<open>Gal_Membership\<close> is an
  abstract specification of membership, and \<open>Gal_Coherence\<close>, \<open>Gal_Roster\<close> and \<open>Gal_Reach\<close> show
  that every command is one of its steps, taken by the sender of the command, in storage and in
  memory alike: the part of a handler that runs under the lock of a wave is a body with a
  contract, the locale \<open>locked_body\<close>, interpreted for the body of each handler. \<open>Gal_Safety\<close> closes
  this over all reachable states: private replies stay within their conversation, and a
  removed user is out of the wave everywhere. \<open>Gal_Refusal\<close>: a command answered with an
  error has stored nothing, and a frozen wave takes no content. \<open>Gal_Socket\<close>: a connection stops
  at shutdown, revocation, expiry or silence before it runs another command. \<open>Gal_Connections\<close>: the
  table of connections stays consistent and under its cap, so ending a session ends its
  connections. \<open>Gal_Schema\<close>: every start that is not interrupted brings every database to the same
  schema and keeps its rows, or refuses and leaves it alone. \<open>Gal_Rows\<close>: records come back from
  their rows. \<open>Gal_Metrics\<close> is \<open>metrics.rs\<close>: a scrape reads what happened, and the wait at shutdown
  ends. \<open>Gal_Startup\<close> is \<open>main.rs\<close>: what it takes to come up, and that going down completes.

  \<^bold>\<open>Bounds.\<close> \<open>usize\<close> and \<open>u64\<close> are natural numbers below \<open>2 ^ 64\<close> with wrapping or saturating
  addition written out as in the source. The theorems on documents assume lengths below
  \<open>doc_limit\<close>, \<open>2 ^ 48\<close>, far above the server's limit of 262144 units for a message, so that no
  sum of two lengths wraps. Loops are total functions with a termination proof, but for the
  loop in which an agent's reply opens its wave, a partial function shown to return in every
  reachable state, the wait at shutdown, another one shown to return, and the client of
  \<open>Gal_Pages\<close>, whose fuel is shown to be enough.

  \<^bold>\<open>Not modelled.\<close> The handlers run one at a time and each to its end: the interleaving of tasks
  at their await points, routing, JSON encoding, tracing, the binding of the port and the signals are
  left out, as are the pool of database connections and the ranking of the full-text index. Argon2,
  SHA-256, base64, the random source, the parser of IP addresses and the identity provider are
  arguments of the definitions that use them.
\<close>

end
